(* ===== verification/Prelude.thy ===== *)
theory Prelude
  imports Complex_Main "HOL-Library.Multiset" "HOL-Library.AList" "HOL-Library.List_Lexorder"
    "HOL-Library.Char_ord"
begin

text \<open>
  Shared vocabulary of the development: the JavaScript built-ins the modelled files use
  (\<open>Math.round\<close> of a quotient, \<open>Array.prototype.sort\<close> with a comparator, \<open>trim\<close>,
  \<open>Number.isInteger\<close>), the greedy splitting of an amount over capacities, and the lemma
  collections the component theories extend.

  Conventions. Money is integer cents (\<open>int\<close>). A \<open>Date\<close> is its time value, an \<open>int\<close> of
  milliseconds since the epoch. A JavaScript number that may be fractional is a \<open>rat\<close>.
  A value that may be \<open>null\<close> or \<open>undefined\<close> is an \<open>option\<close>.
\<close>

named_theorems money_simps \<open>unfolding rules for sums of cents\<close>
named_theorems js_simps \<open>unfolding rules for the modelled built-ins\<close>

type_synonym cents = int
type_synonym date = int

abbreviation day_ms :: int where "day_ms \<equiv> 86400000"

section \<open>Rounding\<close>

text \<open>
  \<open>Math.round(x)\<close> is the floor of \<open>x + 1/2\<close>. The code applies it to quotients of integers; the
  quotient form below is what the models use, and \<open>math_round_quotient\<close> ties the two together.
\<close>

definition math_round :: "rat \<Rightarrow> int" where
  "math_round x = \<lfloor>x + 1 / 2\<rfloor>"

definition round_div :: "int \<Rightarrow> int \<Rightarrow> int" where
  "round_div a b = (2 * a + b) div (2 * b)"

lemma math_round_quotient:
  assumes "0 < b"
  shows "math_round (of_int a / of_int b) = round_div a b"
proof -
  have "of_int a / of_int b + 1 / 2 = (of_int (2 * a + b) / of_int (2 * b) :: rat)"
    using assms by (simp add: field_simps)
  then show ?thesis
    unfolding math_round_def round_div_def by (simp only: floor_divide_of_int_eq)
qed

lemma round_div_0 [simp]: "0 < b \<Longrightarrow> round_div 0 b = 0"
  by (simp add: round_div_def)

lemma round_div_mult [simp]: "0 < b \<Longrightarrow> round_div (k * b) b = k"
proof -
  assume b: "0 < b"
  have "2 * (k * b) + b = b + k * (2 * b)" by (simp add: algebra_simps)
  then show "round_div (k * b) b = k"
    using b by (simp only: round_div_def div_mult_self1) simp
qed

lemma round_div_nonneg: "0 \<le> a \<Longrightarrow> 0 < b \<Longrightarrow> 0 \<le> round_div a b"
  by (simp add: round_div_def pos_imp_zdiv_nonneg_iff)

lemma round_div_mono: "a \<le> a' \<Longrightarrow> 0 < b \<Longrightarrow> round_div a b \<le> round_div a' b"
  by (simp add: round_div_def zdiv_mono1)

text \<open>The rounded quotient is within half a unit of the quotient, and a half goes up.\<close>

lemma round_div_bounds:
  assumes "0 < b"
  shows "2 * b * round_div a b \<le> 2 * a + b" and "2 * a < 2 * b * round_div a b + b"
proof -
  have m: "2 * b * round_div a b + (2 * a + b) mod (2 * b) = 2 * a + b"
    unfolding round_div_def by simp
  have lo: "0 \<le> (2 * a + b) mod (2 * b)" and hi: "(2 * a + b) mod (2 * b) < 2 * b"
    using assms by simp_all
  show "2 * b * round_div a b \<le> 2 * a + b" using m lo by linarith
  show "2 * a < 2 * b * round_div a b + b" using m hi by linarith
qed

lemma round_div_le:
  assumes "0 < b" and "a \<le> k * b"
  shows "round_div a b \<le> k"
  using round_div_mono [OF assms(2,1)] assms(1) by simp

text \<open>
  Why integers stand for the doubles: a double computes the quotient with a relative error of at
  most \<open>2 ^ -53\<close> and without error where the quotient is a half-integer. For numerators below
  \<open>2 ^ 51\<close> the rounded double quotient is then exactly the rounded quotient.
\<close>

lemma round_div_of_double:
  fixes a b :: int and q :: rat
  assumes b: "0 < b" and a: "0 \<le> a" "a < 2 ^ 51"
    and err: "\<bar>q - of_int a / of_int b\<bar> \<le> (of_int a / of_int b) / 2 ^ 53"
    and exact: "\<And>k. of_int a / of_int b = of_int k + (1 / 2 :: rat) \<Longrightarrow> q = of_int a / of_int b"
  shows "math_round q = round_div a b"
proof -
  define x :: rat where "x = of_int a / of_int b"
  define k where "k = round_div a b"
  have bpos: "(0 :: rat) < of_int b" using b by simp
  have xb: "x * of_int b = of_int a" using b by (simp add: x_def)
  have lo: "of_int k \<le> x + 1 / 2" and hi: "x + 1 / 2 < of_int k + 1"
    unfolding x_def k_def math_round_quotient [OF b, symmetric] math_round_def
    by (simp, rule floor_correct [THEN conjunct2, simplified])
  have small: "x / 2 ^ 53 * of_int b < 1 / 2"
  proof -
    have "(of_int a :: rat) < of_int (2 ^ 51)" using a(2) by (simp only: of_int_less_iff)
    then show ?thesis using xb by simp
  qed
  have "of_int k \<le> q + 1 / 2"
  proof (cases "x + 1 / 2 = of_int k")
    case True
    then have "x = of_int (k - 1) + 1 / 2" by simp
    then have "q = x" using exact [of "k - 1"] by (simp only: x_def)
    with lo show ?thesis by simp
  next
    case False
    have ne: "(2 * k - 1) * b < 2 * a"
    proof -
      have "of_int k < x + 1 / 2" using lo False by simp
      then have "of_int k * of_int b < (x + 1 / 2) * of_int b"
        using bpos by (simp only: mult_strict_right_mono)
      then have "(of_int (2 * k * b) :: rat) < of_int (2 * a + b)"
        using xb by (simp add: algebra_simps)
      then have "2 * k * b < 2 * a + b" by (simp only: of_int_less_iff)
      then show ?thesis by (simp add: algebra_simps)
    qed
    then have "(of_int ((2 * k - 1) * b + 1) :: rat) \<le> of_int (2 * a)"
      by (simp only: of_int_le_iff)
    then have "(of_int k - 1 / 2) * of_int b + 1 / 2 \<le> x * of_int b"
      using xb by (simp add: algebra_simps)
    moreover have "(x - x / 2 ^ 53) * of_int b \<le> q * of_int b"
      using err bpos by (intro mult_right_mono) (auto simp: x_def abs_le_iff)
    ultimately have "(of_int k - 1 / 2) * of_int b \<le> q * of_int b"
      using small by (simp add: algebra_simps)
    then show ?thesis using bpos by simp
  qed
  moreover have "q + 1 / 2 < of_int k + 1"
  proof -
    have "x * of_int b < (of_int k + 1 / 2) * of_int b"
      using hi bpos by (intro mult_strict_right_mono) auto
    then have "(of_int (2 * a) :: rat) < of_int ((2 * k + 1) * b)"
      using xb by (simp add: algebra_simps)
    then have "2 * a < (2 * k + 1) * b" by (simp only: of_int_less_iff)
    then have "(of_int (2 * a + 1) :: rat) \<le> of_int ((2 * k + 1) * b)"
      by (simp only: of_int_le_iff)
    then have "x * of_int b + 1 / 2 \<le> (of_int k + 1 / 2) * of_int b"
      using xb by (simp add: algebra_simps)
    moreover have "q * of_int b \<le> (x + x / 2 ^ 53) * of_int b"
      using err bpos by (intro mult_right_mono) (auto simp: x_def abs_le_iff)
    ultimately have "q * of_int b < (of_int k + 1 / 2) * of_int b"
      using small by (simp add: algebra_simps)
    then show ?thesis using bpos by simp
  qed
  ultimately show ?thesis
    unfolding math_round_def k_def [symmetric] by (intro floor_unique) auto
qed

text \<open>
  The helper \<open>roundHalfUp\<close> that the billing and point-of-sale files declare: symmetric around zero.
\<close>

definition roundHalfUp :: "rat \<Rightarrow> int" where
  "roundHalfUp v = (if v < 0 then - math_round (- v) else math_round v)"

lemma roundHalfUp_quotient:
  "0 < b \<Longrightarrow> roundHalfUp (of_int a / of_int b) =
    (if a < 0 then - round_div (- a) b else round_div a b)"
  using math_round_quotient [of b "- a"]
  by (simp add: roundHalfUp_def math_round_quotient divide_less_0_iff)

lemma math_round_mono: "x \<le> y \<Longrightarrow> math_round x \<le> math_round y"
  by (simp add: math_round_def floor_mono)

lemma math_round_of_int [simp]: "math_round (of_int k) = k"
  unfolding math_round_def by linarith

text \<open>It is odd, and within half a cent of the value it rounds.\<close>

lemma roundHalfUp_uminus: "roundHalfUp (- v) = - roundHalfUp v"
  using math_round_of_int [of 0] by (cases "v = 0") (auto simp: roundHalfUp_def)

lemma math_round_near: "\<bar>of_int (math_round v) - v\<bar> \<le> 1 / 2"
proof -
  have "of_int (math_round v) \<le> v + 1 / 2" "v + 1 / 2 < of_int (math_round v) + 1"
    unfolding math_round_def using floor_correct [of "v + 1 / 2", unfolded of_int_add of_int_1]
    by blast+
  then show ?thesis unfolding abs_le_iff by linarith
qed

lemma roundHalfUp_near: "\<bar>of_int (roundHalfUp v) - v\<bar> \<le> 1 / 2"
  using math_round_near [of v] math_round_near [of "- v"]
  unfolding roundHalfUp_def abs_le_iff by auto

lemma roundHalfUp_of_int [simp]: "roundHalfUp (of_int k) = k"
  using math_round_of_int [of k] math_round_of_int [of "- k"] by (simp add: roundHalfUp_def)

lemma roundHalfUp_0 [simp]: "roundHalfUp 0 = 0"
  using roundHalfUp_of_int [of 0] by (simp del: roundHalfUp_of_int)

lemma roundHalfUp_nonneg: "0 \<le> v \<Longrightarrow> 0 \<le> roundHalfUp v"
  using math_round_mono [of 0 v] math_round_of_int [of 0] by (simp add: roundHalfUp_def)

lemma roundHalfUp_le: "0 \<le> v \<Longrightarrow> v \<le> of_int k \<Longrightarrow> roundHalfUp v \<le> k"
  using math_round_mono [of v "of_int k"] by (simp add: roundHalfUp_def)

section \<open>Sorting with a comparator\<close>

text \<open>
  \<open>xs.sort(cmp)\<close> is stable since ECMAScript 2019, and for a consistent comparator every stable
  sort gives the same list, so insertion sort stands for it. A comparator returns a number;
  only its sign counts.
\<close>

fun insert_by :: "('a \<Rightarrow> 'a \<Rightarrow> int) \<Rightarrow> 'a \<Rightarrow> 'a list \<Rightarrow> 'a list" where
  "insert_by cmp x [] = [x]"
| "insert_by cmp x (y # ys) = (if cmp x y \<le> 0 then x # y # ys else y # insert_by cmp x ys)"

fun sort_by :: "('a \<Rightarrow> 'a \<Rightarrow> int) \<Rightarrow> 'a list \<Rightarrow> 'a list" where
  "sort_by cmp [] = []"
| "sort_by cmp (x # xs) = insert_by cmp x (sort_by cmp xs)"

lemma mset_insert_by [simp]: "mset (insert_by cmp x ys) = add_mset x (mset ys)"
  by (induction ys) auto

lemma mset_sort_by [simp]: "mset (sort_by cmp xs) = mset xs"
  by (induction xs) auto

lemma set_insert_by [simp]: "set (insert_by cmp x ys) = insert x (set ys)"
  by (induction ys) auto

lemma set_sort_by [simp]: "set (sort_by cmp xs) = set xs"
  by (induction xs) auto

lemma length_insert_by [simp]: "length (insert_by cmp x ys) = Suc (length ys)"
  by (induction ys) auto

lemma length_sort_by [simp]: "length (sort_by cmp xs) = length xs"
  by (induction xs) auto

lemma sort_by_eq_Nil [simp]: "sort_by cmp xs = [] \<longleftrightarrow> xs = []"
  by (metis length_0_conv length_sort_by)

text \<open>A consistent comparator: the relation \<open>cmp x y \<le> 0\<close> is total and transitive.\<close>

locale comparator =
  fixes cmp :: "'a \<Rightarrow> 'a \<Rightarrow> int"
  assumes cmp_total: "0 < cmp x y \<Longrightarrow> cmp y x \<le> 0"
    and cmp_trans: "cmp x y \<le> 0 \<Longrightarrow> cmp y z \<le> 0 \<Longrightarrow> cmp x z \<le> 0"
begin

lemma sorted_insert_by:
  "sorted_wrt (\<lambda>x y. cmp x y \<le> 0) ys \<Longrightarrow> sorted_wrt (\<lambda>x y. cmp x y \<le> 0) (insert_by cmp x ys)"
proof (induction ys)
  case (Cons y ys)
  then show ?case
    using cmp_total [of x y] by (auto intro: cmp_trans)
qed simp

lemma sorted_sort_by: "sorted_wrt (\<lambda>x y. cmp x y \<le> 0) (sort_by cmp xs)"
  by (induction xs) (auto intro: sorted_insert_by)

lemma sort_by_sorted:
  "sorted_wrt (\<lambda>x y. cmp x y \<le> 0) xs \<Longrightarrow> sort_by cmp xs = xs"
proof (induction xs)
  case (Cons x xs)
  then show ?case by (cases xs) auto
qed simp

lemma sort_by_idem [simp]: "sort_by cmp (sort_by cmp xs) = sort_by cmp xs"
  by (rule sort_by_sorted [OF sorted_sort_by])

text \<open>Where distinct elements compare as different, the order of the input does not matter.\<close>

lemma sorted_unique:
  assumes "sorted_wrt (\<lambda>x y. cmp x y \<le> 0) xs" and "sorted_wrt (\<lambda>x y. cmp x y \<le> 0) ys"
    and "mset xs = mset ys"
    and "\<And>x y. x \<in> set xs \<Longrightarrow> y \<in> set xs \<Longrightarrow> cmp x y \<le> 0 \<Longrightarrow> cmp y x \<le> 0 \<Longrightarrow> x = y"
  shows "xs = ys"
  using assms
proof (induction xs arbitrary: ys)
  case (Cons x xs)
  then obtain y ys' where ys: "ys = y # ys'" by (cases ys) auto
  have "x \<in> set (y # ys')" and "y \<in> set (x # xs)"
    using Cons.prems(3) ys by (metis list.set_intros(1) set_mset_mset)+
  then have "x = y"
    using Cons.prems(1,2,4) ys by (metis list.set_intros(1) set_ConsD sorted_wrt.simps(2))
  moreover have "xs = ys'"
    using Cons.prems ys \<open>x = y\<close> by (intro Cons.IH) auto
  ultimately show ?case using ys by simp
qed simp

lemma sort_by_permutation:
  assumes "mset xs = mset ys"
    and "\<And>x y. x \<in> set xs \<Longrightarrow> y \<in> set xs \<Longrightarrow> cmp x y \<le> 0 \<Longrightarrow> cmp y x \<le> 0 \<Longrightarrow> x = y"
  shows "sort_by cmp xs = sort_by cmp ys"
  using assms by (intro sorted_unique) (auto intro: sorted_sort_by)

end

text \<open>The comparator \<open>(a, b) => key(a) - key(b)\<close>, the commonest one of the code.\<close>

definition by_key :: "('a \<Rightarrow> int) \<Rightarrow> 'a \<Rightarrow> 'a \<Rightarrow> int" where
  "by_key key a b = key a - key b"

interpretation by_key: comparator "by_key key" for key :: "'a \<Rightarrow> int"
  by unfold_locales (auto simp: by_key_def)

text \<open>
  Comparators that fall through to a second one on a tie. For them the sign of the result has to
  be antisymmetric, which the first locale does not ask for.
\<close>

locale sign_comparator = comparator +
  assumes cmp_sgn: "sgn (cmp y x) = - sgn (cmp x y)"
begin

lemma cmp_zero_sym: "cmp x y = 0 \<longleftrightarrow> cmp y x = 0"
  using cmp_sgn [of x y] by (auto simp: sgn_if split: if_splits)

lemma cmp_less_trans: "cmp x y < 0 \<Longrightarrow> cmp y z \<le> 0 \<Longrightarrow> cmp x z < 0"
proof (rule ccontr)
  assume l: "cmp x y < 0" "cmp y z \<le> 0" and "\<not> cmp x z < 0"
  then have "cmp x z = 0" using cmp_trans [of x y z] by simp
  then have "cmp z x \<le> 0" using cmp_zero_sym [of x z] by simp
  then have "cmp y x \<le> 0" using cmp_trans l(2) by blast
  then show False using l(1) cmp_sgn [of x y] by (simp add: sgn_if split: if_splits)
qed

lemma cmp_zero_trans: "cmp x y = 0 \<Longrightarrow> cmp y z = 0 \<Longrightarrow> cmp x z = 0"
proof -
  assume z: "cmp x y = 0" "cmp y z = 0"
  then have "cmp y x = 0" "cmp z y = 0" using cmp_zero_sym [of x y] cmp_zero_sym [of y z] by simp_all
  then have "cmp x z \<le> 0" "cmp z x \<le> 0"
    using z cmp_trans [of x y z] cmp_trans [of z y x] by simp_all
  then show "cmp x z = 0" using cmp_sgn [of x z] by (auto simp: sgn_if split: if_splits)
qed

lemma cmp_le_zero_trans: "cmp x y = 0 \<Longrightarrow> cmp y z < 0 \<Longrightarrow> cmp x z < 0"
proof (rule ccontr)
  assume l: "cmp x y = 0" "cmp y z < 0" and "\<not> cmp x z < 0"
  then have "cmp x z = 0" using cmp_trans [of x y z] by simp
  then have "cmp y z = 0" using cmp_zero_trans [of y x z] l(1) cmp_zero_sym [of x y] by simp
  then show False using l(2) by simp
qed

end

definition then_by :: "('a \<Rightarrow> 'a \<Rightarrow> int) \<Rightarrow> ('a \<Rightarrow> 'a \<Rightarrow> int) \<Rightarrow> 'a \<Rightarrow> 'a \<Rightarrow> int" where
  "then_by c1 c2 a b = (if c1 a b \<noteq> 0 then c1 a b else c2 a b)"

lemma then_by_comparator:
  assumes "sign_comparator c1" and "sign_comparator c2"
  shows "sign_comparator (then_by c1 c2)"
proof -
  note z1 = sign_comparator.cmp_zero_sym [OF assms(1)] and s1 = sign_comparator.cmp_sgn [OF assms(1)]
    and s2 = sign_comparator.cmp_sgn [OF assms(2)]
  have sgn: "sgn (then_by c1 c2 y x) = - sgn (then_by c1 c2 x y)" for x y
    using z1 [of x y] s1 [of y x] s2 [of y x] by (simp add: then_by_def)
  have total: "then_by c1 c2 y x \<le> 0" if "0 < then_by c1 c2 x y" for x y
    using sgn [of y x] that by (auto simp: sgn_if split: if_splits)
  have trans: "then_by c1 c2 x z \<le> 0" if "then_by c1 c2 x y \<le> 0" "then_by c1 c2 y z \<le> 0" for x y z
  proof -
    have "comparator c2" using assms(2) by (simp add: sign_comparator_def)
    then have t2: "c2 x y \<le> 0 \<Longrightarrow> c2 y z \<le> 0 \<Longrightarrow> c2 x z \<le> 0"
      by (rule comparator.cmp_trans)
    show ?thesis
      using that t2 sign_comparator.cmp_less_trans [OF assms(1), of x y z]
        sign_comparator.cmp_le_zero_trans [OF assms(1), of x y z]
        sign_comparator.cmp_zero_trans [OF assms(1), of x y z]
      by (simp add: then_by_def split: if_splits)
  qed
  show ?thesis
    by unfold_locales (use sgn total trans in blast)+
qed

lemma by_key_comparator: "sign_comparator (by_key key)"
  by unfold_locales (simp add: by_key_def sgn_if)

text \<open>
  \<open>localeCompare\<close> is used on identifiers only. Those are lower-case letters and digits, on which
  the collation order is the order of the characters.
\<close>

definition localeCompare :: "string \<Rightarrow> string \<Rightarrow> int" where
  "localeCompare s t = (if s = t then 0 else if s < t then - 1 else 1)"

lemma localeCompare_comparator: "sign_comparator (\<lambda>a b. localeCompare (key a) (key b))"
  by unfold_locales (auto simp: localeCompare_def split: if_splits)

lemma localeCompare_eq_0 [simp]: "localeCompare s t = 0 \<longleftrightarrow> s = t"
  by (simp add: localeCompare_def)

lemma then_by_le_antisym:
  assumes "sign_comparator c" and "c x y \<le> 0" and "c y x \<le> 0"
  shows "c x y = 0"
  using assms sign_comparator.cmp_sgn [OF assms(1), of x y] by (auto simp: sgn_if split: if_splits)

section \<open>Splitting an amount over capacities\<close>

text \<open>
  A payment over claims, a discount over what is left of a bill: each loop takes
  \<open>min(remaining, capacity)\<close> from the front. The contract names what such a loop does to one
  capacity; its consequences are proved once.
\<close>

locale greedy =
  fixes cap :: "'c \<Rightarrow> int" and amount :: "'l \<Rightarrow> int"
    and run :: "int \<Rightarrow> 'c list \<Rightarrow> 'l list \<times> int" and mk :: "'c \<Rightarrow> int \<Rightarrow> 'l"
  assumes run_Nil: "run r [] = ([], r)"
    and run_stop: "r \<le> 0 \<Longrightarrow> run r (c # cs) = ([], r)"
    and run_skip: "0 < r \<Longrightarrow> cap c \<le> 0 \<Longrightarrow> run r (c # cs) = run r cs"
    and run_Cons: "0 < r \<Longrightarrow> 0 < cap c \<Longrightarrow> run r (c # cs) =
      (let a = min r (cap c); (ls, r') = run (r - a) cs in (mk c a # ls, r'))"
    and amount_mk: "amount (mk c a) = a"
begin

lemma run_cases:
  obtains "r \<le> 0" "run r (c # cs) = ([], r)"
  | "0 < r" "cap c \<le> 0" "run r (c # cs) = run r cs"
  | "0 < r" "0 < cap c" "run r (c # cs) =
      (mk c (min r (cap c)) # fst (run (r - min r (cap c)) cs), snd (run (r - min r (cap c)) cs))"
  using run_stop run_skip run_Cons [of r c cs] by (fastforce simp: Let_def split_def not_le)

lemma run_conserves: "sum_list (map amount (fst (run r cs))) + snd (run r cs) = r"
proof (induction cs arbitrary: r)
  case (Cons c cs)
  show ?case
    by (rule run_cases [of r c cs])
      (use Cons.IH [of r] Cons.IH [of "r - min r (cap c)"] in \<open>simp_all add: amount_mk\<close>)
qed (simp add: run_Nil)

lemma run_rest_nonneg: "0 \<le> r \<Longrightarrow> 0 \<le> snd (run r cs)"
proof (induction cs arbitrary: r)
  case (Cons c cs)
  show ?case
    by (rule run_cases [of r c cs])
      (use Cons.prems Cons.IH [of r] Cons.IH [of "r - min r (cap c)"] in simp_all)
qed (simp add: run_Nil)

lemma run_amounts:
  "l \<in> set (fst (run r cs)) \<Longrightarrow>
    \<exists>c \<in> set cs. \<exists>a. l = mk c a \<and> 0 < a \<and> a \<le> cap c"
proof (induction cs arbitrary: r)
  case (Cons c cs)
  show ?case
  proof (rule run_cases [of r c cs])
    assume "0 < r" "0 < cap c" and e: "run r (c # cs) =
      (mk c (min r (cap c)) # fst (run (r - min r (cap c)) cs), snd (run (r - min r (cap c)) cs))"
    then have "0 < min r (cap c)" "min r (cap c) \<le> cap c" by simp_all
    with e Cons show ?thesis by (metis fst_conv list.set_intros set_ConsD)
  qed (use Cons in auto)
qed (simp add: run_Nil)

text \<open>
  What is handed out is the smaller of the amount and the sum of the capacities, and the lines
  follow the capacities: all but the last are filled.
\<close>

lemma run_rest_eq:
  "0 \<le> r \<Longrightarrow> snd (run r cs) = max 0 (r - sum_list (map (\<lambda>c. max 0 (cap c)) cs))"
proof (induction cs arbitrary: r)
  case (Cons c cs)
  have nn: "0 \<le> sum_list (map (\<lambda>c. max 0 (cap c)) cs)" by (intro sum_list_nonneg) auto
  show ?case
  proof (rule run_cases [of r c cs])
    assume "0 < r" "0 < cap c" and "run r (c # cs) =
      (mk c (min r (cap c)) # fst (run (r - min r (cap c)) cs), snd (run (r - min r (cap c)) cs))"
    then show ?thesis using nn Cons.IH [of "r - min r (cap c)"] by (auto simp: min_def max_def)
  qed (use Cons nn in \<open>auto simp: max_def\<close>)
qed (simp add: run_Nil)

lemma run_prefix_filled:
  "(\<And>c. c \<in> set cs \<Longrightarrow> 0 < cap c) \<Longrightarrow> i + 1 < length (fst (run r cs)) \<Longrightarrow>
    amount (fst (run r cs) ! i) = cap (cs ! i)"
proof (induction cs arbitrary: r i)
  case (Cons c cs)
  have r: "0 < r" using Cons.prems run_stop by (cases "0 < r") auto
  have c: "0 < cap c" using Cons.prems(1) by simp
  define ls where "ls = fst (run (r - min r (cap c)) cs)"
  have out: "fst (run r (c # cs)) = mk c (min r (cap c)) # ls"
    using r c by (simp add: run_Cons Let_def split_def ls_def)
  have "ls \<noteq> []" using Cons.prems out by auto
  then have "cap c < r"
    using run_Nil run_stop by (cases cs) (auto simp: ls_def min_def split: if_splits)
  then show ?case
    using Cons out ls_def by (cases i) (auto simp: amount_mk)
qed (simp add: run_Nil)

text \<open>The lines run along the capacities: line by line the one built from the capacity there.\<close>

lemma run_lines_nth:
  "(\<And>c. c \<in> set cs \<Longrightarrow> 0 < cap c) \<Longrightarrow> i < length (fst (run r cs)) \<Longrightarrow>
    i < length cs \<and> fst (run r cs) ! i = mk (cs ! i) (amount (fst (run r cs) ! i))"
proof (induction cs arbitrary: r i)
  case (Cons c cs)
  have r: "0 < r" using Cons.prems run_stop by (cases "0 < r") auto
  have c: "0 < cap c" using Cons.prems(1) by simp
  have out: "fst (run r (c # cs)) = mk c (min r (cap c)) # fst (run (r - min r (cap c)) cs)"
    using r c by (simp add: run_Cons Let_def split_def)
  then show ?case using Cons by (cases i) (auto simp: amount_mk)
qed (simp add: run_Nil)

end

section \<open>Numbers, strings, options\<close>

text \<open>\<open>Number.isInteger\<close> on the rationals a double can denote.\<close>

definition is_integer :: "rat \<Rightarrow> bool" where
  "is_integer x \<longleftrightarrow> of_int \<lfloor>x\<rfloor> = x"

lemma is_integer_of_int [simp]: "is_integer (of_int k)"
  by (simp add: is_integer_def)

lemma is_integerE: "is_integer x \<Longrightarrow> (\<And>k. x = of_int k \<Longrightarrow> P) \<Longrightarrow> P"
  by (metis is_integer_def)

text \<open>\<open>trim()\<close>: the white space of the first 256 code points.\<close>

definition js_space :: "char \<Rightarrow> bool" where
  "js_space c \<longleftrightarrow> (let n = (of_char c :: nat) in (9 \<le> n \<and> n \<le> 13) \<or> n = 32 \<or> n = 160)"

definition trim :: "string \<Rightarrow> string" where
  "trim s = rev (dropWhile js_space (rev (dropWhile js_space s)))"

text \<open>\<open>!value?.trim()\<close>: absent, empty or white space only.\<close>

definition blank :: "string option \<Rightarrow> bool" where
  "blank v = (case v of None \<Rightarrow> True | Some s \<Rightarrow> trim s = [])"

definition truthy :: "string option \<Rightarrow> bool" where
  "truthy s \<longleftrightarrow> s \<noteq> None \<and> s \<noteq> Some []"

definition or_else :: "'a option \<Rightarrow> 'a \<Rightarrow> 'a" where
  "or_else v d = (case v of None \<Rightarrow> d | Some x \<Rightarrow> x)"

lemma or_else_simps [simp]: "or_else None d = d" "or_else (Some x) d = x"
  by (simp_all add: or_else_def)

section \<open>Sums\<close>

abbreviation sum_by :: "('a \<Rightarrow> int) \<Rightarrow> 'a list \<Rightarrow> int" where
  "sum_by f xs \<equiv> sum_list (map f xs)"

lemma sum_by_sort_by [simp]: "sum_by f (sort_by cmp xs) = sum_by f xs"
  by (metis mset_map mset_sort_by sum_mset_sum_list)

lemma sum_by_nonneg: "(\<And>x. x \<in> set xs \<Longrightarrow> 0 \<le> f x) \<Longrightarrow> 0 \<le> sum_by f xs"
  by (rule sum_list_nonneg) auto

lemma sum_by_mono: "(\<And>x. x \<in> set xs \<Longrightarrow> f x \<le> g x) \<Longrightarrow> sum_by f xs \<le> sum_by g xs"
  by (induction xs) (auto intro: add_mono)

lemma sum_by_partition:
  "sum_by f xs = sum_by f (filter P xs) + sum_by f (filter (\<lambda>x. \<not> P x) xs)"
  by (induction xs) auto

lemma sum_by_add: "sum_by (\<lambda>x. f x + g x) xs = sum_by f xs + sum_by g xs"
  by (induction xs) auto

section \<open>Totals per key\<close>

text \<open>
  The idiom \<open>totals.set(k, (totals.get(k) ?? 0) + n)\<close> over a \<open>Map\<close>: an association list in order
  of first insertion.
\<close>

definition add_total :: "'k \<Rightarrow> int \<Rightarrow> ('k \<times> int) list \<Rightarrow> ('k \<times> int) list" where
  "add_total k n totals = AList.update k (or_else (map_of totals k) 0 + n) totals"

definition tally :: "('a \<Rightarrow> 'k) \<Rightarrow> ('a \<Rightarrow> int) \<Rightarrow> 'a list \<Rightarrow> ('k \<times> int) list" where
  "tally key val xs = foldl (\<lambda>totals x. add_total (key x) (val x) totals) [] xs"

lemma sum_by_snd_update:
  "distinct (map fst ps) \<Longrightarrow>
    sum_by snd (AList.update k v ps) = sum_by snd ps - or_else (map_of ps k) 0 + v"
  by (induction ps) (auto simp: or_else_def split: option.splits)

lemma tally_fold:
  assumes "distinct (map fst ps)"
    and "qs = foldl (\<lambda>totals x. add_total (key x) (val x) totals) ps xs"
  shows "distinct (map fst qs) \<and> sum_by snd qs = sum_by snd ps + sum_by val xs
    \<and> (\<forall>k. or_else (map_of qs k) 0 = or_else (map_of ps k) 0 + sum_by val (filter (\<lambda>x. key x = k) xs))
    \<and> fst ` set qs = fst ` set ps \<union> key ` set xs"
  using assms
proof (induction xs arbitrary: ps)
  case (Cons x xs)
  let ?ps = "add_total (key x) (val x) ps"
  have d: "distinct (map fst ?ps)" using Cons.prems(1) by (simp add: add_total_def distinct_update)
  have s: "sum_by snd ?ps = sum_by snd ps + val x"
    using Cons.prems(1) by (simp add: add_total_def sum_by_snd_update)
  have m: "map_of ?ps k = (if key x = k then Some (or_else (map_of ps k) 0 + val x) else map_of ps k)" for k
    by (auto simp: add_total_def update_conv)
  have f: "fst ` set ?ps = insert (key x) (fst ` set ps)"
    by (simp add: add_total_def dom_update)
  show ?case
    using Cons.IH [OF d] Cons.prems(2) s f by (auto simp: m)
qed simp

lemma tally_distinct [simp]: "distinct (map fst (tally key val xs))"
  and tally_sum [simp]: "sum_by snd (tally key val xs) = sum_by val xs"
  and tally_get: "or_else (map_of (tally key val xs) k) 0 = sum_by val (filter (\<lambda>x. key x = k) xs)"
  and tally_keys: "fst ` set (tally key val xs) = key ` set xs"
  using tally_fold [of "[]" "tally key val xs" key val xs] by (auto simp: tally_def)

lemma tally_entry:
  "(k, n) \<in> set (tally key val xs) \<Longrightarrow> n = sum_by val (filter (\<lambda>x. key x = k) xs)"
  using tally_get [where key = key and val = val and xs = xs and k = k]
    by (simp add: map_of_is_SomeI)

end
