(* ===== verification/Calendar.thy ===== *)
theory Calendar
  imports Prelude
begin

text \<open>
  The UTC calendar behind \<open>Date.UTC\<close>, \<open>getUTCFullYear\<close>, \<open>getUTCMonth\<close> and \<open>getUTCDate\<close>, from the
  ECMAScript definitions (\<open>DayFromYear\<close>, \<open>MonthFromTime\<close>, \<open>MakeDay\<close>), with the round trips and the
  month arithmetic every date computation of the code rests on.

  A date is its time value in milliseconds. \<open>Date.UTC\<close> reads the years 0 to 99 as 1900 to 1999;
  the model leaves that quirk out and is about dates outside those years.
\<close>

section \<open>Days of years\<close>

text \<open>\<open>DayFromYear\<close>: the day number, from the epoch, of the first day of a year.\<close>

definition year_day :: "int \<Rightarrow> int" where
  "year_day y = 365 * (y - 1970) + (y - 1969) div 4 - (y - 1901) div 100 + (y - 1601) div 400"

definition leap :: "int \<Rightarrow> bool" where
  "leap y \<longleftrightarrow> (y mod 4 = 0 \<and> y mod 100 \<noteq> 0) \<or> y mod 400 = 0"

lemma div_bounds:
  assumes "0 < n"
  shows "n * (x div n) \<le> x" and "x < n * (x div n) + (n :: int)"
  using assms mult_div_mod_eq [of n x] pos_mod_sign [of n x] pos_mod_bound [of n x] by linarith+

lemma div_unique_int:
  assumes "0 < n" and "n * q \<le> x" and "x < n * q + (n :: int)"
  shows "x div n = q"
proof -
  have "x = n * q + (x - n * q)" and "0 \<le> x - n * q" and "x - n * q < n"
    using assms by simp_all
  then show ?thesis by (metis int_div_pos_eq)
qed

lemma Suc_div_int:
  assumes "0 < n"
  shows "(x + 1) div n = x div n + (if (x + 1) mod n = 0 then 1 else (0 :: int))"
proof -
  define q r where "q = x div n" and "r = x mod n"
  have x: "x = n * q + r" and r: "0 \<le> r" "r < n" using assms by (simp_all add: q_def r_def)
  show ?thesis
  proof (cases "r = n - 1")
    case True
    then have e: "x + 1 = n * (q + 1)" unfolding x distrib_left by simp
    have "(x + 1) div n = q + 1" and "(x + 1) mod n = 0"
      unfolding e using assms by simp_all
    then show ?thesis by (simp add: q_def)
  next
    case False
    have d: "(x + 1) div n = q"
      using assms r False by (intro div_unique_int) (auto simp: x)
    have "(x + 1) mod n = r + 1"
      using d x by (simp add: minus_mult_div_eq_mod [symmetric])
    then show ?thesis using d r by (simp add: q_def)
  qed
qed

lemma next_month:
  "(k + 1) div 12 = (if k mod 12 = 11 then k div 12 + 1 else k div (12 :: int))"
  "(k + 1) mod 12 = (if k mod 12 = 11 then 0 else k mod 12 + (1 :: int))"
proof -
  obtain q r where qr: "k div 12 = q" "k mod 12 = r" by blast
  then have k: "k = 12 * q + r" and r: "0 \<le> r" "r < 12" by auto
  have d: "(k + 1) div 12 = (if r = 11 then q + 1 else q)"
    unfolding k using r by (intro div_unique_int) auto
  have "(k + 1) mod 12 = k + 1 - 12 * ((k + 1) div 12)" by (simp only: minus_mult_div_eq_mod)
  then have m: "(k + 1) mod 12 = (if r = 11 then 0 else r + 1)" unfolding d using k by auto
  show "(k + 1) div 12 = (if k mod 12 = 11 then k div 12 + 1 else k div 12)"
    and "(k + 1) mod 12 = (if k mod 12 = 11 then 0 else k mod 12 + 1)"
    unfolding qr by (rule d, rule m)
qed

lemma div_mod_lex:
  assumes "0 < n"
  shows "(i div n < e div n \<or> i div n = e div n \<and> i mod n \<le> e mod n) \<longleftrightarrow> i \<le> (e :: int)"
proof -
  have i: "n * (i div n) + i mod n = i" and e: "n * (e div n) + e mod n = e" by simp_all
  consider "i div n < e div n" | "i div n = e div n" | "e div n < i div n" by linarith
  then show ?thesis
  proof cases
    case 1
    then have "\<not> e \<le> i" using zdiv_mono1 [OF _ assms, of e i] by linarith
    then show ?thesis using 1 by simp
  next
    case 2
    then have "n * (e div n) + i mod n = i" using i by simp
    then have "i mod n \<le> e mod n \<longleftrightarrow> i \<le> e" using e by linarith
    then show ?thesis using 2 by simp
  next
    case 3
    then have "\<not> i \<le> e" using zdiv_mono1 [OF _ assms, of i e] by linarith
    then show ?thesis using 3 by simp
  qed
qed

lemma year_day_Suc: "year_day (y + 1) = year_day y + (if leap y then 366 else 365)"
proof -
  have q: "(y + 1 - 1969) div 4 = (y - 1969) div 4 + (if y mod 4 = 0 then 1 else 0)"
    using Suc_div_int [of 4 "y - 1969"] mod_mult_self1 [of y "-492" 4]
    by (simp add: algebra_simps)
  have c: "(y + 1 - 1901) div 100 = (y - 1901) div 100 + (if y mod 100 = 0 then 1 else 0)"
    using Suc_div_int [of 100 "y - 1901"] mod_mult_self1 [of y "-19" 100]
    by (simp add: algebra_simps)
  have f: "(y + 1 - 1601) div 400 = (y - 1601) div 400 + (if y mod 400 = 0 then 1 else 0)"
    using Suc_div_int [of 400 "y - 1601"] mod_mult_self1 [of y "-4" 400]
    by (simp add: algebra_simps)
  have "y mod 4 = 0" if "y mod 100 = 0"
    using that mod_mod_cancel [of 4 100 y] by simp
  moreover have "y mod 100 = 0" if "y mod 400 = 0"
    using that mod_mod_cancel [of 100 400 y] by simp
  ultimately show ?thesis unfolding year_day_def leap_def q c f by auto
qed

lemma year_day_less_Suc: "year_day y < year_day (y + 1)"
  by (simp add: year_day_Suc)

lemma year_day_mono: "y \<le> y' \<Longrightarrow> year_day y \<le> year_day y'"
proof (induction "nat (y' - y)" arbitrary: y')
  case (Suc n)
  then have "year_day y \<le> year_day (y' - 1)" by simp
  then show ?case using year_day_less_Suc [of "y' - 1"] by simp
qed simp

text \<open>\<open>YearFromTime\<close>: the last year whose first day is not after the day.\<close>

definition year_of_day :: "int \<Rightarrow> int" where
  "year_of_day d = (let y = 1970 + (400 * d) div 146097 in
     if d < year_day y then y - 1 else if year_day (y + 1) \<le> d then y + 1 else y)"

lemma year_day_estimate:
  assumes k: "146097 * k \<le> 400 * d" "400 * d < 146097 * k + 146097"
  shows "year_day (1969 + k) \<le> d" and "d < year_day (1972 + k)"
proof -
  define a b c a' b' c' where "a = k div 4" and "b = (68 + k) div 100"
    and "c = (368 + k) div 400" and "a' = (3 + k) div 4" and "b' = (71 + k) div 100"
    and "c' = (371 + k) div 400"
  then have e: "year_day (1969 + k) = 365 * k - 365 + a - b + c"
    and e2: "year_day (1972 + k) = 365 * k + 730 + a' - b' + c'"
    by (simp_all add: year_day_def algebra_simps)
  have b: "4 * a \<le> k" "68 + k < 100 * b + 100" "400 * c \<le> 368 + k"
    "3 + k < 4 * a' + 4" "100 * b' \<le> 71 + k" "371 + k < 400 * c' + 400"
    unfolding a_def b_def c_def a'_def b'_def c'_def by (rule div_bounds, simp)+
  show "year_day (1969 + k) \<le> d" using k(1) e b(1,2,3) by linarith
  show "d < year_day (1972 + k)" using k(2) e2 b(4,5,6) by linarith
qed

lemma year_of_day: "year_day (year_of_day d) \<le> d" "d < year_day (year_of_day d + 1)"
  using year_day_estimate [of "(400 * d) div 146097" d] div_bounds [of 146097 "400 * d"]
  by (auto simp: year_of_day_def Let_def algebra_simps)

lemma year_of_day_unique: "year_day y \<le> d \<Longrightarrow> d < year_day (y + 1) \<Longrightarrow> year_of_day d = y"
  using year_of_day [of d] year_day_mono [of "y + 1" "year_of_day d"]
    year_day_mono [of "year_of_day d + 1" y]
  by (cases "year_of_day d" y rule: linorder_cases) auto

section \<open>Months\<close>

text \<open>
  The day of the year on which a month starts, months counted from 0 as JavaScript does; 12 is
  the end of the year.
\<close>

definition month_offset :: "bool \<Rightarrow> int \<Rightarrow> int" where
  "month_offset lp m = (let l = (if lp then 1 else 0) in
     if m \<le> 0 then 0 else if m = 1 then 31 else if m = 2 then 59 + l else if m = 3 then 90 + l
     else if m = 4 then 120 + l else if m = 5 then 151 + l else if m = 6 then 181 + l
     else if m = 7 then 212 + l else if m = 8 then 243 + l else if m = 9 then 273 + l
     else if m = 10 then 304 + l else if m = 11 then 334 + l else 365 + l)"

definition month_of_offset :: "bool \<Rightarrow> int \<Rightarrow> int" where
  "month_of_offset lp n = (let l = (if lp then 1 else 0) in
     if n < 31 then 0 else if n < 59 + l then 1 else if n < 90 + l then 2
     else if n < 120 + l then 3 else if n < 151 + l then 4 else if n < 181 + l then 5
     else if n < 212 + l then 6 else if n < 243 + l then 7 else if n < 273 + l then 8
     else if n < 304 + l then 9 else if n < 334 + l then 10 else 11)"

lemma month_of_offset_range: "0 \<le> month_of_offset lp n" "month_of_offset lp n \<le> 11"
  by (auto simp: month_of_offset_def Let_def)

lemma month_of_offset:
  assumes "0 \<le> n" and "n < (if lp then 366 else 365)"
  shows "month_offset lp (month_of_offset lp n) \<le> n"
    and "n < month_offset lp (month_of_offset lp n + 1)"
  using assms by (cases lp; auto simp: month_of_offset_def month_offset_def Let_def)+

lemma month_offset_cases:
  assumes "0 \<le> m" and "m \<le> (11::int)"
  shows "m \<in> {0, 1, 2, 3, 4, 5, 6, 7, 8, 9, 10, 11}"
  using assms by (simp; presburger)

lemma month_offset_Suc:
  assumes "0 \<le> m" and "m \<le> 11"
  shows "month_offset lp m + 28 \<le> month_offset lp (m + 1)"
    and "month_offset lp (m + 1) \<le> month_offset lp m + 31"
  using month_offset_cases [OF assms] by (cases lp; auto simp: month_offset_def Let_def)+

lemma month_of_offset_unique:
  assumes "0 \<le> m" and "m \<le> 11" and "month_offset lp m \<le> n" and "n < month_offset lp (m + 1)"
  shows "month_of_offset lp n = m"
  using month_offset_cases [OF assms(1,2)] assms(3,4)
  by (cases lp; auto simp: month_of_offset_def month_offset_def Let_def)

text \<open>
  Months in a row, \<open>12 * year + month\<close>: \<open>MakeDay\<close> carries a month outside 0 to 11 into the year,
  so its arithmetic is arithmetic on this index.
\<close>

definition month_day :: "int \<Rightarrow> int" where
  "month_day i = year_day (i div 12) + month_offset (leap (i div 12)) (i mod 12)"

definition days_in_month :: "int \<Rightarrow> int" where
  "days_in_month i = month_day (i + 1) - month_day i"

lemma month_day_Suc:
  "month_day (i + 1) = year_day (i div 12) + month_offset (leap (i div 12)) (i mod 12 + 1)"
proof (cases "i mod 12 = 11")
  case True
  have i: "i = 12 * (i div 12) + 11" using True mult_div_mod_eq [of 12 i] by simp
  have "(i + 1) div 12 = i div 12 + 1" and "(i + 1) mod 12 = 0"
    by (subst i, simp)+
  then show ?thesis
    using True by (simp add: month_day_def year_day_Suc month_offset_def Let_def)
next
  case False
  have r: "0 \<le> i mod 12" "i mod 12 < 11" using False pos_mod_bound [of 12 i] by simp_all
  have "i + 1 = 12 * (i div 12) + (i mod 12 + 1)" by simp
  then have "(i + 1) div 12 = i div 12" and "(i + 1) mod 12 = i mod 12 + 1"
    using r div_unique_int [of 12 "i div 12" "i + 1"] by (simp_all add: minus_div_mult_eq_mod [symmetric])
  then show ?thesis by (simp add: month_day_def)
qed

lemma days_in_month: "28 \<le> days_in_month i" "days_in_month i \<le> 31"
proof -
  have "0 \<le> i mod 12" "i mod 12 \<le> 11" by presburger+
  from month_offset_Suc [OF this, of "leap (i div 12)"]
  show "28 \<le> days_in_month i" "days_in_month i \<le> 31"
    unfolding days_in_month_def month_day_Suc by (simp_all add: month_day_def)
qed

lemma month_day_less_Suc: "month_day i < month_day (i + 1)"
  using days_in_month(1) [of i] by (simp add: days_in_month_def)

lemma month_day_mono: "i \<le> j \<Longrightarrow> month_day i \<le> month_day j"
proof (induction "nat (j - i)" arbitrary: j)
  case (Suc n)
  then have "month_day i \<le> month_day (j - 1)" by simp
  then show ?case using month_day_less_Suc [of "j - 1"] by simp
qed simp

lemma month_day_strict_mono: "i < j \<Longrightarrow> month_day i < month_day j"
  using month_day_mono [of "i + 1" j] month_day_less_Suc [of i] by simp

definition month_index_of_day :: "int \<Rightarrow> int" where
  "month_index_of_day d = (let y = year_of_day d in
     12 * y + month_of_offset (leap y) (d - year_day y))"

lemma month_index_of_day:
  "month_day (month_index_of_day d) \<le> d" "d < month_day (month_index_of_day d + 1)"
proof -
  let ?y = "year_of_day d" and ?n = "d - year_day (year_of_day d)"
  let ?m = "month_of_offset (leap ?y) ?n"
  have r: "0 \<le> ?m" "?m \<le> 11" by (rule month_of_offset_range)+
  have i: "month_index_of_day d div 12 = ?y" "month_index_of_day d mod 12 = ?m"
    using r by (simp_all add: month_index_of_day_def Let_def)
  have "0 \<le> ?n" "?n < (if leap ?y then 366 else 365)"
    using year_of_day [of d] by (auto simp: year_day_Suc split: if_splits)
  from month_of_offset [OF this]
  show "month_day (month_index_of_day d) \<le> d" "d < month_day (month_index_of_day d + 1)"
    by (simp_all add: month_day_Suc i) (simp add: month_day_def i)
qed

lemma month_index_of_day_unique:
  "month_day i \<le> d \<Longrightarrow> d < month_day (i + 1) \<Longrightarrow> month_index_of_day d = i"
  using month_index_of_day [of d] month_day_mono [of "i + 1" "month_index_of_day d"]
    month_day_mono [of "month_index_of_day d + 1" i]
  by (cases "month_index_of_day d" i rule: linorder_cases) auto

section \<open>Date.UTC and its accessors\<close>

definition day_of :: "date \<Rightarrow> int" where
  "day_of t = t div day_ms"

definition utc :: "int \<Rightarrow> int \<Rightarrow> int \<Rightarrow> date" where
  "utc y m d = (month_day (12 * y + m) + d - 1) * day_ms"

definition utc_full_year :: "date \<Rightarrow> int" where
  "utc_full_year t = month_index_of_day (day_of t) div 12"

definition utc_month :: "date \<Rightarrow> int" where
  "utc_month t = month_index_of_day (day_of t) mod 12"

definition utc_date :: "date \<Rightarrow> int" where
  "utc_date t = day_of t - month_day (month_index_of_day (day_of t)) + 1"

definition month_index :: "date \<Rightarrow> int" where
  "month_index t = 12 * utc_full_year t + utc_month t"

text \<open>\<open>new Date(Date.UTC(d.getUTCFullYear(), d.getUTCMonth(), d.getUTCDate()))\<close>: the UTC midnight.\<close>

definition utc_day :: "date \<Rightarrow> date" where
  "utc_day t = utc (utc_full_year t) (utc_month t) (utc_date t)"

lemma month_index_eq: "month_index t = month_index_of_day (day_of t)"
  by (simp add: month_index_def utc_full_year_def utc_month_def)

lemma utc_date_range: "1 \<le> utc_date t" "utc_date t \<le> 31"
  using month_index_of_day [of "day_of t"] days_in_month(2) [of "month_index_of_day (day_of t)"]
  by (simp_all add: utc_date_def days_in_month_def)

lemma utc_date_le_days_in_month: "utc_date t \<le> days_in_month (month_index t)"
  using month_index_of_day [of "day_of t"]
  by (simp add: utc_date_def month_index_eq days_in_month_def)

lemma utc_month_range: "0 \<le> utc_month t" "utc_month t \<le> 11"
  unfolding utc_month_def by presburger+

lemma day_of_le: "day_of t * day_ms \<le> t" "t < day_of t * day_ms + day_ms"
  unfolding day_of_def by presburger+

lemma day_of_mult [simp]: "day_of (n * day_ms) = n"
  by (simp add: day_of_def)

lemma utc_day_eq: "utc_day t = day_of t * day_ms"
  by (simp add: utc_day_def utc_def utc_date_def month_index_eq [symmetric] month_index_def)

lemma utc_day_idem [simp]: "utc_day (utc_day t) = utc_day t"
  by (simp add: utc_day_eq)

lemma day_of_utc [simp]: "day_of (utc y m d) = month_day (12 * y + m) + d - 1"
  unfolding utc_def by (rule day_of_mult)

lemma utc_day_of_utc [simp]: "utc_day (utc y m d) = utc y m d"
  unfolding utc_day_eq by (subst day_of_utc) (simp only: utc_def)

lemma utc_fields:
  assumes "1 \<le> d" and "d \<le> days_in_month (12 * y + m)"
  shows "month_index (utc y m d) = 12 * y + m" and "utc_date (utc y m d) = d"
proof -
  have day: "day_of (utc y m d) = month_day (12 * y + m) + d - 1" by simp
  have i: "month_index_of_day (day_of (utc y m d)) = 12 * y + m"
    unfolding day using assms month_index_of_day_unique [of "12 * y + m"]
    by (simp add: days_in_month_def)
  show "month_index (utc y m d) = 12 * y + m" unfolding month_index_eq i ..
  show "utc_date (utc y m d) = d" unfolding utc_date_def i by (subst day) simp
qed

text \<open>Reading back what was written: the accessors invert \<open>Date.UTC\<close> on a calendar day.\<close>

lemma utc_roundtrip:
  assumes "0 \<le> m" and "m \<le> 11" and "1 \<le> d" and "d \<le> days_in_month (12 * y + m)"
  shows "utc_full_year (utc y m d) = y \<and> utc_month (utc y m d) = m \<and> utc_date (utc y m d) = d"
proof -
  have "month_index (utc y m d) div 12 = y" and "month_index (utc y m d) mod 12 = m"
    using assms by (simp_all add: utc_fields(1))
  moreover have "month_index t div 12 = utc_full_year t" "month_index t mod 12 = utc_month t" for t
    by (simp_all add: month_index_def utc_month_def)
  ultimately show ?thesis using assms by (simp add: utc_fields(2))
qed

lemma utc_add_months: "utc (utc_full_year t) (utc_month t + k) d = utc 0 (month_index t + k) d"
  by (simp add: utc_def month_index_def algebra_simps)

lemma utc_strict_mono_month: "i < j \<Longrightarrow> utc 0 i d < utc 0 j d"
  by (simp add: utc_def month_day_strict_mono)

end
