(* ===== verification/Periods.thy ===== *)
theory Periods
  imports Calendar
begin

text \<open>
  Billing periods (\<open>packages/core/billing/periods.ts\<close>): half-open ranges of days from one billing
  day to the next. The lemmas show that the periods of a lease tile the calendar and that the
  nightly enumeration of period starts ends, with exactly the periods of its window.
\<close>

datatype billing_policy = Anniversary | First_of_month

record billing_period =
  p_start :: date
  p_end :: date

definition utcDate :: "int \<Rightarrow> int \<Rightarrow> int \<Rightarrow> date" where
  "utcDate year month day = utc year month day"

definition billingDayFor :: "billing_policy \<Rightarrow> date \<Rightarrow> int" where
  "billingDayFor policy startDate =
    (if policy = First_of_month then 1 else min (utc_date startDate) 28)"

definition billingPeriodFor :: "billing_policy \<Rightarrow> int \<Rightarrow> date \<Rightarrow> billing_period" where
  "billingPeriodFor policy billingDay d = (
    let day = (if policy = First_of_month then 1 else min (max billingDay 1) 28);
        year = utc_full_year d;
        month = utc_month d;
        startMonth = (if day \<le> utc_date d then month else month - 1)
    in \<lparr>p_start = utcDate year startMonth day, p_end = utcDate year (startMonth + 1) day\<rparr>)"

definition nextBillingPeriod :: "billing_period \<Rightarrow> billing_period" where
  "nextBillingPeriod period = (let s = p_end period in
    \<lparr>p_start = s, p_end = utcDate (utc_full_year s) (utc_month s + 1) (utc_date s)\<rparr>)"

definition daysInPeriod :: "billing_period \<Rightarrow> int" where
  "daysInPeriod period = round_div (p_end period - p_start period) day_ms"

section \<open>The next period always moves forward\<close>

lemma utc_index: "utc y m d = utc 0 (12 * y + m) d"
  by (simp add: utc_def)

lemma utc_next_month_gt: "t < utc (utc_full_year t) (utc_month t + 1) (utc_date t)"
proof -
  have "day_of t + 28 \<le> day_of (utc (utc_full_year t) (utc_month t + 1) (utc_date t))"
    using days_in_month(1) [of "month_index t"]
    by (simp add: utc_date_def month_index_eq [symmetric] days_in_month_def)
      (simp add: month_index_def algebra_simps)
  then show ?thesis
    using day_of_le [of t] day_of_le [of "utc (utc_full_year t) (utc_month t + 1) (utc_date t)"]
    by simp
qed

lemma nextBillingPeriod_proper:
  "p_start (nextBillingPeriod p) < p_end (nextBillingPeriod p)"
  by (simp add: nextBillingPeriod_def Let_def utcDate_def utc_next_month_gt)

lemma p_start_next [simp]: "p_start (nextBillingPeriod p) = p_end p"
  by (simp add: nextBillingPeriod_def Let_def)

text \<open>
  \<open>periodStartsBetween\<close>. Its first loop walks to the first period that starts after a date: a
  period may start after its own end when the caller made it up, but its successor does not, so
  the distance to the date shrinks from the second round on.
\<close>

function walk_past :: "date \<Rightarrow> billing_period \<Rightarrow> billing_period" where
  "walk_past after period =
    (if p_start period \<le> after then walk_past after (nextBillingPeriod period) else period)"
  by auto
termination
proof (relation "measures [\<lambda>(after, p). if p_start p < p_end p then 0 else 1,
    \<lambda>(after, p). nat (after + 1 - p_start p)]", goal_cases)
  case (2 after p)
  then show ?case
    using nextBillingPeriod_proper [of p]
    by (cases "p_start p < p_end p") auto
qed simp

function collect_through :: "date \<Rightarrow> int \<Rightarrow> billing_period \<Rightarrow> int \<Rightarrow> billing_period list" where
  "collect_through through maxPeriods period pushed =
    (if p_start period \<le> through \<and> pushed < maxPeriods
     then period # collect_through through maxPeriods (nextBillingPeriod period) (pushed + 1)
     else [])"
  by auto
termination
  by (relation "measure (\<lambda>(_, maxPeriods, _, pushed). nat (maxPeriods - pushed))") auto

definition periodStartsBetween ::
  "billing_policy \<Rightarrow> int \<Rightarrow> date \<Rightarrow> date \<Rightarrow> int \<Rightarrow> billing_period list" where
  "periodStartsBetween policy billingDay after through maxPeriods =
    (if through \<le> after then []
     else collect_through through maxPeriods
       (walk_past after (billingPeriodFor policy billingDay after)) 0)"

declare walk_past.simps [simp del] collect_through.simps [simp del]

section \<open>The periods of a lease\<close>

text \<open>The billing day a policy uses, and the period that starts on it in a given month.\<close>

definition effective_day :: "billing_policy \<Rightarrow> int \<Rightarrow> int" where
  "effective_day policy billingDay =
    (if policy = First_of_month then 1 else min (max billingDay 1) 28)"

definition period_at :: "int \<Rightarrow> int \<Rightarrow> billing_period" where
  "period_at day i = \<lparr>p_start = utc 0 i day, p_end = utc 0 (i + 1) day\<rparr>"

lemma period_at_sel [simp]:
  "p_start (period_at day i) = utc 0 i day" "p_end (period_at day i) = utc 0 (i + 1) day"
  by (simp_all add: period_at_def)

lemma effective_day_range: "1 \<le> effective_day policy bd" "effective_day policy bd \<le> 28"
  by (auto simp: effective_day_def)

lemma utc_fields28:
  assumes "1 \<le> d" and "d \<le> 28"
  shows "month_index (utc 0 i d) = i" and "utc_date (utc 0 i d) = d"
  using utc_fields [of d 0 i] assms days_in_month(1) [of i] by simp_all

lemma next_period_at:
  assumes "1 \<le> day" and "day \<le> 28"
  shows "nextBillingPeriod (period_at day i) = period_at day (i + 1)"
proof -
  have "utcDate (utc_full_year s) (utc_month s + 1) d = utc 0 (month_index s + 1) d" for s d
    by (simp only: utcDate_def utc_add_months)
  then show ?thesis
    by (simp add: nextBillingPeriod_def Let_def period_at_def utc_fields28 assms)
qed

lemma billingPeriodFor_at:
  "billingPeriodFor policy bd t = period_at (effective_day policy bd)
    (if effective_day policy bd \<le> utc_date t then month_index t else month_index t - 1)"
  by (simp add: billingPeriodFor_def Let_def effective_day_def [symmetric] period_at_def utcDate_def
      utc_index [of "utc_full_year t"] month_index_def add.assoc add_diff_eq)

lemma billing_day_le: "effective_day policy bd \<le> utc_date t \<Longrightarrow>
    utc 0 (month_index t) (effective_day policy bd) \<le> t"
proof -
  assume "effective_day policy bd \<le> utc_date t"
  then have "day_of (utc 0 (month_index t) (effective_day policy bd)) \<le> day_of t"
    by (simp add: utc_date_def month_index_eq [symmetric])
  then show ?thesis
    using day_of_le [of t] utc_day_eq [of "utc 0 (month_index t) (effective_day policy bd)"] by simp
qed

lemma billing_day_gt: "utc_date t < day \<Longrightarrow> t < utc 0 (month_index t) day"
proof -
  assume "utc_date t < day"
  then have "day_of t + 1 \<le> day_of (utc 0 (month_index t) day)"
    by (simp add: utc_date_def month_index_eq [symmetric])
  then show ?thesis
    using day_of_le [of t] utc_day_eq [of "utc 0 (month_index t) day"] by simp
qed

lemma before_next_month: "1 \<le> day \<Longrightarrow> t < utc 0 (month_index t + 1) day"
proof -
  assume "1 \<le> day"
  then have "day_of t + 1 \<le> day_of (utc 0 (month_index t + 1) day)"
    using utc_date_le_days_in_month [of t]
    by (simp add: utc_date_def month_index_eq [symmetric] days_in_month_def)
  then show ?thesis
    using day_of_le [of t] utc_day_eq [of "utc 0 (month_index t + 1) day"] by simp
qed

lemma after_previous_month: "day \<le> 28 \<Longrightarrow> utc 0 (month_index t - 1) day \<le> t"
proof -
  assume "day \<le> 28"
  then have "day_of (utc 0 (month_index t - 1) day) \<le> day_of t"
    using utc_date_range(1) [of t] days_in_month(1) [of "month_index t - 1"]
    by (simp add: utc_date_def month_index_eq [symmetric] days_in_month_def)
  then show ?thesis
    using day_of_le [of t] utc_day_eq [of "utc 0 (month_index t - 1) day"] by simp
qed

lemma billingPeriodFor_contains:
  "p_start (billingPeriodFor policy bd t) \<le> t" "t < p_end (billingPeriodFor policy bd t)"
  using effective_day_range [of policy bd] billing_day_le [of policy bd t]
    billing_day_gt [of t "effective_day policy bd"]
    before_next_month [of "effective_day policy bd" t]
    after_previous_month [of "effective_day policy bd" t]
  by (auto simp: billingPeriodFor_at)

lemma period_at_unique:
  assumes "utc 0 i d \<le> t" "t < utc 0 (i + 1) d" "utc 0 j d \<le> t" "t < utc 0 (j + 1) d"
  shows "i = j"
proof (rule ccontr)
  assume "i \<noteq> j"
  then consider "i + 1 \<le> j" | "j + 1 \<le> i" by linarith
  then show False
  proof cases
    case 1
    then have "utc 0 (i + 1) d \<le> utc 0 j d"
      using utc_strict_mono_month [of "i + 1" j d] by (cases "i + 1 = j") auto
    then show False using assms by simp
  next
    case 2
    then have "utc 0 (j + 1) d \<le> utc 0 i d"
      using utc_strict_mono_month [of "j + 1" i d] by (cases "j + 1 = i") auto
    then show False using assms by simp
  qed
qed

lemma daysInPeriod_at: "daysInPeriod (period_at day i) = days_in_month i"
proof -
  have "utc 0 (i + 1) day - utc 0 i day = days_in_month i * day_ms"
    by (simp add: utc_def days_in_month_def algebra_simps)
  then show ?thesis by (simp add: daysInPeriod_def)
qed

section \<open>Enumerating period starts\<close>

lemma walk_past_at:
  assumes "1 \<le> day" and "day \<le> 28" and "i = k \<or> utc 0 (k - 1) day \<le> after" and "i \<le> k"
    and "after < utc 0 k day"
  shows "walk_past after (period_at day i) = period_at day k"
  using assms(3,4)
proof (induction "nat (k - i)" arbitrary: i)
  case 0
  then show ?case using assms(5) by (simp add: walk_past.simps [of after "period_at day i"])
next
  case (Suc n)
  then have "i \<le> k - 1" by simp
  then have "utc 0 i day \<le> utc 0 (k - 1) day"
    using utc_strict_mono_month [of i "k - 1" day] by (cases "i = k - 1") auto
  then have "utc 0 i day \<le> after" using Suc.prems Suc.hyps(2) by auto
  moreover have "walk_past after (period_at day (i + 1)) = period_at day k"
    using Suc by (intro Suc.hyps(1)) auto
  ultimately show ?case
    by (simp add: walk_past.simps [of after "period_at day i"] next_period_at assms(1,2))
qed

text \<open>The first period start after a date: the one of the month after the period it falls in.\<close>

definition first_after :: "billing_policy \<Rightarrow> int \<Rightarrow> date \<Rightarrow> int" where
  "first_after policy bd after =
    (if effective_day policy bd \<le> utc_date after then month_index after + 1 else month_index after)"

lemma walk_past_billingPeriodFor:
  "walk_past after (billingPeriodFor policy bd after) =
    period_at (effective_day policy bd) (first_after policy bd after)"
proof -
  have "billingPeriodFor policy bd after =
      period_at (effective_day policy bd) (first_after policy bd after - 1)"
    by (simp add: billingPeriodFor_at first_after_def)
  with billingPeriodFor_contains [where policy = policy and bd = bd and t = after] show ?thesis
    by (simp only:) (intro walk_past_at effective_day_range, auto)
qed

lemma first_after:
  "after < utc 0 (first_after policy bd after) (effective_day policy bd)"
  "utc 0 (first_after policy bd after - 1) (effective_day policy bd) \<le> after"
  using billingPeriodFor_contains [where policy = policy and bd = bd and t = after]
  by (auto simp: first_after_def billingPeriodFor_at split: if_splits)

text \<open>The enumeration in closed form: consecutive months from the first start in the window.\<close>

lemma collect_through_at:
  assumes "1 \<le> day" and "day \<le> 28"
  obtains len where
    "collect_through through mx (period_at day i) n = map (\<lambda>k. period_at day (i + int k)) [0..<len]"
    and "\<And>k. k < len \<Longrightarrow> utc 0 (i + int k) day \<le> through"
    and "int len \<le> max 0 (mx - n)"
    and "int len < mx - n \<Longrightarrow> through < utc 0 (i + int len) day"
proof (induction "nat (mx - n)" arbitrary: i n thesis)
  case 0
  then show ?case using "0.prems" [of 0] by (simp add: collect_through.simps)
next
  case (Suc m)
  show ?case
  proof (cases "utc 0 i day \<le> through")
    case False
    then show ?thesis using Suc.prems [of 0] Suc.hyps(2) by (simp add: collect_through.simps)
  next
    case True
    obtain len where ih:
      "collect_through through mx (period_at day (i + 1)) (n + 1) =
        map (\<lambda>k. period_at day (i + 1 + int k)) [0..<len]"
      "\<And>k. k < len \<Longrightarrow> utc 0 (i + 1 + int k) day \<le> through"
      "int len \<le> max 0 (mx - (n + 1))"
      "int len < mx - (n + 1) \<Longrightarrow> through < utc 0 (i + 1 + int len) day"
      by (rule Suc.hyps(1) [of "n + 1" "i + 1"]) (use Suc.hyps(2) in simp, blast)
    show ?thesis
    proof (rule Suc.prems [of "Suc len"])
      show "collect_through through mx (period_at day i) n =
          map (\<lambda>k. period_at day (i + int k)) [0..<Suc len]"
        using True ih(1) Suc.hyps(2)
        by (simp add: collect_through.simps [of through mx "period_at day i"] next_period_at assms
            upt_conv_Cons map_Suc_upt [symmetric] add.assoc del: upt_Suc)
      show "utc 0 (i + int k) day \<le> through" if "k < Suc len" for k
        using that True ih(2) [of "k - 1"] by (cases k) (auto simp: add.assoc)
      show "int (Suc len) \<le> max 0 (mx - n)" using ih(3) Suc.hyps(2) by auto
      show "int (Suc len) < mx - n \<Longrightarrow> through < utc 0 (i + int (Suc len)) day"
        using ih(4) by (simp add: add.assoc)
    qed
  qed
qed

text \<open>What the nightly generator relies on, in one place.\<close>

lemma periodStartsBetween_at:
  assumes "after < through"
  obtains len where
    "periodStartsBetween policy bd after through mx =
      map (\<lambda>k. period_at (effective_day policy bd) (first_after policy bd after + int k)) [0..<len]"
    and "\<And>k. k < len \<Longrightarrow>
      utc 0 (first_after policy bd after + int k) (effective_day policy bd) \<le> through"
    and "int len \<le> max 0 mx"
    and "int len < mx \<Longrightarrow>
      through < utc 0 (first_after policy bd after + int len) (effective_day policy bd)"
  by (rule collect_through_at [OF effective_day_range, of through mx policy bd
        "first_after policy bd after" 0])
    (use assms in \<open>auto simp: periodStartsBetween_def walk_past_billingPeriodFor intro: that\<close>)

lemma utc_mono_iff [simp]: "utc 0 i d < utc 0 j d \<longleftrightarrow> i < j" "utc 0 i d \<le> utc 0 j d \<longleftrightarrow> i \<le> j"
  using utc_strict_mono_month [of i j d] utc_strict_mono_month [of j i d]
  by (cases i j rule: linorder_cases; simp)+

section \<open>Properties\<close>

text \<open>
  C24. Every date lies in exactly one period of a lease: the period the code computes for it
  contains it, is 28 to 31 days long and starts on the policy's billing day, and is the period
  computed for every other date it contains. Periods therefore tile the calendar.
\<close>

theorem billing_periods_tile:
  shows "p_start (billingPeriodFor policy bd t) \<le> t \<and> t < p_end (billingPeriodFor policy bd t)
    \<and> 28 \<le> daysInPeriod (billingPeriodFor policy bd t)
    \<and> daysInPeriod (billingPeriodFor policy bd t) \<le> 31
    \<and> utc_date (p_start (billingPeriodFor policy bd t)) = effective_day policy bd
    \<and> (billingPeriodFor policy bd u = billingPeriodFor policy bd t
        \<longleftrightarrow> p_start (billingPeriodFor policy bd t) \<le> u \<and> u < p_end (billingPeriodFor policy bd t))
    \<and> nextBillingPeriod (billingPeriodFor policy bd t) =
        billingPeriodFor policy bd (p_end (billingPeriodFor policy bd t))"
proof -
  define day where "day = effective_day policy bd"
  have day: "1 \<le> day" "day \<le> 28" by (simp_all add: day_def effective_day_range)
  obtain i where i: "billingPeriodFor policy bd t = period_at day i"
    by (simp add: billingPeriodFor_at day_def)
  obtain j where j: "billingPeriodFor policy bd u = period_at day j"
    by (simp add: billingPeriodFor_at day_def)
  have "billingPeriodFor policy bd (utc 0 (i + 1) day) = period_at day (i + 1)"
    by (simp add: billingPeriodFor_at day_def [symmetric] utc_fields28 day)
  then show ?thesis
    using billingPeriodFor_contains [where policy = policy and bd = bd and t = t] billingPeriodFor_contains [where policy = policy and bd = bd and t = u]
      days_in_month [of i] period_at_unique [of i day u j]
    by (auto simp: i j day_def [symmetric] daysInPeriod_at utc_fields28 day next_period_at)
      (auto simp: period_at_def)
qed



end
