(* ===== verification/Proration.thy ===== *)
theory Proration
  imports Periods
begin

text \<open>
  The proration formula (\<open>packages/core/billing/proration.ts\<close>), used by invoices, transfers,
  protection changes and move-outs: clamping of a day range into a billing period, rounding at
  line level, and the refund side by subtraction. The contract its clients rely on is the locale
  \<open>proration\<close>, discharged at the end of the theory.
\<close>

record proration_input =
  pi_monthlyCents :: cents
  pi_period :: billing_period
  pi_from :: date
  pi_to :: date

record proration_result =
  pr_amountCents :: cents
  pr_days :: int
  pr_daysInPeriod :: int
  pr_from :: date
  pr_to :: date

definition prorate :: "proration_input \<Rightarrow> proration_result" where
  "prorate input = (
    let monthlyCents = pi_monthlyCents input;
        period = pi_period input;
        total = daysInPeriod period;
        from = min (max (pi_from input) (p_start period)) (p_end period);
        to = min (max (pi_to input) from) (p_end period);
        n = round_div (to - from) day_ms
    in if n = total
       then \<lparr>pr_amountCents = monthlyCents, pr_days = n, pr_daysInPeriod = total,
             pr_from = from, pr_to = to\<rparr>
       else \<lparr>pr_amountCents = roundHalfUp (of_int (monthlyCents * n) / of_int total), pr_days = n,
             pr_daysInPeriod = total, pr_from = from, pr_to = to\<rparr>)"

definition unusedRemainder :: "proration_input \<Rightarrow> proration_result" where
  "unusedRemainder input = (let used = prorate input in
    \<lparr>pr_amountCents = pi_monthlyCents input - pr_amountCents used,
     pr_days = pr_daysInPeriod used - pr_days used,
     pr_daysInPeriod = pr_daysInPeriod used,
     pr_from = pr_to used, pr_to = p_end (pi_period input)\<rparr>)"

section \<open>Lemmas\<close>

definition proper_period :: "billing_period \<Rightarrow> bool" where
  "proper_period p \<longleftrightarrow> 0 < daysInPeriod p"

lemma proper_period_order: "proper_period p \<Longrightarrow> p_start p \<le> p_end p"
proof (rule ccontr)
  assume "proper_period p" and "\<not> p_start p \<le> p_end p"
  then show False
    using round_div_mono [of "p_end p - p_start p" 0 day_ms]
    by (simp add: proper_period_def daysInPeriod_def)
qed

lemma billing_periods_proper [simp]: "proper_period (billingPeriodFor policy bd t)"
  using days_in_month(1) [of "month_index t"] days_in_month(1) [of "month_index t - 1"]
  by (auto simp: proper_period_def billingPeriodFor_at daysInPeriod_at)

definition range_from :: "proration_input \<Rightarrow> date" where
  "range_from i = min (max (pi_from i) (p_start (pi_period i))) (p_end (pi_period i))"

definition range_to :: "proration_input \<Rightarrow> date" where
  "range_to i = min (max (pi_to i) (range_from i)) (p_end (pi_period i))"

lemma prorate_sel [simp]:
  "pr_daysInPeriod (prorate i) = daysInPeriod (pi_period i)"
  "pr_from (prorate i) = range_from i"
  "pr_to (prorate i) = range_to i"
  "pr_days (prorate i) = round_div (range_to i - range_from i) day_ms"
  unfolding prorate_def Let_def range_from_def [symmetric] range_to_def [symmetric] by simp_all

lemma prorate_amount:
  "pr_amountCents (prorate i) = (if pr_days (prorate i) = daysInPeriod (pi_period i) then pi_monthlyCents i
    else roundHalfUp (of_int (pi_monthlyCents i * pr_days (prorate i)) / of_int (daysInPeriod (pi_period i))))"
  unfolding prorate_def Let_def range_from_def [symmetric] range_to_def [symmetric] by simp

lemma prorate_days:
  assumes "proper_period (pi_period i)"
  shows "0 \<le> pr_days (prorate i)" and "pr_days (prorate i) \<le> daysInPeriod (pi_period i)"
proof -
  have o: "p_start (pi_period i) \<le> p_end (pi_period i)" by (rule proper_period_order [OF assms])
  show "0 \<le> pr_days (prorate i)" using o by (auto simp: range_to_def range_from_def intro!: round_div_nonneg)
  show "pr_days (prorate i) \<le> daysInPeriod (pi_period i)"
    using o by (auto simp: daysInPeriod_def range_to_def range_from_def intro!: round_div_mono)
qed

lemma share_bounds:
  assumes "0 \<le> (m :: int)" and "0 \<le> n" and "n \<le> t" and "0 < t"
  shows "0 \<le> (of_int (m * n) / of_int t :: rat)" and "of_int (m * n) / of_int t \<le> (of_int m :: rat)"
proof -
  have mn: "0 \<le> m * n" "m * n \<le> m * t" using assms by (simp_all add: mult_left_mono)
  show "0 \<le> (of_int (m * n) / of_int t :: rat)"
    by (rule divide_nonneg_nonneg; unfold of_int_0_le_iff) (use mn(1) assms(4) in simp_all)
  have "(of_int (m * n) :: rat) \<le> of_int (m * t)" using mn(2) by (simp only: of_int_le_iff)
  then show "of_int (m * n) / of_int t \<le> (of_int m :: rat)"
    using assms(4) by (simp add: divide_le_eq)
qed

lemma prorate_bounds:
  assumes "0 \<le> pi_monthlyCents i" and "proper_period (pi_period i)"
  shows "0 \<le> pr_amountCents (prorate i)" and "pr_amountCents (prorate i) \<le> pi_monthlyCents i"
proof -
  have "0 < daysInPeriod (pi_period i)" using assms(2) by (simp add: proper_period_def)
  note sb = share_bounds [OF assms(1) prorate_days [OF assms(2)] this]
  show "0 \<le> pr_amountCents (prorate i)"
    using roundHalfUp_nonneg [OF sb(1)] assms(1) by (simp add: prorate_amount del: prorate_sel)
  show "pr_amountCents (prorate i) \<le> pi_monthlyCents i"
    using roundHalfUp_le [OF sb] by (simp add: prorate_amount del: prorate_sel)
qed

lemma prorate_full:
  assumes "pi_from i \<le> p_start (pi_period i)" and "p_end (pi_period i) \<le> pi_to i"
    and "proper_period (pi_period i)"
  shows "pr_amountCents (prorate i) = pi_monthlyCents i"
  using assms proper_period_order [OF assms(3)] by (simp add: prorate_amount daysInPeriod_def range_to_def range_from_def)

lemma prorate_near:
  assumes "proper_period (pi_period i)"
  shows "\<bar>of_int (pr_amountCents (prorate i)) -
      of_int (pi_monthlyCents i) * of_int (pr_days (prorate i)) / of_int (daysInPeriod (pi_period i))\<bar>
    \<le> (1 / 2 :: rat)"
proof (cases "pr_days (prorate i) = daysInPeriod (pi_period i)")
  case True
  then show ?thesis using assms by (simp add: prorate_amount proper_period_def del: prorate_sel)
next
  case False
  then show ?thesis
    using roundHalfUp_near [of "of_int (pi_monthlyCents i * pr_days (prorate i)) /
        of_int (daysInPeriod (pi_period i))"]
    by (simp add: prorate_amount del: prorate_sel)
qed

lemma three_near:
  fixes x y :: rat
  assumes "\<bar>of_int a - x\<bar> \<le> 1 / 2" and "\<bar>of_int b - y\<bar> \<le> 1 / 2"
    and "\<bar>of_int c - (x + y)\<bar> \<le> 1 / 2"
  shows "\<bar>a + b - c\<bar> \<le> 1"
proof -
  have "of_int (a + b - c) < (of_int 2 :: rat)" and "of_int (- 2) < (of_int (a + b - c) :: rat)"
    using assms unfolding abs_le_iff by simp_all
  then have "a + b - c < 2" and "- 2 < a + b - c" unfolding of_int_less_iff by blast+
  then show ?thesis by simp
qed

section \<open>The contract\<close>

text \<open>
  What a bill or a settlement may assume of a proration, whatever formula provides it: the charge
  of a range of days lies between nothing and the full amount, a range that covers the period
  costs the full amount, and used and unused part make up the whole.
\<close>

locale proration =
  fixes charge refund :: "cents \<Rightarrow> billing_period \<Rightarrow> date \<Rightarrow> date \<Rightarrow> cents"
  assumes charge_nonneg: "proper_period p \<Longrightarrow> 0 \<le> m \<Longrightarrow> 0 \<le> charge m p a b"
    and charge_le: "proper_period p \<Longrightarrow> 0 \<le> m \<Longrightarrow> charge m p a b \<le> m"
    and charge_full: "proper_period p \<Longrightarrow> a \<le> p_start p \<Longrightarrow> p_end p \<le> b \<Longrightarrow> charge m p a b = m"
    and charge_refund: "charge m p a b + refund m p a b = m"
begin

lemma refund_nonneg: "proper_period p \<Longrightarrow> 0 \<le> m \<Longrightarrow> 0 \<le> refund m p a b"
  using charge_le [of p m a b] charge_refund [of m p a b] by linarith

lemma refund_le: "proper_period p \<Longrightarrow> 0 \<le> m \<Longrightarrow> refund m p a b \<le> m"
  using charge_nonneg [of p m a b] charge_refund [of m p a b] by linarith

lemma refund_full: "proper_period p \<Longrightarrow> a \<le> p_start p \<Longrightarrow> p_end p \<le> b \<Longrightarrow> refund m p a b = 0"
  using charge_full [of p a b m] charge_refund [of m p a b] by linarith

text \<open>Two lines charged side by side, as an invoice does for rent and premium.\<close>

lemma two_charges:
  "proper_period p \<Longrightarrow> 0 \<le> m \<Longrightarrow> 0 \<le> n \<Longrightarrow>
    0 \<le> charge m p a b + charge n p c d \<and> charge m p a b + charge n p c d \<le> m + n"
  using charge_nonneg [of p m a b] charge_le [of p m a b] charge_nonneg [of p n c d]
    charge_le [of p n c d] by linarith

end

definition prorated :: "cents \<Rightarrow> billing_period \<Rightarrow> date \<Rightarrow> date \<Rightarrow> cents" where
  "prorated m p a b = pr_amountCents (prorate \<lparr>pi_monthlyCents = m, pi_period = p, pi_from = a, pi_to = b\<rparr>)"

definition refunded :: "cents \<Rightarrow> billing_period \<Rightarrow> date \<Rightarrow> date \<Rightarrow> cents" where
  "refunded m p a b =
    pr_amountCents (unusedRemainder \<lparr>pi_monthlyCents = m, pi_period = p, pi_from = a, pi_to = b\<rparr>)"

interpretation rent_share: proration prorated refunded
proof unfold_locales
  fix p m a b
  let ?i = "\<lparr>pi_monthlyCents = m, pi_period = p, pi_from = a, pi_to = b\<rparr>"
  show "proper_period p \<Longrightarrow> 0 \<le> m \<Longrightarrow> 0 \<le> prorated m p a b"
    and "proper_period p \<Longrightarrow> 0 \<le> m \<Longrightarrow> prorated m p a b \<le> m"
    using prorate_bounds [of ?i] by (simp_all add: prorated_def)
  show "proper_period p \<Longrightarrow> a \<le> p_start p \<Longrightarrow> p_end p \<le> b \<Longrightarrow> prorated m p a b = m"
    using prorate_full [of ?i] by (simp add: prorated_def)
  show "prorated m p a b + refunded m p a b = m"
    by (simp add: prorated_def refunded_def unusedRemainder_def Let_def)
qed

section \<open>Properties\<close>

text \<open>
  Proration is exact at line level: for a period of at least a day, the charge is within half a
  cent of the monthly amount times days over days of the period (so no error builds up per day),
  a charge of a non-negative amount lies between zero and the amount, and charging the complete
  period costs exactly the amount.
\<close>

theorem prorate_correct:
  assumes "proper_period (pi_period i)" and "0 \<le> pi_monthlyCents i"
  shows "\<bar>of_int (pr_amountCents (prorate i)) -
      of_int (pi_monthlyCents i) * of_int (pr_days (prorate i)) / of_int (daysInPeriod (pi_period i))\<bar>
      \<le> (1 / 2 :: rat)
    \<and> 0 \<le> pr_amountCents (prorate i) \<and> pr_amountCents (prorate i) \<le> pi_monthlyCents i
    \<and> 0 \<le> pr_days (prorate i) \<and> pr_days (prorate i) \<le> daysInPeriod (pi_period i)
    \<and> (pi_from i > p_start (pi_period i) \<or> pi_to i < p_end (pi_period i)
        \<or> pr_amountCents (prorate i) = pi_monthlyCents i)"
  using prorate_near [OF assms(1)] prorate_bounds [OF assms(2,1)] prorate_days [OF assms(1)]
    prorate_full [OF _ _ assms(1)]
  by (simp del: prorate_sel) linarith

theorem prorate_correct_witness:
  "0 \<le> pr_amountCents (prorate \<lparr>pi_monthlyCents = 12900,
      pi_period = billingPeriodFor Anniversary 1 (utc 2026 7 5),
      pi_from = utc 2026 7 1, pi_to = utc 2026 7 20\<rparr>)"
  using prorate_correct [of "\<lparr>pi_monthlyCents = 12900,
      pi_period = billingPeriodFor Anniversary 1 (utc 2026 7 5),
      pi_from = utc 2026 7 1, pi_to = utc 2026 7 20\<rparr>"] by simp

text \<open>
  The refund side reconciles to the penny and in days: what was charged for a range and what
  is left of the period make up the full amount and the full period, the refund of a non-negative
  amount is neither negative nor more than the amount, and the charges of two ranges that meet
  inside the period differ from the charge of the joined range by at most one cent.
\<close>

theorem proration_reconciles:
  assumes "proper_period p" and "0 \<le> m" and "p_start p \<le> a" and "a \<le> b" and "b \<le> c" and "c \<le> p_end p"
    and "(b - a) mod day_ms = 0" and "(c - b) mod day_ms = 0"
  shows "prorated m p a b + refunded m p a b = m
    \<and> 0 \<le> refunded m p a b \<and> refunded m p a b \<le> m
    \<and> \<bar>prorated m p a b + prorated m p b c - prorated m p a c\<bar> \<le> 1"
proof -
  let ?in = "\<lambda>a b. \<lparr>pi_monthlyCents = m, pi_period = p, pi_from = a, pi_to = b\<rparr>"
  let ?t = "of_int (daysInPeriod p) :: rat"
  obtain x y where xy: "b - a = x * day_ms" "c - b = y * day_ms"
    using assms(7,8) by (metis div_mult_mod_eq add.right_neutral)
  have d: "pr_days (prorate (?in a b)) = x" "pr_days (prorate (?in b c)) = y"
    "pr_days (prorate (?in a c)) = x + y"
  proof -
    have n: "round_div (v - u) day_ms = n" if "v - u = n * day_ms" for u v n :: int
      unfolding that by (rule round_div_mult) simp
    have "pr_days (prorate (?in u v)) = round_div (v - u) day_ms"
      if "p_start p \<le> u" "u \<le> v" "v \<le> p_end p" for u v
      using that by (simp add: range_to_def range_from_def)
    moreover have "c - a = (x + y) * day_ms" using xy by (simp add: algebra_simps)
    ultimately show "pr_days (prorate (?in a b)) = x" "pr_days (prorate (?in b c)) = y"
        "pr_days (prorate (?in a c)) = x + y"
      using assms(3-6) n [OF xy(1)] n [OF xy(2)] n [of c a "x + y"] by simp_all
  qed
  have near: "\<bar>of_int (prorated m p u v) - of_int m * of_int n / ?t\<bar> \<le> 1 / 2"
    if "pr_days (prorate (?in u v)) = n" for u v n
    using prorate_near [of "?in u v"] assms(1) that by (simp add: prorated_def del: prorate_sel)
  have "of_int m * of_int (x + y) / ?t = of_int m * of_int x / ?t + of_int m * of_int y / ?t"
    by (simp add: distrib_left add_divide_distrib)
  with near [OF d(3)]
  have "\<bar>of_int (prorated m p a c) - (of_int m * of_int x / ?t + of_int m * of_int y / ?t)\<bar> \<le> 1 / 2"
    by (simp only:)
  with near [OF d(1)] near [OF d(2)]
  have "\<bar>prorated m p a b + prorated m p b c - prorated m p a c\<bar> \<le> 1" by (rule three_near)
  then show ?thesis
    using rent_share.charge_refund rent_share.refund_nonneg [OF assms(1,2)]
      rent_share.refund_le [OF assms(1,2)] by simp
qed

theorem proration_reconciles_witness:
  "prorated 12900 (billingPeriodFor Anniversary 1 (utc 2026 7 5)) (utc 2026 7 1) (utc 2026 7 20)
   + refunded 12900 (billingPeriodFor Anniversary 1 (utc 2026 7 5)) (utc 2026 7 1) (utc 2026 7 20)
   = 12900"
proof -
  have "p_start (billingPeriodFor Anniversary 1 (utc 2026 7 5)) \<le> utc 2026 7 1"
    "utc 2026 7 25 \<le> p_end (billingPeriodFor Anniversary 1 (utc 2026 7 5))"
    "utc 2026 7 1 \<le> utc 2026 7 20" "utc 2026 7 20 \<le> utc 2026 7 25"
    "(utc 2026 7 20 - utc 2026 7 1) mod day_ms = 0" "(utc 2026 7 25 - utc 2026 7 20) mod day_ms = 0"
    by code_simp+
  then show ?thesis
    using proration_reconciles [OF billing_periods_proper [of Anniversary 1 "utc 2026 7 5"], of 12900
        "utc 2026 7 1" "utc 2026 7 20" "utc 2026 7 25"] by simp
qed

end
