(* ===== verification/Invoice.thy ===== *)
theory Invoice
  imports Proration
begin

text \<open>
  What a tenant is charged: the recurring invoice (\<open>packages/core/billing/invoice-lines.ts\<close>), the
  move-in estimate (\<open>packages/core/pricing/move-in-cost.ts\<close>) and the monthly figure of the portal
  (\<open>packages/core/pricing/recurring.ts\<close>). Line texts are constructors that carry the data the text
  interpolates; the amounts are the code's.
\<close>

section \<open>invoice-lines.ts\<close>

record tax_rate =
  jurisdiction :: string
  rateBasisPoints :: int

datatype charge_type = Rent_charge | Protection_charge | Fee_charge

record charge_line =
  ch_type :: charge_type
  ch_description :: string
  ch_monthlyCents :: cents
  ch_taxable :: bool

datatype line_type = Charged charge_type | Tax_line | Discount_line

datatype line_text =
  Plain_text string
| Prorated_text string date date int int
| Tax_text string int

record invoice_line =
  il_type :: line_type
  il_description :: line_text
  il_quantity :: int
  il_unitAmountCents :: cents
  il_amountCents :: cents

record discount_request =
  dr_amountCents :: rat
  dr_description :: string

record build_invoice_input =
  bi_period :: billing_period
  bi_charges :: "charge_line list"
  bi_taxRates :: "tax_rate list"
  bi_prorateFrom :: "date option"
  bi_prorateTo :: "date option"
  bi_discountCents :: "rat option"
  bi_discountDescription :: "string option"
  bi_extraDiscounts :: "discount_request list"

record built_invoice =
  inv_lines :: "invoice_line list"
  inv_subtotalCents :: cents
  inv_discountCents :: cents
  inv_taxCents :: cents
  inv_totalCents :: cents

definition taxOn :: "cents \<Rightarrow> int \<Rightarrow> cents" where
  "taxOn baseCents basisPoints = round_div (baseCents * basisPoints) 10000"

text \<open>One round of the loop over the charges: the lines, the taxable base and the subtotal.\<close>

definition charge_step ::
  "build_invoice_input \<Rightarrow> invoice_line list \<times> cents \<times> cents \<Rightarrow> charge_line \<Rightarrow> invoice_line list \<times> cents \<times> cents"
where
  "charge_step input st charge = (case st of (lines, taxableBase, subtotal) \<Rightarrow>
    let partial = (bi_prorateFrom input \<noteq> None \<or> bi_prorateTo input \<noteq> None);
        from = or_else (bi_prorateFrom input) (p_start (bi_period input));
        to = or_else (bi_prorateTo input) (p_end (bi_period input))
    in if ch_monthlyCents charge = 0 then st
    else let result = prorate \<lparr>pi_monthlyCents = ch_monthlyCents charge,
               pi_period = bi_period input, pi_from = from, pi_to = to\<rparr>
    in if pr_amountCents result = 0 \<and> pr_days result = 0 then st
    else let prorated = (partial \<and> pr_days result \<noteq> pr_daysInPeriod result);
             line = \<lparr>il_type = Charged (ch_type charge),
               il_description = (if prorated then Prorated_text (ch_description charge)
                   (pr_from result) (pr_to result) (pr_days result) (pr_daysInPeriod result)
                 else Plain_text (ch_description charge)),
               il_quantity = 1, il_unitAmountCents = pr_amountCents result,
               il_amountCents = pr_amountCents result\<rparr>
    in (lines @ [line], (if ch_taxable charge then taxableBase + pr_amountCents result else taxableBase),
        subtotal + pr_amountCents result))"

definition or_discount :: "string \<Rightarrow> string" where
  "or_discount s = (if trim s = [] then ''Discount'' else trim s)"

definition requested_discounts :: "build_invoice_input \<Rightarrow> (cents \<times> string) list" where
  "requested_discounts input =
    (if 0 < or_else (bi_discountCents input) 0
     then [(\<lfloor>or_else (bi_discountCents input) 0\<rfloor>,
            or_discount (or_else (bi_discountDescription input) []))]
     else [])
    @ map (\<lambda>extra. (\<lfloor>dr_amountCents extra\<rfloor>, or_discount (dr_description extra)))
        (filter (\<lambda>extra. 0 < dr_amountCents extra) (bi_extraDiscounts input))"

definition discount_line :: "cents \<times> string \<Rightarrow> cents \<Rightarrow> invoice_line" where
  "discount_line one applied = \<lparr>il_type = Discount_line, il_description = Plain_text (snd one),
    il_quantity = 1, il_unitAmountCents = applied, il_amountCents = applied\<rparr>"

text \<open>The discount loop; its argument is \<open>remaining = subtotal - discount\<close>, its results are the lines
  and what remains.\<close>

fun discount_loop :: "cents \<Rightarrow> (cents \<times> string) list \<Rightarrow> invoice_line list \<times> cents" where
  "discount_loop remaining [] = ([], remaining)"
| "discount_loop remaining (one # rest) =
    (if remaining \<le> 0 then ([], remaining)
     else let applied = min (max 0 (fst one)) remaining in
       if applied = 0 then discount_loop remaining rest
       else let (lines, left) = discount_loop (remaining - applied) rest in
         (discount_line one applied # lines, left))"

fun tax_lines :: "cents \<Rightarrow> tax_rate list \<Rightarrow> invoice_line list \<times> cents" where
  "tax_lines taxableBase [] = ([], 0)"
| "tax_lines taxableBase (rate # rates) =
    (let amount = taxOn taxableBase (rateBasisPoints rate);
         (lines, taxTotal) = tax_lines taxableBase rates
     in if amount = 0 then (lines, taxTotal)
     else (\<lparr>il_type = Tax_line, il_description = Tax_text (jurisdiction rate) (rateBasisPoints rate),
         il_quantity = 1, il_unitAmountCents = amount, il_amountCents = amount\<rparr> # lines,
       amount + taxTotal))"

definition buildInvoice :: "build_invoice_input \<Rightarrow> built_invoice" where
  "buildInvoice input = (
    let (chargeLines, taxableBase, subtotal) =
          foldl (charge_step input) ([], 0, 0) (bi_charges input);
        (discountLines, left) = discount_loop subtotal (requested_discounts input);
        discount = subtotal - left;
        taxableBase' = (if 0 < discount then max 0 (taxableBase - min discount taxableBase)
          else taxableBase);
        (taxLines, taxTotal) = tax_lines taxableBase' (bi_taxRates input)
    in \<lparr>inv_lines = chargeLines @ discountLines @ taxLines, inv_subtotalCents = subtotal,
        inv_discountCents = discount, inv_taxCents = taxTotal,
        inv_totalCents = subtotal - discount + taxTotal\<rparr>)"

text \<open>\<open>String(sequence).padStart(6, '0')\<close>, on the sequence numbers there are (naturals).\<close>

definition digit_char :: "nat \<Rightarrow> char" where
  "digit_char d = char_of (48 + d)"

fun show_digits :: "nat \<Rightarrow> string" where
  "show_digits n = (if n < 10 then [digit_char n] else show_digits (n div 10) @ [digit_char (n mod 10)])"

definition padStart :: "nat \<Rightarrow> char \<Rightarrow> string \<Rightarrow> string" where
  "padStart width c s = replicate (width - length s) c @ s"

definition formatInvoiceNumber :: "nat \<Rightarrow> string" where
  "formatInvoiceNumber sequence = padStart 6 (CHR ''0'') (show_digits sequence)"

section \<open>move-in-cost.ts\<close>

record move_in_cost_input =
  mi_webRateCents :: cents
  mi_streetRateCents :: cents
  mi_adminFeeCents :: "cents option"
  mi_taxRates :: "tax_rate list"
  mi_promoDiscountCents :: "cents option"
  mi_promoTerms :: "string option"

datatype cost_line =
  Rent_cost cents
| Promo_cost string cents
| Admin_cost cents
| Tax_cost cents
| Protection_cost cents

record move_in_cost =
  mc_lines :: "cost_line list"
  mc_totalDueTodayCents :: cents
  mc_ongoingMonthlyCents :: cents
  mc_savingCents :: cents

fun cost_amount :: "cost_line \<Rightarrow> cents" where
  "cost_amount (Rent_cost a) = a"
| "cost_amount (Promo_cost _ a) = a"
| "cost_amount (Admin_cost a) = a"
| "cost_amount (Tax_cost a) = a"
| "cost_amount (Protection_cost a) = a"

definition calculateMoveInCost :: "move_in_cost_input \<Rightarrow> move_in_cost" where
  "calculateMoveInCost input = (
    let webRateCents = mi_webRateCents input;
        promoDiscountCents = min (max 0 (or_else (mi_promoDiscountCents input) 0)) webRateCents;
        discountedRentCents = webRateCents - promoDiscountCents;
        monthlyTaxableBase = webRateCents;
        adminFee = or_else (mi_adminFeeCents input) 0;
        todayTaxableBase = discountedRentCents + adminFee;
        taxToday = sum_by (\<lambda>rate. taxOn todayTaxableBase (rateBasisPoints rate)) (mi_taxRates input);
        taxMonthly = sum_by (\<lambda>rate. taxOn monthlyTaxableBase (rateBasisPoints rate)) (mi_taxRates input)
    in \<lparr>mc_lines = [Rent_cost webRateCents]
          @ (if 0 < promoDiscountCents
             then [Promo_cost (or_else (mi_promoTerms input) ''Promotion'') (- promoDiscountCents)] else [])
          @ (if 0 < adminFee then [Admin_cost adminFee] else [])
          @ (if 0 < taxToday then [Tax_cost taxToday] else [])
          @ [Protection_cost 0],
        mc_totalDueTodayCents = discountedRentCents + adminFee + taxToday,
        mc_ongoingMonthlyCents = webRateCents + taxMonthly,
        mc_savingCents = max 0 (mi_streetRateCents input - webRateCents)\<rparr>)"

section \<open>recurring.ts\<close>

record recurring_charge =
  rc_rentCents :: cents
  rc_taxCents :: cents
  rc_protectionCents :: cents
  rc_totalCents :: cents

definition monthlyRecurring :: "cents \<Rightarrow> cents \<Rightarrow> tax_rate list \<Rightarrow> recurring_charge" where
  "monthlyRecurring monthlyRateCents protectionCents taxRates = (
    let taxCents = sum_by (\<lambda>rate. taxOn monthlyRateCents (rateBasisPoints rate)) taxRates
    in \<lparr>rc_rentCents = monthlyRateCents, rc_taxCents = taxCents,
        rc_protectionCents = protectionCents,
        rc_totalCents = monthlyRateCents + taxCents + protectionCents\<rparr>)"

datatype recurring_part = Rent_part | Tax_part | Protection_part

definition recurringParts :: "recurring_charge \<Rightarrow> recurring_part list" where
  "recurringParts charge = [Rent_part]
    @ (if 0 < rc_taxCents charge then [Tax_part] else [])
    @ (if 0 < rc_protectionCents charge then [Protection_part] else [])"

fun join_comma :: "string list \<Rightarrow> string" where
  "join_comma [] = []"
| "join_comma [x] = x"
| "join_comma (x # y # zs) = x @ '', '' @ join_comma (y # zs)"

definition listParts :: "string list \<Rightarrow> string \<Rightarrow> string" where
  "listParts parts conjunction = (if length parts \<le> 1 then (case parts of [] \<Rightarrow> [] | p # _ \<Rightarrow> p)
    else join_comma (butlast parts) @ '' '' @ conjunction @ '' '' @ last parts)"

section \<open>Lemmas\<close>

definition charge_amount :: "build_invoice_input \<Rightarrow> charge_line \<Rightarrow> cents" where
  "charge_amount input charge = prorated (ch_monthlyCents charge) (bi_period input)
    (or_else (bi_prorateFrom input) (p_start (bi_period input)))
    (or_else (bi_prorateTo input) (p_end (bi_period input)))"

lemma prorated_0 [simp]: "prorated 0 p a b = 0"
  by (simp add: prorated_def prorate_amount del: prorate_sel)

abbreviation lines_of :: "line_type \<Rightarrow> invoice_line list \<Rightarrow> invoice_line list" where
  "lines_of t ls \<equiv> filter (\<lambda>l. il_type l = t) ls"

lemma charge_step_eq:
  "fst (snd (charge_step input (ls, b, s) c)) = b + (if ch_taxable c then charge_amount input c else 0)"
  "snd (snd (charge_step input (ls, b, s) c)) = s + charge_amount input c"
  "sum_by il_amountCents (fst (charge_step input (ls, b, s) c)) =
    sum_by il_amountCents ls + charge_amount input c"
  by (simp_all add: charge_step_def Let_def charge_amount_def prorated_def [symmetric])

lemma charge_step_lines:
  "l \<in> set (fst (charge_step input (ls, b, s) c)) \<Longrightarrow> l \<in> set ls \<or>
    (il_type l = Charged (ch_type c) \<and> il_amountCents l = charge_amount input c)"
  by (auto simp: charge_step_def Let_def charge_amount_def prorated_def split: if_splits)

lemma charge_loop:
  "foldl (charge_step input) (ls, b, s) cs = (ls', b', s') \<Longrightarrow>
    b' = b + sum_by (charge_amount input) (filter ch_taxable cs) \<and>
    s' = s + sum_by (charge_amount input) cs \<and>
    sum_by il_amountCents ls' = sum_by il_amountCents ls + sum_by (charge_amount input) cs"
proof (induction cs arbitrary: ls b s)
  case (Cons c cs)
  obtain l1 b1 s1 where st: "charge_step input (ls, b, s) c = (l1, b1, s1)" by (metis prod_cases3)
  show ?case
    using Cons.IH [of l1 b1 s1] Cons.prems charge_step_eq [of input ls b s c] by (simp add: st)
qed simp

lemma charge_loop_lines:
  "foldl (charge_step input) (ls, b, s) cs = (ls', b', s') \<Longrightarrow> l \<in> set ls' \<Longrightarrow> l \<in> set ls \<or>
    (\<exists>c \<in> set cs. il_type l = Charged (ch_type c) \<and> il_amountCents l = charge_amount input c)"
proof (induction cs arbitrary: ls b s)
  case (Cons c cs)
  obtain l1 b1 s1 where st: "charge_step input (ls, b, s) c = (l1, b1, s1)" by (metis prod_cases3)
  show ?case
    using Cons.IH [of l1 b1 s1] Cons.prems charge_step_lines [of l input ls b s c] by (auto simp: st)
qed simp

text \<open>The discount loop is the greedy split of the subtotal over the requested discounts.\<close>

interpretation discounts: greedy fst il_amountCents discount_loop discount_line
  by unfold_locales (auto simp: discount_line_def Let_def min_def max_def split: prod.splits)

lemma discount_lines_type: "l \<in> set (fst (discount_loop r ds)) \<Longrightarrow>
    il_type l = Discount_line \<and> 0 < il_amountCents l"
  by (drule discounts.run_amounts) (auto simp: discount_line_def)

lemma tax_lines_sum:
  "sum_by il_amountCents (fst (tax_lines b rs)) = snd (tax_lines b rs)"
  "snd (tax_lines b rs) = sum_by (\<lambda>rate. taxOn b (rateBasisPoints rate)) rs"
  by (induction rs) (auto simp: Let_def split: prod.splits)

lemma tax_lines_type: "l \<in> set (fst (tax_lines b rs)) \<Longrightarrow> il_type l = Tax_line \<and> il_amountCents l \<noteq> 0"
  by (induction rs) (auto simp: Let_def split: prod.splits if_splits)

lemma taxOn_nonneg: "0 \<le> b \<Longrightarrow> 0 \<le> r \<Longrightarrow> 0 \<le> taxOn b r"
  by (simp add: taxOn_def round_div_nonneg)

lemma filter_typed:
  "(\<And>l. l \<in> set ls \<Longrightarrow> P l) \<Longrightarrow> filter P ls = ls" "(\<And>l. l \<in> set ls \<Longrightarrow> \<not> P l) \<Longrightarrow> filter P ls = []"
  by (auto simp: filter_id_conv filter_empty_conv)

text \<open>The invoice taken apart: subtotal, discount, taxable base and the three runs of lines.\<close>

definition inv_base :: "build_invoice_input \<Rightarrow> cents" where
  "inv_base input = sum_by (charge_amount input) (filter ch_taxable (bi_charges input))"

lemma buildInvoice_parts:
  fixes input :: build_invoice_input
  defines "b \<equiv> buildInvoice input"
    and "sub \<equiv> sum_by (charge_amount input) (bi_charges input)"
  obtains cls where
    "inv_subtotalCents b = sub"
    and "inv_discountCents b = sub - snd (discount_loop sub (requested_discounts input))"
    and "inv_lines b = cls @ fst (discount_loop sub (requested_discounts input))
      @ fst (tax_lines (if 0 < inv_discountCents b
          then max 0 (inv_base input - min (inv_discountCents b) (inv_base input)) else inv_base input)
        (bi_taxRates input))"
    and "inv_taxCents b = snd (tax_lines (if 0 < inv_discountCents b
          then max 0 (inv_base input - min (inv_discountCents b) (inv_base input)) else inv_base input)
        (bi_taxRates input))"
    and "sum_by il_amountCents cls = sub"
    and "\<And>l. l \<in> set cls \<Longrightarrow> \<exists>c \<in> set (bi_charges input).
      il_type l = Charged (ch_type c) \<and> il_amountCents l = charge_amount input c"
    and "inv_totalCents b = sub - inv_discountCents b + inv_taxCents b"
proof -
  obtain cls base s where st: "foldl (charge_step input) ([], 0, 0) (bi_charges input) = (cls, base, s)"
    by (metis prod_cases3)
  from charge_loop [OF st] have l: "base = inv_base input" "s = sub" "sum_by il_amountCents cls = sub"
    by (simp_all add: inv_base_def sub_def)
  have t: "\<exists>c \<in> set (bi_charges input).
      il_type l = Charged (ch_type c) \<and> il_amountCents l = charge_amount input c"
    if "l \<in> set cls" for l
    using charge_loop_lines [OF st that] by simp
  show thesis
    by (rule that [of cls])
      (use l t in \<open>simp_all add: b_def buildInvoice_def st Let_def split_def\<close>)
qed

lemma inv_tax_base:
  assumes "0 \<le> inv_discountCents (buildInvoice input)" and "0 \<le> inv_base input"
  shows "(if 0 < inv_discountCents (buildInvoice input)
      then max 0 (inv_base input - min (inv_discountCents (buildInvoice input)) (inv_base input))
      else inv_base input) = max 0 (inv_base input - inv_discountCents (buildInvoice input))"
  using assms by auto

lemma discount_bounds:
  "inv_discountCents (buildInvoice input) =
    (if inv_subtotalCents (buildInvoice input) \<le> 0 then 0
     else min (inv_subtotalCents (buildInvoice input))
       (sum_by (\<lambda>d. max 0 (fst d)) (requested_discounts input)))"
proof -
  let ?sub = "sum_by (charge_amount input) (bi_charges input)" and ?ds = "requested_discounts input"
  obtain cls where p: "inv_subtotalCents (buildInvoice input) = ?sub"
    "inv_discountCents (buildInvoice input) = ?sub - snd (discount_loop ?sub ?ds)"
    by (rule buildInvoice_parts [of input]) blast
  have nn: "0 \<le> sum_by (\<lambda>d. max 0 (fst d)) ?ds" by (rule sum_by_nonneg) simp
  show ?thesis
  proof (cases "?sub \<le> 0")
    case True
    then show ?thesis using p by (cases ?ds) simp_all
  next
    case False
    then show ?thesis using p nn discounts.run_rest_eq [of ?sub ?ds] by (auto simp: max_def min_def)
  qed
qed

text \<open>The invoice of a whole period, in closed form.\<close>

lemma unprorated_total:
  assumes "proper_period (bi_period i)" "bi_prorateFrom i = None" "bi_prorateTo i = None"
    and "sum_by ch_monthlyCents (bi_charges i) = sub"
    and "sum_by ch_monthlyCents (filter ch_taxable (bi_charges i)) = base"
    and "sum_by (\<lambda>d. max 0 (fst d)) (requested_discounts i) = disc"
    and "0 \<le> disc" "disc \<le> base" "base \<le> sub"
  shows "inv_totalCents (buildInvoice i) =
    sub - disc + sum_by (\<lambda>rate. taxOn (base - disc) (rateBasisPoints rate)) (bi_taxRates i)"
proof -
  have c: "charge_amount i = ch_monthlyCents"
    by (rule ext) (simp add: charge_amount_def assms(2,3) rent_share.charge_full [OF assms(1)])
  have b: "inv_base i = base" by (simp add: inv_base_def c assms(5))
  obtain cls where parts: "inv_subtotalCents (buildInvoice i) = sub"
    "inv_taxCents (buildInvoice i) = snd (tax_lines (if 0 < inv_discountCents (buildInvoice i)
        then max 0 (base - min (inv_discountCents (buildInvoice i)) base) else base) (bi_taxRates i))"
    "inv_totalCents (buildInvoice i) =
      sub - inv_discountCents (buildInvoice i) + inv_taxCents (buildInvoice i)"
    by (rule buildInvoice_parts [of i, unfolded b c assms(4)]) blast
  have d: "inv_discountCents (buildInvoice i) = disc"
    using discount_bounds [of i] parts(1) assms(6-9) by auto
  then show ?thesis
    using parts(2,3) inv_tax_base [of i] b assms(7-9) by (simp add: tax_lines_sum)
qed

text \<open>The lines of the estimate are the estimate, none hidden.\<close>

lemma move_in_lines_sum:
  assumes "0 \<le> mi_webRateCents i" and "0 \<le> or_else (mi_adminFeeCents i) 0"
    and "\<forall>r \<in> set (mi_taxRates i). 0 \<le> rateBasisPoints r"
  shows "sum_by cost_amount (mc_lines (calculateMoveInCost i)) =
    mc_totalDueTodayCents (calculateMoveInCost i)"
proof -
  have "0 \<le> sum_by (\<lambda>rate. taxOn (mi_webRateCents i -
      min (max 0 (or_else (mi_promoDiscountCents i) 0)) (mi_webRateCents i) +
      or_else (mi_adminFeeCents i) 0) (rateBasisPoints rate)) (mi_taxRates i)"
    using assms by (intro sum_by_nonneg taxOn_nonneg) auto
  then show ?thesis using assms(1,2) by (auto simp: calculateMoveInCost_def Let_def)
qed

section \<open>Properties\<close>

text \<open>
  C2. An invoice adds up: the lines of each kind sum to the figure reported for it, the total is
  the charges less the discount plus the tax, and every discount line is a positive amount, the
  stack of discounts taking the smaller of what was asked for and what was charged.
\<close>

theorem invoice_adds_up:
  "sum_by il_amountCents (filter (\<lambda>l. il_type l \<noteq> Tax_line \<and> il_type l \<noteq> Discount_line)
      (inv_lines (buildInvoice input))) = inv_subtotalCents (buildInvoice input)
   \<and> sum_by il_amountCents (lines_of Discount_line (inv_lines (buildInvoice input)))
      = inv_discountCents (buildInvoice input)
   \<and> sum_by il_amountCents (lines_of Tax_line (inv_lines (buildInvoice input)))
      = inv_taxCents (buildInvoice input)
   \<and> inv_totalCents (buildInvoice input) = inv_subtotalCents (buildInvoice input)
      - inv_discountCents (buildInvoice input) + inv_taxCents (buildInvoice input)
   \<and> list_all (\<lambda>l. 0 < il_amountCents l) (lines_of Discount_line (inv_lines (buildInvoice input)))
   \<and> inv_discountCents (buildInvoice input) =
      (if inv_subtotalCents (buildInvoice input) \<le> 0 then 0
       else min (inv_subtotalCents (buildInvoice input))
         (sum_by (\<lambda>d. max 0 (fst d)) (requested_discounts input)))"
proof -
  let ?sub = "sum_by (charge_amount input) (bi_charges input)"
  obtain cls b where parts: "inv_subtotalCents (buildInvoice input) = ?sub"
    "inv_discountCents (buildInvoice input) = ?sub - snd (discount_loop ?sub (requested_discounts input))"
    "inv_lines (buildInvoice input) = cls @ fst (discount_loop ?sub (requested_discounts input))
      @ fst (tax_lines b (bi_taxRates input))"
    "inv_taxCents (buildInvoice input) = snd (tax_lines b (bi_taxRates input))"
    "sum_by il_amountCents cls = ?sub"
    "\<And>l. l \<in> set cls \<Longrightarrow> \<exists>c \<in> set (bi_charges input).
      il_type l = Charged (ch_type c) \<and> il_amountCents l = charge_amount input c"
    "inv_totalCents (buildInvoice input) =
      ?sub - inv_discountCents (buildInvoice input) + inv_taxCents (buildInvoice input)"
    by (rule buildInvoice_parts [of input]) blast
  have c: "il_type l \<noteq> Tax_line" "il_type l \<noteq> Discount_line" if "l \<in> set cls" for l
    using parts(6) [OF that] by auto
  have d: "il_type l = Discount_line" "0 < il_amountCents l"
    if "l \<in> set (fst (discount_loop ?sub (requested_discounts input)))" for l
    using discount_lines_type [OF that] by simp_all
  have t: "il_type l = Tax_line" if "l \<in> set (fst (tax_lines b (bi_taxRates input)))" for l
    using tax_lines_type [OF that] by simp
  show ?thesis
    using discounts.run_conserves [of ?sub "requested_discounts input"] discount_bounds [of input]
      tax_lines_sum(1) [of b "bi_taxRates input"]
    by (simp add: parts filter_typed c d t list_all_iff)
qed

text \<open>
  Discount before tax: with charges that are not negative and a proper period, the discount
  is between zero and the charges, each jurisdiction's tax is rounded on its own from the taxable
  charges less the discount (never below zero), and the total is not negative.
\<close>

theorem invoice_taxes_discounted_base:
  assumes "proper_period (bi_period input)" and "\<forall>c \<in> set (bi_charges input). 0 \<le> ch_monthlyCents c"
    and "\<forall>r \<in> set (bi_taxRates input). 0 \<le> rateBasisPoints r"
  shows "0 \<le> inv_discountCents (buildInvoice input)
    \<and> inv_discountCents (buildInvoice input) \<le> inv_subtotalCents (buildInvoice input)
    \<and> inv_taxCents (buildInvoice input) = sum_by (\<lambda>rate.
        taxOn (max 0 (inv_base input - inv_discountCents (buildInvoice input))) (rateBasisPoints rate))
        (bi_taxRates input)
    \<and> 0 \<le> inv_taxCents (buildInvoice input)
    \<and> 0 \<le> inv_totalCents (buildInvoice input)"
proof -
  let ?sub = "sum_by (charge_amount input) (bi_charges input)"
  have ch: "0 \<le> charge_amount input c" if "c \<in> set (bi_charges input)" for c
    using that assms(2) rent_share.charge_nonneg [OF assms(1)] by (simp add: charge_amount_def)
  have nn: "0 \<le> ?sub" "0 \<le> inv_base input"
    using ch by (auto simp: inv_base_def intro!: sum_by_nonneg)
  obtain cls where parts: "inv_subtotalCents (buildInvoice input) = ?sub"
    "inv_taxCents (buildInvoice input) = snd (tax_lines (if 0 < inv_discountCents (buildInvoice input)
          then max 0 (inv_base input - min (inv_discountCents (buildInvoice input)) (inv_base input))
          else inv_base input) (bi_taxRates input))"
    "inv_totalCents (buildInvoice input) =
      ?sub - inv_discountCents (buildInvoice input) + inv_taxCents (buildInvoice input)"
    by (rule buildInvoice_parts [of input]) blast
  have req: "0 \<le> sum_by (\<lambda>d. max 0 (fst d)) (requested_discounts input)"
    by (rule sum_by_nonneg) simp
  have d: "0 \<le> inv_discountCents (buildInvoice input)" "inv_discountCents (buildInvoice input) \<le> ?sub"
    using discount_bounds [of input] parts(1) nn(1) req by (auto split: if_splits)
  have t: "inv_taxCents (buildInvoice input) = sum_by (\<lambda>rate.
        taxOn (max 0 (inv_base input - inv_discountCents (buildInvoice input))) (rateBasisPoints rate))
        (bi_taxRates input)"
    unfolding parts(2) inv_tax_base [OF d(1) nn(2)] by (rule tax_lines_sum)
  have "0 \<le> inv_taxCents (buildInvoice input)"
    unfolding t using assms(3) by (intro sum_by_nonneg taxOn_nonneg) auto
  then show ?thesis using d t parts by simp
qed

definition invoice_example :: build_invoice_input where
  "invoice_example = \<lparr>bi_period = billingPeriodFor First_of_month 1 (utc 2026 7 5),
    bi_charges = [\<lparr>ch_type = Rent_charge, ch_description = ''Unit 12'', ch_monthlyCents = 12900,
        ch_taxable = True\<rparr>,
      \<lparr>ch_type = Protection_charge, ch_description = ''Plan'', ch_monthlyCents = 1200, ch_taxable = False\<rparr>],
    bi_taxRates = [\<lparr>jurisdiction = ''state'', rateBasisPoints = 625\<rparr>],
    bi_prorateFrom = None, bi_prorateTo = None, bi_discountCents = Some 5000,
    bi_discountDescription = None, bi_extraDiscounts = []\<rparr>"

theorem invoice_taxes_discounted_base_witness:
  "inv_discountCents (buildInvoice invoice_example) \<le> inv_subtotalCents (buildInvoice invoice_example)"
  using invoice_taxes_discounted_base [of invoice_example] by (simp add: invoice_example_def)

text \<open>
  C33. One price everywhere: the move-in estimate is the total of the first invoice (rent and admin
  fee, both taxable, the promotion as a discount no larger than the rent), and the monthly figure
  of the portal is both the estimate's ongoing figure plus the premium and the total of the
  ordinary monthly invoice of rent and protection.
\<close>

theorem estimate_equals_invoice:
  assumes "proper_period p" and "0 \<le> web" and "0 \<le> admin" and "0 \<le> prot" and "0 \<le> d" and "d \<le> web"
  shows "inv_totalCents (buildInvoice \<lparr>bi_period = p,
        bi_charges = [\<lparr>ch_type = Rent_charge, ch_description = u, ch_monthlyCents = web, ch_taxable = True\<rparr>,
          \<lparr>ch_type = Fee_charge, ch_description = v, ch_monthlyCents = admin, ch_taxable = True\<rparr>],
        bi_taxRates = rates, bi_prorateFrom = None, bi_prorateTo = None,
        bi_discountCents = Some (of_int d), bi_discountDescription = Some w, bi_extraDiscounts = []\<rparr>)
      = mc_totalDueTodayCents (calculateMoveInCost \<lparr>mi_webRateCents = web, mi_streetRateCents = street,
          mi_adminFeeCents = Some admin, mi_taxRates = rates, mi_promoDiscountCents = Some d,
          mi_promoTerms = t\<rparr>)
    \<and> rc_totalCents (monthlyRecurring web prot rates) =
        mc_ongoingMonthlyCents (calculateMoveInCost \<lparr>mi_webRateCents = web, mi_streetRateCents = street,
          mi_adminFeeCents = Some admin, mi_taxRates = rates, mi_promoDiscountCents = Some d,
          mi_promoTerms = t\<rparr>) + prot
    \<and> rc_totalCents (monthlyRecurring web prot rates) = inv_totalCents (buildInvoice \<lparr>bi_period = p,
        bi_charges = [\<lparr>ch_type = Rent_charge, ch_description = u, ch_monthlyCents = web, ch_taxable = True\<rparr>,
          \<lparr>ch_type = Protection_charge, ch_description = v, ch_monthlyCents = prot, ch_taxable = False\<rparr>],
        bi_taxRates = rates, bi_prorateFrom = None, bi_prorateTo = None,
        bi_discountCents = None, bi_discountDescription = None, bi_extraDiscounts = []\<rparr>)"
proof -
  show ?thesis
    using assms
    by (simp add: unprorated_total [where base = "web + admin" and disc = d and sub = "web + admin"]
        unprorated_total [where base = web and disc = 0 and sub = "web + prot"]
        requested_discounts_def)
      (simp add: calculateMoveInCost_def monthlyRecurring_def Let_def algebra_simps)
qed

theorem estimate_equals_invoice_witness:
  "rc_totalCents (monthlyRecurring 12900 1200 [\<lparr>jurisdiction = ''state'', rateBasisPoints = 625\<rparr>]) = 14906"
  using estimate_equals_invoice [of "billingPeriodFor First_of_month 1 0" 12900 2500 1200 5000
      "[]" "[]" "[\<lparr>jurisdiction = ''state'', rateBasisPoints = 625\<rparr>]" "[]" 13900 None]
  by (simp add: monthlyRecurring_def calculateMoveInCost_def Let_def taxOn_def round_div_def)

end
