(* ===== verification/Schedule.thy ===== *)
theory Schedule
  imports Calendar
begin

text \<open>
  Business dates and facility-local time (\<open>packages/core/jobs/schedule.ts\<close>).

  \<open>Intl.DateTimeFormat\<close> reads an instant on the wall clock of a zone. The zone database is not
  part of the program: a zone is a parameter, the offset in milliseconds (positive east of UTC)
  it has at each instant, and the wall clock is the UTC calendar at the instant plus the offset.
  What is assumed of a zone is written out where it is used.
\<close>

type_synonym zone = "date \<Rightarrow> int"

abbreviation minute_ms :: int where "minute_ms \<equiv> 60000"
abbreviation hour_ms :: int where "hour_ms \<equiv> 3600000"

definition local_time :: "zone \<Rightarrow> date \<Rightarrow> date" where
  "local_time z t = t + z t"

record local_parts =
  lp_year :: int
  lp_month :: int
  lp_day :: int
  lp_hour :: int

definition localParts :: "date \<Rightarrow> zone \<Rightarrow> local_parts" where
  "localParts instant z = (let w = local_time z instant in
    \<lparr>lp_year = utc_full_year w, lp_month = utc_month w + 1, lp_day = utc_date w,
     lp_hour = (w mod day_ms) div hour_ms\<rparr>)"

definition businessDateFor :: "date \<Rightarrow> zone \<Rightarrow> date" where
  "businessDateFor instant z = (let p = localParts instant z in
    utc (lp_year p) (lp_month p - 1) (lp_day p))"

definition daysBetween :: "date \<Rightarrow> date \<Rightarrow> int" where
  "daysBetween from to = round_div (to - from) day_ms"

definition reminder_step :: "int \<Rightarrow> int option \<Rightarrow> int \<Rightarrow> int option" where
  "reminder_step daysUntil stage threshold =
    (if daysUntil > threshold then stage
     else case stage of None \<Rightarrow> Some threshold
       | Some s \<Rightarrow> if threshold < s then Some threshold else stage)"

definition reminderStage :: "int \<Rightarrow> int list \<Rightarrow> int option" where
  "reminderStage daysUntil thresholds = foldl (reminder_step daysUntil) None thresholds"

record schedulable_facility =
  sf_id :: string
  sf_timezone :: zone

definition facilitiesDueSince ::
  "schedulable_facility list \<Rightarrow> int \<Rightarrow> date \<Rightarrow> (schedulable_facility \<times> date) list" where
  "facilitiesDueSince facilities targetLocalHour now =
    map (\<lambda>facility. (facility, businessDateFor now (sf_timezone facility)))
      (filter (\<lambda>facility. targetLocalHour \<le> lp_hour (localParts now (sf_timezone facility))) facilities)"

text \<open>\<open>tzOffsetMs\<close> and \<open>zoneOffsetMinutes\<close> rebuild the wall clock to the second.\<close>

definition wall_seconds :: "zone \<Rightarrow> date \<Rightarrow> date" where
  "wall_seconds z t = (local_time z t div 1000) * 1000"

definition tzOffsetMs :: "date \<Rightarrow> zone \<Rightarrow> int" where
  "tzOffsetMs instant z = wall_seconds z instant - instant"

definition localDayBounds :: "date \<Rightarrow> zone \<Rightarrow> date \<times> date" where
  "localDayBounds instant z = (
    let p = localParts instant z;
        utcGuess = utc (lp_year p) (lp_month p - 1) (lp_day p);
        offset = tzOffsetMs utcGuess z;
        start = utcGuess - offset
    in (start, start + 24 * 60 * 60 * 1000))"

definition zoneOffsetMinutes :: "date \<Rightarrow> zone \<Rightarrow> int" where
  "zoneOffsetMinutes instant z = round_div (wall_seconds z instant - instant) minute_ms"

definition zonedMidnight :: "int \<Rightarrow> int \<Rightarrow> int \<Rightarrow> zone \<Rightarrow> date" where
  "zonedMidnight year month day z = (
    let naive = utc year (month - 1) day;
        first = zoneOffsetMinutes naive z;
        candidate = naive - first * minute_ms;
        second = zoneOffsetMinutes candidate z
    in if second = first then candidate else naive - second * minute_ms)"

text \<open>\<open>setUTCDate\<close> keeps the time of day and lets the day number carry into the months.\<close>

definition setUTCDate :: "date \<Rightarrow> int \<Rightarrow> date" where
  "setUTCDate t d = utc (utc_full_year t) (utc_month t) d + t mod day_ms"

lemma setUTCDate_next: "setUTCDate t (utc_date t + k) = t + k * day_ms"
proof -
  have "utc (utc_full_year t) (utc_month t) (utc_date t + k) = utc_day t + k * day_ms"
    by (simp add: utc_day_def utc_def algebra_simps)
  then show ?thesis
    by (simp add: setUTCDate_def utc_day_eq day_of_def)
qed

lemma setUTCDate_Suc [simp]: "setUTCDate t (utc_date t + 1) = t + day_ms"
  using setUTCDate_next [of t 1] by simp

function missed_loop :: "date \<Rightarrow> int \<Rightarrow> date \<Rightarrow> int \<Rightarrow> date list" where
  "missed_loop target maxDays cursor pushed =
    (if cursor \<le> target \<and> pushed < maxDays
     then cursor # missed_loop target maxDays (setUTCDate cursor (utc_date cursor + 1)) (pushed + 1)
     else [])"
  by auto
termination
  by (relation "measure (\<lambda>(_, maxDays, _, pushed). nat (maxDays - pushed))") auto

declare missed_loop.simps [simp del]

definition missedBusinessDates :: "date option \<Rightarrow> date \<Rightarrow> zone \<Rightarrow> int \<Rightarrow> date list" where
  "missedBusinessDates lastCompleted through z maxDays = (
    let target = businessDateFor through z in
    case lastCompleted of None \<Rightarrow> [target]
    | Some completed \<Rightarrow>
        let cursor = utc (utc_full_year completed) (utc_month completed) (utc_date completed)
        in missed_loop target maxDays (setUTCDate cursor (utc_date cursor + 1)) 0)"

section \<open>Lemmas\<close>

lemma businessDateFor_eq: "businessDateFor t z = utc_day (local_time z t)"
  by (simp add: businessDateFor_def localParts_def Let_def utc_day_def)

lemma localParts_hour_range: "0 \<le> lp_hour (localParts t z)" "lp_hour (localParts t z) \<le> 23"
proof -
  define w where "w = local_time z t mod day_ms"
  have "0 \<le> w" "w < day_ms" by (simp_all add: w_def)
  moreover have "lp_hour (localParts t z) = w div hour_ms"
    by (simp add: localParts_def Let_def w_def)
  ultimately show "0 \<le> lp_hour (localParts t z)" "lp_hour (localParts t z) \<le> 23"
    using zdiv_mono1 [of w "24 * hour_ms - 1" hour_ms] by (simp_all add: pos_imp_zdiv_nonneg_iff)
qed

lemma daysBetween_days: "daysBetween (a * day_ms) (b * day_ms) = b - a"
proof -
  have "b * day_ms - a * day_ms = (b - a) * day_ms" by (simp only: left_diff_distrib)
  then show ?thesis by (simp only: daysBetween_def round_div_mult)
qed

lemma daysBetween_utc_day: "daysBetween (utc_day s) (utc_day t) = day_of t - day_of s"
  by (simp only: utc_day_eq daysBetween_days)

definition least_of :: "int set \<Rightarrow> int option \<Rightarrow> bool" where
  "least_of S st \<longleftrightarrow> (case st of None \<Rightarrow> S = {} | Some s \<Rightarrow> s \<in> S \<and> (\<forall>t \<in> S. s \<le> t))"

lemma reminder_step_least:
  "least_of S st \<Longrightarrow> least_of (if n \<le> t then insert t S else S) (reminder_step n st t)"
  by (cases st) (auto simp: least_of_def reminder_step_def)

lemma reminder_fold_least:
  "least_of S st \<Longrightarrow> least_of (S \<union> {t \<in> set ts. n \<le> t}) (foldl (reminder_step n) st ts)"
proof (induction ts arbitrary: S st)
  case (Cons t ts)
  have "S \<union> {x \<in> set (t # ts). n \<le> x} =
      (if n \<le> t then insert t S else S) \<union> {x \<in> set ts. n \<le> x}" by auto
  then show ?case using Cons.IH [OF reminder_step_least [OF Cons.prems, of n t]] by simp
qed simp

text \<open>The stage is the smallest threshold the countdown has reached.\<close>

lemma reminderStage_least: "least_of {t \<in> set ts. n \<le> t} (reminderStage n ts)"
  using reminder_fold_least [of "{}" None ts n] by (simp add: reminderStage_def least_of_def)

text \<open>A zone whose offset is a whole number of minutes: \<open>zoneOffsetMinutes\<close> reads it exactly.\<close>

lemma zoneOffsetMinutes_exact:
  assumes "z t = k * minute_ms"
  shows "zoneOffsetMinutes t z = k"
proof -
  define r where "r = t mod 1000"
  have r: "0 \<le> r" "r < 1000" by (simp_all add: r_def)
  have "local_time z t = t div 1000 * 1000 + r + k * 60 * 1000"
    by (simp add: local_time_def assms r_def)
  then have "local_time z t div 1000 = t div 1000 + k * 60"
    using r by (simp add: div_unique_int)
  then have "wall_seconds z t - t = k * minute_ms - r"
    by (simp add: wall_seconds_def r_def algebra_simps minus_mod_eq_mult_div [symmetric])
  moreover have "round_div (k * minute_ms - r) minute_ms = k"
    unfolding round_div_def using r by (intro div_unique_int) auto
  ultimately show ?thesis by (simp add: zoneOffsetMinutes_def)
qed

text \<open>The catch-up loop in closed form: whole days in a row, up to the target or the limit.\<close>

lemma missed_loop_eq:
  "missed_loop (e * day_ms) mx (d * day_ms) n = map (\<lambda>k. k * day_ms) [d..min e (d + (mx - n) - 1)]"
proof (induction "nat (mx - n)" arbitrary: d n)
  case 0
  then show ?case by (simp add: missed_loop.simps)
next
  case (Suc m)
  have step: "d * day_ms + day_ms = (d + 1) * day_ms" by simp
  show ?case
  proof (cases "d \<le> e")
    case True
    have le: "d * day_ms \<le> e * day_ms" using True by simp
    have "missed_loop (e * day_ms) mx (d * day_ms) n =
        d * day_ms # missed_loop (e * day_ms) mx ((d + 1) * day_ms) (n + 1)"
      using Suc.hyps(2) le unfolding missed_loop.simps [of _ _ "d * day_ms"] setUTCDate_Suc step
      by (simp only: if_True) auto
    also have "missed_loop (e * day_ms) mx ((d + 1) * day_ms) (n + 1) =
        map (\<lambda>k. k * day_ms) [d + 1..min e (d + 1 + (mx - (n + 1)) - 1)]"
      using Suc.hyps(2) by (intro Suc.hyps(1)) simp
    also have "d + 1 + (mx - (n + 1)) - 1 = d + (mx - n) - 1" by simp
    also have "d * day_ms # map (\<lambda>k. k * day_ms) [d + 1..min e (d + (mx - n) - 1)] =
        map (\<lambda>k. k * day_ms) [d..min e (d + (mx - n) - 1)]"
      using True Suc.hyps(2) by (subst (2) upto.simps) simp
    finally show ?thesis .
  next
    case False
    then have "\<not> d * day_ms \<le> e * day_ms" by simp
    then show ?thesis using False by (simp add: missed_loop.simps del: mult_le_cancel_right)
  qed
qed

lemma missedBusinessDates_eq:
  "missedBusinessDates (Some completed) t z mx =
    map (\<lambda>k. k * day_ms) [day_of completed + 1..min (day_of (local_time z t)) (day_of completed + mx)]"
proof -
  have "missedBusinessDates (Some completed) t z mx =
      missed_loop (day_of (local_time z t) * day_ms) mx ((day_of completed + 1) * day_ms) 0"
    by (simp add: missedBusinessDates_def Let_def businessDateFor_eq utc_day_eq
        utc_day_def [symmetric] distrib_right)
  then show ?thesis by (simp only: missed_loop_eq) simp
qed

section \<open>Properties\<close>

text \<open>
  Catching up after an outage: with a completed business date on record, the dates returned
  are exactly the calendar days after it, up to the facility's business date now, oldest first,
  cut off after the allowed number; the completed date is never among them, and once the
  facility's business date has a completed run nothing is left to do.
\<close>

theorem missedBusinessDates_exact:
  "missedBusinessDates (Some completed) t z mx = map (\<lambda>k. k * day_ms)
      [day_of completed + 1..min (day_of (businessDateFor t z)) (day_of completed + mx)]
    \<and> utc_day completed \<notin> set (missedBusinessDates (Some completed) t z mx)
    \<and> missedBusinessDates (Some (businessDateFor t z)) t z mx = []"
  by (auto simp: missedBusinessDates_eq businessDateFor_eq utc_day_eq)

text \<open>
  The start of a local day: for a zone whose offsets are whole minutes, if the day has a local
  midnight at all and the offset there is one of the two the code measures (before or after a
  single change of the clocks), then the computed instant reads midnight on the facility's wall
  clock, so it is a first instant of that business date.
\<close>

theorem zonedMidnight_correct:
  assumes minutes: "\<And>t. z t mod minute_ms = 0"
    and midnight: "local_time z m = utc y (mo - 1) d"
    and offsets: "z m = z (utc y (mo - 1) d) \<or>
      z m = z (utc y (mo - 1) d - z (utc y (mo - 1) d))"
  shows "local_time z (zonedMidnight y mo d z) = utc y (mo - 1) d
    \<and> businessDateFor (zonedMidnight y mo d z) z = utc y (mo - 1) d"
proof -
  define naive where "naive = utc y (mo - 1) d"
  have off: "zoneOffsetMinutes t z * minute_ms = z t" for t
  proof -
    have e: "z t = (z t div minute_ms) * minute_ms" using minutes [of t] by (simp add: mod_0_imp_dvd)
    show ?thesis using zoneOffsetMinutes_exact [of z t, OF e] e by simp
  qed
  have eq: "zoneOffsetMinutes s z = zoneOffsetMinutes t z \<longleftrightarrow> z s = z t" for s t
    using off [of s] off [of t] by (metis mult_cancel_right zero_neq_numeral)
  have r: "zonedMidnight y mo d z =
      (if z (naive - z naive) = z naive then naive - z naive else naive - z (naive - z naive))"
    unfolding zonedMidnight_def Let_def naive_def [symmetric] off eq ..
  have m: "m = naive - z m" using midnight by (simp add: naive_def local_time_def)
  have "local_time z (zonedMidnight y mo d z) = naive"
    unfolding r local_time_def using offsets m by (auto simp: naive_def [symmetric])
  then show ?thesis by (simp add: businessDateFor_eq naive_def)
qed

text \<open>A zone with one change of the clocks, as Chicago has on 8 March 2026 at 08:00 UTC.\<close>

definition spring_zone :: zone where
  "spring_zone t = (if t < utc 2026 2 8 + 8 * hour_ms then - 360 * minute_ms else - 300 * minute_ms)"

theorem zonedMidnight_correct_witness:
  "local_time spring_zone (zonedMidnight 2026 3 9 spring_zone) = utc 2026 2 9"
proof -
  have minutes: "spring_zone t mod minute_ms = 0" for t by (simp add: spring_zone_def)
  have m: "local_time spring_zone (utc 2026 2 9 + 300 * minute_ms) = utc 2026 (3 - 1) 9"
    by code_simp
  have o: "spring_zone (utc 2026 2 9 + 300 * minute_ms) = spring_zone (utc 2026 (3 - 1) 9)"
    by code_simp
  show ?thesis
    using zonedMidnight_correct [of spring_zone "utc 2026 2 9 + 300 * minute_ms" 2026 3 9,
        OF minutes m] o by simp
qed

end
