(* ===== verification/Collections.thy ===== *)
theory Collections
  imports Schedule
begin

text \<open>
  What the nightly billing run does to an unpaid invoice: late fees
  (\<open>packages/core/billing/late-fees.ts\<close>), the dunning ladder (\<open>dunning.ts\<close>) and the retries of a
  failed charge (\<open>retry.ts\<close>). The two ladders share one shape (steps not done yet, old enough, in
  order), stated once as the locale \<open>ladder\<close>.
\<close>

section \<open>Ladders\<close>

text \<open>
  A ladder lists the steps that are due: those not done yet whose age is reached, in ladder order.
  A run that does them all leaves nothing due at the same age.
\<close>

locale ladder =
  fixes age id :: "'s \<Rightarrow> int" and due :: "int \<Rightarrow> 's list \<Rightarrow> int list \<Rightarrow> 's list"
  assumes due_mset: "mset (due d steps done_ids) =
      mset (filter (\<lambda>s. id s \<notin> set done_ids \<and> age s \<le> d) steps)"
    and due_sorted: "sorted (map id (due d steps done_ids))"
begin

lemma due_set: "set (due d steps done_ids) = {s \<in> set steps. id s \<notin> set done_ids \<and> age s \<le> d}"
  using arg_cong [OF due_mset, of set_mset] by simp

lemma due_once: "due d steps (done_ids @ map id (due d steps done_ids)) = []"
proof -
  have "filter (\<lambda>s. id s \<notin> set (done_ids @ map id (due d steps done_ids)) \<and> age s \<le> d) steps = []"
    by (auto simp: filter_empty_conv due_set)
  then show ?thesis using due_mset [of d steps "done_ids @ map id (due d steps done_ids)"]
    by (metis mset.simps(1) mset_zero_iff)
qed

lemma due_disjoint:
  "id ` set (due d steps xs) \<inter> id ` set (due d' steps' (xs @ map id (due d steps xs))) = {}"
  unfolding due_set [of d' steps' "xs @ map id (due d steps xs)"]
  by (simp add: disjoint_iff image_iff) metis

lemma due_mono_age: "d \<le> d' \<Longrightarrow> set (due d steps done_ids) \<subseteq> set (due d' steps done_ids)"
  by (auto simp: due_set)

lemma due_antimono_done: "set xs \<subseteq> set ys \<Longrightarrow> set (due d steps ys) \<subseteq> set (due d steps xs)"
  by (auto simp: due_set)

text \<open>Catching up over several nights charges what one late night would charge.\<close>

lemma due_catch_up:
  assumes "d \<le> d'"
  shows "set (due d steps xs) \<union> set (due d' steps (xs @ map id (due d steps xs))) =
    {s \<in> set steps. id s \<notin> set xs \<and> age s \<le> d' \<and>
      (age s \<le> d \<or> id s \<notin> id ` set (due d steps xs))}"
  using assms by (auto simp: due_set)

end

section \<open>late-fees.ts\<close>

datatype late_fee_basis = Flat | Percent | Greater | Lesser

record late_fee_step =
  lf_step :: int
  lf_daysPastDue :: int
  lf_amountCents :: cents
  lf_percentBasisPoints :: int
  lf_basis :: late_fee_basis
  lf_capCents :: "cents option"

definition lateFeeAmount :: "late_fee_step \<Rightarrow> cents \<Rightarrow> cents" where
  "lateFeeAmount step overdueCents = (if overdueCents \<le> 0 then 0 else
    let flat = max 0 (lf_amountCents step);
        percent = round_div (overdueCents * max 0 (lf_percentBasisPoints step)) 10000;
        amount = (case lf_basis step of
            Flat \<Rightarrow> flat | Percent \<Rightarrow> percent | Greater \<Rightarrow> max flat percent | Lesser \<Rightarrow> min flat percent);
        amount = (case lf_capCents step of None \<Rightarrow> amount | Some c \<Rightarrow> min amount c)
    in min amount overdueCents)"

definition stepsDue :: "int \<Rightarrow> late_fee_step list \<Rightarrow> int list \<Rightarrow> late_fee_step list" where
  "stepsDue daysPastDue steps alreadyCharged =
    sort_by (by_key lf_step) (filter (\<lambda>step. daysPastDue \<ge> lf_daysPastDue step)
      (filter (\<lambda>step. lf_step step \<notin> set alreadyCharged) steps))"

definition DEFAULT_LATE_FEE_STEPS :: "late_fee_step list" where
  "DEFAULT_LATE_FEE_STEPS = [
    \<lparr>lf_step = 1, lf_daysPastDue = 5, lf_amountCents = 2000, lf_percentBasisPoints = 1000,
     lf_basis = Greater, lf_capCents = Some 5000\<rparr>,
    \<lparr>lf_step = 2, lf_daysPastDue = 30, lf_amountCents = 2000, lf_percentBasisPoints = 0,
     lf_basis = Flat, lf_capCents = Some 2000\<rparr>]"

section \<open>dunning.ts\<close>

record dunning_step =
  du_day :: int
  du_position :: int

definition DEFAULT_DUNNING_DAYS :: "rat list" where
  "DEFAULT_DUNNING_DAYS = [1, 5, 10, 30]"

definition stepsFrom :: "rat list \<Rightarrow> dunning_step list" where
  "stepsFrom ds = map (\<lambda>(day, index). \<lparr>du_day = day, du_position = int index + 1\<rparr>)
    (let sorted_days = sort_by (by_key (\<lambda>d. d)) (map floor (filter (\<lambda>day. is_integer day \<and> 0 < day) ds))
     in zip sorted_days [0..<length sorted_days])"

definition dunningStepsDue :: "int \<Rightarrow> dunning_step list \<Rightarrow> int list \<Rightarrow> dunning_step list" where
  "dunningStepsDue daysPastDue steps alreadySent =
    sort_by (by_key du_day) (filter (\<lambda>step. daysPastDue \<ge> du_day step)
      (filter (\<lambda>step. du_day step \<notin> set alreadySent) steps))"

datatype ladder_halt = Settled | Moved_out | On_hold

datatype ladder_decision = Send "dunning_step list" | No_send "ladder_halt option"

record ladder_input =
  la_daysPastDue :: int
  la_outstandingCents :: cents
  la_leaseEnded :: bool
  la_onHold :: bool
  la_steps :: "dunning_step list"
  la_alreadySent :: "int list"

definition ladderDecision :: "ladder_input \<Rightarrow> ladder_decision" where
  "ladderDecision input =
    (if la_leaseEnded input then No_send (Some Moved_out)
     else if la_onHold input then No_send (Some On_hold)
     else if la_outstandingCents input \<le> 0 then No_send (Some Settled)
     else let due = dunningStepsDue (la_daysPastDue input) (la_steps input) (la_alreadySent input)
       in if due \<noteq> [] then Send due else No_send None)"

section \<open>retry.ts\<close>

definition DEFAULT_RETRY_DAYS :: "int list" where
  "DEFAULT_RETRY_DAYS = [1, 3, 5]"

definition TERMINAL_DECLINE_CODES :: "string list" where
  "TERMINAL_DECLINE_CODES = [''expired_card'', ''incorrect_number'', ''invalid_number'',
    ''invalid_expiry_month'', ''invalid_expiry_year'', ''card_not_supported'', ''stolen_card'',
    ''lost_card'', ''pickup_card'']"

definition isTerminalDecline :: "string option \<Rightarrow> bool" where
  "isTerminalDecline code = (case code of None \<Rightarrow> False
    | Some c \<Rightarrow> c \<noteq> [] \<and> List.member TERMINAL_DECLINE_CODES c)"

datatype retry_refusal = Not_due_yet | Retries_exhausted | Terminal_decline
datatype retry_decision = Attempt int | No_attempt retry_refusal

record retry_input =
  re_dueDate :: date
  re_businessDate :: date
  re_failedAttempts :: nat
  re_retryDays :: "int list"
  re_lastDeclineCode :: "string option"

definition startOfUtcDay :: "date \<Rightarrow> date" where
  "startOfUtcDay d = utc (utc_full_year d) (utc_month d) (utc_date d)"

definition retryDecision :: "retry_input \<Rightarrow> retry_decision" where
  "retryDecision input = (
    let failedAttempts = re_failedAttempts input; retryDays = re_retryDays input in
    if isTerminalDecline (re_lastDeclineCode input) then No_attempt Terminal_decline
    else if length retryDays < failedAttempts then No_attempt Retries_exhausted
    else let offset = (if failedAttempts = 0 then 0 else retryDays ! (failedAttempts - 1));
             elapsed = daysBetween (startOfUtcDay (re_dueDate input)) (startOfUtcDay (re_businessDate input))
    in if elapsed < offset then No_attempt Not_due_yet
    else Attempt (int failedAttempts + 1))"

definition nextAttemptDate :: "date \<Rightarrow> nat \<Rightarrow> int list \<Rightarrow> date option" where
  "nextAttemptDate dueDate failedAttempts retryDays =
    (if length retryDays < failedAttempts then None
     else let offset = (if failedAttempts = 0 then 0 else retryDays ! (failedAttempts - 1))
       in Some (startOfUtcDay dueDate + offset * 86400000))"

definition isFinalAttempt :: "nat \<Rightarrow> int list \<Rightarrow> bool" where
  "isFinalAttempt failedAttempts retryDays = (length retryDays < failedAttempts)"

section \<open>Lemmas\<close>

lemma sorted_sort_by_key: "sorted (map key (sort_by (by_key key) xs))"
  using by_key.sorted_sort_by [of key xs] by (simp add: by_key_def sorted_wrt_map)

interpretation fee_ladder: ladder lf_daysPastDue lf_step stepsDue
  by unfold_locales (simp_all add: stepsDue_def sorted_sort_by_key conj_commute)

interpretation dunning_ladder: ladder du_day du_day dunningStepsDue
  by unfold_locales (simp_all add: dunningStepsDue_def sorted_sort_by_key conj_commute)

lemma ladder_catch_up_dunning:
  assumes "d \<le> d'"
  shows "set (dunningStepsDue d steps xs) \<union>
      set (dunningStepsDue d' steps (xs @ map du_day (dunningStepsDue d steps xs))) =
    set (dunningStepsDue d' steps xs)"
  using assms unfolding dunning_ladder.due_catch_up [OF assms] by (auto simp: dunning_ladder.due_set)

lemma round_div_percent_mono:
  "x \<le> y \<Longrightarrow> 0 \<le> p \<Longrightarrow> round_div (x * p) 10000 \<le> round_div (y * p) 10000"
  by (intro round_div_mono mult_right_mono) simp_all

section \<open>Properties\<close>

text \<open>
  What a late fee may be: nothing on a balance that is not overdue; otherwise, with a cap that
  is not negative, between zero and the overdue balance and never over the cap; and a larger
  overdue balance never makes a smaller fee.
\<close>

theorem lateFeeAmount_bounds:
  assumes "\<forall>c. lf_capCents step = Some c \<longrightarrow> 0 \<le> c" and "overdue \<le> overdue'"
  shows "0 \<le> lateFeeAmount step overdue
    \<and> lateFeeAmount step overdue \<le> max 0 overdue
    \<and> (case lf_capCents step of None \<Rightarrow> True | Some c \<Rightarrow> lateFeeAmount step overdue \<le> c)
    \<and> lateFeeAmount step overdue \<le> lateFeeAmount step overdue'"
proof -
  define p where "p = max 0 (lf_percentBasisPoints step)"
  have p: "0 \<le> p" by (simp add: p_def)
  have m: "round_div (overdue * p) 10000 \<le> round_div (overdue' * p) 10000"
    using assms(2) p by (rule round_div_percent_mono)
  have n: "0 \<le> round_div (x * p) 10000" if "0 < x" for x
    using that p by (intro round_div_nonneg) simp_all
  have n': "0 < overdue \<Longrightarrow> 0 \<le> round_div (overdue * p) 10000"
    "0 < overdue' \<Longrightarrow> 0 \<le> round_div (overdue' * p) 10000" using n by blast+
  show ?thesis
    using assms m n'
    by (cases "lf_basis step"; cases "lf_capCents step"; cases "0 < overdue"; cases "0 < overdue'")
      (auto simp: lateFeeAmount_def Let_def p_def [symmetric] min_le_iff_disj le_max_iff_disj)
qed

theorem lateFeeAmount_bounds_witness:
  "lateFeeAmount (hd DEFAULT_LATE_FEE_STEPS) 12900 \<le> lateFeeAmount (hd DEFAULT_LATE_FEE_STEPS) 90000"
  using lateFeeAmount_bounds [of "hd DEFAULT_LATE_FEE_STEPS" 12900 90000]
  by (simp add: DEFAULT_LATE_FEE_STEPS_def)

text \<open>
  The nightly late-fee run: the steps due are exactly the configured steps that are old enough
  and not charged yet, in step order; once they are recorded as charged, running again at the
  same age charges nothing, and no step is charged again on any later night.
\<close>

theorem stepsDue_exactly_once:
  "set (stepsDue d steps charged) = {s \<in> set steps. lf_step s \<notin> set charged \<and> lf_daysPastDue s \<le> d}
   \<and> sorted (map lf_step (stepsDue d steps charged))
   \<and> stepsDue d steps (charged @ map lf_step (stepsDue d steps charged)) = []
   \<and> lf_step ` set (stepsDue d steps charged)
      \<inter> lf_step ` set (stepsDue d' steps (charged @ map lf_step (stepsDue d steps charged))) = {}"
  by (intro conjI fee_ladder.due_set fee_ladder.due_sorted fee_ladder.due_once
      fee_ladder.due_disjoint)

text \<open>
  The dunning ladder: nothing is sent on a lease that has ended, is on hold or owes nothing;
  otherwise a non-empty selection is sent, consisting of exactly the crossed steps not sent before,
  by day. And a ladder that fell behind catches up: the steps of an earlier night and those left
  for a later night are together those of the later night alone.
\<close>

theorem ladderDecision_correct:
  assumes "d \<le> d'"
  shows "(case ladderDecision input of
      Send due \<Rightarrow> \<not> la_leaseEnded input \<and> \<not> la_onHold input \<and> 0 < la_outstandingCents input
        \<and> due \<noteq> [] \<and> sorted (map du_day due)
        \<and> set due = {s \<in> set (la_steps input). du_day s \<notin> set (la_alreadySent input)
            \<and> du_day s \<le> la_daysPastDue input}
    | No_send (Some halt) \<Rightarrow> la_leaseEnded input \<or> la_onHold input \<or> la_outstandingCents input \<le> 0
    | No_send None \<Rightarrow> {s \<in> set (la_steps input). du_day s \<notin> set (la_alreadySent input)
            \<and> du_day s \<le> la_daysPastDue input} = {})
    \<and> set (dunningStepsDue d steps xs) \<union>
        set (dunningStepsDue d' steps (xs @ map du_day (dunningStepsDue d steps xs))) =
      set (dunningStepsDue d' steps xs)
    \<and> set (dunningStepsDue d steps xs) \<inter>
        set (dunningStepsDue d' steps (xs @ map du_day (dunningStepsDue d steps xs))) = {}"
proof -
  have "set (dunningStepsDue d steps xs) \<inter>
      set (dunningStepsDue d' steps (xs @ map du_day (dunningStepsDue d steps xs))) = {}"
    by (auto simp: dunning_ladder.due_set)
  then show ?thesis
    unfolding ladder_catch_up_dunning [OF assms]
    using dunning_ladder.due_set [of "la_daysPastDue input" "la_steps input" "la_alreadySent input"]
      dunning_ladder.due_sorted [of "la_daysPastDue input" "la_steps input" "la_alreadySent input"]
    by (auto simp: ladderDecision_def Let_def)
qed

theorem ladderDecision_correct_witness:
  "set (dunningStepsDue 6 (stepsFrom DEFAULT_DUNNING_DAYS) [1]) \<union>
   set (dunningStepsDue 12 (stepsFrom DEFAULT_DUNNING_DAYS)
     ([1] @ map du_day (dunningStepsDue 6 (stepsFrom DEFAULT_DUNNING_DAYS) [1]))) =
   set (dunningStepsDue 12 (stepsFrom DEFAULT_DUNNING_DAYS) [1])"
  using ladderDecision_correct [of 6 12 _ "stepsFrom DEFAULT_DUNNING_DAYS" "[1]"] by simp

text \<open>
  Retries are anchored to the due date: unless the last decline was terminal, the charge is
  attempted on exactly the business dates from the announced next attempt date on, the attempt
  number grows by one with each failure and never exceeds one more than the number of retries,
  and the schedule is over exactly when there is no next attempt date.
\<close>

theorem retryDecision_anchored:
  "(case retryDecision input of
      Attempt n \<Rightarrow> n = int (re_failedAttempts input) + 1
        \<and> n \<le> int (length (re_retryDays input)) + 1 \<and> \<not> isTerminalDecline (re_lastDeclineCode input)
    | No_attempt Terminal_decline \<Rightarrow> isTerminalDecline (re_lastDeclineCode input)
    | No_attempt Retries_exhausted \<Rightarrow> isFinalAttempt (re_failedAttempts input) (re_retryDays input)
    | No_attempt Not_due_yet \<Rightarrow> (\<exists>t. nextAttemptDate (re_dueDate input) (re_failedAttempts input)
        (re_retryDays input) = Some t \<and> startOfUtcDay (re_businessDate input) < t))
    \<and> (retryDecision input = Attempt (int (re_failedAttempts input) + 1) \<longleftrightarrow>
        \<not> isTerminalDecline (re_lastDeclineCode input) \<and>
        (\<exists>t. nextAttemptDate (re_dueDate input) (re_failedAttempts input) (re_retryDays input) = Some t
          \<and> t \<le> startOfUtcDay (re_businessDate input)))
    \<and> (isFinalAttempt (re_failedAttempts input) (re_retryDays input) \<longleftrightarrow>
        nextAttemptDate (re_dueDate input) (re_failedAttempts input) (re_retryDays input) = None)"
proof -
  have s: "startOfUtcDay t = day_of t * day_ms" for t
    by (simp add: startOfUtcDay_def utc_day_def [symmetric] utc_day_eq)
  define off where "off = (if re_failedAttempts input = 0 then 0
    else re_retryDays input ! (re_failedAttempts input - 1))"
  have el: "day_of (re_businessDate input) - day_of (re_dueDate input) < off \<longleftrightarrow>
      startOfUtcDay (re_businessDate input) < startOfUtcDay (re_dueDate input) + off * day_ms"
    unfolding s by auto
  show ?thesis
    unfolding retryDecision_def nextAttemptDate_def isFinalAttempt_def Let_def
      off_def [symmetric] s daysBetween_days
    using el [unfolded s] by auto
qed

end
