(* ===== verification/Allocation.thy ===== *)
theory Allocation
  imports Calendar
begin

text \<open>
  Where a payment goes (\<open>packages/core/billing/allocation.ts\<close>): claims in the facility's order of
  categories, oldest first, paid from the front until the money runs out. The loop is an instance
  of the greedy split and the order an instance of the comparator contract.
\<close>

datatype allocation_category = Tax | Fee | Protection | Rent

definition ALLOCATION_CATEGORIES :: "allocation_category list" where
  "ALLOCATION_CATEGORIES = [Tax, Fee, Protection, Rent]"

definition DEFAULT_ALLOCATION_ORDER :: "allocation_category list" where
  "DEFAULT_ALLOCATION_ORDER = [Tax, Fee, Protection, Rent]"

text \<open>The categories in the order the code lists them.\<close>

fun category_rank :: "allocation_category \<Rightarrow> nat" where
  "category_rank Tax = 0"
| "category_rank Fee = 1"
| "category_rank Protection = 2"
| "category_rank Rent = 3"

lemma category_rank_inj: "category_rank a = category_rank b \<Longrightarrow> a = b"
  by (cases a; cases b) simp_all

instantiation allocation_category :: linorder
begin

definition less_eq_allocation_category :: "allocation_category \<Rightarrow> allocation_category \<Rightarrow> bool" where
  "less_eq_allocation_category a b \<longleftrightarrow> category_rank a \<le> category_rank b"

definition less_allocation_category :: "allocation_category \<Rightarrow> allocation_category \<Rightarrow> bool" where
  "less_allocation_category a b \<longleftrightarrow> category_rank a < category_rank b"

instance
  by intro_classes (auto simp: less_eq_allocation_category_def less_allocation_category_def
      intro: category_rank_inj)

end

record allocation_target =
  at_invoiceId :: string
  at_category :: allocation_category
  at_outstandingCents :: cents
  at_dueDate :: date

record allocation_line =
  al_invoiceId :: string
  al_category :: allocation_category
  al_amountCents :: cents

record allocation_result =
  ar_lines :: "allocation_line list"
  ar_unappliedCents :: cents

definition isAllocationCategory :: "string \<Rightarrow> allocation_category option" where
  "isAllocationCategory value = map_of [(''tax'', Tax), (''fee'', Fee), (''protection'', Protection),
    (''rent'', Rent)] value"

text \<open>\<open>new Map(order.map((category, index) => [category, index]))\<close>: a repeated category keeps its
  last index; a missing one is ranked behind all.\<close>

definition rank_in :: "allocation_category list \<Rightarrow> allocation_category \<Rightarrow> int" where
  "rank_in order category = int (or_else
    (map_of (rev (zip order [0..<length order])) category) (length order))"

definition claim_order :: "allocation_category list \<Rightarrow> allocation_target \<Rightarrow> allocation_target \<Rightarrow> int" where
  "claim_order order a b = (
    let byCategory = rank_in order (at_category a) - rank_in order (at_category b) in
    if byCategory \<noteq> 0 then byCategory
    else let byDate = at_dueDate a - at_dueDate b in
      if byDate \<noteq> 0 then byDate else localeCompare (at_invoiceId a) (at_invoiceId b))"

definition claim_line :: "allocation_target \<Rightarrow> cents \<Rightarrow> allocation_line" where
  "claim_line claim applied = \<lparr>al_invoiceId = at_invoiceId claim, al_category = at_category claim,
    al_amountCents = applied\<rparr>"

fun pay_claims :: "cents \<Rightarrow> allocation_target list \<Rightarrow> allocation_line list \<times> cents" where
  "pay_claims remaining [] = ([], remaining)"
| "pay_claims remaining (claim # claims) =
    (if remaining \<le> 0 then ([], remaining)
     else let applied = min remaining (at_outstandingCents claim);
              (lines, rest) = pay_claims (remaining - applied) claims
       in (claim_line claim applied # lines, rest))"

definition sorted_claims :: "allocation_target list \<Rightarrow> allocation_category list \<Rightarrow> allocation_target list" where
  "sorted_claims targets order =
    sort_by (claim_order order) (filter (\<lambda>target. 0 < at_outstandingCents target) targets)"

definition allocatePayment ::
  "cents \<Rightarrow> allocation_target list \<Rightarrow> allocation_category list \<Rightarrow> allocation_result"
where
  "allocatePayment amountCents targets order =
    (if amountCents \<le> 0 then \<lparr>ar_lines = [], ar_unappliedCents = max 0 amountCents\<rparr>
     else let (lines, remaining) = pay_claims amountCents (sorted_claims targets order)
       in \<lparr>ar_lines = lines, ar_unappliedCents = remaining\<rparr>)"

definition byInvoice :: "allocation_line list \<Rightarrow> (string \<times> cents) list" where
  "byInvoice lines = tally al_invoiceId al_amountCents lines"

fun category_label :: "allocation_category \<Rightarrow> string" where
  "category_label Tax = ''Tax''"
| "category_label Fee = ''Fees''"
| "category_label Protection = ''Protection plan''"
| "category_label Rent = ''Rent''"

definition describeAllocation :: "allocation_line list \<Rightarrow> (string \<times> cents) list" where
  "describeAllocation lines = (let totals = tally al_category al_amountCents lines in
    map (\<lambda>category. (category_label category, or_else (map_of totals category) 0))
      (filter (\<lambda>category. 0 < or_else (map_of totals category) 0) ALLOCATION_CATEGORIES))"

section \<open>Lemmas\<close>

lemma claim_order_then_by:
  "claim_order order = then_by (by_key (\<lambda>a. rank_in order (at_category a)))
    (then_by (by_key at_dueDate) (\<lambda>a b. localeCompare (at_invoiceId a) (at_invoiceId b)))"
  by (intro ext) (simp add: claim_order_def then_by_def by_key_def Let_def)

interpretation claim_order: sign_comparator "claim_order order" for order
  unfolding claim_order_then_by
  by (intro then_by_comparator by_key_comparator localeCompare_comparator)

text \<open>On the claims that owe something the loop is the greedy split.\<close>

interpretation payment: greedy at_outstandingCents al_amountCents
  "\<lambda>r cs. pay_claims r (filter (\<lambda>c. 0 < at_outstandingCents c) cs)" claim_line
proof unfold_locales
  fix r c cs
  show "r \<le> 0 \<Longrightarrow> pay_claims r (filter (\<lambda>c. 0 < at_outstandingCents c) (c # cs)) = ([], r)"
    by (cases "filter (\<lambda>c. 0 < at_outstandingCents c) (c # cs)") auto
qed (auto simp: claim_line_def Let_def)

lemma sorted_claims_pos: "c \<in> set (sorted_claims targets order) \<Longrightarrow> 0 < at_outstandingCents c"
  by (auto simp: sorted_claims_def)

lemma filter_sorted_claims [simp]:
  "filter (\<lambda>c. 0 < at_outstandingCents c) (sorted_claims targets order) = sorted_claims targets order"
  by (simp add: filter_id_conv sorted_claims_pos)

lemma set_sorted_claims:
  "set (sorted_claims targets order) = {c \<in> set targets. 0 < at_outstandingCents c}"
  by (simp add: sorted_claims_def)

lemma allocatePayment_pay:
  "0 < amount \<Longrightarrow> ar_lines (allocatePayment amount targets order) =
      fst (pay_claims amount (sorted_claims targets order))"
  "0 < amount \<Longrightarrow> ar_unappliedCents (allocatePayment amount targets order) =
      snd (pay_claims amount (sorted_claims targets order))"
  by (simp_all add: allocatePayment_def split_def Let_def)

lemmas payment_facts =
  payment.run_conserves [where cs = "sorted_claims targets order" for targets order, simplified]
  payment.run_rest_eq [where cs = "sorted_claims targets order" for targets order, simplified]
  payment.run_amounts [where cs = "sorted_claims targets order" for targets order, simplified]

text \<open>The description by category loses nothing.\<close>

lemma describeAllocation_sum:
  assumes "\<And>l. l \<in> set lines \<Longrightarrow> 0 \<le> al_amountCents l"
  shows "sum_by snd (describeAllocation lines) = sum_by al_amountCents lines"
proof -
  let ?t = "\<lambda>c. sum_by al_amountCents (filter (\<lambda>l. al_category l = c) lines)"
  have nn: "0 \<le> ?t c" for c using assms by (intro sum_by_nonneg) auto
  have "sum_by snd (describeAllocation lines) = ?t Tax + ?t Fee + ?t Protection + ?t Rent"
    using nn [of Tax] nn [of Fee] nn [of Protection] nn [of Rent]
    by (auto simp: describeAllocation_def Let_def tally_get ALLOCATION_CATEGORIES_def)
  also have "\<dots> = sum_by al_amountCents lines"
  proof (induction lines)
    case (Cons l ls)
    then show ?case by (cases "al_category l") auto
  qed simp
  finally show ?thesis .
qed

section \<open>Properties\<close>

text \<open>
  No money is lost or made up: what the lines hand out and what stays unapplied are the
  payment; money stays unapplied only after every claim is paid in full; and each line pays a
  positive amount to a claim that owes at least that much.
\<close>

theorem allocatePayment_conserves:
  assumes "0 \<le> amount"
  shows "sum_by al_amountCents (ar_lines (allocatePayment amount targets order))
      + ar_unappliedCents (allocatePayment amount targets order) = amount
    \<and> ar_unappliedCents (allocatePayment amount targets order) =
      max 0 (amount - sum_by (\<lambda>c. max 0 (at_outstandingCents c)) targets)
    \<and> (\<forall>l \<in> set (ar_lines (allocatePayment amount targets order)). 0 < al_amountCents l
      \<and> (\<exists>c \<in> set targets. at_invoiceId c = al_invoiceId l \<and> at_category c = al_category l
          \<and> al_amountCents l \<le> at_outstandingCents c))"
proof (cases "0 < amount")
  case True
  have "sum_by (\<lambda>c. max 0 (at_outstandingCents c)) (sorted_claims targets order) =
      sum_by (\<lambda>c. max 0 (at_outstandingCents c)) targets"
    unfolding sorted_claims_def sum_by_sort_by
    by (induction targets) auto
  moreover have "0 < al_amountCents l \<and> (\<exists>c \<in> set targets. at_invoiceId c = al_invoiceId l
      \<and> at_category c = al_category l \<and> al_amountCents l \<le> at_outstandingCents c)"
    if "l \<in> set (fst (pay_claims amount (sorted_claims targets order)))" for l
    using payment_facts(3) [OF that] by (auto simp: claim_line_def set_sorted_claims)
  ultimately show ?thesis
    using True assms payment_facts(1,2) [of amount targets order]
    by (simp add: allocatePayment_pay)
next
  case False
  then have "amount = 0" using assms by simp
  moreover have "0 \<le> sum_by (\<lambda>c. max 0 (at_outstandingCents c)) targets"
    by (rule sum_by_nonneg) simp
  ultimately show ?thesis by (simp add: allocatePayment_def)
qed

definition claims_example :: "allocation_target list" where
  "claims_example = [
    \<lparr>at_invoiceId = ''b2'', at_category = Rent, at_outstandingCents = 12900, at_dueDate = utc 2026 6 1\<rparr>,
    \<lparr>at_invoiceId = ''b2'', at_category = Tax, at_outstandingCents = 806, at_dueDate = utc 2026 6 1\<rparr>,
    \<lparr>at_invoiceId = ''a1'', at_category = Rent, at_outstandingCents = 12900, at_dueDate = utc 2026 5 1\<rparr>]"

theorem allocatePayment_conserves_witness:
  "ar_unappliedCents (allocatePayment 30000 claims_example DEFAULT_ALLOCATION_ORDER) = 3394"
  using allocatePayment_conserves [of 30000 claims_example DEFAULT_ALLOCATION_ORDER]
  by (simp add: claims_example_def)



text \<open>
  The result is reproducible and its summaries account for all of it: the order in which the
  claims are read does not change the allocation when no invoice has two claims of one category
  due the same day; the per-invoice rows have one row per invoice and sum to the lines; and the
  per-category description sums to the lines too.
\<close>

theorem allocatePayment_reproducible:
  assumes "mset targets = mset targets'"
    and "\<forall>a \<in> set targets. \<forall>b \<in> set targets. at_invoiceId a = at_invoiceId b
      \<and> at_category a = at_category b \<and> at_dueDate a = at_dueDate b \<longrightarrow> a = b"
    and "set order = set ALLOCATION_CATEGORIES"
  shows "allocatePayment amount targets order = allocatePayment amount targets' order
    \<and> distinct (map fst (byInvoice (ar_lines (allocatePayment amount targets order))))
    \<and> sum_by snd (byInvoice (ar_lines (allocatePayment amount targets order))) =
        sum_by al_amountCents (ar_lines (allocatePayment amount targets order))
    \<and> sum_by snd (describeAllocation (ar_lines (allocatePayment amount targets order))) =
        sum_by al_amountCents (ar_lines (allocatePayment amount targets order))"
proof -
  have rank: "a = b" if "rank_in order a = rank_in order b" for a b
  proof -
    have m: "\<exists>i < length order. map_of (rev (zip order [0..<length order])) c = Some i \<and> order ! i = c" for c
    proof -
      have "c \<in> set order" using assms(3) by (cases c) (auto simp: ALLOCATION_CATEGORIES_def)
      then have "map_of (rev (zip order [0..<length order])) c \<noteq> None"
        by (simp add: map_of_eq_None_iff) (metis in_set_conv_nth in_set_zip fst_conv length_upt
            diff_zero image_eqI nth_zip in_set_impl_in_set_zip1)
      then obtain i where i: "map_of (rev (zip order [0..<length order])) c = Some i" by auto
      then have "(c, i) \<in> set (zip order [0..<length order])" by (auto dest: map_of_SomeD)
      then show ?thesis using i by (auto simp: in_set_zip)
    qed
    obtain i where "map_of (rev (zip order [0..<length order])) a = Some i" "order ! i = a"
      using m [of a] by auto
    moreover obtain j where "map_of (rev (zip order [0..<length order])) b = Some j" "order ! j = b"
      using m [of b] by auto
    ultimately show ?thesis using that by (simp add: rank_in_def)
  qed
  have "a = b" if "a \<in> set targets" "b \<in> set targets"
    "claim_order order a b \<le> 0" "claim_order order b a \<le> 0" for a b
  proof -
    have "claim_order order a b = 0"
      by (rule then_by_le_antisym [OF claim_order.sign_comparator_axioms that(3,4)])
    then have "at_category a = at_category b" "at_dueDate a = at_dueDate b" "at_invoiceId a = at_invoiceId b"
      using rank by (auto simp: claim_order_def Let_def split: if_splits)
    then show ?thesis using assms(2) that(1,2) by blast
  qed
  then have "sorted_claims targets order = sorted_claims targets' order"
    unfolding sorted_claims_def by (intro claim_order.sort_by_permutation) (auto simp: assms(1))
  then have "allocatePayment amount targets order = allocatePayment amount targets' order"
    by (simp add: allocatePayment_def)
  moreover have "0 \<le> al_amountCents l" if "l \<in> set (ar_lines (allocatePayment amount targets order))" for l
    using that payment_facts(3) [of l amount targets order]
    by (cases "0 < amount") (force simp: allocatePayment_pay claim_line_def, simp add: allocatePayment_def)
  ultimately show ?thesis by (simp add: byInvoice_def describeAllocation_sum)
qed

theorem allocatePayment_reproducible_witness:
  "allocatePayment 13000 claims_example DEFAULT_ALLOCATION_ORDER =
    allocatePayment 13000 (rev claims_example) DEFAULT_ALLOCATION_ORDER"
  using allocatePayment_reproducible [of claims_example "rev claims_example" DEFAULT_ALLOCATION_ORDER 13000]
  by (simp add: claims_example_def DEFAULT_ALLOCATION_ORDER_def ALLOCATION_CATEGORIES_def)

end
