(* ===== verification/Ledger.thy ===== *)
theory Ledger
  imports Schedule
begin

text \<open>
  The tenant's ledger and the documents derived from it: running balances, open items, totals and
  reconciliation (\<open>packages/core/billing/ledger.ts\<close>), monthly statements
  (\<open>packages/core/billing/statements.ts\<close>) and the itemized claim of a lien notice
  (\<open>packages/core/notices/claim.ts\<close>). Explanations for people are constructors.
\<close>

section \<open>ledger.ts\<close>

datatype ledger_kind = Charge | Payment | Credit | Refund | Adjustment | Write_off

record ledger_row =
  lr_id :: string
  lr_kind :: ledger_kind
  lr_description :: string
  lr_occurredAt :: date
  lr_amountCents :: cents
  lr_invoiceNumber :: "string option"

record ledger_line = ledger_row +
  ll_balanceCents :: cents

definition row_order :: "('a ledger_row_scheme) \<Rightarrow> ('a ledger_row_scheme) \<Rightarrow> int" where
  "row_order a b = (let byTime = lr_occurredAt a - lr_occurredAt b in
    if byTime \<noteq> 0 then byTime else localeCompare (lr_id a) (lr_id b))"

definition with_balance :: "ledger_row \<Rightarrow> cents \<Rightarrow> ledger_line" where
  "with_balance row balance = ledger_row.extend row (ledger_line.fields balance)"

fun balances :: "cents \<Rightarrow> ledger_row list \<Rightarrow> ledger_line list" where
  "balances balance [] = []"
| "balances balance (row # rows) = (let balance' = balance + lr_amountCents row in
    with_balance row balance' # balances balance' rows)"

definition runningBalance :: "ledger_row list \<Rightarrow> ledger_line list" where
  "runningBalance rows = balances 0 (sort_by row_order rows)"

text \<open>The search from the end of \<open>openItems\<close>: \<open>index\<close> counts down, \<open>Suc index\<close> lines are left to look at.\<close>

fun after_last_square :: "ledger_line list \<Rightarrow> nat \<Rightarrow> ledger_line list" where
  "after_last_square lines 0 = lines"
| "after_last_square lines (Suc index) =
    (if ll_balanceCents (lines ! index) \<le> 0 then drop (index + 1) lines
     else after_last_square lines index)"

definition openItems :: "ledger_row list \<Rightarrow> ledger_line list" where
  "openItems rows = (let lines = runningBalance rows in
    if length lines = 0 \<or> ll_balanceCents (lines ! (length lines - 1)) \<le> 0 then []
    else after_last_square lines (length lines))"

record ledger_totals =
  lt_chargedCents :: cents
  lt_paidCents :: cents
  lt_creditedCents :: cents
  lt_refundedCents :: cents
  lt_writtenOffCents :: cents
  lt_balanceCents :: cents

definition totals_step :: "ledger_totals \<Rightarrow> ledger_row \<Rightarrow> ledger_totals" where
  "totals_step t row = (
    let totals = t\<lparr>lt_balanceCents := lt_balanceCents t + lr_amountCents row\<rparr> in
    case lr_kind row of
      Charge \<Rightarrow> totals\<lparr>lt_chargedCents := lt_chargedCents totals + lr_amountCents row\<rparr>
    | Payment \<Rightarrow> totals\<lparr>lt_paidCents := lt_paidCents totals + - lr_amountCents row\<rparr>
    | Credit \<Rightarrow> totals\<lparr>lt_creditedCents := lt_creditedCents totals + - lr_amountCents row\<rparr>
    | Refund \<Rightarrow> totals\<lparr>lt_refundedCents := lt_refundedCents totals + lr_amountCents row\<rparr>
    | Write_off \<Rightarrow> totals\<lparr>lt_writtenOffCents := lt_writtenOffCents totals + - lr_amountCents row\<rparr>
    | Adjustment \<Rightarrow> totals)"

definition ledgerTotals :: "ledger_row list \<Rightarrow> ledger_totals" where
  "ledgerTotals rows = foldl totals_step \<lparr>lt_chargedCents = 0, lt_paidCents = 0, lt_creditedCents = 0,
    lt_refundedCents = 0, lt_writtenOffCents = 0, lt_balanceCents = 0\<rparr> rows"

datatype reconciliation_text = Matches | Ledger_shows_more | Invoices_show_more

record reconciliation =
  rc_reconciles :: bool
  rc_differenceCents :: cents
  rc_explanation :: reconciliation_text

definition reconcile :: "cents \<Rightarrow> cents \<Rightarrow> cents \<Rightarrow> reconciliation" where
  "reconcile ledgerBalanceCents invoiceOutstandingCents uninvoicedChargeCents = (
    let expected = invoiceOutstandingCents + uninvoicedChargeCents;
        difference = ledgerBalanceCents - expected
    in if difference = 0
       then \<lparr>rc_reconciles = True, rc_differenceCents = 0, rc_explanation = Matches\<rparr>
       else \<lparr>rc_reconciles = False, rc_differenceCents = difference,
         rc_explanation = (if 0 < difference then Ledger_shows_more else Invoices_show_more)\<rparr>)"

section \<open>statements.ts\<close>

record statement_line =
  sl_amountCents :: cents
  sl_type :: ledger_kind
  sl_description :: string
  sl_occurredAt :: date

record statement_period =
  sp_start :: date
  sp_end :: date

record statement_totals =
  st_chargedCents :: cents
  st_paidCents :: cents
  st_creditedCents :: cents
  st_refundedCents :: cents
  st_writtenOffCents :: cents
  st_adjustedCents :: cents

record statement =
  sm_period :: statement_period
  sm_openingBalanceCents :: cents
  sm_closingBalanceCents :: cents
  sm_lines :: "statement_line list"
  sm_totals :: statement_totals

definition sumOf :: "statement_line list \<Rightarrow> ledger_kind \<Rightarrow> cents" where
  "sumOf lines ty = sum_by sl_amountCents (filter (\<lambda>line. sl_type line = ty) lines)"

definition buildStatement :: "statement_period \<Rightarrow> cents \<Rightarrow> statement_line list \<Rightarrow> statement" where
  "buildStatement period openingBalanceCents input_lines = (
    let lines = sort_by (by_key sl_occurredAt) input_lines;
        movement = sum_by sl_amountCents lines;
        totals = \<lparr>st_chargedCents = sumOf lines Charge, st_paidCents = - sumOf lines Payment,
          st_creditedCents = - sumOf lines Credit, st_refundedCents = sumOf lines Refund,
          st_writtenOffCents = - sumOf lines Write_off, st_adjustedCents = sumOf lines Adjustment\<rparr>
    in \<lparr>sm_period = period, sm_openingBalanceCents = openingBalanceCents,
        sm_closingBalanceCents = openingBalanceCents + movement, sm_lines = lines,
        sm_totals = totals\<rparr>)"

definition reconciles :: "statement \<Rightarrow> bool" where
  "reconciles s = (let movement = sum_by sl_amountCents (sm_lines s) in
    sm_openingBalanceCents s + movement = sm_closingBalanceCents s)"

function months_loop :: "int \<Rightarrow> int \<Rightarrow> int \<Rightarrow> int \<Rightarrow> (int \<times> int) list" where
  "months_loop lastYear lastMonth year month =
    (if year < lastYear \<or> (year = lastYear \<and> month \<le> lastMonth)
     then (year, month + 1) #
       (if 11 < month + 1 then months_loop lastYear lastMonth (year + 1) 0
        else months_loop lastYear lastMonth year (month + 1))
     else [])"
  by auto
termination
proof (relation "measures [\<lambda>(lastYear, lastMonth, year, month). nat (lastYear + 1 - year),
    \<lambda>(lastYear, lastMonth, year, month). nat (12 - month)]", goal_cases)
  case (3 lastYear lastMonth year month)
  then show ?case by auto
qed auto

declare months_loop.simps [simp del]

definition statementMonths :: "date \<Rightarrow> date option \<Rightarrow> date \<Rightarrow> (int \<times> int) list" where
  "statementMonths startDate endDate now = (let lst = or_else endDate now in
    rev (months_loop (utc_full_year lst) (utc_month lst) (utc_full_year startDate) (utc_month startDate)))"

definition monthBounds :: "int \<Rightarrow> int \<Rightarrow> zone \<Rightarrow> statement_period" where
  "monthBounds year month z = \<lparr>sp_start = zonedMidnight year month 1 z,
    sp_end = (if month = 12 then zonedMidnight (year + 1) 1 1 z else zonedMidnight year (month + 1) 1 z)\<rparr>"

section \<open>claim.ts\<close>

record claim_line =
  cl_ledgerEntryId :: string
  cl_accruedAt :: date
  cl_description :: string
  cl_invoiceNumber :: "string option"
  cl_amountCents :: cents

record lien_claim =
  lc_lines :: "claim_line list"
  lc_totalCents :: cents
  lc_oldestAccrualAt :: "date option"

datatype claim_problem =
  Nothing_owed bool
| Claim_does_not_sum cents cents
| Ledger_does_not_reconcile reconciliation

type_synonym claim_result = "claim_problem + lien_claim"

definition buildClaim :: "ledger_row list \<Rightarrow> claim_result" where
  "buildClaim rows = (let totals = ledgerTotals rows in
    if lt_balanceCents totals \<le> 0 then Inl (Nothing_owed (lt_balanceCents totals = 0))
    else
      let lines = map (\<lambda>row. \<lparr>cl_ledgerEntryId = lr_id row, cl_accruedAt = lr_occurredAt row,
            cl_description = lr_description row, cl_invoiceNumber = lr_invoiceNumber row,
            cl_amountCents = lr_amountCents row\<rparr>) (sort_by row_order rows);
          summed = sum_by cl_amountCents lines
      in if summed \<noteq> lt_balanceCents totals then Inl (Claim_does_not_sum (lt_balanceCents totals) summed)
      else let oldestUnpaidCharge = find (\<lambda>line. 0 < cl_amountCents line) lines
      in Inr \<lparr>lc_lines = lines, lc_totalCents = lt_balanceCents totals,
        lc_oldestAccrualAt = map_option cl_accruedAt oldestUnpaidCharge\<rparr>)"

definition claimForNotice :: "ledger_row list \<Rightarrow> cents \<Rightarrow> cents \<Rightarrow> claim_result" where
  "claimForNotice rows invoiceOutstandingCents uninvoicedChargeCents = (
    case buildClaim rows of
      Inl p \<Rightarrow> Inl p
    | Inr claim \<Rightarrow>
        let r = reconcile (lc_totalCents claim) invoiceOutstandingCents uninvoicedChargeCents
        in if \<not> rc_reconciles r then Inl (Ledger_does_not_reconcile r) else Inr claim)"

section \<open>Lemmas\<close>

lemma row_order_then_by:
  "row_order = then_by (by_key lr_occurredAt) (\<lambda>a b. localeCompare (lr_id a) (lr_id b))"
  by (intro ext) (simp add: row_order_def then_by_def by_key_def Let_def)

interpretation row_order: sign_comparator "row_order :: 'a ledger_row_scheme \<Rightarrow> 'a ledger_row_scheme \<Rightarrow> int"
  unfolding row_order_then_by
  by (intro then_by_comparator by_key_comparator localeCompare_comparator)

lemma row_order_antisym: "row_order a b \<le> 0 \<Longrightarrow> row_order b a \<le> 0 \<Longrightarrow> lr_id a = lr_id b"
  using then_by_le_antisym [OF row_order.sign_comparator_axioms, of a b]
  by (auto simp: row_order_def Let_def split: if_splits)

lemma with_balance_sel [simp]:
  "lr_id (with_balance row b) = lr_id row" "lr_kind (with_balance row b) = lr_kind row"
  "lr_occurredAt (with_balance row b) = lr_occurredAt row"
  "lr_amountCents (with_balance row b) = lr_amountCents row"
  "ll_balanceCents (with_balance row b) = b"
  "ledger_row.truncate (with_balance row b) = row"
  by (simp_all add: with_balance_def ledger_row.defs ledger_line.defs)

lemma balances_length [simp]: "length (balances b rows) = length rows"
  by (induction rows arbitrary: b) (auto simp: Let_def)

lemma balances_truncate [simp]: "map ledger_row.truncate (balances b rows) = rows"
  by (induction rows arbitrary: b) (auto simp: Let_def)

lemma balances_nth:
  "i < length rows \<Longrightarrow> ll_balanceCents (balances b rows ! i) = b + sum_by lr_amountCents (take (Suc i) rows)"
  "i < length rows \<Longrightarrow> lr_amountCents (balances b rows ! i) = lr_amountCents (rows ! i)"
  by (induction rows arbitrary: b i) (auto simp: Let_def nth_Cons split: nat.splits)

lemma balances_amounts: "map lr_amountCents (balances b rows) = map lr_amountCents rows"
  by (induction rows arbitrary: b) (auto simp: Let_def)

lemma totals_fold:
  "lt_balanceCents (foldl totals_step t rows) = lt_balanceCents t + sum_by lr_amountCents rows
  \<and> lt_chargedCents (foldl totals_step t rows) - lt_paidCents (foldl totals_step t rows)
    - lt_creditedCents (foldl totals_step t rows) + lt_refundedCents (foldl totals_step t rows)
    - lt_writtenOffCents (foldl totals_step t rows)
    = lt_chargedCents t - lt_paidCents t - lt_creditedCents t + lt_refundedCents t
    - lt_writtenOffCents t + sum_by lr_amountCents (filter (\<lambda>r. lr_kind r \<noteq> Adjustment) rows)"
proof (induction rows arbitrary: t)
  case (Cons row rows)
  show ?case
    using Cons.IH [of "totals_step t row"]
    by (cases "lr_kind row") (auto simp: totals_step_def Let_def)
qed simp

lemma ledgerTotals_balance [simp]: "lt_balanceCents (ledgerTotals rows) = sum_by lr_amountCents rows"
  using totals_fold by (simp add: ledgerTotals_def)

text \<open>The window of \<open>openItems\<close>: a suffix that starts after the last line at which nothing was owed.\<close>

lemma after_last_square:
  "n \<le> length ls \<Longrightarrow> \<exists>k \<le> n. after_last_square ls n = drop k ls
    \<and> (\<forall>i < n. k \<le> i \<longrightarrow> 0 < ll_balanceCents (ls ! i))
    \<and> (k = 0 \<or> ll_balanceCents (ls ! (k - 1)) \<le> 0)"
proof (induction n)
  case (Suc n)
  show ?case
  proof (cases "ll_balanceCents (ls ! n) \<le> 0")
    case True
    then show ?thesis using Suc.prems by (intro exI [of _ "Suc n"]) auto
  next
    case False
    obtain k where "k \<le> n" "after_last_square ls n = drop k ls"
      "\<forall>i < n. k \<le> i \<longrightarrow> 0 < ll_balanceCents (ls ! i)" "k = 0 \<or> ll_balanceCents (ls ! (k - 1)) \<le> 0"
      using Suc by auto
    then show ?thesis using False by (intro exI [of _ k]) (auto simp: less_Suc_eq)
  qed
qed simp

text \<open>The balance the account stood at when its open window began.\<close>

definition carried_into_window :: "ledger_row list \<Rightarrow> cents" where
  "carried_into_window rows = (let lines = runningBalance rows; k = length lines - length (openItems rows)
    in if k = 0 then 0 else ll_balanceCents (lines ! (k - 1)))"

lemma runningBalance_facts:
  "length (runningBalance rows) = length rows"
  "i < length rows \<Longrightarrow> ll_balanceCents (runningBalance rows ! i) =
    sum_by lr_amountCents (take (Suc i) (sort_by row_order rows))"
  "map lr_amountCents (runningBalance rows) = map lr_amountCents (sort_by row_order rows)"
  by (simp_all add: runningBalance_def balances_nth balances_amounts)

lemma openItems_window:
  assumes "0 < sum_by lr_amountCents rows"
  obtains k where "k < length rows" "openItems rows = drop k (runningBalance rows)"
    "\<And>i. k \<le> i \<Longrightarrow> i < length rows \<Longrightarrow> 0 < ll_balanceCents (runningBalance rows ! i)"
    "k = 0 \<or> ll_balanceCents (runningBalance rows ! (k - 1)) \<le> 0"
proof -
  let ?ls = "runningBalance rows"
  have ne: "rows \<noteq> []" using assms by auto
  then have last: "ll_balanceCents (?ls ! (length rows - 1)) = sum_by lr_amountCents rows"
    by (simp add: runningBalance_facts)
  have "?ls \<noteq> []" using ne by (metis length_0_conv runningBalance_facts(1))
  then have "openItems rows = after_last_square ?ls (length rows)"
    using ne last assms by (simp add: openItems_def Let_def runningBalance_facts(1))
  moreover obtain k where k: "k \<le> length rows" "after_last_square ?ls (length rows) = drop k ?ls"
    "\<forall>i < length rows. k \<le> i \<longrightarrow> 0 < ll_balanceCents (?ls ! i)"
    "k = 0 \<or> ll_balanceCents (?ls ! (k - 1)) \<le> 0"
    using after_last_square [of "length rows" ?ls] by (auto simp: runningBalance_facts(1))
  moreover have "k < length rows"
    using k last assms ne by (cases "k = length rows") auto
  ultimately show thesis using that [of k] by auto
qed

lemma openItems_sum_carried:
  assumes "0 < sum_by lr_amountCents rows"
  shows "sum_by lr_amountCents (openItems rows) = sum_by lr_amountCents rows - carried_into_window rows"
    and "carried_into_window rows \<le> 0"
proof -
  obtain k where k: "k < length rows" "openItems rows = drop k (runningBalance rows)"
    "k = 0 \<or> ll_balanceCents (runningBalance rows ! (k - 1)) \<le> 0"
    using openItems_window [OF assms] by metis
  have len: "length (runningBalance rows) - length (openItems rows) = k"
    using k by (simp add: runningBalance_facts(1))
  have cw: "carried_into_window rows = (if k = 0 then 0 else ll_balanceCents (runningBalance rows ! (k - 1)))"
    unfolding carried_into_window_def Let_def len ..
  have c: "carried_into_window rows = sum_by lr_amountCents (take k (sort_by row_order rows))"
    using k(1) by (cases k) (simp_all add: cw runningBalance_facts(2))
  have "sum_by lr_amountCents (openItems rows) = sum_list (drop k (map lr_amountCents (sort_by row_order rows)))"
    by (simp only: k(2) drop_map [symmetric] runningBalance_facts(3))
  also have "\<dots> = sum_by lr_amountCents rows - carried_into_window rows"
  proof -
    have "sum_list (take k xs) + sum_list (drop k xs) = sum_list xs" for xs :: "int list"
      by (metis append_take_drop_id sum_list_append)
    from this [of "map lr_amountCents (sort_by row_order rows)"] show ?thesis
      by (simp add: c take_map)
  qed
  finally show "sum_by lr_amountCents (openItems rows) = sum_by lr_amountCents rows - carried_into_window rows" .
  show "carried_into_window rows \<le> 0"
    using k(3) by (auto simp: cw)
qed

lemma sumOf_partition:
  "sum_by sl_amountCents lines = sumOf lines Charge + sumOf lines Payment + sumOf lines Credit
    + sumOf lines Refund + sumOf lines Write_off + sumOf lines Adjustment"
proof (induction lines)
  case (Cons l ls)
  then show ?case by (cases "sl_type l") (auto simp: sumOf_def)
qed (simp add: sumOf_def)

text \<open>The months of a lease in closed form, by month index.\<close>

lemma months_loop_eq:
  "months_loop (e div 12) (e mod 12) (i div 12) (i mod 12) =
    map (\<lambda>k. (k div 12, k mod 12 + 1)) [i..(e :: int)]"
proof (induction "nat (e + 1 - i)" arbitrary: i)
  case 0
  then have "e < i" by simp
  then have "(i div 12 < e div 12 \<or> i div 12 = e div 12 \<and> i mod 12 \<le> e mod 12) = False"
    unfolding div_mod_lex [OF zero_less_numeral] by simp
  then show ?case using \<open>e < i\<close> by (subst months_loop.simps) (simp only: if_False upto_empty list.map)
next
  case (Suc n)
  then have le: "i \<le> e" by simp
  have ih: "months_loop (e div 12) (e mod 12) ((i + 1) div 12) ((i + 1) mod 12) =
      map (\<lambda>k. (k div 12, k mod 12 + 1)) [i + 1..e]"
    using Suc.hyps(2) by (intro Suc.hyps(1)) simp
  have "(if 11 < i mod 12 + 1 then months_loop (e div 12) (e mod 12) (i div 12 + 1) 0
      else months_loop (e div 12) (e mod 12) (i div 12) (i mod 12 + 1)) =
      months_loop (e div 12) (e mod 12) ((i + 1) div 12) ((i + 1) mod 12)"
  proof -
    have "11 < i mod 12 + 1 \<longleftrightarrow> i mod 12 = 11" using pos_mod_bound [of 12 i] by linarith
    then show ?thesis unfolding next_month by (simp only: if_split) simp
  qed
  then show ?case
    using le ih by (subst months_loop.simps)
      (simp only: div_mod_lex [OF zero_less_numeral] if_True upto.simps [of i e] list.map simp_thms)
qed

lemma statementMonths_eq:
  "statementMonths s e now = rev (map (\<lambda>k. (k div 12, k mod 12 + 1))
    [month_index s..month_index (or_else e now)])"
proof -
  have "utc_full_year t = month_index t div 12" "utc_month t = month_index t mod 12" for t
    by (simp_all add: month_index_eq utc_full_year_def utc_month_def)
  then show ?thesis by (simp add: statementMonths_def Let_def months_loop_eq)
qed

lemma find_map_first:
  "(\<forall>x \<in> set pre. \<not> P (f x)) \<Longrightarrow> P (f y) \<Longrightarrow> find P (map f (pre @ y # post)) = Some (f y)"
  by (induction pre) auto

section \<open>Properties\<close>

text \<open>
  The ledger tells one story: the running balance of each line is the sum of the amounts up to
  it in time order (no amount re-signed, no row lost), the last one is the total's balance, the
  totals by kind account for the balance up to adjustments, and reading the same rows in another
  order gives the same ledger when row ids are unique.
\<close>

theorem runningBalance_correct:
  assumes "mset rows' = mset rows" and "inj_on lr_id (set rows)"
  shows "mset (map ledger_row.truncate (runningBalance rows)) = mset rows
    \<and> sorted_wrt (\<lambda>a b. row_order a b \<le> 0) (map ledger_row.truncate (runningBalance rows))
    \<and> (\<forall>i < length rows. ll_balanceCents (runningBalance rows ! i) =
        sum_by lr_amountCents (take (Suc i) (runningBalance rows)))
    \<and> (rows = [] \<or> ll_balanceCents (last (runningBalance rows)) = lt_balanceCents (ledgerTotals rows))
    \<and> lt_balanceCents (ledgerTotals rows) = lt_chargedCents (ledgerTotals rows)
        - lt_paidCents (ledgerTotals rows) - lt_creditedCents (ledgerTotals rows)
        + lt_refundedCents (ledgerTotals rows) - lt_writtenOffCents (ledgerTotals rows)
        + sum_by lr_amountCents (filter (\<lambda>r. lr_kind r = Adjustment) rows)
    \<and> runningBalance rows' = runningBalance rows"
proof -
  let ?ls = "runningBalance rows"
  have tr: "map ledger_row.truncate ?ls = sort_by row_order rows" by (simp add: runningBalance_def)
  have pre: "ll_balanceCents (?ls ! i) = sum_by lr_amountCents (take (Suc i) ?ls)"
    if "i < length rows" for i
    using that by (simp add: runningBalance_facts take_map [symmetric])
  have "ll_balanceCents (last ?ls) = sum_by lr_amountCents rows" if "rows \<noteq> []"
  proof -
    have "?ls \<noteq> []" using that by (metis length_0_conv runningBalance_facts(1))
    then have "last ?ls = ?ls ! (length rows - 1)" by (simp add: last_conv_nth runningBalance_facts(1))
    then show ?thesis using that by (simp add: runningBalance_facts(2))
  qed
  moreover have "sort_by row_order rows' = sort_by row_order rows"
    using assms(1) mset_eq_setD [OF assms(1)] inj_onD [OF assms(2)] row_order_antisym
    by (intro row_order.sort_by_permutation) blast+
  moreover have "lt_balanceCents (ledgerTotals rows) = lt_chargedCents (ledgerTotals rows)
      - lt_paidCents (ledgerTotals rows) - lt_creditedCents (ledgerTotals rows)
      + lt_refundedCents (ledgerTotals rows) - lt_writtenOffCents (ledgerTotals rows)
      + sum_by lr_amountCents (filter (\<lambda>r. lr_kind r = Adjustment) rows)"
    using totals_fold [where rows = rows and t = "\<lparr>lt_chargedCents = 0, lt_paidCents = 0,
        lt_creditedCents = 0, lt_refundedCents = 0, lt_writtenOffCents = 0, lt_balanceCents = 0\<rparr>"]
      sum_by_partition [of lr_amountCents rows "\<lambda>r. lr_kind r = Adjustment"]
    by (simp add: ledgerTotals_def [symmetric])
  ultimately show ?thesis
    using pre row_order.sorted_sort_by [of rows] by (auto simp: tr runningBalance_def)
qed

definition ledger_example :: "ledger_row list" where
  "ledger_example = [
    \<lparr>lr_id = ''a'', lr_kind = Payment, lr_description = ''Payment'', lr_occurredAt = utc 2026 6 3,
     lr_amountCents = - 17900, lr_invoiceNumber = None\<rparr>,
    \<lparr>lr_id = ''b'', lr_kind = Charge, lr_description = ''Invoice 000001'', lr_occurredAt = utc 2026 6 1,
     lr_amountCents = 12900, lr_invoiceNumber = Some ''000001''\<rparr>,
    \<lparr>lr_id = ''c'', lr_kind = Charge, lr_description = ''Invoice 000002'', lr_occurredAt = utc 2026 7 1,
     lr_amountCents = 12900, lr_invoiceNumber = Some ''000002''\<rparr>]"

theorem runningBalance_correct_witness:
  "runningBalance (rev ledger_example) = runningBalance ledger_example"
proof -
  have "inj_on lr_id (set ledger_example)" by (auto simp: ledger_example_def inj_on_def)
  from runningBalance_correct [OF _ this, of "rev ledger_example"] show ?thesis by simp
qed

text \<open>
  C19. What the pay screen itemises: nothing when nothing is owed; otherwise the last lines of the
  ledger, as many as follow the last moment the account was square or in credit, and these lines
  sum to the balance less what was carried into the window. They sum to the balance itself exactly
  when the account stood at zero there, which a credit balance carried in falsifies.
\<close>

theorem openItems_explain_balance:
  "(sum_by lr_amountCents rows \<le> 0 \<longrightarrow> openItems rows = [])
   \<and> (0 < sum_by lr_amountCents rows \<longrightarrow>
      openItems rows \<noteq> []
      \<and> openItems rows = drop (length rows - length (openItems rows)) (runningBalance rows)
      \<and> (\<forall>l \<in> set (openItems rows). 0 < ll_balanceCents l)
      \<and> carried_into_window rows \<le> 0
      \<and> sum_by lr_amountCents (openItems rows) = sum_by lr_amountCents rows - carried_into_window rows
      \<and> (sum_by lr_amountCents (openItems rows) = sum_by lr_amountCents rows
          \<longleftrightarrow> carried_into_window rows = 0))"
proof (cases "0 < sum_by lr_amountCents rows")
  case True
  obtain k where k: "k < length rows" "openItems rows = drop k (runningBalance rows)"
    "\<And>i. k \<le> i \<Longrightarrow> i < length rows \<Longrightarrow> 0 < ll_balanceCents (runningBalance rows ! i)"
    using openItems_window [OF True] by metis
  have "0 < ll_balanceCents l" if member: "l \<in> set (openItems rows)" for l
  proof -
    obtain j where "j < length (openItems rows)" "openItems rows ! j = l"
      using member unfolding in_set_conv_nth by blast
    then show ?thesis using k(1) k(3) [of "k + j"] by (simp add: k(2) runningBalance_facts(1))
  qed
  moreover have "length rows - length (openItems rows) = k" "openItems rows \<noteq> []"
    using k(1) by (simp_all add: k(2) runningBalance_facts(1))
  ultimately show ?thesis
    using True k(2) openItems_sum_carried [OF True] by auto
next
  case False
  have "openItems rows = []"
  proof (cases "rows = []")
    case True
    then show ?thesis by (simp add: openItems_def runningBalance_def)
  next
    case ne: False
    then have "ll_balanceCents (runningBalance rows ! (length rows - 1)) = sum_by lr_amountCents rows"
      by (simp add: runningBalance_facts(2))
    then show ?thesis using False by (simp add: openItems_def Let_def runningBalance_facts(1))
  qed
  then show ?thesis using False by simp
qed

theorem openItems_explain_balance_witness:
  "sum_by lr_amountCents (openItems ledger_example) = 12900
    \<and> sum_by lr_amountCents ledger_example = 7900"
proof -
  have c: "carried_into_window ledger_example = - 5000" by code_simp
  have b: "sum_by lr_amountCents ledger_example = 7900" by (simp add: ledger_example_def)
  show ?thesis using openItems_explain_balance [of ledger_example] by (simp add: b c)
qed

text \<open>
  Statements of months that follow one another chain without a gap: when each statement is
  opened with the sum of the rows before its period and given the rows of its period, its closing
  balance is the sum of the rows before the next period, it reconciles, its totals account for the
  whole movement, the months of a lease are the consecutive calendar months from its start to its
  end, newest first, and the bounds of a month end where the next month's begin.
\<close>

theorem statements_chain:
  assumes "sp_start p \<le> sp_end p"
  shows "sm_closingBalanceCents (buildStatement p
      (sum_by sl_amountCents (filter (\<lambda>l. sl_occurredAt l < sp_start p) rows))
      (filter (\<lambda>l. sp_start p \<le> sl_occurredAt l \<and> sl_occurredAt l < sp_end p) rows))
    = sum_by sl_amountCents (filter (\<lambda>l. sl_occurredAt l < sp_end p) rows)
    \<and> reconciles (buildStatement p opening ls)
    \<and> (let t = sm_totals (buildStatement p opening ls) in
        sm_closingBalanceCents (buildStatement p opening ls) - opening =
        st_chargedCents t - st_paidCents t - st_creditedCents t + st_refundedCents t
        - st_writtenOffCents t + st_adjustedCents t)
    \<and> statementMonths s e now = rev (map (\<lambda>k. (k div 12, k mod 12 + 1))
        [month_index s..month_index (or_else e now)])
    \<and> sp_end (monthBounds (k div 12) (k mod 12 + 1) z) =
      sp_start (monthBounds ((k + 1) div 12) ((k + 1) mod 12 + 1) z)"
proof -
  have "sum_by sl_amountCents (filter (\<lambda>l. sl_occurredAt l < sp_end p) rows) =
      sum_by sl_amountCents (filter (\<lambda>l. sl_occurredAt l < sp_start p) rows) +
      sum_by sl_amountCents (filter (\<lambda>l. sp_start p \<le> sl_occurredAt l \<and> sl_occurredAt l < sp_end p) rows)"
    using assms by (induction rows) auto
  moreover have "sp_end (monthBounds (k div 12) (k mod 12 + 1) z) =
      sp_start (monthBounds ((k + 1) div 12) ((k + 1) mod 12 + 1) z)"
    by (simp add: monthBounds_def next_month)
  moreover have "reconciles (buildStatement p opening ls)"
    by (simp add: buildStatement_def reconciles_def Let_def)
  moreover have "(let t = sm_totals (buildStatement p opening ls) in
        sm_closingBalanceCents (buildStatement p opening ls) - opening =
        st_chargedCents t - st_paidCents t - st_creditedCents t + st_refundedCents t
        - st_writtenOffCents t + st_adjustedCents t)"
    using sumOf_partition [of "sort_by (by_key sl_occurredAt) ls"]
    by (simp add: buildStatement_def Let_def)
  moreover have "sm_closingBalanceCents (buildStatement p a ls) = a + sum_by sl_amountCents ls" for a ls
    by (simp add: buildStatement_def Let_def)
  ultimately show ?thesis
    using statementMonths_eq [of s e now] by (simp only: simp_thms)
qed

theorem statements_chain_witness:
  "sp_end (monthBounds 2026 12 (\<lambda>_. 0)) = sp_start (monthBounds 2027 1 (\<lambda>_. 0))"
  using statements_chain [of "\<lparr>sp_start = 0, sp_end = 1\<rparr>" "[]" 0 "[]" 0 None 0 "2026 * 12 + 11" "\<lambda>_. 0"]
  by simp

text \<open>
  A lien notice states a claim only when the record supports it: the gate succeeds exactly
  when money is owed and the ledger agrees with the invoices plus the uninvoiced charges; the
  claim then itemizes every ledger row once, in time order and with its sign, and its total is
  the sum of its lines and the ledger balance. The check that the lines sum never fails.
\<close>

theorem claimForNotice_correct:
  "(case claimForNotice rows outstanding un of
      Inr claim \<Rightarrow> 0 < sum_by lr_amountCents rows \<and> sum_by lr_amountCents rows = outstanding + un
        \<and> lc_totalCents claim = sum_by lr_amountCents rows
        \<and> sum_by cl_amountCents (lc_lines claim) = lc_totalCents claim
        \<and> map cl_ledgerEntryId (lc_lines claim) = map lr_id (sort_by row_order rows)
        \<and> map cl_amountCents (lc_lines claim) = map lr_amountCents (sort_by row_order rows)
        \<and> (\<exists>row \<in> set rows. 0 < lr_amountCents row \<and> lc_oldestAccrualAt claim = Some (lr_occurredAt row)
            \<and> (\<forall>r \<in> set rows. 0 < lr_amountCents r \<longrightarrow> lr_occurredAt row \<le> lr_occurredAt r))
    | Inl (Nothing_owed zero) \<Rightarrow> sum_by lr_amountCents rows \<le> 0 \<and> (zero \<longleftrightarrow> sum_by lr_amountCents rows = 0)
    | Inl (Claim_does_not_sum _ _) \<Rightarrow> False
    | Inl (Ledger_does_not_reconcile r) \<Rightarrow> sum_by lr_amountCents rows \<noteq> outstanding + un
        \<and> rc_differenceCents r = sum_by lr_amountCents rows - (outstanding + un))"
proof (cases "0 < sum_by lr_amountCents rows")
  case True
  define ls where "ls = map (\<lambda>row. \<lparr>cl_ledgerEntryId = lr_id row, cl_accruedAt = lr_occurredAt row,
    cl_description = lr_description row, cl_invoiceNumber = lr_invoiceNumber row,
    cl_amountCents = lr_amountCents row\<rparr>) (sort_by row_order rows)"
  have amounts: "map cl_amountCents ls = map lr_amountCents (sort_by row_order rows)"
    and ids: "map cl_ledgerEntryId ls = map lr_id (sort_by row_order rows)"
    by (simp_all add: ls_def)
  have sum: "sum_by cl_amountCents ls = sum_by lr_amountCents rows" unfolding amounts by simp
  have "\<exists>r \<in> set rows. 0 < lr_amountCents r"
  proof (rule ccontr)
    assume "\<not> (\<exists>r \<in> set rows. 0 < lr_amountCents r)"
    then have "sum_by lr_amountCents rows \<le> sum_by (\<lambda>_. 0) rows" by (intro sum_by_mono) auto
    then show False using True by simp
  qed
  then obtain pre row post where split: "sort_by row_order rows = pre @ row # post"
    "0 < lr_amountCents row" "\<forall>r \<in> set pre. \<not> 0 < lr_amountCents r"
    using split_list_first_prop [of "sort_by row_order rows" "\<lambda>r. 0 < lr_amountCents r"] by auto
  have find: "map_option cl_accruedAt (find (\<lambda>line. 0 < cl_amountCents line) ls) = Some (lr_occurredAt row)"
    unfolding ls_def split(1) by (subst find_map_first) (use split(2,3) in simp_all)
  have mem: "row \<in> set rows" using split(1) by (metis in_set_conv_decomp set_sort_by)
  have first: "lr_occurredAt row \<le> lr_occurredAt r" if r: "r \<in> set rows" "0 < lr_amountCents r" for r
  proof -
    have "r \<in> set (pre @ row # post)" using r(1) split(1) by (metis set_sort_by)
    then consider "r = row" | "r \<in> set post" using split(3) r(2) by auto
    then show ?thesis
    proof cases
      case 2
      have "sorted_wrt (\<lambda>a b. row_order a b \<le> 0) (pre @ row # post)"
        using row_order.sorted_sort_by [of rows] by (simp only: split(1))
      then have "row_order row r \<le> 0" using 2 by (simp add: sorted_wrt_append)
      then show ?thesis by (auto simp: row_order_def Let_def split: if_splits)
    qed simp
  qed
  have "buildClaim rows = Inr \<lparr>lc_lines = ls, lc_totalCents = sum_by lr_amountCents rows,
      lc_oldestAccrualAt = Some (lr_occurredAt row)\<rparr>"
    unfolding buildClaim_def Let_def ls_def [symmetric] find using True sum by simp
  then show ?thesis
    using True sum amounts ids mem first split(2)
    by (auto simp: claimForNotice_def reconcile_def Let_def)
next
  case False
  then show ?thesis by (auto simp: claimForNotice_def buildClaim_def Let_def)
qed

theorem claimForNotice_correct_witness:
  "claimForNotice ledger_example 7900 0 \<noteq> Inl (Claim_does_not_sum 7900 7900)"
  using claimForNotice_correct [of ledger_example 7900 0] by auto

end
