(* ===== verification/PaymentPlans.thy ===== *)
theory PaymentPlans
  imports Calendar
begin

text \<open>
  Payment plans (\<open>packages/core/payment-plans/schedule.ts\<close>): the rules a proposed schedule must
  satisfy, the schedule the form suggests, and the status of each installment, derived from the
  cumulative amount paid.

  Amounts of a proposed schedule are numbers (\<open>rat\<close>), since the check asks whether they are
  integers. A start date typed into the form is its three numbers, 0 where the text has none;
  \<open>addMonths\<close> hands such a text back unchanged, which is \<open>None\<close>.
\<close>

record installment =
  in_dueDate :: date
  in_amountCents :: rat

datatype plan_problem_text =
  No_installments
| Too_many_installments
| Nothing_past_due
| Beyond_max_days int
| Amount_not_positive
| Date_not_future
| Dates_out_of_order
| Total_mismatch rat cents

record plan_problem =
  pp_index :: "nat option"
  pp_problem :: plan_problem_text

definition MAX_INSTALLMENTS :: nat where
  "MAX_INSTALLMENTS = 6"

definition plan_wide :: "plan_problem_text \<Rightarrow> plan_problem" where
  "plan_wide t = \<lparr>pp_index = None, pp_problem = t\<rparr>"

definition at_row :: "nat \<Rightarrow> plan_problem_text \<Rightarrow> plan_problem" where
  "at_row i t = \<lparr>pp_index = Some i, pp_problem = t\<rparr>"

fun check_rows :: "date \<Rightarrow> nat \<Rightarrow> date option \<Rightarrow> installment list \<Rightarrow> plan_problem list" where
  "check_rows createdAt index lastDueDate [] = []"
| "check_rows createdAt index lastDueDate (x # xs) =
    (if \<not> is_integer (in_amountCents x) \<or> in_amountCents x \<le> 0
     then [at_row index Amount_not_positive] else [])
    @ (if in_dueDate x \<le> createdAt then [at_row index Date_not_future] else [])
    @ (case lastDueDate of None \<Rightarrow> []
       | Some d \<Rightarrow> if in_dueDate x \<le> d then [at_row index Dates_out_of_order] else [])
    @ check_rows createdAt (index + 1) (Some (in_dueDate x)) xs"

definition latest_due :: "installment list \<Rightarrow> date" where
  "latest_due xs = foldl (\<lambda>latest x. if latest < in_dueDate x then in_dueDate x else latest) 0 xs"

definition validateSchedule ::
  "installment list \<Rightarrow> cents \<Rightarrow> date \<Rightarrow> int option \<Rightarrow> plan_problem list"
where
  "validateSchedule installments totalCents createdAt maxDays =
    (if installments = [] then [plan_wide No_installments]
     else if totalCents \<le> 0 then [plan_wide Nothing_past_due]
     else
      (if MAX_INSTALLMENTS < length installments then [plan_wide Too_many_installments] else [])
      @ (case maxDays of None \<Rightarrow> []
         | Some n \<Rightarrow> if 0 < n \<and> createdAt + n * 86400000 < latest_due installments
             then [plan_wide (Beyond_max_days n)] else [])
      @ check_rows createdAt 0 None installments
      @ (let total = sum_list (map in_amountCents installments) in
         if total \<noteq> of_int totalCents then [plan_wide (Total_mismatch total totalCents)] else []))"

text \<open>\<open>problemsByRow\<close> joins the messages of a row with spaces; here a row's messages are a list.\<close>

definition problemsByRow :: "plan_problem list \<Rightarrow> int list \<Rightarrow> (int \<rightharpoonup> plan_problem_text list)" where
  "problemsByRow problems rows = foldl (\<lambda>byRow p. case pp_index p of
      None \<Rightarrow> byRow
    | Some index \<Rightarrow> if index < length rows
        then byRow(rows ! index \<mapsto> or_else (byRow (rows ! index)) [] @ [pp_problem p]) else byRow)
    Map.empty problems"

definition isAutoCollecting :: "bool \<Rightarrow> bool \<Rightarrow> bool \<Rightarrow> bool" where
  "isAutoCollecting autoCollect autopayEnabled hasSavedCard =
    (autoCollect \<and> autopayEnabled \<and> hasSavedCard)"

datatype installment_status = Paid | Upcoming | Late | Missed

record installment_view =
  iv_installment :: installment
  iv_position :: int
  iv_status :: installment_status
  iv_graceEndsOn :: date

fun views_from :: "rat \<Rightarrow> date \<Rightarrow> int \<Rightarrow> int \<Rightarrow> installment list \<Rightarrow> installment_view list" where
  "views_from remaining asOf graceDays index [] = []"
| "views_from remaining asOf graceDays index (x # xs) = (
    let covered = in_amountCents x \<le> remaining;
        remaining' = (if covered then remaining - in_amountCents x else 0);
        graceEndsOn = in_dueDate x + max 0 graceDays * 86400000;
        status = (if covered then Paid else if graceEndsOn < asOf then Missed
          else if in_dueDate x < asOf then Late else Upcoming)
    in \<lparr>iv_installment = x, iv_position = index + 1, iv_status = status,
        iv_graceEndsOn = graceEndsOn\<rparr> # views_from remaining' asOf graceDays (index + 1) xs)"

definition installmentViews :: "installment list \<Rightarrow> cents \<Rightarrow> date \<Rightarrow> int \<Rightarrow> installment_view list" where
  "installmentViews installments paidSincePlanStartCents asOf graceDays =
    views_from (of_int (max 0 paidSincePlanStartCents)) asOf graceDays 0
      (sort_by (by_key in_dueDate) installments)"

definition isBreached :: "installment list \<Rightarrow> cents \<Rightarrow> date \<Rightarrow> bool" where
  "isBreached installments paidSincePlanStartCents asOf =
    list_ex (\<lambda>view. iv_status view = Missed) (installmentViews installments paidSincePlanStartCents asOf 0)"

definition isFullyPaid :: "installment list \<Rightarrow> cents \<Rightarrow> bool" where
  "isFullyPaid installments paidSincePlanStartCents =
    (if length installments = 0 then False
     else sum_list (map in_amountCents installments) \<le> of_int paidSincePlanStartCents)"

definition addMonths :: "int \<times> int \<times> int \<Rightarrow> int \<Rightarrow> date option" where
  "addMonths startDate months = (case startDate of (year, month, day) \<Rightarrow>
    if year = 0 \<or> month = 0 \<or> day = 0 then None
    else let lastDay = utc_date (utc year (month - 1 + months + 1) 0)
      in Some (utc year (month - 1 + months) (min day lastDay)))"

definition evenSchedule :: "cents \<Rightarrow> int \<Rightarrow> int \<times> int \<times> int \<Rightarrow> (date option \<times> cents) list" where
  "evenSchedule totalCents rows_asked startDate = (
    let n = max 1 (min (min rows_asked (int MAX_INSTALLMENTS)) totalCents);
        each = totalCents div n
    in map (\<lambda>i. (addMonths startDate (int i),
        if int i = n - 1 then totalCents - each * (n - 1) else each)) [0..<nat n])"

section \<open>Lemmas\<close>

lemma addMonths_eq:
  assumes "y \<noteq> 0" and "m \<noteq> 0" and "1 \<le> d"
  shows "addMonths (y, m, d) k =
    Some (utc 0 (12 * y + m - 1 + k) (min d (days_in_month (12 * y + m - 1 + k))))"
proof -
  have "utc y (m - 1 + k + 1) 0 = utc y (m - 1 + k) (days_in_month (12 * y + (m - 1 + k)))"
    by (simp add: utc_def days_in_month_def algebra_simps)
  moreover have "utc_date (utc y (m - 1 + k) (days_in_month (12 * y + (m - 1 + k)))) =
      days_in_month (12 * y + (m - 1 + k))"
    using days_in_month(1) [of "12 * y + (m - 1 + k)"] by (intro utc_fields) simp_all
  ultimately show ?thesis
    using assms by (simp add: addMonths_def Let_def utc_def [of y] utc_def [of 0] algebra_simps)
qed

lemma utc_month_mono:
  assumes "i < j" and "d \<le> days_in_month i" and "1 \<le> d'"
  shows "utc 0 i d < utc 0 j d'"
proof -
  have "month_day (i + 1) \<le> month_day j" using assms(1) by (intro month_day_mono) simp
  then show ?thesis using assms(2,3) by (simp add: utc_def days_in_month_def)
qed

lemma addMonths_mono:
  assumes "y \<noteq> 0" and "m \<noteq> 0" and "1 \<le> d" and "i < j"
  obtains s t where "addMonths (y, m, d) i = Some s" "addMonths (y, m, d) j = Some t" "s < t"
  using utc_month_mono [of "12 * y + m - 1 + i" "12 * y + m - 1 + j"
      "min d (days_in_month (12 * y + m - 1 + i))" "min d (days_in_month (12 * y + m - 1 + j))"]
    assms days_in_month(1) [of "12 * y + m - 1 + j"]
  by (simp add: addMonths_eq)

lemma check_rows_ok:
  assumes "\<And>x. x \<in> set xs \<Longrightarrow> is_integer (in_amountCents x) \<and> 0 < in_amountCents x \<and> c < in_dueDate x"
    and "sorted_wrt (\<lambda>x y. in_dueDate x < in_dueDate y) xs"
    and "\<And>d x. prev = Some d \<Longrightarrow> x \<in> set xs \<Longrightarrow> d < in_dueDate x"
  shows "check_rows c i prev xs = []"
  using assms
proof (induction xs arbitrary: i prev)
  case (Cons x xs)
  have "check_rows c (i + 1) (Some (in_dueDate x)) xs = []"
    using Cons.prems by (intro Cons.IH) auto
  moreover have "d < in_dueDate x" if "prev = Some d" for d using Cons.prems(3) [OF that] by simp
  ultimately show ?case using Cons.prems(1) [of x] by (auto simp: not_le split: option.splits)
qed simp

lemma check_rows_Nil:
  "check_rows c i prev xs = [] \<Longrightarrow>
    (\<forall>x \<in> set xs. is_integer (in_amountCents x) \<and> 0 < in_amountCents x \<and> c < in_dueDate x)
    \<and> sorted_wrt (\<lambda>x y. in_dueDate x < in_dueDate y) xs
    \<and> (\<forall>d. prev = Some d \<longrightarrow> (\<forall>x \<in> set xs. d < in_dueDate x))"
proof (induction xs arbitrary: i prev)
  case (Cons x xs)
  then have "check_rows c (i + 1) (Some (in_dueDate x)) xs = []" by simp
  from Cons.IH [OF this] Cons.prems show ?case
    by (auto simp: not_le split: if_splits option.splits)
qed simp

lemma sum_take_pos:
  fixes f :: "'a \<Rightarrow> rat"
  assumes "\<And>x. x \<in> set xs \<Longrightarrow> 0 < f x" and "xs \<noteq> []"
  shows "0 < sum_list (map f (take (Suc j) xs))"
proof (cases xs)
  case (Cons y ys)
  have "0 \<le> f x" if "x \<in> set (take j ys)" for x
    using assms(1) [of x] in_set_takeD [OF that] Cons by simp
  then have "0 \<le> sum_list (map f (take j ys))" by (intro sum_list_nonneg) auto
  then show ?thesis using assms(1) [of y] Cons by simp
qed (use assms(2) in simp)

text \<open>The statuses: an installment is paid when the cumulative payments reach it.\<close>

lemma views_from_nth:
  assumes "\<And>x. x \<in> set xs \<Longrightarrow> 0 < in_amountCents x" and "0 \<le> r" and "i < length xs"
  shows "iv_installment (views_from r a g k xs ! i) = xs ! i"
    and "iv_status (views_from r a g k xs ! i) =
      (if sum_list (map in_amountCents (take (Suc i) xs)) \<le> r then Paid
       else if in_dueDate (xs ! i) + max 0 g * 86400000 < a then Missed
       else if in_dueDate (xs ! i) < a then Late else Upcoming)"
proof -
  have "iv_installment (views_from r a g k xs ! i) = xs ! i \<and>
    iv_status (views_from r a g k xs ! i) =
      (if sum_list (map in_amountCents (take (Suc i) xs)) \<le> r then Paid
       else if in_dueDate (xs ! i) + max 0 g * 86400000 < a then Missed
       else if in_dueDate (xs ! i) < a then Late else Upcoming)"
    using assms
  proof (induction xs arbitrary: r i k)
    case (Cons x xs)
    have pos: "0 < in_amountCents x" and rest: "\<And>y. y \<in> set xs \<Longrightarrow> 0 < in_amountCents y"
      using Cons.prems(1) by simp_all
    show ?case
    proof (cases i)
      case 0
      then show ?thesis by (simp add: Let_def)
    next
      case (Suc j)
      have j: "j < length xs" using Cons.prems(3) Suc by simp
      show ?thesis
      proof (cases "in_amountCents x \<le> r")
        case True
        then show ?thesis
          using Cons.IH [OF rest _ j, of "r - in_amountCents x" "k + 1"] Suc
          by (simp add: Let_def algebra_simps)
      next
        case False
        have "0 < sum_list (map in_amountCents (take (Suc j) xs))"
          using rest j by (intro sum_take_pos) auto
        moreover have "\<not> in_amountCents x + sum_list (map in_amountCents (take (Suc j) xs)) \<le> r"
          using False calculation by simp
        ultimately show ?thesis
          using Cons.IH [OF rest _ j, of 0 "k + 1"] Suc False by (simp add: Let_def)
      qed
    qed
  qed simp
  then show "iv_installment (views_from r a g k xs ! i) = xs ! i"
    and "iv_status (views_from r a g k xs ! i) =
      (if sum_list (map in_amountCents (take (Suc i) xs)) \<le> r then Paid
       else if in_dueDate (xs ! i) + max 0 g * 86400000 < a then Missed
       else if in_dueDate (xs ! i) < a then Late else Upcoming)" by simp_all
qed

lemma views_from_length [simp]: "length (views_from r a g k xs) = length xs"
  by (induction xs arbitrary: r k) (auto simp: Let_def)

definition by_date :: "installment list \<Rightarrow> installment list" where
  "by_date installments = sort_by (by_key in_dueDate) installments"

lemma installmentViews_status:
  assumes "\<forall>x \<in> set xs. 0 < in_amountCents x" and "i < length xs"
  shows "iv_status (installmentViews xs paid asOf g ! i) =
    (if sum_list (map in_amountCents (take (Suc i) (by_date xs))) \<le> of_int (max 0 paid) then Paid
     else if in_dueDate (by_date xs ! i) + max 0 g * 86400000 < asOf then Missed
     else if in_dueDate (by_date xs ! i) < asOf then Late else Upcoming)"
  unfolding installmentViews_def by_date_def
  by (rule views_from_nth(2)) (use assms in auto)

lemma installmentViews_length [simp]: "length (installmentViews xs paid asOf g) = length xs"
  by (simp add: installmentViews_def)

lemma isBreached_iff:
  assumes "\<forall>x \<in> set xs. 0 < in_amountCents x"
  shows "isBreached xs paid asOf \<longleftrightarrow> (\<exists>i < length xs. in_dueDate (by_date xs ! i) < asOf
    \<and> of_int (max 0 paid) < sum_list (map in_amountCents (take (Suc i) (by_date xs))))"
proof -
  have "isBreached xs paid asOf \<longleftrightarrow>
      (\<exists>i < length xs. iv_status (installmentViews xs paid asOf 0 ! i) = Missed)"
    by (auto simp: isBreached_def list_ex_length)
  also have "\<dots> \<longleftrightarrow> (\<exists>i < length xs. in_dueDate (by_date xs ! i) < asOf
      \<and> of_int (max 0 paid) < sum_list (map in_amountCents (take (Suc i) (by_date xs))))"
    by (rule ex_cong) (auto simp: installmentViews_status [OF assms] not_le split: if_splits)
  finally show ?thesis .
qed

lemma sum_list_by_date: "sum_list (map in_amountCents (by_date xs)) = sum_list (map in_amountCents xs)"
  unfolding by_date_def by (metis mset_map mset_sort_by sum_mset_sum_list)

section \<open>Properties\<close>

text \<open>
  The schedule the form fills in is one the rules accept: for an amount past due, a start day
  that is on the calendar and in the future of the agreement, and at least one installment, it
  has no problem at all: positive amounts that sum to the total, at most six, at strictly later
  dates, month by month, also from the 29th, 30th or 31st.
\<close>

theorem evenSchedule_accepted:
  assumes "0 < totalCents" and "1 \<le> rows_asked" and "y \<noteq> 0" and "1 \<le> m" and "m \<le> 12" and "1 \<le> d"
    and "addMonths (y, m, d) 0 = Some first" and "createdAt < first"
  shows "validateSchedule (map (\<lambda>(due, amount). \<lparr>in_dueDate = the due, in_amountCents = of_int amount\<rparr>)
      (evenSchedule totalCents rows_asked (y, m, d))) totalCents createdAt None = []"
proof -
  define n where "n = max 1 (min (min rows_asked (int MAX_INSTALLMENTS)) totalCents)"
  define each where "each = totalCents div n"
  define row where "row = (\<lambda>i. \<lparr>in_dueDate = the (addMonths (y, m, d) (int i)),
    in_amountCents = (of_int (if int i = n - 1 then totalCents - each * (n - 1) else each) :: rat)\<rparr>)"
  have n: "1 \<le> n" "n \<le> int MAX_INSTALLMENTS" "n \<le> totalCents"
    using assms(1,2) by (auto simp: n_def MAX_INSTALLMENTS_def)
  have e: "1 \<le> each" "each * n \<le> totalCents"
  proof -
    have "n div n \<le> totalCents div n" using n by (intro zdiv_mono1) simp_all
    then show "1 \<le> each" using n(1) by (simp add: each_def)
    show "each * n \<le> totalCents"
      using div_bounds(1) [of n totalCents] n(1) by (simp add: each_def mult.commute)
  qed
  let ?xs = "map row [0..<nat n]"
  have xs: "map (\<lambda>(due, amount). \<lparr>in_dueDate = the due, in_amountCents = of_int amount\<rparr>)
      (evenSchedule totalCents rows_asked (y, m, d)) = ?xs"
    unfolding evenSchedule_def Let_def n_def [symmetric] each_def [symmetric] row_def
    by (simp only: list.map_comp o_def split_conv option.sel)
  have due: "in_dueDate (row i) < in_dueDate (row j)" if ij: "i < j" for i j
  proof -
    have "m \<noteq> 0" "int i < int j" using assms(4) ij by simp_all
    then obtain s t where "addMonths (y, m, d) (int i) = Some s" "addMonths (y, m, d) (int j) = Some t" "s < t"
      using addMonths_mono [OF assms(3) _ assms(6)] by blast
    then show ?thesis by (simp add: row_def)
  qed
  have first: "createdAt < in_dueDate (row i)" for i
    using due [of 0 i] assms(7,8) by (cases i) (auto simp: row_def)
  have amount: "is_integer (in_amountCents (row i)) \<and> 0 < in_amountCents (row i)" for i
  proof -
    have "0 < (if int i = n - 1 then totalCents - each * (n - 1) else each)"
      using e by (auto simp: right_diff_distrib)
    then show ?thesis
      unfolding row_def by (simp only: installment.select_convs is_integer_of_int of_int_0_less_iff)
  qed
  have "sum_list (map in_amountCents ?xs) = of_int totalCents"
  proof -
    define k where "k = nat (n - 1)"
    have k: "nat n = Suc k" "n = int k + 1" using n(1) by (simp_all add: k_def)
    have "map (\<lambda>i. in_amountCents (row i)) [0..<k] = map (\<lambda>_. of_int each) [0..<k]"
      using k(2) by (auto simp: row_def)
    then have "sum_list (map (\<lambda>i. in_amountCents (row i)) [0..<k]) = of_nat k * of_int each"
      by (simp only: map_replicate_const sum_list_replicate) simp
    moreover have "in_amountCents (row k) = of_int (totalCents - each * int k)"
      using k(2) by (simp add: row_def)
    ultimately show ?thesis using k(1) by (simp add: o_def)
  qed
  moreover have "check_rows createdAt 0 None ?xs = []"
    using first amount by (intro check_rows_ok) (auto simp: sorted_wrt_map intro: due
        sorted_wrt_mono_rel [OF _ sorted_wrt_upt])
  ultimately show ?thesis
    using assms(1) n unfolding xs by (simp add: validateSchedule_def Let_def)
qed

theorem evenSchedule_accepted_witness:
  "validateSchedule (map (\<lambda>(due, amount). \<lparr>in_dueDate = the due, in_amountCents = of_int amount\<rparr>)
      (evenSchedule 183742 6 (2026, 1, 31))) 183742 (utc 2026 0 15) None = []"
proof -
  have a: "addMonths (2026, 1, 31) 0 = Some (utc 2026 0 31)" by code_simp
  have b: "utc 2026 0 15 < utc 2026 0 31" by code_simp
  show ?thesis
    by (rule evenSchedule_accepted [of 183742 6 2026 1 31 "utc 2026 0 31" "utc 2026 0 15"])
      (use a b in simp_all)
qed

text \<open>
  An agreed plan is kept or broken by cumulative payments alone. For a schedule the rules
  accept: its installments are whole positive amounts at strictly increasing dates that add up to
  the total; an installment shows as paid exactly when the payments since the plan started reach
  the sum of it and all earlier ones; the plan is fully paid exactly when every installment shows
  as paid, and then it is not breached on any date; and a breach stays a breach as days pass and
  is never caused by paying more.
\<close>

theorem plan_status_correct:
  assumes ok: "validateSchedule xs totalCents createdAt maxDays = []"
    and "paid \<le> paid'" and "asOf \<le> asOf'"
  shows "sum_list (map in_amountCents xs) = of_int totalCents
    \<and> sorted_wrt (\<lambda>x y. in_dueDate x < in_dueDate y) xs \<and> length xs \<le> MAX_INSTALLMENTS
    \<and> (\<forall>i < length xs. iv_status (installmentViews xs paid asOf g ! i) = Paid \<longleftrightarrow>
        sum_list (map in_amountCents (take (Suc i) xs)) \<le> of_int (max 0 paid))
    \<and> (isFullyPaid xs paid \<longleftrightarrow> (\<forall>v \<in> set (installmentViews xs paid asOf g). iv_status v = Paid))
    \<and> \<not> (isFullyPaid xs paid \<and> isBreached xs paid asOf)
    \<and> (isBreached xs paid' asOf \<longrightarrow> isBreached xs paid asOf')"
proof -
  have ne: "xs \<noteq> []" and tot: "0 < totalCents" and len: "length xs \<le> MAX_INSTALLMENTS"
    and rows: "check_rows createdAt 0 None xs = []"
    and sum: "sum_list (map in_amountCents xs) = of_int totalCents"
    using ok by (auto simp: validateSchedule_def Let_def split: if_splits)
  have pos: "\<forall>x \<in> set xs. 0 < in_amountCents x"
    and asc: "sorted_wrt (\<lambda>x y. in_dueDate x < in_dueDate y) xs"
    using check_rows_Nil [OF rows] by auto
  have "sorted_wrt (\<lambda>x y. by_key in_dueDate x y \<le> 0) xs"
    by (rule sorted_wrt_mono_rel [OF _ asc]) (simp add: by_key_def)
  then have bd: "by_date xs = xs" unfolding by_date_def by (rule by_key.sort_by_sorted)
  note status = installmentViews_status [OF pos, unfolded bd]
  have each: "iv_status (installmentViews xs paid asOf g ! i) = Paid \<longleftrightarrow>
      sum_list (map in_amountCents (take (Suc i) xs)) \<le> of_int (max 0 paid)" if "i < length xs" for i
    by (simp add: status that)
  have mono: "sum_list (map in_amountCents (take (Suc i) xs)) \<le> of_int totalCents" for i
  proof -
    have "0 \<le> in_amountCents x" if "x \<in> set (drop (Suc i) xs)" for x
      using pos in_set_dropD [OF that] by (auto intro: less_imp_le)
    then have "0 \<le> sum_list (map in_amountCents (drop (Suc i) xs))" by (intro sum_list_nonneg) auto
    moreover have "sum_list (map in_amountCents (take (Suc i) xs)) +
        sum_list (map in_amountCents (drop (Suc i) xs)) = sum_list (map in_amountCents xs)"
      by (metis append_take_drop_id map_append sum_list_append)
    ultimately show ?thesis using sum by simp
  qed
  have full: "isFullyPaid xs paid \<longleftrightarrow> totalCents \<le> paid" using ne by (simp add: isFullyPaid_def sum)
  have reach: "sum_list (map in_amountCents (take (Suc i) xs)) \<le> of_int (max 0 paid)"
    if "totalCents \<le> paid" for i
  proof -
    have "(of_int totalCents :: rat) \<le> of_int (max 0 paid)" using that by simp
    then show ?thesis using mono [of i] by (rule order_trans [rotated])
  qed
  have all: "isFullyPaid xs paid \<longleftrightarrow> (\<forall>v \<in> set (installmentViews xs paid asOf g). iv_status v = Paid)"
  proof
    assume "isFullyPaid xs paid"
    then show "\<forall>v \<in> set (installmentViews xs paid asOf g). iv_status v = Paid"
      using reach full each by (auto simp: in_set_conv_nth)
  next
    assume "\<forall>v \<in> set (installmentViews xs paid asOf g). iv_status v = Paid"
    then have "iv_status (installmentViews xs paid asOf g ! (length xs - 1)) = Paid" using ne by simp
    then have "sum_list (map in_amountCents xs) \<le> of_int (max 0 paid)"
      using each [of "length xs - 1"] ne by simp
    then have "totalCents \<le> max 0 paid" unfolding sum by (simp only: of_int_le_iff)
    then show "isFullyPaid xs paid" using full tot by auto
  qed
  have "\<not> (isFullyPaid xs paid \<and> isBreached xs paid asOf)"
    using full reach by (auto simp: isBreached_iff [OF pos] bd not_le [symmetric])
  moreover have "isBreached xs paid' asOf \<longrightarrow> isBreached xs paid asOf'"
  proof -
    have "(of_int (max 0 paid) :: rat) \<le> of_int (max 0 paid')" using assms(2) by simp
    then show ?thesis using assms(3) by (auto simp: isBreached_iff [OF pos] bd)
  qed
  ultimately show ?thesis using sum asc len each all by blast
qed

definition plan_example :: "installment list" where
  "plan_example = [\<lparr>in_dueDate = utc 2026 1 1, in_amountCents = 10000\<rparr>,
    \<lparr>in_dueDate = utc 2026 2 1, in_amountCents = 10050\<rparr>]"

theorem plan_status_correct_witness:
  "\<not> (isFullyPaid plan_example 20050 \<and> isBreached plan_example 20050 (utc 2026 3 1))"
proof -
  have "is_integer 10000" "is_integer 10050"
    using is_integer_of_int [of 10000] is_integer_of_int [of 10050] by simp_all
  moreover have "utc 2026 0 15 < utc 2026 1 1" "utc 2026 1 1 < utc 2026 2 1" by code_simp+
  ultimately have "validateSchedule plan_example 20050 (utc 2026 0 15) None = []"
    by (simp add: plan_example_def validateSchedule_def MAX_INSTALLMENTS_def at_row_def Let_def)
  from plan_status_correct [OF this order_refl order_refl] show ?thesis by blast
qed

end
