(* ===== verification/Pos.thy ===== *)
theory Pos
  imports Prelude
begin

text \<open>
  The counter (\<open>packages/core/pos\<close>): change for a tender (\<open>tender.ts\<close>), the expectation and the
  close-out of the cash drawer (\<open>drawer.ts\<close>), and merchandise sales (\<open>merchandise.ts\<close>). Amounts
  the code tests with \<open>Number.isInteger\<close> are \<open>rat\<close>.
\<close>

section \<open>tender.ts\<close>

datatype pay_method = Card | Cash | Check | Money_order | Ach

definition ATTRIBUTED_METHODS :: "pay_method list" where
  "ATTRIBUTED_METHODS = [Cash, Check, Money_order]"

definition COUNTER_METHODS :: "pay_method list" where
  "COUNTER_METHODS = [Card, Cash, Check, Money_order]"

definition requiresAttribution :: "pay_method \<Rightarrow> bool" where
  "requiresAttribution m = List.member ATTRIBUTED_METHODS m"

datatype tender_problem =
  Amount_not_positive
| Amount_not_integer
| Tender_required
| Tender_below_amount
| Check_number_required
| Check_number_on_cash

record tender_ok =
  to_amountCents :: rat
  to_tenderedCents :: "rat option"
  to_changeCents :: "rat option"

definition settleTender ::
  "pay_method \<Rightarrow> rat \<Rightarrow> rat option \<Rightarrow> string option \<Rightarrow> tender_problem + tender_ok"
where
  "settleTender m amountCents tenderedCents checkNumber =
    (if \<not> is_integer amountCents then Inl Amount_not_integer
     else if amountCents \<le> 0 then Inl Amount_not_positive
     else if (m = Check \<or> m = Money_order) \<and> blank checkNumber then Inl Check_number_required
     else if m = Cash \<and> \<not> blank checkNumber then Inl Check_number_on_cash
     else if m \<noteq> Cash
       then Inr \<lparr>to_amountCents = amountCents, to_tenderedCents = None, to_changeCents = None\<rparr>
     else case tenderedCents of None \<Rightarrow> Inl Tender_required
       | Some t \<Rightarrow>
         if \<not> is_integer t then Inl Tender_required
         else if t < amountCents then Inl Tender_below_amount
         else Inr \<lparr>to_amountCents = amountCents, to_tenderedCents = Some t,
           to_changeCents = Some (t - amountCents)\<rparr>)"

definition MANAGER_RANK :: int where
  "MANAGER_RANK = 20"

definition cashNeedsApproval :: "pay_method \<Rightarrow> cents \<Rightarrow> cents \<Rightarrow> bool" where
  "cashNeedsApproval m amountCents thresholdCents = (m = Cash \<and> thresholdCents \<le> amountCents)"

section \<open>drawer.ts\<close>

record drawer_movement =
  dm_method :: pay_method
  dm_amountCents :: cents
  dm_changeCents :: "cents option"

record drawer_expectation =
  de_expectedCashCents :: cents
  de_expectedChecksCents :: cents

definition drawer_step :: "drawer_expectation \<Rightarrow> drawer_movement \<Rightarrow> drawer_expectation" where
  "drawer_step e movement =
    (if dm_method movement = Cash
     then e\<lparr>de_expectedCashCents := de_expectedCashCents e + dm_amountCents movement\<rparr>
     else if dm_method movement = Check \<or> dm_method movement = Money_order
     then e\<lparr>de_expectedChecksCents := de_expectedChecksCents e + dm_amountCents movement\<rparr>
     else e)"

definition expectedDrawer :: "cents \<Rightarrow> drawer_movement list \<Rightarrow> drawer_expectation" where
  "expectedDrawer openingFloatCents movements =
    foldl drawer_step \<lparr>de_expectedCashCents = openingFloatCents, de_expectedChecksCents = 0\<rparr> movements"

definition varianceOf :: "cents \<Rightarrow> cents \<Rightarrow> cents" where
  "varianceOf countedCents expectedCents = countedCents - expectedCents"

definition varianceNeedsNote :: "cents \<Rightarrow> cents \<Rightarrow> bool" where
  "varianceNeedsNote varianceCents thresholdCents = (thresholdCents < \<bar>varianceCents\<bar>)"

datatype close_problem = Not_open | Count_negative | Note_required
datatype drawer_status = Drawer_open | Drawer_closed

definition closeProblem ::
  "drawer_status \<Rightarrow> cents \<Rightarrow> cents \<Rightarrow> cents \<Rightarrow> cents \<Rightarrow> string \<Rightarrow> close_problem option"
where
  "closeProblem status countedCashCents countedChecksCents varianceCents thresholdCents note =
    (if status \<noteq> Drawer_open then Some Not_open
     else if countedCashCents < 0 \<or> countedChecksCents < 0 then Some Count_negative
     else if varianceNeedsNote varianceCents thresholdCents \<and> trim note = [] then Some Note_required
     else None)"

record deposit_slip =
  ds_openingFloatCents :: cents
  ds_cashTakenCents :: cents
  ds_changeGivenCents :: cents
  ds_cashRefundedCents :: cents
  ds_checksCents :: cents
  ds_cardCents :: cents
  ds_expectedCashCents :: cents
  ds_expectedChecksCents :: cents
  ds_depositCashCents :: cents

text \<open>The loop of \<open>depositSlip\<close>: cash taken, change given, cash refunded and card takings.\<close>

definition slip_step :: "cents \<times> cents \<times> cents \<times> cents \<Rightarrow> drawer_movement \<Rightarrow> cents \<times> cents \<times> cents \<times> cents" where
  "slip_step st movement = (case st of (cashTaken, changeGiven, cashRefunded, cardTotal) \<Rightarrow>
    if dm_method movement = Cash then
      if 0 \<le> dm_amountCents movement
      then (cashTaken + dm_amountCents movement, changeGiven + or_else (dm_changeCents movement) 0,
        cashRefunded, cardTotal)
      else (cashTaken, changeGiven, cashRefunded + - dm_amountCents movement, cardTotal)
    else if dm_method movement = Card
    then (cashTaken, changeGiven, cashRefunded, cardTotal + dm_amountCents movement)
    else st)"

definition depositSlip :: "cents \<Rightarrow> drawer_movement list \<Rightarrow> deposit_slip" where
  "depositSlip openingFloatCents movements = (
    let expectation = expectedDrawer openingFloatCents movements;
        (cashTaken, changeGiven, cashRefunded, cardTotal) = foldl slip_step (0, 0, 0, 0) movements
    in \<lparr>ds_openingFloatCents = openingFloatCents, ds_cashTakenCents = cashTaken,
        ds_changeGivenCents = changeGiven, ds_cashRefundedCents = cashRefunded,
        ds_checksCents = de_expectedChecksCents expectation, ds_cardCents = cardTotal,
        ds_expectedCashCents = de_expectedCashCents expectation,
        ds_expectedChecksCents = de_expectedChecksCents expectation,
        ds_depositCashCents = max 0 (de_expectedCashCents expectation - openingFloatCents)\<rparr>)"

section \<open>merchandise.ts\<close>

record sale_line =
  sa_productId :: string
  sa_quantity :: rat
  sa_unitPriceCents :: cents
  sa_unitCostCents :: cents
  sa_taxable :: bool

record stocked_line = sale_line +
  sa_stockCount :: int

record sale_totals =
  sa_lines :: "(sale_line \<times> rat \<times> rat) list"
  sa_subtotalCents :: rat
  sa_taxCents :: cents
  sa_totalCents :: rat
  sa_costCents :: rat

definition line_total :: "('a sale_line_scheme) \<Rightarrow> rat" where
  "line_total line = of_int (sa_unitPriceCents line) * sa_quantity line"

definition line_cost :: "('a sale_line_scheme) \<Rightarrow> rat" where
  "line_cost line = of_int (sa_unitCostCents line) * sa_quantity line"

definition priceSale :: "sale_line list \<Rightarrow> int \<Rightarrow> sale_totals" where
  "priceSale lines taxBasisPoints = (
    let priced = map (\<lambda>line. (line, line_total line, line_cost line)) lines;
        subtotalCents = sum_list (map (\<lambda>(_, total, _). total) priced);
        taxableBase = sum_list (map (\<lambda>(_, total, _). total)
          (filter (\<lambda>(line, _, _). sa_taxable line) priced));
        taxCents = roundHalfUp (taxableBase * of_int taxBasisPoints / 10000)
    in \<lparr>sa_lines = priced, sa_subtotalCents = subtotalCents, sa_taxCents = taxCents,
        sa_totalCents = subtotalCents + of_int taxCents,
        sa_costCents = sum_list (map (\<lambda>(_, _, cost). cost) priced)\<rparr>)"

datatype sale_problem = No_lines | Quantity_not_positive | Price_negative | Insufficient_stock

fun line_problems :: "stocked_line list \<Rightarrow> sale_problem option" where
  "line_problems [] = None"
| "line_problems (line # lines) =
    (if \<not> is_integer (sa_quantity line) \<or> sa_quantity line \<le> 0 then Some Quantity_not_positive
     else if sa_unitPriceCents line < 0 \<or> sa_unitCostCents line < 0 then Some Price_negative
     else if of_int (sa_stockCount line) < sa_quantity line then Some Insufficient_stock
     else line_problems lines)"

definition saleProblem :: "stocked_line list \<Rightarrow> sale_problem option" where
  "saleProblem lines = (if length lines = 0 then Some No_lines else line_problems lines)"

definition isLowStock :: "int \<Rightarrow> int option \<Rightarrow> bool" where
  "isLowStock stockCount lowStockAt = (case lowStockAt of None \<Rightarrow> False | Some n \<Rightarrow> stockCount \<le> n)"

record margin_row =
  mr_revenueCents :: cents
  mr_costCents :: cents

record margin_report =
  mg_revenueCents :: cents
  mg_costCents :: cents
  mg_marginCents :: cents
  mg_marginRatio :: "rat option"

definition margin :: "margin_row list \<Rightarrow> margin_report" where
  "margin rows = (
    let revenueCents = sum_by mr_revenueCents rows; costCents = sum_by mr_costCents rows
    in \<lparr>mg_revenueCents = revenueCents, mg_costCents = costCents,
        mg_marginCents = revenueCents - costCents,
        mg_marginRatio = (if 0 < revenueCents
          then Some (of_int (revenueCents - costCents) / of_int revenueCents) else None)\<rparr>)"

section \<open>Lemmas\<close>

lemma drawer_fold:
  "de_expectedCashCents (foldl drawer_step e ms) =
    de_expectedCashCents e + sum_by dm_amountCents (filter (\<lambda>m. dm_method m = Cash) ms)
  \<and> de_expectedChecksCents (foldl drawer_step e ms) = de_expectedChecksCents e
    + sum_by dm_amountCents (filter (\<lambda>m. dm_method m = Check \<or> dm_method m = Money_order) ms)"
proof (induction ms arbitrary: e)
  case (Cons m ms)
  show ?case using Cons.IH [of "drawer_step e m"] by (auto simp: drawer_step_def)
qed simp

lemma slip_fold:
  "foldl slip_step (a, b, c, d) ms =
    (a + sum_by dm_amountCents (filter (\<lambda>m. dm_method m = Cash \<and> 0 \<le> dm_amountCents m) ms),
     b + sum_by (\<lambda>m. or_else (dm_changeCents m) 0) (filter (\<lambda>m. dm_method m = Cash \<and> 0 \<le> dm_amountCents m) ms),
     c - sum_by dm_amountCents (filter (\<lambda>m. dm_method m = Cash \<and> dm_amountCents m < 0) ms),
     d + sum_by dm_amountCents (filter (\<lambda>m. dm_method m = Card) ms))"
proof (induction ms arbitrary: a b c d)
  case (Cons m ms)
  then show ?case by (auto simp: slip_step_def)
qed simp

lemma cash_split:
  "sum_by dm_amountCents (filter (\<lambda>m. dm_method m = Cash) ms) =
    sum_by dm_amountCents (filter (\<lambda>m. dm_method m = Cash \<and> 0 \<le> dm_amountCents m) ms) +
    sum_by dm_amountCents (filter (\<lambda>m. dm_method m = Cash \<and> dm_amountCents m < 0) ms)"
  by (induction ms) auto

lemma line_problems_None:
  "line_problems lines = None \<longleftrightarrow> (\<forall>line \<in> set lines. is_integer (sa_quantity line)
    \<and> 0 < sa_quantity line \<and> 0 \<le> sa_unitPriceCents line \<and> 0 \<le> sa_unitCostCents line
    \<and> sa_quantity line \<le> of_int (sa_stockCount line))"
  by (induction lines) (auto simp: not_le not_less)

text \<open>The stock left of a product after the sale decrements it line by line.\<close>

definition stock_after :: "stocked_line list \<Rightarrow> string \<Rightarrow> int \<Rightarrow> rat" where
  "stock_after lines product stock =
    of_int stock - sum_list (map sa_quantity (filter (\<lambda>line. sa_productId line = product) lines))"

lemma distinct_filter_product:
  "distinct (map sa_productId lines) \<Longrightarrow> line \<in> set lines \<Longrightarrow>
    filter (\<lambda>l. sa_productId l = sa_productId line) lines = [line]"
proof (induction lines)
  case (Cons l ls)
  then show ?case by (cases "line = l") (auto simp: filter_empty_conv image_iff)
qed simp

section \<open>Properties\<close>

text \<open>
  The change handed back is right, and the drawer agrees with it: a tender is accepted exactly
  for a whole positive amount with a check number where a cheque or money order needs one and none
  on cash, and for cash a whole tender of at least the amount; change exists for cash only, is the
  tender less the amount and never negative; and recording the payment moves the expected cash by
  exactly the tender less the change.
\<close>

theorem settleTender_correct:
  "(case settleTender m amount tendered checkNo of
      Inr r \<Rightarrow> is_integer amount \<and> 0 < amount \<and> to_amountCents r = amount
        \<and> (m = Cash \<longrightarrow> blank checkNo \<and> (\<exists>t c. tendered = Some t \<and> to_tenderedCents r = Some t
            \<and> to_changeCents r = Some c \<and> c = t - amount \<and> 0 \<le> c \<and> is_integer c
            \<and> (\<forall>e. de_expectedCashCents (drawer_step e \<lparr>dm_method = Cash,
                  dm_amountCents = \<lfloor>amount\<rfloor>, dm_changeCents = Some \<lfloor>c\<rfloor>\<rparr>) =
                de_expectedCashCents e + (\<lfloor>t\<rfloor> - \<lfloor>c\<rfloor>))))
        \<and> (m \<noteq> Cash \<longrightarrow> to_changeCents r = None \<and> to_tenderedCents r = None)
        \<and> (m = Check \<or> m = Money_order \<longrightarrow> \<not> blank checkNo)
    | Inl problem \<Rightarrow> \<not> (is_integer amount \<and> 0 < amount
        \<and> (if m = Cash then blank checkNo \<and> (\<exists>t. tendered = Some t \<and> is_integer t \<and> amount \<le> t)
           else m = Card \<or> m = Ach \<or> \<not> blank checkNo)))"
proof -
  have floor: "is_integer (t - a) \<and> \<lfloor>t\<rfloor> - \<lfloor>t - a\<rfloor> = \<lfloor>a\<rfloor>" if ints: "is_integer t" "is_integer a" for t a
  proof -
    obtain i j where "t = of_int i" "a = of_int j" using ints by (auto elim!: is_integerE)
    then have d: "t - a = of_int (i - j)" by simp
    have "is_integer (t - a)" unfolding d by (rule is_integer_of_int)
    moreover have "\<lfloor>t - a\<rfloor> = i - j" unfolding d by (rule floor_of_int)
    ultimately show ?thesis using \<open>t = of_int i\<close> \<open>a = of_int j\<close> by simp
  qed
  show ?thesis
  proof (cases "m = Cash")
    case True
    show ?thesis
    proof (cases tendered)
      case None
      then show ?thesis using True by (simp add: settleTender_def)
    next
      case (Some t)
      show ?thesis
        using floor [of t amount] True Some
        by (cases "is_integer amount"; cases "is_integer t"; cases "blank checkNo")
          (simp_all add: settleTender_def drawer_step_def not_le not_less)
    qed
  next
    case False
    then show ?thesis by (cases m) (simp_all add: settleTender_def)
  qed
qed

theorem settleTender_correct_witness:
  "settleTender Cash 6000 (Some 10000) None =
    Inr \<lparr>to_amountCents = 6000, to_tenderedCents = Some 10000, to_changeCents = Some 4000\<rparr>
   \<and> is_integer 6000"
proof -
  have i: "is_integer 6000" "is_integer 10000"
    using is_integer_of_int [of 6000] is_integer_of_int [of 10000] by simp_all
  have s: "settleTender Cash 6000 (Some 10000) None =
    Inr \<lparr>to_amountCents = 6000, to_tenderedCents = Some 10000, to_changeCents = Some 4000\<rparr>"
    by (simp add: settleTender_def i blank_def)
  show ?thesis using settleTender_correct [where m = Cash and amount = 6000 and tendered = "Some 10000"
        and checkNo = None] s by simp
qed

text \<open>
  The drawer and the deposit slip are one arithmetic: the expected cash is the float plus what
  was applied in cash (refunds negative, change not counted twice, cards never), the slip's cash
  taken less cash refunded is exactly what the drawer is up by, the deposit is that or nothing,
  and a close is accepted exactly for an open drawer with counts that are not negative and a note
  wherever the variance, over or short, exceeds the threshold.
\<close>

theorem drawer_reconciles:
  "de_expectedCashCents (expectedDrawer f ms) =
      f + sum_by dm_amountCents (filter (\<lambda>m. dm_method m = Cash) ms)
   \<and> ds_cashTakenCents (depositSlip f ms) - ds_cashRefundedCents (depositSlip f ms) =
      de_expectedCashCents (expectedDrawer f ms) - f
   \<and> 0 \<le> ds_cashTakenCents (depositSlip f ms) \<and> 0 \<le> ds_cashRefundedCents (depositSlip f ms)
   \<and> ds_depositCashCents (depositSlip f ms) =
      max 0 (ds_cashTakenCents (depositSlip f ms) - ds_cashRefundedCents (depositSlip f ms))
   \<and> (closeProblem status cash checks (varianceOf cash (de_expectedCashCents (expectedDrawer f ms)))
        threshold note = None \<longleftrightarrow>
      status = Drawer_open \<and> 0 \<le> cash \<and> 0 \<le> checks \<and>
      \<not> (threshold < \<bar>cash - de_expectedCashCents (expectedDrawer f ms)\<bar> \<and> trim note = []))"
proof -
  have "0 \<le> sum_by dm_amountCents (filter (\<lambda>m. dm_method m = Cash \<and> 0 \<le> dm_amountCents m) ms)"
    by (rule sum_by_nonneg) auto
  moreover have "sum_by dm_amountCents (filter (\<lambda>m. dm_method m = Cash \<and> dm_amountCents m < 0) ms) \<le> 0"
    by (rule sum_list_nonpos) auto
  moreover have "closeProblem status cash checks v threshold note = None \<longleftrightarrow>
      status = Drawer_open \<and> 0 \<le> cash \<and> 0 \<le> checks \<and> \<not> (threshold < \<bar>v\<bar> \<and> trim note = [])" for v
    by (auto simp: closeProblem_def varianceNeedsNote_def)
  ultimately show ?thesis
    using cash_split [of ms] drawer_fold [of _ ms]
    by (simp add: expectedDrawer_def depositSlip_def slip_fold varianceOf_def Let_def)
qed

text \<open>
  What the sale check protects and what it does not: it accepts exactly the baskets that are
  not empty and whose lines each have a whole positive quantity within the stock and prices that
  are not negative; where no product is on two lines, selling an accepted basket leaves no stock
  negative. Two lines of one product are checked one by one, so a basket that asks for more of it
  than there is can be accepted.
\<close>

theorem saleProblem_stock:
  "(saleProblem lines = None \<longleftrightarrow> lines \<noteq> [] \<and> (\<forall>line \<in> set lines. is_integer (sa_quantity line)
      \<and> 0 < sa_quantity line \<and> 0 \<le> sa_unitPriceCents line \<and> 0 \<le> sa_unitCostCents line
      \<and> sa_quantity line \<le> of_int (sa_stockCount line)))
   \<and> (saleProblem lines = None \<and> distinct (map sa_productId lines) \<longrightarrow>
      (\<forall>line \<in> set lines. 0 \<le> stock_after lines (sa_productId line) (sa_stockCount line)))
   \<and> (let line = \<lparr>sa_productId = ''lock'', sa_quantity = 1, sa_unitPriceCents = 1200,
        sa_unitCostCents = 500, sa_taxable = True, sa_stockCount = 1\<rparr>
      in saleProblem [line, line] = None \<and> stock_after [line, line] ''lock'' 1 = - 1)"
proof -
  have iff: "saleProblem lines = None \<longleftrightarrow> lines \<noteq> [] \<and> (\<forall>line \<in> set lines. is_integer (sa_quantity line)
      \<and> 0 < sa_quantity line \<and> 0 \<le> sa_unitPriceCents line \<and> 0 \<le> sa_unitCostCents line
      \<and> sa_quantity line \<le> of_int (sa_stockCount line))"
    by (simp add: saleProblem_def line_problems_None)
  moreover have "is_integer 1" using is_integer_of_int [of 1] by simp
  ultimately show ?thesis
    by (simp add: Let_def) (auto simp: stock_after_def distinct_filter_product saleProblem_def)
qed

theorem saleProblem_stock_witness:
  "saleProblem [\<lparr>sa_productId = ''lock'', sa_quantity = 2, sa_unitPriceCents = 1200,
      sa_unitCostCents = 500, sa_taxable = True, sa_stockCount = 1\<rparr>] \<noteq> None"
  using saleProblem_stock [of "[\<lparr>sa_productId = ''lock'', sa_quantity = 2, sa_unitPriceCents = 1200,
      sa_unitCostCents = 500, sa_taxable = True, sa_stockCount = 1\<rparr>]"]
  by simp

end
