(* ===== verification/MoveOut.thy ===== *)
theory MoveOut
  imports Proration
begin

text \<open>
  The settlement of a lease on the day it ends (\<open>packages/core/move-out/settlement.ts\<close>). The
  refund of the unused days comes from the proration contract.
\<close>

definition move_out_daysBetween :: "date \<Rightarrow> date \<Rightarrow> int" where
  "move_out_daysBetween from to = (let MS_PER_DAY = 24 * 60 * 60 * 1000 in round_div (to - from) MS_PER_DAY)"

definition proratedCredit :: "cents \<Rightarrow> billing_period \<Rightarrow> date \<Rightarrow> cents" where
  "proratedCredit monthlyRateCents period moveOutDate =
    (if p_end period \<le> moveOutDate then 0
     else pr_amountCents (unusedRemainder \<lparr>pi_monthlyCents = monthlyRateCents, pi_period = period,
       pi_from = p_start period, pi_to = moveOutDate\<rparr>))"

record move_out_input =
  mo_balanceCents :: cents
  mo_monthlyRateCents :: cents
  mo_paidThroughDate :: "date option"
  mo_moveOutDate :: date
  mo_prorateOnMoveOut :: bool
  mo_writeOffThresholdCents :: cents
  mo_recaptureCents :: "rat option"
  mo_period :: billing_period

record move_out_settlement =
  ms_prorationCreditCents :: cents
  ms_recaptureCents :: cents
  ms_netBalanceCents :: cents
  ms_canWriteOff :: bool
  ms_needsManagerOverride :: bool
  ms_refundDueCents :: cents
  ms_amountDueCents :: cents

definition settleMoveOut :: "move_out_input \<Rightarrow> move_out_settlement" where
  "settleMoveOut input = (
    let paidBeyondMoveOut = (case mo_paidThroughDate input of None \<Rightarrow> False
          | Some d \<Rightarrow> mo_moveOutDate input < d);
        prorationCreditCents = (if mo_prorateOnMoveOut input \<and> paidBeyondMoveOut
          then proratedCredit (mo_monthlyRateCents input) (mo_period input) (mo_moveOutDate input)
          else 0);
        recaptureCents = max 0 (math_round (or_else (mo_recaptureCents input) 0));
        netBalanceCents = mo_balanceCents input - prorationCreditCents + recaptureCents;
        refundDueCents = (if netBalanceCents < 0 then - netBalanceCents else 0);
        amountDueCents = (if 0 < netBalanceCents then netBalanceCents else 0);
        canWriteOff = (0 < amountDueCents \<and> amountDueCents \<le> mo_writeOffThresholdCents input)
    in \<lparr>ms_prorationCreditCents = prorationCreditCents, ms_recaptureCents = recaptureCents,
        ms_netBalanceCents = netBalanceCents, ms_canWriteOff = canWriteOff,
        ms_needsManagerOverride = (mo_writeOffThresholdCents input < amountDueCents),
        ms_refundDueCents = refundDueCents, ms_amountDueCents = amountDueCents\<rparr>)"

definition noticeShortfallDays :: "date option \<Rightarrow> date \<Rightarrow> int \<Rightarrow> int" where
  "noticeShortfallDays noticeGivenAt moveOutDate requiredNoticeDays =
    (if requiredNoticeDays \<le> 0 then 0
     else case noticeGivenAt of None \<Rightarrow> requiredNoticeDays
       | Some g \<Rightarrow>
         let given = utc (utc_full_year g) (utc_month g) (utc_date g);
             n = move_out_daysBetween given moveOutDate
         in max 0 (requiredNoticeDays - n))"

section \<open>Lemmas\<close>

lemma proratedCredit_refunded:
  "proratedCredit m p t = (if p_end p \<le> t then 0 else refunded m p (p_start p) t)"
  by (simp add: proratedCredit_def refunded_def)

lemma proratedCredit_bounds:
  "proper_period p \<Longrightarrow> 0 \<le> m \<Longrightarrow> 0 \<le> proratedCredit m p t \<and> proratedCredit m p t \<le> m"
  by (simp add: proratedCredit_refunded rent_share.refund_nonneg rent_share.refund_le)

text \<open>What was charged for the days used and what is credited make up the month.\<close>

lemma proratedCredit_complement:
  "proper_period p \<Longrightarrow> prorated m p (p_start p) t + proratedCredit m p t = m"
  using rent_share.charge_refund [of m p "p_start p" t]
    rent_share.charge_full [of p "p_start p" t m]
  by (simp add: proratedCredit_refunded)

section \<open>Properties\<close>

text \<open>
  A move-out settles to the penny: the net balance is the ledger balance less the proration
  credit plus the recapture; the credit lies between zero and the monthly rate, is given only
  where the facility prorates and something past the move-out is paid, and with the charge for the
  days used makes up the month; at most one of refund and amount due is not zero and their
  difference is the net balance; and a debt can be written off exactly when it is within the
  threshold, needs a manager exactly when it is above, while a refund is never written off.
\<close>

theorem settleMoveOut_correct:
  assumes "proper_period (mo_period i)" and "0 \<le> mo_monthlyRateCents i"
    and "0 \<le> mo_writeOffThresholdCents i"
  shows "let s = settleMoveOut i in
    ms_netBalanceCents s = mo_balanceCents i - ms_prorationCreditCents s + ms_recaptureCents s
    \<and> 0 \<le> ms_prorationCreditCents s \<and> ms_prorationCreditCents s \<le> mo_monthlyRateCents i
    \<and> 0 \<le> ms_recaptureCents s
    \<and> (ms_prorationCreditCents s \<noteq> 0 \<longrightarrow> mo_prorateOnMoveOut i
        \<and> (\<exists>d. mo_paidThroughDate i = Some d \<and> mo_moveOutDate i < d)
        \<and> prorated (mo_monthlyRateCents i) (mo_period i) (p_start (mo_period i)) (mo_moveOutDate i)
          + ms_prorationCreditCents s = mo_monthlyRateCents i)
    \<and> 0 \<le> ms_refundDueCents s \<and> 0 \<le> ms_amountDueCents s
    \<and> (ms_refundDueCents s = 0 \<or> ms_amountDueCents s = 0)
    \<and> ms_amountDueCents s - ms_refundDueCents s = ms_netBalanceCents s
    \<and> (ms_amountDueCents s = 0 \<longrightarrow> \<not> ms_canWriteOff s \<and> \<not> ms_needsManagerOverride s)
    \<and> (0 < ms_amountDueCents s \<longrightarrow> (ms_canWriteOff s \<longleftrightarrow> \<not> ms_needsManagerOverride s))
    \<and> (0 < ms_refundDueCents s \<longrightarrow> \<not> ms_canWriteOff s)"
proof -
  note b = proratedCredit_bounds [OF assms(1,2), of "mo_moveOutDate i"]
    and c = proratedCredit_complement [OF assms(1), of "mo_monthlyRateCents i" "mo_moveOutDate i"]
  show ?thesis
    using b c assms(2,3) by (auto simp: settleMoveOut_def Let_def split: option.splits)
qed

definition move_out_example :: move_out_input where
  "move_out_example = \<lparr>mo_balanceCents = 0, mo_monthlyRateCents = 12900,
    mo_paidThroughDate = Some (utc 2026 8 20), mo_moveOutDate = utc 2026 8 5,
    mo_prorateOnMoveOut = True, mo_writeOffThresholdCents = 500, mo_recaptureCents = None,
    mo_period = billingPeriodFor Anniversary 20 (utc 2026 8 5)\<rparr>"

theorem settleMoveOut_correct_witness:
  "ms_amountDueCents (settleMoveOut move_out_example) -
    ms_refundDueCents (settleMoveOut move_out_example) =
    ms_netBalanceCents (settleMoveOut move_out_example)"
  using settleMoveOut_correct [of move_out_example]
  by (simp add: move_out_example_def Let_def)

end
