(* ===== verification/Auctions.thy ===== *)
theory Auctions
  imports Calendar
begin

text \<open>
  Lien sales (\<open>packages/core/auctions\<close>): the proceeds waterfall and the ledger postings of a sale
  (\<open>waterfall.ts\<close>), the surplus as a liability (\<open>surplus.ts\<close>), and the checks that block a sale
  from being scheduled (\<open>readiness.ts\<close>, with \<open>sameJurisdiction\<close> of \<open>org/defaults.ts\<close>). Messages are
  left out; a blocker keeps its kind and the step it is about. Text is ASCII where the code changes
  its case.
\<close>

section \<open>waterfall.ts\<close>

record waterfall_input =
  wi_grossProceedsCents :: rat
  wi_saleCostsCents :: rat
  wi_lienBalanceCents :: rat

record waterfall_result =
  wr_costsRecoveredCents :: rat
  wr_appliedToLienCents :: rat
  wr_surplusCents :: rat
  wr_deficiencyCents :: rat

datatype waterfall_field = Gross_proceeds | Sale_costs | Lien_balance

datatype waterfall_error =
  Not_an_integer waterfall_field rat
| Negative_amount waterfall_field
| Not_every_cent rat rat
| Surplus_and_deficiency

definition waterfall_entries :: "waterfall_input \<Rightarrow> (waterfall_field \<times> rat) list" where
  "waterfall_entries input = [(Gross_proceeds, wi_grossProceedsCents input),
    (Sale_costs, wi_saleCostsCents input), (Lien_balance, wi_lienBalanceCents input)]"

fun check_entries :: "(waterfall_field \<times> rat) list \<Rightarrow> waterfall_error option" where
  "check_entries [] = None"
| "check_entries ((name, value) # rest) =
    (if \<not> is_integer value then Some (Not_an_integer name value)
     else if value < 0 then Some (Negative_amount name)
     else check_entries rest)"

definition distribute :: "waterfall_input \<Rightarrow> waterfall_error + waterfall_result" where
  "distribute input = (case check_entries (waterfall_entries input) of
      Some e \<Rightarrow> Inl e
    | None \<Rightarrow>
      let costsRecoveredCents = min (wi_saleCostsCents input) (wi_grossProceedsCents input);
          remaining = wi_grossProceedsCents input - costsRecoveredCents;
          appliedToLienCents = min (wi_lienBalanceCents input) remaining;
          remaining = remaining - appliedToLienCents;
          surplusCents = remaining;
          unrecoveredCosts = wi_saleCostsCents input - costsRecoveredCents;
          deficiencyCents = wi_lienBalanceCents input - appliedToLienCents + unrecoveredCosts;
          result = \<lparr>wr_costsRecoveredCents = costsRecoveredCents,
            wr_appliedToLienCents = appliedToLienCents, wr_surplusCents = surplusCents,
            wr_deficiencyCents = deficiencyCents\<rparr>;
          accounted = costsRecoveredCents + appliedToLienCents + surplusCents
      in if accounted \<noteq> wi_grossProceedsCents input
         then Inl (Not_every_cent accounted (wi_grossProceedsCents input))
         else if 0 < surplusCents \<and> 0 < deficiencyCents then Inl Surplus_and_deficiency
         else Inr result)"

datatype posting_type = Charge_posting | Payment_posting

record ledger_posting =
  lp_type :: posting_type
  lp_amountCents :: rat
  lp_description :: string

definition ledgerPostings :: "waterfall_input \<Rightarrow> waterfall_result \<Rightarrow> ledger_posting list" where
  "ledgerPostings input result =
    (if 0 < wi_saleCostsCents input
     then [\<lparr>lp_type = Charge_posting, lp_amountCents = wi_saleCostsCents input,
       lp_description = ''Auction sale costs''\<rparr>] else [])
    @ (let applied = wr_costsRecoveredCents result + wr_appliedToLienCents result in
       if 0 < applied then [\<lparr>lp_type = Payment_posting, lp_amountCents = - applied,
         lp_description = ''Auction proceeds applied''\<rparr>] else [])"

section \<open>surplus.ts\<close>

datatype surplus_disposition = Held | Claimed | Remitted | No_surplus

definition DEFAULT_SURPLUS_HOLD_DAYS :: int where
  "DEFAULT_SURPLUS_HOLD_DAYS = 365"

record surplus_state =
  su_surplusCents :: rat
  su_disposition :: surplus_disposition
  su_holdUntil :: "date option"
  su_notifiedAt :: "date option"

definition surplusHoldUntil :: "date \<Rightarrow> int \<Rightarrow> date" where
  "surplusHoldUntil soldAt holdDays = soldAt + holdDays * 86400000"

definition surplusDispositionDue :: "date option \<Rightarrow> int \<Rightarrow> date \<Rightarrow> bool" where
  "surplusDispositionDue holdUntil leadDays now = (case holdUntil of None \<Rightarrow> False
    | Some h \<Rightarrow> h - leadDays * 86400000 \<le> now)"

datatype surplus_action = Notify_former_tenant | Record_disposition_overdue | Hold_then_record

record surplus_obligation =
  so_outstanding :: bool
  so_outstandingActions :: "surplus_action list"
  so_overdue :: bool

definition surplusObligation :: "surplus_state \<Rightarrow> date \<Rightarrow> surplus_obligation" where
  "surplusObligation s now =
    (if su_surplusCents s \<le> 0
     then \<lparr>so_outstanding = False, so_outstandingActions = [], so_overdue = False\<rparr>
     else if su_disposition s = Claimed \<or> su_disposition s = Remitted
     then \<lparr>so_outstanding = False, so_outstandingActions = [], so_overdue = False\<rparr>
     else
      let overdue = (case su_holdUntil s of None \<Rightarrow> False | Some h \<Rightarrow> h \<le> now)
      in \<lparr>so_outstanding = True,
          so_outstandingActions = (if su_notifiedAt s = None then [Notify_former_tenant] else [])
            @ [if overdue then Record_disposition_overdue else Hold_then_record],
          so_overdue = overdue\<rparr>)"

datatype disposition_refusal = Nothing_to_disposition | Not_no_surplus | Held_is_the_start

definition canRecordDisposition :: "rat \<Rightarrow> surplus_disposition \<Rightarrow> disposition_refusal option" where
  "canRecordDisposition surplusCents disposition =
    (if surplusCents \<le> 0 then Some Nothing_to_disposition
     else if disposition = No_surplus then Some Not_no_surplus
     else if disposition = Held then Some Held_is_the_start
     else None)"

section \<open>readiness.ts\<close>

definition toUpperCase :: "string \<Rightarrow> string" where
  "toUpperCase s = map (\<lambda>c. let n = (of_char c :: nat) in
    if 97 \<le> n \<and> n \<le> 122 then char_of (n - 32) else c) s"

definition toLowerCase :: "string \<Rightarrow> string" where
  "toLowerCase s = map (\<lambda>c. let n = (of_char c :: nat) in
    if 65 \<le> n \<and> n \<le> 90 then char_of (n + 32) else c) s"

definition normalizeJurisdiction :: "string option \<Rightarrow> string option" where
  "normalizeJurisdiction value = (let state = toUpperCase (trim (or_else value [])) in
    if length state = 2 \<and> list_all (\<lambda>c. 65 \<le> (of_char c :: nat) \<and> (of_char c :: nat) \<le> 90) state
    then Some state else None)"

definition sameJurisdiction :: "string option \<Rightarrow> string option \<Rightarrow> bool" where
  "sameJurisdiction jurisdiction facilityState = (let written = normalizeJurisdiction jurisdiction in
    written \<noteq> None \<and> written = normalizeJurisdiction facilityState)"

datatype blocker_kind =
  On_hold | Contains_vehicle | No_timeline | Timeline_for_another_state | Step_not_executed
| Step_lacks_proof | No_lien_notice_served | Notice_names_another_unit | Notice_names_another_venue
| Sale_before_notice_deadline | Notice_deadline_in_hold | No_sale_venue | Not_approved
| Balance_settled | Already_sold | Sale_cancelled

record blocker =
  bl_kind :: blocker_kind
  bl_step :: "(int \<times> string) option"

datatype proof_value = Text_proof string | Other_proof

record step_task =
  tk_status :: string
  tk_proof :: "(string \<times> proof_value) list option"

record step_evidence =
  se_dayOffset :: int
  se_label :: string
  se_staffTaskLabel :: "string option"
  se_requiredProofFields :: "string list"
  se_executed :: bool
  se_task :: "step_task option"

datatype sale_manner = Online | Live_onsite
datatype case_status = Eligible | Scheduled | Sold | Cancelled

record readiness_input =
  ri_timelineConfigured :: bool
  ri_timelineJurisdiction :: "string option"
  ri_facilityState :: string
  ri_steps :: "step_evidence list"
  ri_containsVehicle :: bool
  ri_lienNoticeServed :: bool
  ri_noticeUnitChanged :: bool
  ri_blockedByHold :: bool
  ri_noticeDeadlineInHold :: bool
  ri_noticeDeadline :: "date option"
  ri_scheduledSaleDate :: "date option"
  ri_minDaysNoticeToSale :: "rat option"
  ri_saleManner :: sale_manner
  ri_saleVenue :: "string option"
  ri_noticeSaleManner :: "sale_manner option"
  ri_noticeSaleVenue :: "string option"
  ri_approved :: bool
  ri_outstandingCents :: cents
  ri_status :: case_status

record readiness =
  rd_ready :: bool
  rd_blockers :: "blocker list"

definition block :: "blocker_kind \<Rightarrow> blocker" where
  "block k = \<lparr>bl_kind = k, bl_step = None\<rparr>"

definition saleKey :: "sale_manner \<Rightarrow> string option \<Rightarrow> string" where
  "saleKey manner venue = (if manner = Live_onsite then ''live_onsite''
    else ''online:'' @ toLowerCase (trim (or_else venue [])))"

text \<open>\<open>Math.trunc\<close>.\<close>

definition js_trunc :: "rat \<Rightarrow> int" where
  "js_trunc x = (if x < 0 then \<lceil>x\<rceil> else \<lfloor>x\<rfloor>)"

definition saleDateBlocker :: "date \<Rightarrow> date option \<Rightarrow> rat \<Rightarrow> blocker option" where
  "saleDateBlocker saleDate noticeDeadline minDaysNoticeToSale = (case noticeDeadline of
      None \<Rightarrow> None
    | Some deadline \<Rightarrow>
      let margin = max 0 (js_trunc minDaysNoticeToSale);
          earliest = deadline + margin * 86400000
      in if earliest \<le> saleDate then None else Some (block Sale_before_notice_deadline))"

definition missing_proof :: "step_task \<Rightarrow> string \<Rightarrow> bool" where
  "missing_proof task field = (case tk_proof task of
      None \<Rightarrow> True
    | Some p \<Rightarrow> (case map_of p field of Some (Text_proof s) \<Rightarrow> trim s = [] | _ \<Rightarrow> True))"

definition step_blocker :: "step_evidence \<Rightarrow> blocker option" where
  "step_blocker step = (
    let on_step = \<lambda>k. Some \<lparr>bl_kind = k, bl_step = Some (se_dayOffset step, se_label step)\<rparr> in
    if \<not> se_executed step then on_step Step_not_executed
    else if se_staffTaskLabel step = None \<or> se_staffTaskLabel step = Some [] then None
    else case se_task step of
        None \<Rightarrow> on_step Step_lacks_proof
      | Some task \<Rightarrow>
        if tk_status task \<noteq> ''completed'' then on_step Step_lacks_proof
        else if filter (missing_proof task) (se_requiredProofFields step) \<noteq> []
        then on_step Step_lacks_proof else None)"

definition auctionReadiness :: "readiness_input \<Rightarrow> readiness" where
  "auctionReadiness input = (
    let blockers =
      (if ri_status input = Sold then [block Already_sold] else [])
      @ (if ri_status input = Cancelled then [block Sale_cancelled] else [])
      @ (if ri_blockedByHold input then [block On_hold] else [])
      @ (if ri_containsVehicle input then [block Contains_vehicle] else [])
      @ (if ri_outstandingCents input \<le> 0 then [block Balance_settled] else [])
      @ (if \<not> ri_timelineConfigured input then [block No_timeline]
         else if \<not> sameJurisdiction (ri_timelineJurisdiction input) (Some (ri_facilityState input))
         then [block Timeline_for_another_state] else [])
      @ List.map_filter step_blocker (ri_steps input)
      @ (if \<not> ri_lienNoticeServed input
         then [if ri_noticeUnitChanged input then block Notice_names_another_unit
           else block No_lien_notice_served] else [])
      @ (if ri_saleManner input = Online \<and> blank (ri_saleVenue input) then [block No_sale_venue] else [])
      @ (case ri_noticeSaleManner input of None \<Rightarrow> []
         | Some m \<Rightarrow> if ri_lienNoticeServed input \<and>
             saleKey m (ri_noticeSaleVenue input) \<noteq> saleKey (ri_saleManner input) (ri_saleVenue input)
           then [block Notice_names_another_venue] else [])
      @ (if ri_lienNoticeServed input \<and> ri_noticeDeadlineInHold input
         then [block Notice_deadline_in_hold] else [])
      @ (if \<not> ri_approved input then [block Not_approved] else [])
      @ (case ri_scheduledSaleDate input of None \<Rightarrow> []
         | Some d \<Rightarrow> (case saleDateBlocker d (ri_noticeDeadline input)
               (or_else (ri_minDaysNoticeToSale input) 0) of
             None \<Rightarrow> [] | Some b \<Rightarrow> [b]))
    in \<lparr>rd_ready = (length blockers = 0), rd_blockers = blockers\<rparr>)"

definition REQUIRED_BUYER_FIELDS :: "string list" where
  "REQUIRED_BUYER_FIELDS = [''name'', ''addressLine1'', ''city'', ''state'', ''postalCode'',
    ''governmentIdReference'', ''paymentMethod'']"

record buyer_record =
  by_fields :: "(string \<times> string) list"
  by_taxExempt :: bool
  by_resaleCertificateReference :: "string option"
  by_cleanoutDeadline :: "date option"

definition missingBuyerFields :: "buyer_record \<Rightarrow> string list" where
  "missingBuyerFields buyer =
    filter (\<lambda>field. blank (map_of (by_fields buyer) field)) REQUIRED_BUYER_FIELDS
    @ (if by_taxExempt buyer \<and> blank (by_resaleCertificateReference buyer)
       then [''resaleCertificateReference''] else [])
    @ (if by_cleanoutDeadline buyer = None then [''cleanoutDeadline''] else [])"

section \<open>Lemmas\<close>

lemma check_entries_None:
  "check_entries es = None \<longleftrightarrow> (\<forall>(n, v) \<in> set es. is_integer v \<and> 0 \<le> v)"
  by (induction es rule: check_entries.induct) (auto simp: not_less)

definition cents_input :: "waterfall_input \<Rightarrow> bool" where
  "cents_input i \<longleftrightarrow> (\<forall>v \<in> {wi_grossProceedsCents i, wi_saleCostsCents i, wi_lienBalanceCents i}.
    is_integer v \<and> 0 \<le> v)"

lemma check_entries_cents: "check_entries (waterfall_entries i) = None \<longleftrightarrow> cents_input i"
  unfolding check_entries_None waterfall_entries_def cents_input_def by simp

lemma distribute_eq:
  "distribute i = (if cents_input i then Inr
      \<lparr>wr_costsRecoveredCents = min (wi_saleCostsCents i) (wi_grossProceedsCents i),
       wr_appliedToLienCents = min (wi_lienBalanceCents i)
         (wi_grossProceedsCents i - min (wi_saleCostsCents i) (wi_grossProceedsCents i)),
       wr_surplusCents = max 0 (wi_grossProceedsCents i - wi_saleCostsCents i - wi_lienBalanceCents i),
       wr_deficiencyCents = max 0 (wi_saleCostsCents i + wi_lienBalanceCents i - wi_grossProceedsCents i)\<rparr>
    else Inl (the (check_entries (waterfall_entries i))))"
proof (cases "cents_input i")
  case True
  then have n: "check_entries (waterfall_entries i) = None" by (simp only: check_entries_cents)
  have "0 \<le> wi_grossProceedsCents i" "0 \<le> wi_saleCostsCents i" "0 \<le> wi_lienBalanceCents i"
    using True by (simp_all add: cents_input_def)
  then show ?thesis using n True
    by (auto simp: distribute_def Let_def min_def max_def)
next
  case False
  then obtain e where "check_entries (waterfall_entries i) = Some e"
    using check_entries_cents [of i] by (cases "check_entries (waterfall_entries i)") blast+
  then show ?thesis using False by (simp add: distribute_def)
qed

text \<open>What each kind of blocker is about, stated on the case and not on the code's order.\<close>

definition fully_proven :: "step_task \<Rightarrow> string list \<Rightarrow> bool" where
  "fully_proven task needed \<longleftrightarrow> (\<forall>f \<in> set needed. \<exists>p t. tk_proof task = Some p \<and>
    map_of p f = Some (Text_proof t) \<and> trim t \<noteq> [])"

definition step_unproven :: "step_evidence \<Rightarrow> bool" where
  "step_unproven s \<longleftrightarrow> se_executed s \<and> se_staffTaskLabel s \<noteq> None \<and> se_staffTaskLabel s \<noteq> Some [] \<and>
    \<not> (\<exists>task. se_task s = Some task \<and> tk_status task = ''completed'' \<and>
      fully_proven task (se_requiredProofFields s))"

fun violated :: "readiness_input \<Rightarrow> blocker_kind \<Rightarrow> bool" where
  "violated i On_hold = ri_blockedByHold i"
| "violated i Contains_vehicle = ri_containsVehicle i"
| "violated i No_timeline = (\<not> ri_timelineConfigured i)"
| "violated i Timeline_for_another_state = (ri_timelineConfigured i \<and>
    \<not> sameJurisdiction (ri_timelineJurisdiction i) (Some (ri_facilityState i)))"
| "violated i Step_not_executed = (\<exists>s \<in> set (ri_steps i). \<not> se_executed s)"
| "violated i Step_lacks_proof = (\<exists>s \<in> set (ri_steps i). step_unproven s)"
| "violated i No_lien_notice_served = (\<not> ri_lienNoticeServed i \<and> \<not> ri_noticeUnitChanged i)"
| "violated i Notice_names_another_unit = (\<not> ri_lienNoticeServed i \<and> ri_noticeUnitChanged i)"
| "violated i Notice_names_another_venue = (ri_lienNoticeServed i \<and> (\<exists>m. ri_noticeSaleManner i = Some m \<and>
    saleKey m (ri_noticeSaleVenue i) \<noteq> saleKey (ri_saleManner i) (ri_saleVenue i)))"
| "violated i Sale_before_notice_deadline = (\<exists>d deadline. ri_scheduledSaleDate i = Some d \<and>
    ri_noticeDeadline i = Some deadline \<and>
    d < deadline + max 0 (js_trunc (or_else (ri_minDaysNoticeToSale i) 0)) * day_ms)"
| "violated i Notice_deadline_in_hold = (ri_lienNoticeServed i \<and> ri_noticeDeadlineInHold i)"
| "violated i No_sale_venue = (ri_saleManner i = Online \<and> blank (ri_saleVenue i))"
| "violated i Not_approved = (\<not> ri_approved i)"
| "violated i Balance_settled = (ri_outstandingCents i \<le> 0)"
| "violated i Already_sold = (ri_status i = Sold)"
| "violated i Sale_cancelled = (ri_status i = Cancelled)"

lemma missing_proof_iff:
  "missing_proof task f \<longleftrightarrow> \<not> (\<exists>p t. tk_proof task = Some p \<and>
    map_of p f = Some (Text_proof t) \<and> trim t \<noteq> [])"
  by (auto simp: missing_proof_def split: option.splits proof_value.splits)

lemma missing_fields: "filter (missing_proof task) needed = [] \<longleftrightarrow> fully_proven task needed"
  unfolding filter_empty_conv missing_proof_iff fully_proven_def by blast

lemma step_blocker_kind:
  "map_option bl_kind (step_blocker s) = (if \<not> se_executed s then Some Step_not_executed
    else if step_unproven s then Some Step_lacks_proof else None)"
  by (cases "se_task s") (simp_all add: step_blocker_def step_unproven_def Let_def missing_fields)

lemma in_kinds_map_filter:
  "k \<in> bl_kind ` set (List.map_filter f ss) \<longleftrightarrow> (\<exists>s \<in> set ss. map_option bl_kind (f s) = Some k)"
  by (induction ss) (auto simp: List.map_filter_simps split: option.splits)

lemma in_kinds_steps:
  "k \<in> bl_kind ` set (List.map_filter step_blocker ss) \<longleftrightarrow>
    k = Step_not_executed \<and> (\<exists>s \<in> set ss. \<not> se_executed s) \<or>
    k = Step_lacks_proof \<and> (\<exists>s \<in> set ss. step_unproven s)"
  unfolding in_kinds_map_filter step_blocker_kind
  by (auto simp: step_unproven_def split: if_splits)

lemma in_kinds_block:
  "k \<in> bl_kind ` set (if P then [block x] else []) \<longleftrightarrow> P \<and> k = x"
  "k \<in> bl_kind ` set (if P then [block x] else if Q then [block y] else []) \<longleftrightarrow>
    P \<and> k = x \<or> \<not> P \<and> Q \<and> k = y"
  "k \<in> bl_kind ` set (if P then [if Q then block x else block y] else []) \<longleftrightarrow>
    P \<and> Q \<and> k = x \<or> P \<and> \<not> Q \<and> k = y"
  "k \<in> bl_kind ` set (case v of None \<Rightarrow> [] | Some m \<Rightarrow> if R m then [block x] else []) \<longleftrightarrow>
    (\<exists>m. v = Some m \<and> R m) \<and> k = x"
  by (auto simp: block_def split: option.splits)

lemma in_kinds_date:
  "k \<in> bl_kind ` set (case v of None \<Rightarrow> [] | Some d \<Rightarrow>
      (case saleDateBlocker d w n of None \<Rightarrow> [] | Some b \<Rightarrow> [b])) \<longleftrightarrow>
    (\<exists>d deadline. v = Some d \<and> w = Some deadline \<and> d < deadline + max 0 (js_trunc n) * day_ms)
    \<and> k = Sale_before_notice_deadline"
  by (cases v; cases w) (auto simp: saleDateBlocker_def Let_def block_def)

lemmas in_kinds = in_kinds_steps in_kinds_block in_kinds_date

section \<open>Properties\<close>

text \<open>
  C20. The waterfall accounts for every cent: it refuses exactly the inputs that are not whole,
  non-negative cents; otherwise costs recovered, amount applied to the lien and surplus are the
  gross proceeds, costs come first and the lien second, there is never both a surplus and a
  deficiency, and the ledger postings leave the lease owing exactly the deficiency, so the surplus
  is not among them.
\<close>

theorem distribute_accounts:
  "(case distribute i of
      Inl _ \<Rightarrow> \<not> cents_input i
    | Inr r \<Rightarrow> cents_input i
      \<and> wr_costsRecoveredCents r + wr_appliedToLienCents r + wr_surplusCents r = wi_grossProceedsCents i
      \<and> 0 \<le> wr_costsRecoveredCents r \<and> 0 \<le> wr_appliedToLienCents r
      \<and> wr_surplusCents r = max 0 (wi_grossProceedsCents i - wi_saleCostsCents i - wi_lienBalanceCents i)
      \<and> wr_deficiencyCents r = max 0 (wi_saleCostsCents i + wi_lienBalanceCents i - wi_grossProceedsCents i)
      \<and> (wr_surplusCents r = 0 \<or> wr_deficiencyCents r = 0)
      \<and> (wr_appliedToLienCents r = 0 \<or> wr_costsRecoveredCents r = wi_saleCostsCents i)
      \<and> wi_lienBalanceCents i + sum_list (map lp_amountCents (ledgerPostings i r)) = wr_deficiencyCents r)"
proof (cases "cents_input i")
  case True
  have nn: "0 \<le> wi_grossProceedsCents i" "0 \<le> wi_saleCostsCents i" "0 \<le> wi_lienBalanceCents i"
    using True by (simp_all add: cents_input_def)
  define g c l where "g = wi_grossProceedsCents i" and "c = wi_saleCostsCents i"
    and "l = wi_lienBalanceCents i"
  have "0 < min c g + min l (g - min c g) \<or> min c g + min l (g - min c g) = 0"
    using nn by (auto simp: g_def c_def l_def min_def)
  then show ?thesis
    using nn True
    by (auto simp: distribute_eq ledgerPostings_def Let_def g_def c_def l_def min_def max_def)
qed (simp add: distribute_eq)

theorem distribute_accounts_witness:
  "distribute \<lparr>wi_grossProceedsCents = 50000, wi_saleCostsCents = 8000, wi_lienBalanceCents = 30000\<rparr>
    = Inr \<lparr>wr_costsRecoveredCents = 8000, wr_appliedToLienCents = 30000, wr_surplusCents = 12000,
        wr_deficiencyCents = 0\<rparr>"
proof -
  have "is_integer 50000" "is_integer 8000" "is_integer 30000"
    using is_integer_of_int [of 50000] is_integer_of_int [of 8000] is_integer_of_int [of 30000]
    by simp_all
  then have c: "cents_input \<lparr>wi_grossProceedsCents = 50000, wi_saleCostsCents = 8000,
      wi_lienBalanceCents = 30000\<rparr>" by (simp add: cents_input_def)
  show ?thesis
    using distribute_accounts [of "\<lparr>wi_grossProceedsCents = 50000, wi_saleCostsCents = 8000,
      wi_lienBalanceCents = 30000\<rparr>"] c by (simp add: distribute_eq)
qed

text \<open>
  A surplus is never quietly kept: for what a sale raised beyond costs and lien, the starting
  state leaves an obligation outstanding; the only dispositions that may be recorded are a claim
  by the former tenant and a remittance to the state, they are refused when there is no surplus,
  and once one is recorded nothing is outstanding; until then the obligation stays and is overdue
  from the end of the holding period on.
\<close>

theorem surplus_obligation_until_disposed:
  assumes "distribute i = Inr r" and "0 < wr_surplusCents r"
    and "s = \<lparr>su_surplusCents = wr_surplusCents r, su_disposition = Held,
      su_holdUntil = Some (surplusHoldUntil soldAt holdDays), su_notifiedAt = notified\<rparr>"
  shows "wi_grossProceedsCents i = wi_saleCostsCents i + wi_lienBalanceCents i + su_surplusCents s
    \<and> so_outstanding (surplusObligation s now)
    \<and> (so_overdue (surplusObligation s now) \<longleftrightarrow> soldAt + holdDays * day_ms \<le> now)
    \<and> (canRecordDisposition (su_surplusCents s) d = None \<longleftrightarrow> d = Claimed \<or> d = Remitted)
    \<and> (canRecordDisposition (su_surplusCents s) d = None \<longleftrightarrow>
        \<not> so_outstanding (surplusObligation (s\<lparr>su_disposition := d\<rparr>) now))
    \<and> canRecordDisposition 0 d \<noteq> None"
proof -
  have "wr_surplusCents r = max 0 (wi_grossProceedsCents i - wi_saleCostsCents i - wi_lienBalanceCents i)"
    using assms(1) by (auto simp: distribute_eq split: if_splits)
  then have "wi_grossProceedsCents i = wi_saleCostsCents i + wi_lienBalanceCents i + wr_surplusCents r"
    using assms(2) by (auto simp: max_def split: if_splits)
  then show ?thesis
    using assms(2,3)
    by (cases d) (simp_all add: surplusObligation_def canRecordDisposition_def surplusHoldUntil_def Let_def)
qed

theorem surplus_obligation_until_disposed_witness:
  "so_outstanding (surplusObligation \<lparr>su_surplusCents = 12000, su_disposition = Held,
      su_holdUntil = Some (surplusHoldUntil 0 DEFAULT_SURPLUS_HOLD_DAYS), su_notifiedAt = None\<rparr> 0)"
proof -
  have "is_integer 50000" "is_integer 8000" "is_integer 30000"
    using is_integer_of_int [of 50000] is_integer_of_int [of 8000] is_integer_of_int [of 30000]
    by simp_all
  then have "distribute \<lparr>wi_grossProceedsCents = 50000, wi_saleCostsCents = 8000, wi_lienBalanceCents = 30000\<rparr>
    = Inr \<lparr>wr_costsRecoveredCents = 8000, wr_appliedToLienCents = 30000, wr_surplusCents = 12000,
        wr_deficiencyCents = 0\<rparr>" by (simp add: distribute_eq cents_input_def)
  from surplus_obligation_until_disposed [OF this, where soldAt = 0 and d = Held and now = 0
      and holdDays = DEFAULT_SURPLUS_HOLD_DAYS and notified = None]
  show ?thesis by simp
qed

text \<open>
  C21. A lien sale is blocked by every missing requirement, all of them reported at once: the kinds
  of the blockers returned are exactly the requirements the case violates (hold, vehicle, balance,
  timeline and its state, steps run and proven, notice served for the unit and the venue, deadline
  reached and outside a hold, venue named, approval, case neither sold nor cancelled), so the case
  is ready exactly when it violates none.
\<close>

theorem auctionReadiness_complete:
  "bl_kind ` set (rd_blockers (auctionReadiness i)) = {k. violated i k}
   \<and> (rd_ready (auctionReadiness i) \<longleftrightarrow> (\<nexists>k. violated i k))"
proof -
  have kinds: "bl_kind ` set (rd_blockers (auctionReadiness i)) = {k. violated i k}"
  proof (rule set_eqI)
    fix k
    show "k \<in> bl_kind ` set (rd_blockers (auctionReadiness i)) \<longleftrightarrow> k \<in> {k. violated i k}"
      unfolding auctionReadiness_def Let_def readiness.select_convs set_append image_Un Un_iff
        in_kinds mem_Collect_eq
      by (cases k) (simp_all only: violated.simps blocker_kind.simps simp_thms, blast)
  qed
  moreover have "rd_ready (auctionReadiness i) \<longleftrightarrow> rd_blockers (auctionReadiness i) = []"
    by (simp only: auctionReadiness_def Let_def readiness.select_convs length_0_conv)
  ultimately show ?thesis by (metis (no_types, lifting) empty_Collect_eq empty_set image_is_empty set_empty2)
qed

end
