(* ===== verification/Promotions.thy ===== *)
theory Promotions
  imports Auctions
begin

text \<open>
  Promotions: what one is worth per billing period (\<open>packages/core/promotions/schedule.ts\<close>), which
  one applies and what becomes of a typed code (\<open>eligibility.ts\<close>), what is charged back when a
  minimum stay is not served (\<open>recapture.ts\<close>), and the referral rules
  (\<open>packages/core/referrals/rules.ts\<close>). Texts for people are constructors. The import of
  \<open>Auctions\<close> is for \<open>toLowerCase\<close>.
\<close>

section \<open>schedule.ts\<close>

datatype promotion_type = Percent_off | Amount_off | Free_months

record promotion_terms =
  pt_type :: promotion_type
  pt_value :: int
  pt_durationPeriods :: rat

record discount_period =
  dp_periodIndex :: int
  dp_amountCents :: cents

record discount_schedule =
  sc_periods :: "discount_period list"
  sc_totalCents :: cents

definition amountForPeriod :: "('a promotion_terms_scheme) \<Rightarrow> cents \<Rightarrow> cents" where
  "amountForPeriod terms monthlyRateCents = (case pt_type terms of
      Free_months \<Rightarrow> monthlyRateCents
    | Percent_off \<Rightarrow> let percent = min 100 (max 0 (pt_value terms)) in
        min monthlyRateCents (round_div (monthlyRateCents * percent) 100)
    | Amount_off \<Rightarrow> min monthlyRateCents (max 0 (pt_value terms)))"

definition discountSchedule :: "('a promotion_terms_scheme) \<Rightarrow> cents \<Rightarrow> discount_schedule" where
  "discountSchedule terms monthlyRateCents = (
    let n = max 0 \<lfloor>pt_durationPeriods terms\<rfloor>;
        periods = concat (map (\<lambda>periodIndex.
          let amountCents = amountForPeriod terms monthlyRateCents in
          if 0 < amountCents
          then [\<lparr>dp_periodIndex = int periodIndex, dp_amountCents = amountCents\<rparr>] else [])
          [0..<nat n])
    in \<lparr>sc_periods = periods, sc_totalCents = sum_by dp_amountCents periods\<rparr>)"

definition discountForPeriod :: "discount_schedule \<Rightarrow> int \<Rightarrow> cents" where
  "discountForPeriod schedule periodIndex =
    (case find (\<lambda>period. dp_periodIndex period = periodIndex) (sc_periods schedule) of
      None \<Rightarrow> 0 | Some period \<Rightarrow> dp_amountCents period)"

datatype offer_kind =
  Operator_text string
| Free_months_offer int
| Percent_off_offer int int
| Amount_off_offer cents int

record offer_terms =
  ot_minStayMonths :: int
  ot_kind :: offer_kind

definition offerTerms ::
  "('a promotion_terms_scheme) \<Rightarrow> string option \<Rightarrow> rat option \<Rightarrow> cents option \<Rightarrow> offer_terms"
where
  "offerTerms promotion termsText minStay monthlyRateCents = (
    let minStayMonths = max 0 \<lfloor>or_else minStay 0\<rfloor>;
        textt = map_option trim termsText;
        periods = max 1 \<lfloor>pt_durationPeriods promotion\<rfloor>
    in \<lparr>ot_minStayMonths = minStayMonths, ot_kind =
        (if textt \<noteq> None \<and> textt \<noteq> Some [] then Operator_text (the textt)
         else case pt_type promotion of
            Free_months \<Rightarrow> Free_months_offer periods
          | Percent_off \<Rightarrow> Percent_off_offer (min 100 (pt_value promotion)) periods
          | Amount_off \<Rightarrow> Amount_off_offer (case monthlyRateCents of None \<Rightarrow> pt_value promotion
              | Some r \<Rightarrow> min (pt_value promotion) r) periods)\<rparr>)"

section \<open>eligibility.ts\<close>

datatype promotion_status = Draft | Active | Paused | Ended
datatype display_mode = Auto | Code_only

record promotion_candidate = promotion_terms +
  pc_id :: string
  pc_name :: string
  pc_status :: promotion_status
  pc_displayMode :: display_mode
  pc_facilityIds :: "string list"
  pc_unitTypeIds :: "string list"
  pc_newTenantOnly :: bool
  pc_startsAt :: "date option"
  pc_endsAt :: "date option"
  pc_maxRedemptions :: "int option"
  pc_redemptionCount :: int
  pc_termsText :: "string option"
  pc_minStayMonths :: rat
  pc_codes :: "string list"

record eligibility_context =
  ec_facilityId :: string
  ec_unitTypeId :: string
  ec_monthlyRateCents :: cents
  ec_isNewTenant :: bool
  ec_at :: date
  ec_code :: "string option"

record eligibility_result =
  er_promotion :: promotion_candidate
  er_schedule :: discount_schedule
  er_terms :: offer_terms
  er_code :: "string option"

datatype code_rejection =
  Unknown_code | Not_for_this_facility | Not_for_this_size | Existing_tenant_only
| Window_closed | Fully_redeemed | Not_active

datatype code_outcome =
  Code_applied offer_terms
| Code_superseded offer_terms
| Code_rejected code_rejection

record evaluation =
  ev_best :: "eligibility_result option"
  ev_automatic :: "eligibility_result list"
  ev_codeOutcome :: "code_outcome option"

definition disqualify :: "promotion_candidate \<Rightarrow> eligibility_context \<Rightarrow> code_rejection option" where
  "disqualify promotion context =
    (if pc_status promotion \<noteq> Active then Some Not_active
     else if (case pc_startsAt promotion of None \<Rightarrow> False | Some s \<Rightarrow> ec_at context < s)
       then Some Window_closed
     else if (case pc_endsAt promotion of None \<Rightarrow> False | Some e \<Rightarrow> e \<le> ec_at context)
       then Some Window_closed
     else if 0 < length (pc_facilityIds promotion) \<and> ec_facilityId context \<notin> set (pc_facilityIds promotion)
       then Some Not_for_this_facility
     else if 0 < length (pc_unitTypeIds promotion) \<and> ec_unitTypeId context \<notin> set (pc_unitTypeIds promotion)
       then Some Not_for_this_size
     else if pc_newTenantOnly promotion \<and> \<not> ec_isNewTenant context then Some Existing_tenant_only
     else if (case pc_maxRedemptions promotion of None \<Rightarrow> False | Some m \<Rightarrow> m \<le> pc_redemptionCount promotion)
       then Some Fully_redeemed
     else None)"

definition typed_code :: "eligibility_context \<Rightarrow> string option" where
  "typed_code context = (case ec_code context of None \<Rightarrow> None
    | Some c \<Rightarrow> if toLowerCase (trim c) = [] then None else Some (toLowerCase (trim c)))"

definition matched_code :: "string option \<Rightarrow> promotion_candidate \<Rightarrow> string option" where
  "matched_code typed promotion = (case typed of None \<Rightarrow> None
    | Some t \<Rightarrow> find (\<lambda>code. toLowerCase code = t) (pc_codes promotion))"

text \<open>One round of the loop over the candidates.\<close>

definition evaluate_step ::
  "eligibility_context \<Rightarrow> eligibility_result list \<times> code_rejection option \<Rightarrow> promotion_candidate \<Rightarrow>
    eligibility_result list \<times> code_rejection option"
where
  "evaluate_step context st promotion = (case st of (applicable, rejection) \<Rightarrow>
    let needsCode = (pc_displayMode promotion = Code_only);
        matchedCode = matched_code (typed_code context) promotion
    in if needsCode \<and> matchedCode = None then st
    else case disqualify promotion context of
        Some problem \<Rightarrow> if matchedCode \<noteq> None \<and> rejection = None
          then (applicable, Some problem) else st
      | None \<Rightarrow>
        let schedule = discountSchedule promotion (ec_monthlyRateCents context) in
        if sc_totalCents schedule \<le> 0 then st
        else (applicable @ [\<lparr>er_promotion = promotion, er_schedule = schedule,
          er_terms = offerTerms promotion (pc_termsText promotion) (Some (pc_minStayMonths promotion))
            (Some (ec_monthlyRateCents context)),
          er_code = matchedCode\<rparr>], rejection))"

definition result_order :: "eligibility_result \<Rightarrow> eligibility_result \<Rightarrow> int" where
  "result_order a b = (let byValue = sc_totalCents (er_schedule b) - sc_totalCents (er_schedule a) in
    if byValue \<noteq> 0 then byValue
    else (if er_code a = None then 0 else 1) - (if er_code b = None then 0 else 1))"

definition outcomeFor ::
  "string option \<Rightarrow> code_rejection option \<Rightarrow> eligibility_result list \<Rightarrow> eligibility_result option \<Rightarrow>
    code_outcome option"
where
  "outcomeFor typed rejection applicable best =
    (if typed = None then None
     else case rejection of Some r \<Rightarrow> Some (Code_rejected r)
     | None \<Rightarrow> (case find (\<lambda>result. er_code result \<noteq> None) applicable of
         None \<Rightarrow> Some (Code_rejected Unknown_code)
       | Some matched \<Rightarrow>
         (case best of
            Some b \<Rightarrow> if er_code b = None then Some (Code_superseded (er_terms b))
              else Some (Code_applied (er_terms matched))
          | None \<Rightarrow> Some (Code_applied (er_terms matched)))))"

definition evaluatePromotions :: "promotion_candidate list \<Rightarrow> eligibility_context \<Rightarrow> evaluation" where
  "evaluatePromotions candidates context = (
    let typed = typed_code context;
        (applicable, rejection) = foldl (evaluate_step context) ([], None) candidates;
        rejection' = (if typed \<noteq> None \<and> list_all (\<lambda>result. er_code result = None) applicable
            \<and> rejection = None then Some Unknown_code else rejection);
        best = (case sort_by result_order applicable of [] \<Rightarrow> None | r # _ \<Rightarrow> Some r)
    in \<lparr>ev_best = best,
        ev_automatic = filter (\<lambda>result. pc_displayMode (er_promotion result) = Auto) applicable,
        ev_codeOutcome = outcomeFor typed rejection' applicable best\<rparr>)"

section \<open>recapture.ts\<close>

datatype recapture_policy = No_recapture | Full_recapture | Prorated_recapture

record recapture_input =
  rp_policy :: recapture_policy
  rp_discountGivenCents :: rat
  rp_minStayMonths :: rat
  rp_monthsServed :: rat

record recapture_reason =
  rr_policy :: recapture_policy
  rr_minStayMonths :: int
  rr_monthsServed :: int
  rr_monthsRemaining :: int

record recapture =
  rk_amountCents :: cents
  rk_monthsRemaining :: int
  rk_reason :: "recapture_reason option"

definition NONE :: recapture where
  "NONE = \<lparr>rk_amountCents = 0, rk_monthsRemaining = 0, rk_reason = None\<rparr>"

definition monthsServed :: "date \<Rightarrow> date \<Rightarrow> int" where
  "monthsServed startDate moveOutDate = (
    let years = utc_full_year moveOutDate - utc_full_year startDate;
        months = utc_month moveOutDate - utc_month startDate;
        whole = years * 12 + months;
        completed = (if utc_date startDate \<le> utc_date moveOutDate then whole else whole - 1)
    in max 0 completed)"

datatype min_stay_summary = No_fixed_term | Condition_only int | Charge_back_whole int | Charge_back_share int

definition minStayTermSummary :: "recapture_policy \<Rightarrow> rat \<Rightarrow> min_stay_summary" where
  "minStayTermSummary policy minStayMonths = (let minStay = max 0 \<lfloor>minStayMonths\<rfloor> in
    if minStay < 1 then No_fixed_term
    else if policy = No_recapture then Condition_only minStay
    else if policy = Full_recapture then Charge_back_whole minStay else Charge_back_share minStay)"

definition recaptureFor :: "recapture_input \<Rightarrow> recapture" where
  "recaptureFor input = (
    let minStay = max 0 \<lfloor>rp_minStayMonths input\<rfloor>;
        given = max 0 (math_round (rp_discountGivenCents input));
        served = max 0 \<lfloor>rp_monthsServed input\<rfloor>
    in if rp_policy input = No_recapture \<or> minStay < 1 \<or> given = 0 then NONE
    else let monthsRemaining = minStay - served in
    if monthsRemaining \<le> 0 then NONE
    else let amountCents = (if rp_policy input = Full_recapture then given
          else min given (round_div (given * monthsRemaining) minStay))
    in if amountCents \<le> 0 then NONE
    else \<lparr>rk_amountCents = amountCents, rk_monthsRemaining = monthsRemaining,
      rk_reason = Some \<lparr>rr_policy = rp_policy input, rr_minStayMonths = minStay,
        rr_monthsServed = served, rr_monthsRemaining = monthsRemaining\<rparr>\<rparr>)"

section \<open>referrals/rules.ts\<close>

datatype referral_refusal =
  Self_referral | Existing_tenant | Already_referred | Annual_cap_reached | Invite_expired
| Invite_already_used | Different_facility | Program_disabled

record eligibility_facts =
  ef_programEnabled :: bool
  ef_isSelfReferral :: bool
  ef_refereeHasPriorLease :: bool
  ef_refereeAlreadyReferred :: bool
  ef_referrerQualifiedLast12Months :: int
  ef_annualCap :: int
  ef_inviteExpired :: bool
  ef_inviteAlreadyRedeemed :: bool
  ef_sameFacility :: bool
  ef_crossFacilityAllowed :: bool

definition evaluateReferral :: "eligibility_facts \<Rightarrow> referral_refusal option" where
  "evaluateReferral facts =
    (if \<not> ef_programEnabled facts then Some Program_disabled
     else if ef_isSelfReferral facts then Some Self_referral
     else if ef_refereeHasPriorLease facts then Some Existing_tenant
     else if ef_refereeAlreadyReferred facts then Some Already_referred
     else if ef_inviteAlreadyRedeemed facts then Some Invite_already_used
     else if ef_inviteExpired facts then Some Invite_expired
     else if \<not> ef_sameFacility facts \<and> \<not> ef_crossFacilityAllowed facts then Some Different_facility
     else if ef_annualCap facts \<le> ef_referrerQualifiedLast12Months facts then Some Annual_cap_reached
     else None)"

definition cappedRewardCents :: "cents \<Rightarrow> cents \<Rightarrow> cents \<Rightarrow> cents" where
  "cappedRewardCents rewardCents rentCents otherDiscountsCents = (
    let remaining = max 0 (rentCents - otherDiscountsCents) in max 0 (min rewardCents remaining))"

section \<open>Lemmas\<close>

lemma amountForPeriod_bounds:
  "0 \<le> rate \<Longrightarrow> 0 \<le> amountForPeriod terms rate \<and> amountForPeriod terms rate \<le> rate"
  by (cases "pt_type terms") (auto simp: amountForPeriod_def Let_def intro!: round_div_nonneg)

lemma discountSchedule_periods:
  "sc_periods (discountSchedule terms rate) = (if 0 < amountForPeriod terms rate
    then map (\<lambda>i. \<lparr>dp_periodIndex = int i, dp_amountCents = amountForPeriod terms rate\<rparr>)
      [0..<nat (max 0 \<lfloor>pt_durationPeriods terms\<rfloor>)] else [])"
proof -
  have "concat (map (\<lambda>x. [f x]) xs) = map f xs" and "concat (map (\<lambda>x. []) xs) = []"
    for f :: "nat \<Rightarrow> discount_period" and xs by (induction xs) auto
  then show ?thesis by (simp add: discountSchedule_def Let_def)
qed

lemma sum_by_const: "sum_by (\<lambda>_. c) xs = int (length xs) * c"
  by (induction xs) (auto simp: algebra_simps)

lemma discountSchedule_total:
  "sc_totalCents (discountSchedule terms rate) =
    (if 0 < amountForPeriod terms rate
     then max 0 \<lfloor>pt_durationPeriods terms\<rfloor> * amountForPeriod terms rate else 0)"
proof -
  have "sc_totalCents (discountSchedule terms rate) =
      sum_by dp_amountCents (sc_periods (discountSchedule terms rate))"
    by (simp add: discountSchedule_def Let_def)
  then show ?thesis by (simp add: discountSchedule_periods o_def sum_by_const)
qed

lemma find_SomeD:
  assumes "find P xs = Some x" shows "P x" and "x \<in> set xs"
  using assms by (induction xs) (auto split: if_splits)

lemma find_index:
  "find (\<lambda>p. dp_periodIndex p = k) (map (\<lambda>i. \<lparr>dp_periodIndex = int i, dp_amountCents = a\<rparr>) [m..<n]) =
    (if int m \<le> k \<and> k < int n then Some \<lparr>dp_periodIndex = k, dp_amountCents = a\<rparr> else None)"
proof (induction "n - m" arbitrary: m)
  case (Suc x)
  then have "[m..<n] = m # [Suc m..<n]" by (simp add: upt_conv_Cons)
  then show ?case using Suc.hyps(1) [of "Suc m"] Suc.hyps(2) by auto
qed auto

lemma result_order_then_by:
  "result_order = then_by (by_key (\<lambda>r. - sc_totalCents (er_schedule r)))
    (by_key (\<lambda>r. if er_code r = None then 0 else 1))"
  by (intro ext) (simp add: result_order_def then_by_def by_key_def Let_def)

interpretation result_order: sign_comparator result_order
  unfolding result_order_then_by by (intro then_by_comparator by_key_comparator)

text \<open>A candidate contributes its own result or nothing.\<close>

definition offers :: "eligibility_context \<Rightarrow> promotion_candidate \<Rightarrow> bool" where
  "offers ctx p \<longleftrightarrow> \<not> (pc_displayMode p = Code_only \<and> matched_code (typed_code ctx) p = None)
    \<and> disqualify p ctx = None
    \<and> 0 < sc_totalCents (discountSchedule p (ec_monthlyRateCents ctx))"

definition result_of :: "eligibility_context \<Rightarrow> promotion_candidate \<Rightarrow> eligibility_result" where
  "result_of ctx p = \<lparr>er_promotion = p,
    er_schedule = discountSchedule p (ec_monthlyRateCents ctx),
    er_terms = offerTerms p (pc_termsText p) (Some (pc_minStayMonths p)) (Some (ec_monthlyRateCents ctx)),
    er_code = matched_code (typed_code ctx) p\<rparr>"

definition rejected_by :: "eligibility_context \<Rightarrow> promotion_candidate \<Rightarrow> bool" where
  "rejected_by ctx p \<longleftrightarrow> matched_code (typed_code ctx) p \<noteq> None \<and> disqualify p ctx \<noteq> None"

lemma evaluate_step_eq:
  "evaluate_step ctx (rs, rej) p =
    (if offers ctx p then rs @ [result_of ctx p] else rs,
     if rejected_by ctx p \<and> rej = None then disqualify p ctx else rej)"
  by (cases "disqualify p ctx"; cases "matched_code (typed_code ctx) p"; cases rej)
    (simp_all add: evaluate_step_def Let_def offers_def rejected_by_def result_of_def)

lemma evaluate_fold:
  "foldl (evaluate_step ctx) (rs, rej) ps =
    (rs @ map (result_of ctx) (filter (offers ctx) ps),
     case rej of Some r \<Rightarrow> Some r
     | None \<Rightarrow> Option.bind (find (rejected_by ctx) ps) (\<lambda>p. disqualify p ctx))"
proof (induction ps arbitrary: rs rej)
  case (Cons p ps)
  have "disqualify p ctx \<noteq> None" if "rejected_by ctx p" using that by (simp add: rejected_by_def)
  then show ?case by (cases rej) (auto simp: evaluate_step_eq Cons.IH split: option.splits)
qed (simp split: option.splits)

lemma evaluatePromotions_eq:
  fixes ps ctx
  defines "rs \<equiv> map (result_of ctx) (filter (offers ctx) ps)"
    and "rej \<equiv> Option.bind (find (rejected_by ctx) ps) (\<lambda>p. disqualify p ctx)"
  shows "ev_best (evaluatePromotions ps ctx) =
      (case sort_by result_order rs of [] \<Rightarrow> None | r # _ \<Rightarrow> Some r)"
    and "ev_automatic (evaluatePromotions ps ctx) =
      filter (\<lambda>r. pc_displayMode (er_promotion r) = Auto) rs"
    and "ev_codeOutcome (evaluatePromotions ps ctx) = outcomeFor (typed_code ctx)
      (if typed_code ctx \<noteq> None \<and> list_all (\<lambda>r. er_code r = None) rs \<and> rej = None
       then Some Unknown_code else rej) rs (ev_best (evaluatePromotions ps ctx))"
  unfolding rs_def rej_def by (simp_all add: evaluatePromotions_def evaluate_fold Let_def)

lemma best_result:
  assumes "ev_best (evaluatePromotions ps ctx) = Some b"
  shows "\<exists>p \<in> set ps. offers ctx p \<and> b = result_of ctx p"
    and "\<And>p. p \<in> set ps \<Longrightarrow> offers ctx p \<Longrightarrow> result_order b (result_of ctx p) \<le> 0"
proof -
  define rs where "rs = map (result_of ctx) (filter (offers ctx) ps)"
  obtain rest where s: "sort_by result_order rs = b # rest"
    using assms by (auto simp: evaluatePromotions_eq(1) rs_def split: list.splits)
  have "b \<in> set rs" using s by (metis list.set_intros(1) set_sort_by)
  then show "\<exists>p \<in> set ps. offers ctx p \<and> b = result_of ctx p" by (auto simp: rs_def)
  show "result_order b (result_of ctx p) \<le> 0" if "p \<in> set ps" "offers ctx p" for p
  proof -
    have "result_of ctx p \<in> set (b # rest)"
      using that s by (metis (no_types, lifting) imageI list.set_map mem_Collect_eq rs_def set_filter set_sort_by)
    moreover have "result_order b b \<le> 0" by (simp add: result_order_def)
    ultimately show ?thesis using result_order.sorted_sort_by [of rs] by (auto simp: s)
  qed
qed

lemma best_None:
  "ev_best (evaluatePromotions ps ctx) = None \<longleftrightarrow> (\<forall>p \<in> set ps. \<not> offers ctx p)"
proof -
  define rs where "rs = map (result_of ctx) (filter (offers ctx) ps)"
  have "ev_best (evaluatePromotions ps ctx) = None \<longleftrightarrow> sort_by result_order rs = []"
    by (cases "sort_by result_order rs") (simp_all add: evaluatePromotions_eq(1) rs_def)
  also have "\<dots> \<longleftrightarrow> set (sort_by result_order rs) = {}" by simp
  finally show ?thesis by (auto simp: rs_def filter_empty_conv)
qed

lemma best_offer:
  "case ev_best (evaluatePromotions ps ctx) of
    None \<Rightarrow> \<forall>p \<in> set ps. \<not> offers ctx p
  | Some b \<Rightarrow> (\<exists>p \<in> set ps. offers ctx p \<and> b = result_of ctx p)
      \<and> disqualify (er_promotion b) ctx = None
      \<and> (er_code b = None \<longrightarrow> pc_displayMode (er_promotion b) = Auto)
      \<and> (\<forall>p \<in> set ps. offers ctx p \<longrightarrow>
          sc_totalCents (er_schedule (result_of ctx p)) \<le> sc_totalCents (er_schedule b)
          \<and> (sc_totalCents (er_schedule (result_of ctx p)) = sc_totalCents (er_schedule b)
              \<and> er_code b \<noteq> None \<longrightarrow> er_code (result_of ctx p) \<noteq> None))"
proof (cases "ev_best (evaluatePromotions ps ctx)")
  case None
  moreover from this have "\<forall>p \<in> set ps. \<not> offers ctx p" by (simp add: best_None)
  ultimately show ?thesis by simp
next
  have code: "er_code (result_of ctx p) = matched_code (typed_code ctx) p" for p
    by (simp add: result_of_def)
  case (Some b)
  obtain p where p: "p \<in> set ps" "offers ctx p" "b = result_of ctx p"
    using best_result(1) [OF Some] by blast
  have auto: "pc_displayMode p = Auto" if "matched_code (typed_code ctx) p = None"
    using p(2) that by (cases "pc_displayMode p") (auto simp: offers_def)
  have "sc_totalCents (er_schedule (result_of ctx x)) \<le> sc_totalCents (er_schedule b)
      \<and> (sc_totalCents (er_schedule (result_of ctx x)) = sc_totalCents (er_schedule b)
          \<and> er_code b \<noteq> None \<longrightarrow> er_code (result_of ctx x) \<noteq> None)"
    if "x \<in> set ps" "offers ctx x" for x
    using best_result(2) [OF Some that]
    by (auto simp: result_order_def Let_def split: if_splits)
  then show ?thesis
    using Some p auto by (auto simp: code offers_def) (simp_all add: result_of_def)
qed

lemma first_rejection:
  assumes unique: "\<forall>p \<in> set ps. matched_code (typed_code ctx) p \<noteq> None \<longrightarrow> p = c" and "c \<in> set ps"
    and named: "matched_code (typed_code ctx) c \<noteq> None"
  shows "Option.bind (find (rejected_by ctx) ps) (\<lambda>p. disqualify p ctx) = disqualify c ctx"
proof (cases "find (rejected_by ctx) ps")
  case None
  then have "\<not> rejected_by ctx c" using assms(2) by (auto simp: find_None_iff)
  then have "disqualify c ctx = None" using named unfolding rejected_by_def by blast
  then show ?thesis using None by simp
next
  case (Some x)
  have "rejected_by ctx x" "x \<in> set ps" using find_SomeD [OF Some] by simp_all
  then have "x = c" using unique by (simp add: rejected_by_def)
  then show ?thesis using Some by simp
qed

section \<open>Properties\<close>

text \<open>
  A promotion never pays a tenant: on a rate that is not negative every discounted period takes
  off between nothing and the rent, the same amount in each period of the duration and nothing
  after it, and the total is what the periods sum to; and what is charged back at a move-out is
  between nothing and what was given, nothing once the minimum stay is served or under the policy
  that recovers nothing, the whole under the full policy, and never more for a longer stay.
\<close>

theorem promotion_worth_bounded:
  assumes "0 \<le> rate" and "served \<le> served'"
  shows "0 \<le> discountForPeriod (discountSchedule terms rate) k
    \<and> discountForPeriod (discountSchedule terms rate) k \<le> rate
    \<and> discountForPeriod (discountSchedule terms rate) k =
      (if 0 \<le> k \<and> k < \<lfloor>pt_durationPeriods terms\<rfloor> then amountForPeriod terms rate else 0)
    \<and> sc_totalCents (discountSchedule terms rate) =
      max 0 \<lfloor>pt_durationPeriods terms\<rfloor> * amountForPeriod terms rate
    \<and> (let charge = \<lambda>m. rk_amountCents (recaptureFor \<lparr>rp_policy = pol, rp_discountGivenCents = given,
          rp_minStayMonths = of_int stay, rp_monthsServed = of_int m\<rparr>) in
        0 \<le> charge served \<and> charge served \<le> max 0 (math_round given)
        \<and> (stay \<le> served \<or> pol = No_recapture \<longrightarrow> charge served = 0)
        \<and> (pol = Full_recapture \<and> served < stay \<and> 0 < stay \<longrightarrow> charge served = max 0 (math_round given))
        \<and> charge served' \<le> charge served)"
proof -
  have disc: "discountForPeriod (discountSchedule terms rate) k =
      (if 0 \<le> k \<and> k < \<lfloor>pt_durationPeriods terms\<rfloor> then amountForPeriod terms rate else 0)"
    using amountForPeriod_bounds [OF assms(1), of terms]
    by (auto simp: discountForPeriod_def discountSchedule_periods find_index)
  define g where "g = max 0 (math_round given)"
  define q where "q = (\<lambda>m. min g (round_div (g * (stay - max 0 m)) stay))"
  have mono: "q served' \<le> q served" if "0 < stay"
    unfolding q_def using that assms(2) by (intro min.mono round_div_mono mult_left_mono) (auto simp: g_def)
  have q: "0 \<le> q m" "q m \<le> g" if "0 < stay" "max 0 m < stay" for m
    using that by (auto simp: q_def g_def intro!: round_div_nonneg mult_nonneg_nonneg)
  have charge: "rk_amountCents (recaptureFor \<lparr>rp_policy = pol, rp_discountGivenCents = given,
      rp_minStayMonths = of_int stay, rp_monthsServed = of_int m\<rparr>) =
      (if pol = No_recapture \<or> stay < 1 \<or> stay \<le> max 0 m then 0
       else if pol = Full_recapture then g else q m)" for m
    using q [of m] by (auto simp: recaptureFor_def NONE_def Let_def g_def q_def max_def not_le)
  show ?thesis
    using disc amountForPeriod_bounds [OF assms(1), of terms] assms(2) q [of served] q [of served'] mono
    unfolding Let_def charge discountSchedule_total g_def [symmetric]
    by (auto simp: g_def)
qed

theorem promotion_worth_bounded_witness:
  "discountForPeriod (discountSchedule \<lparr>pt_type = Amount_off, pt_value = 5000, pt_durationPeriods = 3\<rparr> 3900) 2
    \<le> 3900"
proof -
  have "0 \<le> (3900 :: cents)" "2 \<le> (4 :: int)" by simp_all
  from promotion_worth_bounded [OF this] show ?thesis by blast
qed

text \<open>
  One offer, the best one, and an honest answer about the code: the offer applied is one a
  candidate makes that is active, in its window, for the facility, the size and the tenant, and
  under its cap; a code-only promotion is never offered without its code; no candidate's offer is
  worth more, and on a tie an offer without a code is kept; there is none exactly when no candidate
  offers anything. For a typed code that belongs to one candidate, the answer is that it was
  applied exactly when it is the offer applied, superseded exactly when it is worth something but
  another offer is kept, and rejected otherwise.
\<close>

theorem evaluatePromotions_best:
  assumes typed: "typed_code ctx \<noteq> None"
    and unique: "\<forall>p \<in> set ps. matched_code (typed_code ctx) p \<noteq> None \<longrightarrow> p = c" and "c \<in> set ps"
    and named: "matched_code (typed_code ctx) c \<noteq> None"
  shows "(case ev_best (evaluatePromotions ps ctx) of
      None \<Rightarrow> \<forall>p \<in> set ps. \<not> offers ctx p
    | Some b \<Rightarrow> (\<exists>p \<in> set ps. offers ctx p \<and> b = result_of ctx p)
        \<and> disqualify (er_promotion b) ctx = None
        \<and> (er_code b = None \<longrightarrow> pc_displayMode (er_promotion b) = Auto)
        \<and> (\<forall>p \<in> set ps. offers ctx p \<longrightarrow>
            sc_totalCents (er_schedule (result_of ctx p)) \<le> sc_totalCents (er_schedule b)
            \<and> (sc_totalCents (er_schedule (result_of ctx p)) = sc_totalCents (er_schedule b)
                \<and> er_code b \<noteq> None \<longrightarrow> er_code (result_of ctx p) \<noteq> None)))
    \<and> (case ev_codeOutcome (evaluatePromotions ps ctx) of
        Some (Code_applied t) \<Rightarrow> ev_best (evaluatePromotions ps ctx) = Some (result_of ctx c)
          \<and> t = er_terms (result_of ctx c)
      | Some (Code_superseded t) \<Rightarrow> offers ctx c \<and> (\<exists>b. ev_best (evaluatePromotions ps ctx) = Some b
          \<and> er_code b = None \<and> t = er_terms b)
      | Some (Code_rejected r) \<Rightarrow> \<not> offers ctx c
          \<and> disqualify c ctx = (if r = Unknown_code then None else Some r)
      | None \<Rightarrow> False)"
proof -
  let ?e = "evaluatePromotions ps ctx"
  have code: "er_code (result_of ctx p) = matched_code (typed_code ctx) p" for p
    by (simp add: result_of_def)
  note best = best_offer [of ps ctx]
  define rs where "rs = map (result_of ctx) (filter (offers ctx) ps)"
  define rej where "rej = Option.bind (find (rejected_by ctx) ps) (\<lambda>p. disqualify p ctx)"
  note outcome = evaluatePromotions_eq(3) [of ps ctx, folded rs_def rej_def]
  have rejected: "rej = disqualify c ctx"
    unfolding rej_def using unique assms(3) named by (rule first_rejection)
  have coded: "er_code r \<noteq> None \<longleftrightarrow> r = result_of ctx c" if "r \<in> set rs" for r
    using that unique named code by (auto simp: rs_def)
  have mem: "result_of ctx c \<in> set rs \<longleftrightarrow> offers ctx c"
  proof
    assume "result_of ctx c \<in> set rs"
    then obtain x where "x \<in> set ps" "offers ctx x" "result_of ctx x = result_of ctx c"
      by (auto simp: rs_def)
    then show "offers ctx c" using unique code named by metis
  qed (use assms(3) in \<open>auto simp: rs_def\<close>)
  show ?thesis
  proof (cases "offers ctx c")
    case True
    then have d: "disqualify c ctx = None" by (simp add: offers_def)
    have "find (\<lambda>r. er_code r \<noteq> None) rs = Some (result_of ctx c)"
    proof -
      have "find (\<lambda>r. er_code r \<noteq> None) rs \<noteq> None"
        using mem True coded by (auto simp: find_None_iff)
      then obtain x where x: "find (\<lambda>r. er_code r \<noteq> None) rs = Some x" by auto
      then have "x \<in> set rs" "er_code x \<noteq> None" by (auto dest: find_SomeD)
      then show ?thesis using coded x by simp
    qed
    moreover have "\<not> list_all (\<lambda>r. er_code r = None) rs"
      using mem True coded by (auto simp: list_all_iff)
    ultimately have o: "ev_codeOutcome ?e = (case ev_best ?e of
        Some b \<Rightarrow> if er_code b = None then Some (Code_superseded (er_terms b))
          else Some (Code_applied (er_terms (result_of ctx c)))
      | None \<Rightarrow> Some (Code_applied (er_terms (result_of ctx c))))"
      using typed d by (cases "typed_code ctx") (simp_all add: outcome rejected outcomeFor_def)
    obtain b where b: "ev_best ?e = Some b"
      using True assms(3) best_None [of ps ctx] by (cases "ev_best ?e") auto
    then have "er_code b \<noteq> None \<longrightarrow> b = result_of ctx c"
      using best_result(1) [OF b] unique code by auto
    then show ?thesis using best o b True by (auto split: if_splits)
  next
    case False
    then have "er_code r = None" if "r \<in> set rs" for r
      using coded [OF that] mem that by blast
    then have "list_all (\<lambda>r. er_code r = None) rs" by (simp add: list_all_iff)
    moreover have "disqualify p x \<noteq> Some Unknown_code" for p x by (simp add: disqualify_def)
    ultimately have "ev_codeOutcome ?e = Some (Code_rejected (case disqualify c ctx of
        None \<Rightarrow> Unknown_code | Some r \<Rightarrow> r))"
      using typed by (cases "typed_code ctx"; cases "disqualify c ctx")
        (simp_all add: outcome rejected outcomeFor_def)
    then show ?thesis
      using best False \<open>\<And>p x. disqualify p x \<noteq> Some Unknown_code\<close>
      by (cases "disqualify c ctx") auto
  qed
qed

definition spring_promotion :: promotion_candidate where
  "spring_promotion = \<lparr>pt_type = Percent_off, pt_value = 50, pt_durationPeriods = 3,
    pc_id = ''p'', pc_name = ''Spring'', pc_status = Active, pc_displayMode = Code_only,
    pc_facilityIds = [], pc_unitTypeIds = [], pc_newTenantOnly = False, pc_startsAt = None,
    pc_endsAt = None, pc_maxRedemptions = None, pc_redemptionCount = 0, pc_termsText = None,
    pc_minStayMonths = 0, pc_codes = [''SPRING25'']\<rparr>"

definition spring_context :: eligibility_context where
  "spring_context = \<lparr>ec_facilityId = ''f'', ec_unitTypeId = ''u'', ec_monthlyRateCents = 12900,
    ec_isNewTenant = True, ec_at = 0, ec_code = Some '' spring25 ''\<rparr>"

theorem evaluatePromotions_best_witness:
  "ev_codeOutcome (evaluatePromotions [spring_promotion] spring_context) \<noteq> None"
proof -
  have t: "typed_code spring_context = Some ''spring25''"
    and m: "matched_code (Some ''spring25'') spring_promotion = Some ''SPRING25''" by code_simp+
  show ?thesis
    using evaluatePromotions_best [of spring_context "[spring_promotion]" spring_promotion]
    by (auto simp: t m split: option.splits)
qed

end
