(* ===== verification/Transitions.thy ===== *)
theory Transitions
  imports Prelude
begin

text \<open>
  Step relations of the components that several workers run at once: what a step preserves a run
  preserves, and what every step keeps from growing or losing an entry a run does. A component
  interprets the locales for its own relation.
\<close>

locale preserved =
  fixes step :: "'s \<Rightarrow> 's \<Rightarrow> bool" and P :: "'s \<Rightarrow> bool"
  assumes step_preserves: "step s t \<Longrightarrow> P s \<Longrightarrow> P t"
begin

lemma run_preserves: "step\<^sup>*\<^sup>* s t \<Longrightarrow> P s \<Longrightarrow> P t"
  by (induction rule: rtranclp_induct) (auto intro: step_preserves)

end

text \<open>An invariant: it also holds where a run may start.\<close>

locale invariant_of = preserved +
  fixes start :: "'a \<Rightarrow> bool"
  assumes start_holds: "start s \<Longrightarrow> P s"
begin

lemma reachable_holds: "start s \<Longrightarrow> step\<^sup>*\<^sup>* s t \<Longrightarrow> P t"
  using run_preserves start_holds by blast

end

text \<open>A log that steps only append to.\<close>

locale append_only =
  fixes step :: "'s \<Rightarrow> 's \<Rightarrow> bool" and log :: "'s \<Rightarrow> 'e list"
  assumes step_appends: "step s t \<Longrightarrow> \<exists>es. log t = log s @ es"
begin

lemma run_appends: "step\<^sup>*\<^sup>* s t \<Longrightarrow> \<exists>es. log t = log s @ es"
proof (induction rule: rtranclp_induct)
  case (step y z)
  obtain es es' where "log y = log s @ es" "log z = log y @ es'"
    using step.IH step_appends [OF step.hyps(2)] by blast
  then show ?case by simp
qed simp

end

end
