(* ===== verification/Outbox.thy ===== *)
theory Outbox
  imports Transitions
begin

text \<open>
  The transactional outbox: the event catalogue (\<open>packages/core/events/catalog.ts\<close>), appending an
  event (\<open>outbox.ts\<close>), and the dispatcher that hands every event to its consumers with retries
  (\<open>dispatch.ts\<close>). The delivery table is a map from (event id, consumer name), the columns of its
  unique index, to a row. The dispatcher is modelled twice: as the function one worker runs from
  start to end, the handler being a parameter, and as a step relation in which any number of
  workers interleave between their database statements and may crash at any point.
\<close>

section \<open>catalog.ts and outbox.ts\<close>

definition EVENT_NAMES :: "string list" where
  "EVENT_NAMES = [
    ''unit.status_changed'', ''lease.moved_in'', ''lease.moved_out'', ''lease.transferred'',
    ''lease.move_out_requested'', ''lease.transfer_requested'', ''reservation.created'',
    ''reservation.expired'', ''reservation.cancelled'', ''reservation.expiring_soon'',
    ''reservation.transfer_hold_expiring_soon'', ''invoice.created'', ''invoice.due_soon'',
    ''invoice.due_today'', ''invoice.reissued'', ''payment.succeeded'', ''payment.processing'',
    ''payment.failed'', ''payment.refunded'', ''refund.sent'', ''payment.returned'',
    ''payment.retry_reminder'', ''payment_method.expiring'', ''referral.qualified'',
    ''referral.reward_granted'', ''referral.refused'', ''protection.proof_expiring'',
    ''protection.auto_enrolled'', ''delinquency.day_reached'', ''delinquency.stage_changed'',
    ''payment_plan.agreed'', ''payment_plan.installment_due_soon'', ''payment_plan.broken'',
    ''payment_plan.broken_unpaid_rent'', ''payment_plan.completed'', ''payment_plan.cancelled'',
    ''sms.inbound_received'', ''charge.question_asked'', ''charge_question.answered'',
    ''access.granted'', ''access.suspended'', ''access.restored'', ''access.revoked'',
    ''access.sync_failed'', ''overlock.required'', ''overlock.cleared'', ''rates.updated'',
    ''lease.rate_increase_scheduled'', ''lead.created'', ''esign.completed'', ''notice.generated'',
    ''review.requested'', ''lead.drip_step'', ''checkout.abandonment_step''
  ]"

definition isKnownEvent :: "string \<Rightarrow> bool" where
  "isKnownEvent name \<longleftrightarrow> name \<in> set EVENT_NAMES"

record event =
  ev_id :: string
  ev_name :: string
  ev_facilityId :: "string option"
  ev_occurredAt :: date

record emit_input =
  em_name :: string
  em_facilityId :: "string option"
  em_occurredAt :: "date option"

text \<open>The id and the time of an event without one are the database's defaults.\<close>

definition emitEvent :: "string \<Rightarrow> date \<Rightarrow> emit_input \<Rightarrow> event list \<Rightarrow> string + (event list \<times> event)" where
  "emitEvent newId now x events = (
    if \<not> isKnownEvent (em_name x) then Inl (em_name x)
    else let e = \<lparr>ev_id = newId, ev_name = em_name x, ev_facilityId = em_facilityId x,
           ev_occurredAt = or_else (em_occurredAt x) now\<rparr>
         in Inr (events @ [e], e))"

section \<open>dispatch.ts: the rows and the retry policy\<close>

datatype delivery_status = Processing | Succeeded | Failed | Dead_letter

record delivery =
  dl_status :: delivery_status
  dl_attempts :: nat
  dl_nextAttemptAt :: "date option"
  dl_completedAt :: "date option"
  dl_lastError :: "string option"

type_synonym delivery_key = "string \<times> string"
type_synonym deliveries = "delivery_key \<rightharpoonup> delivery"

record event_consumer =
  co_name :: string
  co_events :: "string list"

definition maxAttempts :: nat where
  "maxAttempts = 5"

definition backoffMs :: "nat \<Rightarrow> int" where
  "backoffMs attempt = min (60000 * 5 ^ (attempt - 1)) (60 * 60000)"

text \<open>The condition of both queries: no row, or a failed one whose next attempt has come.\<close>

definition unsettled :: "date \<Rightarrow> delivery option \<Rightarrow> bool" where
  "unsettled now row = (case row of None \<Rightarrow> True
    | Some d \<Rightarrow> dl_status d = Failed \<and> (case dl_nextAttemptAt d of None \<Rightarrow> False | Some t \<Rightarrow> t \<le> now))"

record outbox =
  ob_events :: "event list"
  ob_deliveries :: deliveries
  ob_now :: date

definition concerns :: "event_consumer \<Rightarrow> string option \<Rightarrow> event \<Rightarrow> bool" where
  "concerns c facilityId e \<longleftrightarrow> ev_name e \<in> set (co_events c)
    \<and> (facilityId = None \<or> ev_facilityId e = facilityId)"

definition pendingEventsFor :: "outbox \<Rightarrow> event_consumer \<Rightarrow> nat \<Rightarrow> string option \<Rightarrow> event list" where
  "pendingEventsFor st c limit facilityId = take limit (sort_by (by_key ev_occurredAt)
    (filter (\<lambda>e. concerns c facilityId e
      \<and> unsettled (ob_now st) (ob_deliveries st (ev_id e, co_name c))) (ob_events st)))"

definition staleDeliveryCount :: "outbox \<Rightarrow> event_consumer \<Rightarrow> int \<Rightarrow> date \<Rightarrow> string option \<Rightarrow> nat" where
  "staleDeliveryCount st c olderThanMs now facilityId = length (filter (\<lambda>e.
    concerns c facilityId e \<and> ev_occurredAt e \<le> now - olderThanMs
    \<and> unsettled now (ob_deliveries st (ev_id e, co_name c))) (ob_events st))"

section \<open>Claiming and settling\<close>

text \<open>
  \<open>claim\<close> reads the row and then issues one write: an insert, which the unique index refuses when a
  row has appeared meanwhile, or an update conditioned on the row still being failed, which writes
  the attempt count that was read.
\<close>

datatype claim_write = Create_row | Reclaim nat | Give_up

definition claim_read :: "delivery option \<Rightarrow> claim_write" where
  "claim_read existing = (case existing of None \<Rightarrow> Create_row
    | Some d \<Rightarrow> if dl_status d \<noteq> Failed then Give_up else Reclaim (dl_attempts d + 1))"

fun claim_commit :: "deliveries \<Rightarrow> delivery_key \<Rightarrow> claim_write \<Rightarrow> deliveries \<times> nat option" where
  "claim_commit db k Give_up = (db, None)"
| "claim_commit db k Create_row = (case db k of
      None \<Rightarrow> (db(k \<mapsto> \<lparr>dl_status = Processing, dl_attempts = 1, dl_nextAttemptAt = None,
        dl_completedAt = None, dl_lastError = None\<rparr>), Some 1)
    | Some _ \<Rightarrow> (db, None))"
| "claim_commit db k (Reclaim n) = (case db k of
      None \<Rightarrow> (db, None)
    | Some d \<Rightarrow> if dl_status d = Failed
        then (db(k \<mapsto> d\<lparr>dl_status := Processing, dl_attempts := n, dl_nextAttemptAt := None\<rparr>), Some n)
        else (db, None))"

definition settle_success :: "date \<Rightarrow> delivery \<Rightarrow> delivery" where
  "settle_success now d = d\<lparr>dl_status := Succeeded, dl_completedAt := Some now,
    dl_nextAttemptAt := None, dl_lastError := None\<rparr>"

definition settle_failure :: "date \<Rightarrow> nat \<Rightarrow> string \<Rightarrow> delivery \<Rightarrow> delivery" where
  "settle_failure now attempt message d = (if maxAttempts \<le> attempt
    then d\<lparr>dl_status := Dead_letter, dl_completedAt := Some now, dl_nextAttemptAt := None,
      dl_lastError := Some (take 1000 message)\<rparr>
    else d\<lparr>dl_status := Failed, dl_nextAttemptAt := Some (now + backoffMs attempt),
      dl_lastError := Some (take 1000 message)\<rparr>)"

definition update_row :: "deliveries \<Rightarrow> delivery_key \<Rightarrow> (delivery \<Rightarrow> delivery) \<Rightarrow> deliveries" where
  "update_row db k f = (case db k of None \<Rightarrow> db | Some d \<Rightarrow> db(k \<mapsto> f d))"

section \<open>One worker's dispatch\<close>

text \<open>A handler is given the consumer, the event, the attempt and the time it is called at; it
  returns the time it ended at and the message it threw, if it did.\<close>

type_synonym handler = "event_consumer \<Rightarrow> event \<Rightarrow> nat \<Rightarrow> date \<Rightarrow> date \<times> string option"

record dispatch_result =
  di_claimed :: nat
  di_succeeded :: nat
  di_failed :: nat
  di_deadLettered :: nat

definition dispatch_event ::
  "handler \<Rightarrow> event_consumer \<Rightarrow> outbox \<times> dispatch_result \<Rightarrow> event \<Rightarrow> outbox \<times> dispatch_result"
where
  "dispatch_event handle c acc e = (
    let (st, res) = acc;
        k = (ev_id e, co_name c);
        (db, claimed) = claim_commit (ob_deliveries st) k (claim_read (ob_deliveries st k))
    in case claimed of
        None \<Rightarrow> (st\<lparr>ob_deliveries := db\<rparr>, res)
      | Some attempt \<Rightarrow>
          let res = res\<lparr>di_claimed := di_claimed res + 1\<rparr>;
              (now, thrown) = handle c e attempt (ob_now st)
          in case thrown of
              None \<Rightarrow> (st\<lparr>ob_deliveries := update_row db k (settle_success now), ob_now := now\<rparr>,
                res\<lparr>di_succeeded := di_succeeded res + 1\<rparr>)
            | Some message \<Rightarrow>
                (st\<lparr>ob_deliveries := update_row db k (settle_failure now attempt message), ob_now := now\<rparr>,
                 if maxAttempts \<le> attempt then res\<lparr>di_deadLettered := di_deadLettered res + 1\<rparr>
                 else res\<lparr>di_failed := di_failed res + 1\<rparr>))"

definition dispatch_consumer ::
  "handler \<Rightarrow> nat \<Rightarrow> string option \<Rightarrow> outbox \<times> dispatch_result \<Rightarrow> event_consumer \<Rightarrow> outbox \<times> dispatch_result"
where
  "dispatch_consumer handle limit facilityId acc c =
    foldl (dispatch_event handle c) acc (pendingEventsFor (fst acc) c limit facilityId)"

definition dispatchEvents ::
  "handler \<Rightarrow> event_consumer list \<Rightarrow> nat \<Rightarrow> string option \<Rightarrow> outbox \<Rightarrow> outbox \<times> dispatch_result"
where
  "dispatchEvents handle consumers limit facilityId st =
    foldl (dispatch_consumer handle limit facilityId)
      (st, \<lparr>di_claimed = 0, di_succeeded = 0, di_failed = 0, di_deadLettered = 0\<rparr>) consumers"

section \<open>Many workers\<close>

text \<open>
  A worker looks a row up, commits its claim, runs the handler and settles; between two of these any
  other worker may move. \<open>ds_claims\<close> is the history of the claims that succeeded, the calls of the
  handler. Which events a worker looks at was decided by a query that may be arbitrarily old, so a
  look is allowed at any row.
\<close>

datatype worker = Resting | Looked delivery_key "delivery option" | Handling delivery_key nat

record dispatchers =
  ds_deliveries :: deliveries
  ds_workers :: "nat \<Rightarrow> worker"
  ds_claims :: "(delivery_key \<times> nat) list"

inductive dispatch_step :: "dispatchers \<Rightarrow> dispatchers \<Rightarrow> bool" where
  look: "ds_workers s w = Resting \<Longrightarrow>
    dispatch_step s (s\<lparr>ds_workers := (ds_workers s)(w := Looked k (ds_deliveries s k))\<rparr>)"
| claimed: "ds_workers s w = Looked k row \<Longrightarrow>
    claim_commit (ds_deliveries s) k (claim_read row) = (db, Some a) \<Longrightarrow>
    dispatch_step s (s\<lparr>ds_deliveries := db, ds_workers := (ds_workers s)(w := Handling k a),
      ds_claims := ds_claims s @ [(k, a)]\<rparr>)"
| refused: "ds_workers s w = Looked k row \<Longrightarrow>
    claim_commit (ds_deliveries s) k (claim_read row) = (db, None) \<Longrightarrow>
    dispatch_step s (s\<lparr>ds_deliveries := db, ds_workers := (ds_workers s)(w := Resting)\<rparr>)"
| succeeded: "ds_workers s w = Handling k a \<Longrightarrow>
    dispatch_step s (s\<lparr>ds_deliveries := update_row (ds_deliveries s) k (settle_success now),
      ds_workers := (ds_workers s)(w := Resting)\<rparr>)"
| failed: "ds_workers s w = Handling k a \<Longrightarrow>
    dispatch_step s (s\<lparr>ds_deliveries := update_row (ds_deliveries s) k (settle_failure now a message),
      ds_workers := (ds_workers s)(w := Resting)\<rparr>)"
| crashed: "dispatch_step s (s\<lparr>ds_workers := (ds_workers s)(w := Resting)\<rparr>)"

definition fresh_dispatchers :: dispatchers where
  "fresh_dispatchers = \<lparr>ds_deliveries = Map.empty, ds_workers = (\<lambda>_. Resting), ds_claims = []\<rparr>"

inductive_cases dispatch_stepE: "dispatch_step s t"

section \<open>What every step keeps\<close>

text \<open>The rows: the database's own check on settled rows, and the bounds on attempts.\<close>

definition row_ok :: "delivery \<Rightarrow> bool" where
  "row_ok d \<longleftrightarrow> 1 \<le> dl_attempts d \<and> dl_attempts d \<le> maxAttempts
    \<and> (dl_status d = Failed \<longrightarrow> dl_attempts d < maxAttempts \<and> dl_nextAttemptAt d \<noteq> None)
    \<and> (dl_status d = Dead_letter \<longrightarrow> dl_attempts d = maxAttempts)
    \<and> (if dl_status d \<in> {Succeeded, Dead_letter}
       then dl_completedAt d \<noteq> None \<and> dl_nextAttemptAt d = None else dl_completedAt d = None)"

text \<open>What a worker holds: a failed row it read could still be retried, and a row it handles is being
  processed, on the attempt it was given.\<close>

fun worker_ok :: "deliveries \<Rightarrow> worker \<Rightarrow> bool" where
  "worker_ok db Resting = True"
| "worker_ok db (Looked k row) = (\<forall>d. row = Some d \<longrightarrow> row_ok d)"
| "worker_ok db (Handling k a) = (\<exists>d. db k = Some d \<and> dl_status d = Processing \<and> dl_attempts d = a)"

definition dispatch_ok :: "dispatchers \<Rightarrow> bool" where
  "dispatch_ok s \<longleftrightarrow> (\<forall>k d. ds_deliveries s k = Some d \<longrightarrow> row_ok d)
    \<and> (\<forall>w. worker_ok (ds_deliveries s) (ds_workers s w))
    \<and> (\<forall>v w k a b. ds_workers s v = Handling k a \<and> ds_workers s w = Handling k b \<longrightarrow> v = w)"

lemma dispatch_okD:
  assumes "dispatch_ok s"
  shows "ds_deliveries s k = Some d \<Longrightarrow> row_ok d"
    and "worker_ok (ds_deliveries s) (ds_workers s w)"
    and "ds_workers s v = Handling k a \<Longrightarrow> ds_workers s w = Handling k b \<Longrightarrow> v = w"
  using assms unfolding dispatch_ok_def by blast+

lemma claim_commit_None: "claim_commit db k c = (db', None) \<Longrightarrow> db' = db"
  by (cases c) (auto split: option.splits if_splits)

definition handed :: "deliveries \<Rightarrow> delivery_key \<Rightarrow> delivery \<Rightarrow> nat \<Rightarrow> bool" where
  "handed db k d a \<longleftrightarrow> dl_status d = Processing \<and> dl_attempts d = a \<and> 1 \<le> a \<and> a \<le> maxAttempts
    \<and> dl_completedAt d = Option.bind (db k) dl_completedAt
    \<and> (\<forall>d0. db k = Some d0 \<longrightarrow> dl_status d0 = Failed)"

lemma claim_commit_Some:
  assumes "claim_commit db k (claim_read row) = (db', Some a)" and "\<forall>d. row = Some d \<longrightarrow> row_ok d"
  shows "\<exists>d. db' = db(k \<mapsto> d) \<and> handed db k d a"
proof (cases row)
  case None
  then show ?thesis using assms(1)
    by (cases "db k") (auto simp: claim_read_def handed_def maxAttempts_def)
next
  case (Some e)
  then have "row_ok e" using assms(2) by simp
  moreover have f: "dl_status e = Failed" using assms(1) Some by (auto simp: claim_read_def split: if_splits)
  ultimately have "dl_attempts e < maxAttempts" by (simp add: row_ok_def)
  then show ?thesis using assms(1) Some f
    by (cases "db k") (auto simp: claim_read_def handed_def split: if_splits)
qed

lemma row_ok_settle:
  assumes "row_ok d" and "dl_status d = Processing"
  shows "row_ok (settle_success now d)" and "row_ok (settle_failure now (dl_attempts d) message d)"
  using assms by (auto simp: row_ok_def settle_success_def settle_failure_def)

text \<open>A row that is not being processed supports no handler.\<close>

lemma worker_ok_update:
  assumes "worker_ok db x" and "\<And>a. x \<noteq> Handling k a"
  shows "worker_ok (db(k \<mapsto> d)) x"
  using assms by (cases x) auto

definition put_row ::
  "dispatchers \<Rightarrow> delivery_key \<Rightarrow> delivery \<Rightarrow> nat \<Rightarrow> worker \<Rightarrow> (delivery_key \<times> nat) list \<Rightarrow> dispatchers"
where
  "put_row s k d w x cs = s\<lparr>ds_deliveries := (ds_deliveries s)(k \<mapsto> d),
    ds_workers := (ds_workers s)(w := x), ds_claims := cs\<rparr>"

lemma dispatch_okI:
  assumes "\<And>k d. ds_deliveries s k = Some d \<Longrightarrow> row_ok d"
    and "\<And>w. worker_ok (ds_deliveries s) (ds_workers s w)"
    and "\<And>v w k a b. ds_workers s v = Handling k a \<Longrightarrow> ds_workers s w = Handling k b \<Longrightarrow> v = w"
  shows "dispatch_ok s"
  using assms unfolding dispatch_ok_def by blast

lemma dispatch_ok_put:
  assumes "dispatch_ok s" and "row_ok d" and "worker_ok ((ds_deliveries s)(k \<mapsto> d)) x"
    and others: "\<And>v a. v \<noteq> w \<Longrightarrow> ds_workers s v \<noteq> Handling k a"
    and own: "\<And>j a. x = Handling j a \<Longrightarrow> j = k"
  shows "dispatch_ok (put_row s k d w x cs)" (is "dispatch_ok ?t")
proof (rule dispatch_okI)
  show "row_ok e" if "ds_deliveries ?t j = Some e" for j e
    using that assms(2) dispatch_okD(1) [OF assms(1), of j e] by (simp add: put_row_def split: if_splits)
  show "worker_ok (ds_deliveries ?t) (ds_workers ?t v)" for v
  proof (cases "v = w")
    case False
    then show ?thesis
      using worker_ok_update [OF dispatch_okD(2) [OF assms(1), of v], of k d] others
      by (simp add: put_row_def)
  qed (use assms(3) in \<open>simp add: put_row_def\<close>)
  show "u = v" if "ds_workers ?t u = Handling j a" "ds_workers ?t v = Handling j b" for u v j a b
    using that others own dispatch_okD(3) [OF assms(1), of u j a v b]
    by (cases "u = w"; cases "v = w") (auto simp: put_row_def)
qed

lemma dispatch_ok_leave:
  assumes "dispatch_ok s" and "worker_ok (ds_deliveries s) x" and "\<And>k a. x \<noteq> Handling k a"
  shows "dispatch_ok (s\<lparr>ds_workers := (ds_workers s)(w := x)\<rparr>)"
  using assms unfolding dispatch_ok_def by (auto split: if_splits)

lemma dispatch_ok_settle:
  assumes ok: "dispatch_ok s" and h: "ds_workers s w = Handling k a"
    and f: "\<And>d. row_ok d \<Longrightarrow> dl_status d = Processing \<Longrightarrow> dl_attempts d = a \<Longrightarrow> row_ok (f d)"
  shows "dispatch_ok (s\<lparr>ds_deliveries := update_row (ds_deliveries s) k f,
    ds_workers := (ds_workers s)(w := Resting)\<rparr>)"
proof -
  obtain d where d: "ds_deliveries s k = Some d" "dl_status d = Processing" "dl_attempts d = a"
    using dispatch_okD(2) [OF ok, of w] h by auto
  have "dispatch_ok (put_row s k (f d) w Resting (ds_claims s))"
    using dispatch_okD(3) [OF ok h] f [OF dispatch_okD(1) [OF ok d(1)] d(2,3)]
    by (intro dispatch_ok_put [OF ok]) auto
  then show ?thesis using d(1) by (simp add: put_row_def update_row_def)
qed

lemma dispatch_step_ok: "dispatch_step s t \<Longrightarrow> dispatch_ok s \<Longrightarrow> dispatch_ok t"
proof (induction rule: dispatch_step.induct)
  case (look s w k)
  show ?case using look.prems dispatch_okD(1) [OF look.prems]
    by (intro dispatch_ok_leave) auto
next
  case (claimed s w k row db a)
  have "\<forall>d. row = Some d \<longrightarrow> row_ok d"
    using dispatch_okD(2) [OF claimed.prems, of w] claimed.hyps(1) by simp
  from claim_commit_Some [OF claimed.hyps(2) this]
  obtain d where d: "db = (ds_deliveries s)(k \<mapsto> d)" "handed (ds_deliveries s) k d a" by blast
  have "row_ok d"
    using d(2) dispatch_okD(1) [OF claimed.prems, of k]
    by (cases "ds_deliveries s k") (auto simp: row_ok_def handed_def)
  moreover have "ds_workers s v \<noteq> Handling k b" for v b
    using dispatch_okD(2) [OF claimed.prems, of v] d(2) by (auto simp: handed_def)
  ultimately have "dispatch_ok (put_row s k d w (Handling k a) (ds_claims s @ [(k, a)]))"
    using d(2) by (intro dispatch_ok_put [OF claimed.prems]) (auto simp: handed_def)
  then show ?case by (simp add: put_row_def d(1))
next
  case (refused s w k row db)
  have "dispatch_ok (s\<lparr>ds_workers := (ds_workers s)(w := Resting)\<rparr>)"
    using refused.prems by (intro dispatch_ok_leave) auto
  then show ?case using claim_commit_None [OF refused.hyps(2)] by simp
next
  case (succeeded s w k a now)
  then show ?case by (intro dispatch_ok_settle row_ok_settle(1)) auto
next
  case (failed s w k a now message)
  then show ?case by (intro dispatch_ok_settle) (auto intro: row_ok_settle(2))
next
  case (crashed s w)
  then show ?case by (intro dispatch_ok_leave) auto
qed

lemma dispatch_ok_fresh: "dispatch_ok fresh_dispatchers"
  by (rule dispatch_okI) (simp_all add: fresh_dispatchers_def)

interpretation dispatching: invariant_of dispatch_step dispatch_ok "(=) fresh_dispatchers"
  by unfold_locales (auto intro: dispatch_step_ok dispatch_ok_fresh)

lemma dispatch_appends: "dispatch_step s t \<Longrightarrow> \<exists>es. ds_claims t = ds_claims s @ es"
  by (induction rule: dispatch_step.induct) auto

interpretation claim_log: append_only dispatch_step ds_claims
  by unfold_locales (rule dispatch_appends)

text \<open>
  A row that is not waiting for a retry and that no worker handles is out of every worker's reach:
  nobody's claim of it can succeed.
\<close>

definition out_of_reach :: "delivery_key \<Rightarrow> delivery \<Rightarrow> (delivery_key \<times> nat) list \<Rightarrow> dispatchers \<Rightarrow> bool" where
  "out_of_reach k d cs s \<longleftrightarrow> ds_deliveries s k = Some d \<and> dl_status d \<noteq> Failed
    \<and> (\<forall>w a. ds_workers s w \<noteq> Handling k a) \<and> filter (\<lambda>c. fst c = k) (ds_claims s) = cs"

lemma claim_commit_frame:
  "claim_commit db k c = (db', Some a) \<Longrightarrow> db j = Some d \<Longrightarrow> dl_status d \<noteq> Failed \<Longrightarrow> j \<noteq> k \<and> db' j = db j"
  by (cases c) (auto split: option.splits if_splits)

lemma update_row_frame: "j \<noteq> k \<Longrightarrow> update_row db k f j = db j"
  by (simp add: update_row_def split: option.splits)

lemma out_of_reach_step: "dispatch_step s t \<Longrightarrow> out_of_reach k d cs s \<Longrightarrow> out_of_reach k d cs t"
proof (induction rule: dispatch_step.induct)
  case (claimed s w j row db a)
  then show ?case using claim_commit_frame [OF claimed.hyps(2), of k d] by (auto simp: out_of_reach_def)
next
  case (refused s w j row db)
  then show ?case using claim_commit_None [OF refused.hyps(2)] by (auto simp: out_of_reach_def)
next
  case (succeeded s w j a now)
  then have "j \<noteq> k" by (auto simp: out_of_reach_def)
  then show ?case using succeeded.prems by (auto simp: out_of_reach_def update_row_frame)
next
  case (failed s w j a now message)
  then have "j \<noteq> k" by (auto simp: out_of_reach_def)
  then show ?case using failed.prems by (auto simp: out_of_reach_def update_row_frame)
qed (auto simp: out_of_reach_def)

interpretation reach: preserved dispatch_step "out_of_reach k d cs" for k d cs
  by unfold_locales (rule out_of_reach_step)

lemma settled_out_of_reach:
  assumes "dispatch_ok s" and "ds_deliveries s k = Some d" and "dl_status d \<in> {Succeeded, Dead_letter}"
  shows "out_of_reach k d (filter (\<lambda>c. fst c = k) (ds_claims s)) s"
proof -
  have "ds_workers s w \<noteq> Handling k a" for w a
    using dispatch_okD(2) [OF assms(1), of w] assms(2,3) by auto
  then show ?thesis using assms(2,3) by (auto simp: out_of_reach_def)
qed

text \<open>Runs as lists of moves, for concrete examples; a move that is not enabled does nothing.\<close>

datatype move = Look nat delivery_key | Commit nat | Succeed nat date | Fail nat date string | Crash nat

fun do_move :: "dispatchers \<Rightarrow> move \<Rightarrow> dispatchers" where
  "do_move s (Look w k) = (case ds_workers s w of
      Resting \<Rightarrow> s\<lparr>ds_workers := (ds_workers s)(w := Looked k (ds_deliveries s k))\<rparr> | _ \<Rightarrow> s)"
| "do_move s (Commit w) = (case ds_workers s w of
      Looked k row \<Rightarrow> (case claim_commit (ds_deliveries s) k (claim_read row) of
          (db, Some a) \<Rightarrow> s\<lparr>ds_deliveries := db, ds_workers := (ds_workers s)(w := Handling k a),
            ds_claims := ds_claims s @ [(k, a)]\<rparr>
        | (db, None) \<Rightarrow> s\<lparr>ds_deliveries := db, ds_workers := (ds_workers s)(w := Resting)\<rparr>) | _ \<Rightarrow> s)"
| "do_move s (Succeed w now) = (case ds_workers s w of
      Handling k a \<Rightarrow> s\<lparr>ds_deliveries := update_row (ds_deliveries s) k (settle_success now),
        ds_workers := (ds_workers s)(w := Resting)\<rparr> | _ \<Rightarrow> s)"
| "do_move s (Fail w now message) = (case ds_workers s w of
      Handling k a \<Rightarrow> s\<lparr>ds_deliveries := update_row (ds_deliveries s) k (settle_failure now a message),
        ds_workers := (ds_workers s)(w := Resting)\<rparr> | _ \<Rightarrow> s)"
| "do_move s (Crash w) = s\<lparr>ds_workers := (ds_workers s)(w := Resting)\<rparr>"

lemma do_move_step: "dispatch_step\<^sup>*\<^sup>* s (do_move s m)"
proof (cases m)
  case (Look w k)
  then show ?thesis by (cases "ds_workers s w") (auto intro: r_into_rtranclp dispatch_step.look)
next
  case (Commit w)
  then show ?thesis
    by (cases "ds_workers s w")
      (auto split: prod.split option.split
        intro: r_into_rtranclp dispatch_step.claimed dispatch_step.refused)
next
  case (Succeed w now)
  then show ?thesis by (cases "ds_workers s w") (auto intro: r_into_rtranclp dispatch_step.succeeded)
next
  case (Fail w now message)
  then show ?thesis by (cases "ds_workers s w") (auto intro: r_into_rtranclp dispatch_step.failed)
qed (auto intro: r_into_rtranclp dispatch_step.crashed)

lemma moves_run: "dispatch_step\<^sup>*\<^sup>* s (foldl do_move s ms)"
  by (induction ms arbitrary: s) (auto intro: rtranclp_trans do_move_step)

section \<open>One worker: every event is settled\<close>

text \<open>What handling an event once does to its row, whatever the handler says.\<close>

definition attempts_of :: "delivery option \<Rightarrow> nat" where
  "attempts_of row = (case row of None \<Rightarrow> 0 | Some d \<Rightarrow> dl_attempts d)"

definition claimable :: "delivery option \<Rightarrow> bool" where
  "claimable row \<longleftrightarrow> (\<forall>d. row = Some d \<longrightarrow> dl_status d = Failed)"

definition advanced :: "(nat \<Rightarrow> date \<Rightarrow> string option) \<Rightarrow> delivery option \<Rightarrow> date \<Rightarrow> delivery option \<Rightarrow> bool" where
  "advanced verdict row now row' \<longleftrightarrow> (\<exists>d t. row' = Some d \<and> dl_attempts d = attempts_of row + 1
    \<and> (case verdict (attempts_of row + 1) t of None \<Rightarrow> dl_status d = Succeeded
       | Some _ \<Rightarrow> if maxAttempts \<le> attempts_of row + 1 then dl_status d = Dead_letter
         else dl_status d = Failed \<and> (\<exists>t. dl_nextAttemptAt d = Some t \<and> t \<le> now + 3600000)))"

lemma advanced_later: "advanced v row now row' \<Longrightarrow> now \<le> now' \<Longrightarrow> advanced v row now' row'"
  unfolding advanced_def by (fastforce split: option.splits if_splits)

lemma backoffMs_le: "backoffMs a \<le> 3600000"
  by (simp add: backoffMs_def)

lemma claim_commit_claimable:
  "claimable (db k) \<Longrightarrow> \<exists>d. claim_commit db k (claim_read (db k)) = (db(k \<mapsto> d), Some (attempts_of (db k) + 1))
    \<and> dl_attempts d = attempts_of (db k) + 1"
  by (cases "db k") (auto simp: claim_read_def claimable_def attempts_of_def)

definition handled_row :: "date \<times> string option \<Rightarrow> nat \<Rightarrow> delivery \<Rightarrow> delivery" where
  "handled_row r a d = (case snd r of None \<Rightarrow> settle_success (fst r) d
    | Some m \<Rightarrow> settle_failure (fst r) a m d)"

definition counted :: "string option \<Rightarrow> nat \<Rightarrow> dispatch_result \<Rightarrow> dispatch_result" where
  "counted thrown a res = (let res = res\<lparr>di_claimed := di_claimed res + 1\<rparr> in case thrown of
      None \<Rightarrow> res\<lparr>di_succeeded := di_succeeded res + 1\<rparr>
    | Some _ \<Rightarrow> if maxAttempts \<le> a then res\<lparr>di_deadLettered := di_deadLettered res + 1\<rparr>
        else res\<lparr>di_failed := di_failed res + 1\<rparr>)"

lemma counted_totals:
  "di_claimed (counted r a res) = di_claimed res + 1"
  "di_succeeded (counted r a res) + di_failed (counted r a res) + di_deadLettered (counted r a res)
    = di_succeeded res + di_failed res + di_deadLettered res + 1"
  by (simp_all add: counted_def Let_def split: option.splits)

lemma handled_row_advances:
  assumes "dl_attempts d = a" and "a = attempts_of row + 1"
  shows "advanced (\<lambda>a t. snd (h a t)) row (fst (h a t0)) (Some (handled_row (h a t0) a d))"
proof -
  have "dl_attempts (handled_row (h a t0) a d) = a"
    using assms(1) by (simp add: handled_row_def settle_success_def settle_failure_def split: option.splits)
  then show ?thesis
    using assms(2) backoffMs_le [of a] unfolding advanced_def
    by (intro exI [of _ "handled_row (h a t0) a d"] exI [of _ t0])
      (simp add: handled_row_def settle_success_def settle_failure_def split: option.splits)
qed

lemma dispatch_event_eq:
  assumes "claimable (ob_deliveries st (ev_id e, co_name c))"
  obtains d a where "a = attempts_of (ob_deliveries st (ev_id e, co_name c)) + 1" and "dl_attempts d = a"
    and "dispatch_event handle c (st, res) e =
      (st\<lparr>ob_deliveries := (ob_deliveries st)((ev_id e, co_name c) \<mapsto>
          handled_row (handle c e a (ob_now st)) a d), ob_now := fst (handle c e a (ob_now st))\<rparr>,
       counted (snd (handle c e a (ob_now st))) a res)"
proof -
  define k where "k = (ev_id e, co_name c)"
  define a where "a = attempts_of (ob_deliveries st k) + 1"
  obtain d where d: "claim_commit (ob_deliveries st) k (claim_read (ob_deliveries st k)) =
      ((ob_deliveries st)(k \<mapsto> d), Some a)" "dl_attempts d = a"
    using claim_commit_claimable [where db = "ob_deliveries st" and k = k] assms
    by (auto simp: a_def k_def)
  have "dispatch_event handle c (st, res) e =
      (st\<lparr>ob_deliveries := (ob_deliveries st)(k \<mapsto> handled_row (handle c e a (ob_now st)) a d),
        ob_now := fst (handle c e a (ob_now st))\<rparr>, counted (snd (handle c e a (ob_now st))) a res)"
    using d(1) unfolding dispatch_event_def
    by (simp add: k_def [symmetric] Let_def update_row_def handled_row_def counted_def split_beta
        split: option.split)
  then show thesis using that d(2) by (simp add: a_def k_def)
qed

lemma dispatch_fold:
  fixes handle :: handler
  assumes "distinct (map ev_id es)" and "\<forall>e \<in> set es. claimable (ob_deliveries st (ev_id e, co_name c))"
    and clock: "\<And>e a t. t \<le> fst (handle c e a t)"
  shows "ob_now st \<le> ob_now (fst (foldl (dispatch_event handle c) (st, res) es))
    \<and> ob_events (fst (foldl (dispatch_event handle c) (st, res) es)) = ob_events st
    \<and> (\<forall>j. j \<notin> (\<lambda>e. (ev_id e, co_name c)) ` set es \<longrightarrow>
        ob_deliveries (fst (foldl (dispatch_event handle c) (st, res) es)) j = ob_deliveries st j)
    \<and> (\<forall>e \<in> set es. advanced (\<lambda>a t. snd (handle c e a t)) (ob_deliveries st (ev_id e, co_name c))
        (ob_now (fst (foldl (dispatch_event handle c) (st, res) es)))
        (ob_deliveries (fst (foldl (dispatch_event handle c) (st, res) es)) (ev_id e, co_name c)))"
  using assms(1,2)
proof (induction es arbitrary: st res)
  case (Cons e es)
  have c: "claimable (ob_deliveries st (ev_id e, co_name c))" using Cons.prems(2) by simp
  obtain d a where a: "a = attempts_of (ob_deliveries st (ev_id e, co_name c)) + 1" "dl_attempts d = a"
    and one: "dispatch_event handle c (st, res) e =
      (st\<lparr>ob_deliveries := (ob_deliveries st)((ev_id e, co_name c) \<mapsto>
          handled_row (handle c e a (ob_now st)) a d), ob_now := fst (handle c e a (ob_now st))\<rparr>,
       counted (snd (handle c e a (ob_now st))) a res)"
    by (rule dispatch_event_eq [OF c])
  define st1 where "st1 = st\<lparr>ob_deliveries := (ob_deliveries st)((ev_id e, co_name c) \<mapsto>
    handled_row (handle c e a (ob_now st)) a d), ob_now := fst (handle c e a (ob_now st))\<rparr>"
  define res1 where "res1 = counted (snd (handle c e a (ob_now st))) a res"
  define out where "out = fst (foldl (dispatch_event handle c) (st1, res1) es)"
  have out: "fst (foldl (dispatch_event handle c) (st, res) (e # es)) = out"
    by (simp add: one out_def st1_def res1_def)
  have fresh: "(ev_id e, co_name c) \<notin> (\<lambda>x. (ev_id x, co_name c)) ` set es" using Cons.prems(1) by auto
  have ne: "ev_id x \<noteq> ev_id e" if "x \<in> set es" for x
    using that Cons.prems(1) by (metis distinct.simps(2) image_eqI list.set_map list.simps(9))
  have same: "ob_deliveries st1 (ev_id x, co_name c) = ob_deliveries st (ev_id x, co_name c)"
    if "x \<in> set es" for x using ne [OF that] by (simp add: st1_def)
  have "\<forall>x \<in> set es. claimable (ob_deliveries st1 (ev_id x, co_name c))" using Cons.prems(2) same by simp
  with Cons.IH [of st1 res1] Cons.prems(1) have ih: "ob_now st1 \<le> ob_now out" "ob_events out = ob_events st1"
    "\<forall>j. j \<notin> (\<lambda>e. (ev_id e, co_name c)) ` set es \<longrightarrow> ob_deliveries out j = ob_deliveries st1 j"
    "\<forall>e \<in> set es. advanced (\<lambda>a t. snd (handle c e a t)) (ob_deliveries st1 (ev_id e, co_name c))
        (ob_now out) (ob_deliveries out (ev_id e, co_name c))"
    by (simp_all add: out_def)
  have "ob_deliveries out (ev_id e, co_name c) = Some (handled_row (handle c e a (ob_now st)) a d)"
    using ih(3) fresh by (simp add: st1_def)
  moreover have "advanced (\<lambda>a t. snd (handle c e a t)) (ob_deliveries st (ev_id e, co_name c))
      (ob_now out) (Some (handled_row (handle c e a (ob_now st)) a d))"
    using handled_row_advances [OF a(2,1), of "handle c e" "ob_now st"] ih(1)
    by (rule_tac advanced_later) (simp_all add: st1_def)
  moreover have "ob_now st \<le> ob_now out" using ih(1) clock [of "ob_now st" e a] by (simp add: st1_def)
  moreover have "ob_deliveries out j = ob_deliveries st j"
    if "j \<notin> (\<lambda>e. (ev_id e, co_name c)) ` set (e # es)" for j
    using ih(3) [rule_format, of j] that by (auto simp: st1_def)
  ultimately show ?case using ih(2,4) same unfolding out by (simp add: st1_def)
qed simp

lemma dispatch_fold_counts:
  fixes handle :: handler
  assumes "distinct (map ev_id es)" and "\<forall>e \<in> set es. claimable (ob_deliveries st (ev_id e, co_name c))"
  shows "di_claimed (snd (foldl (dispatch_event handle c) (st, res) es)) = di_claimed res + length es
    \<and> di_succeeded (snd (foldl (dispatch_event handle c) (st, res) es))
        + di_failed (snd (foldl (dispatch_event handle c) (st, res) es))
        + di_deadLettered (snd (foldl (dispatch_event handle c) (st, res) es))
      = di_succeeded res + di_failed res + di_deadLettered res + length es"
  using assms
proof (induction es arbitrary: st res)
  case (Cons e es)
  have c: "claimable (ob_deliveries st (ev_id e, co_name c))" using Cons.prems(2) by simp
  obtain d a where one: "dispatch_event handle c (st, res) e =
      (st\<lparr>ob_deliveries := (ob_deliveries st)((ev_id e, co_name c) \<mapsto>
          handled_row (handle c e a (ob_now st)) a d), ob_now := fst (handle c e a (ob_now st))\<rparr>,
       counted (snd (handle c e a (ob_now st))) a res)"
    by (rule dispatch_event_eq [OF c])
  define st1 where "st1 = st\<lparr>ob_deliveries := (ob_deliveries st)((ev_id e, co_name c) \<mapsto>
    handled_row (handle c e a (ob_now st)) a d), ob_now := fst (handle c e a (ob_now st))\<rparr>"
  define res1 where "res1 = counted (snd (handle c e a (ob_now st))) a res"
  have ne: "ev_id x \<noteq> ev_id e" if "x \<in> set es" for x
    using that Cons.prems(1) by (metis distinct.simps(2) image_eqI list.set_map list.simps(9))
  have "\<forall>x \<in> set es. claimable (ob_deliveries st1 (ev_id x, co_name c))"
    using Cons.prems(2) ne by (simp add: st1_def)
  with Cons.IH [of st1 res1] Cons.prems(1) counted_totals [of "snd (handle c e a (ob_now st))" a res]
  show ?case unfolding foldl_Cons one st1_def [symmetric] res1_def [symmetric] by simp
qed simp

text \<open>The scheduled drain, with an hour between two of them: no backoff is longer.\<close>

fun drains :: "handler \<Rightarrow> event_consumer \<Rightarrow> nat \<Rightarrow> string option \<Rightarrow> nat \<Rightarrow> outbox \<Rightarrow> outbox" where
  "drains handle c limit facilityId 0 st = st"
| "drains handle c limit facilityId (Suc n) st = drains handle c limit facilityId n
    (let st' = fst (dispatchEvents handle [c] limit facilityId st) in st'\<lparr>ob_now := ob_now st' + 3600000\<rparr>)"

text \<open>Where an event stands after \<open>n\<close> drains, and why.\<close>

definition threw :: "(nat \<Rightarrow> date \<Rightarrow> date \<times> string option) \<Rightarrow> nat set \<Rightarrow> bool" where
  "threw h A \<longleftrightarrow> (\<forall>a \<in> A. \<exists>t. snd (h a t) \<noteq> None)"

definition delivered :: "(nat \<Rightarrow> date \<Rightarrow> date \<times> string option) \<Rightarrow> delivery option \<Rightarrow> bool" where
  "delivered h row \<longleftrightarrow> (\<exists>d. row = Some d \<and> dl_status d = Succeeded \<and> 1 \<le> dl_attempts d
    \<and> dl_attempts d \<le> maxAttempts
    \<and> (\<exists>t. snd (h (dl_attempts d) t) = None) \<and> threw h {1..<dl_attempts d})"

definition dead :: "(nat \<Rightarrow> date \<Rightarrow> date \<times> string option) \<Rightarrow> delivery option \<Rightarrow> bool" where
  "dead h row \<longleftrightarrow> (\<exists>d. row = Some d \<and> dl_status d = Dead_letter \<and> dl_attempts d = maxAttempts
    \<and> threw h {1..maxAttempts})"

definition standing :: "(nat \<Rightarrow> date \<Rightarrow> date \<times> string option) \<Rightarrow> nat \<Rightarrow> date \<Rightarrow> delivery option \<Rightarrow> bool" where
  "standing h n now row \<longleftrightarrow> delivered h row \<or> dead h row
    \<or> attempts_of row = n \<and> n < maxAttempts \<and> threw h {1..n} \<and> unsettled now row"

lemma unsettled_claimable: "unsettled now row \<Longrightarrow> claimable row"
  by (auto simp: unsettled_def claimable_def)

lemma delivered_settled: "delivered h row \<Longrightarrow> \<not> unsettled now row" "dead h row \<Longrightarrow> \<not> unsettled now row"
  by (auto simp: delivered_def dead_def unsettled_def)

lemma standing_advances:
  assumes "standing h n now row" and "unsettled now row"
    and "advanced (\<lambda>a t. snd (h a t)) row now' row'"
  shows "standing h (Suc n) (now' + 3600000) row'"
proof -
  have n: "attempts_of row = n" "n < maxAttempts" "threw h {1..n}"
    using assms(1,2) delivered_settled unfolding standing_def by blast+
  obtain d t where d: "row' = Some d" "dl_attempts d = Suc n"
    and v: "case snd (h (Suc n) t) of None \<Rightarrow> dl_status d = Succeeded
      | Some _ \<Rightarrow> if maxAttempts \<le> Suc n then dl_status d = Dead_letter
        else dl_status d = Failed \<and> (\<exists>t. dl_nextAttemptAt d = Some t \<and> t \<le> now' + 3600000)"
    using assms(3) unfolding advanced_def n(1) Suc_eq_plus1 [symmetric] by blast
  show ?thesis
  proof (cases "snd (h (Suc n) t)")
    case None
    then have "delivered h row'"
      using d v n by (auto simp: delivered_def atLeastLessThanSuc_atLeastAtMost)
    then show ?thesis by (simp add: standing_def)
  next
    case (Some m)
    then have t: "threw h {1..Suc n}"
      using n(3) unfolding threw_def by (metis atLeastAtMost_iff le_Suc_eq option.distinct(1))
    show ?thesis
    proof (cases "maxAttempts \<le> Suc n")
      case True
      then have "Suc n = maxAttempts" using n(2) by simp
      then have "dead h row'" using d v Some t by (auto simp: dead_def)
      then show ?thesis by (simp add: standing_def)
    next
      case False
      then show ?thesis
        using d v Some t by (auto simp: standing_def attempts_of_def unsettled_def)
    qed
  qed
qed

definition all_standing :: "handler \<Rightarrow> event_consumer \<Rightarrow> string option \<Rightarrow> nat \<Rightarrow> outbox \<Rightarrow> bool" where
  "all_standing handle c facilityId n st \<longleftrightarrow> (\<forall>e \<in> set (ob_events st). concerns c facilityId e \<longrightarrow>
    standing (handle c e) n (ob_now st) (ob_deliveries st (ev_id e, co_name c)))"

lemma pendingEventsFor_all:
  assumes "length (ob_events st) \<le> limit"
  shows "mset (pendingEventsFor st c limit facilityId) = mset (filter (\<lambda>e. concerns c facilityId e
      \<and> unsettled (ob_now st) (ob_deliveries st (ev_id e, co_name c))) (ob_events st))"
    and "set (pendingEventsFor st c limit facilityId) = {e \<in> set (ob_events st). concerns c facilityId e
      \<and> unsettled (ob_now st) (ob_deliveries st (ev_id e, co_name c))}"
proof -
  have "length (filter (\<lambda>e. concerns c facilityId e
      \<and> unsettled (ob_now st) (ob_deliveries st (ev_id e, co_name c))) (ob_events st)) \<le> limit"
    using assms length_filter_le le_trans by blast
  then have "pendingEventsFor st c limit facilityId = sort_by (by_key ev_occurredAt)
      (filter (\<lambda>e. concerns c facilityId e
        \<and> unsettled (ob_now st) (ob_deliveries st (ev_id e, co_name c))) (ob_events st))"
    by (simp add: pendingEventsFor_def length_sort_by)
  then show "mset (pendingEventsFor st c limit facilityId) = mset (filter (\<lambda>e. concerns c facilityId e
      \<and> unsettled (ob_now st) (ob_deliveries st (ev_id e, co_name c))) (ob_events st))"
    and "set (pendingEventsFor st c limit facilityId) = {e \<in> set (ob_events st). concerns c facilityId e
      \<and> unsettled (ob_now st) (ob_deliveries st (ev_id e, co_name c))}" by auto
qed

lemma pendingEventsFor_claimable:
  "e \<in> set (pendingEventsFor st c limit facilityId) \<Longrightarrow> claimable (ob_deliveries st (ev_id e, co_name c))"
  unfolding pendingEventsFor_def
  by (drule in_set_takeD) (auto dest: unsettled_claimable)

lemma pendingEventsFor_distinct:
  assumes "length (ob_events st) \<le> limit" and "distinct (map ev_id (ob_events st))"
  shows "distinct (map ev_id (pendingEventsFor st c limit facilityId))"
proof -
  have "mset (map ev_id (pendingEventsFor st c limit facilityId)) = mset (map ev_id (filter (\<lambda>e.
      concerns c facilityId e \<and> unsettled (ob_now st) (ob_deliveries st (ev_id e, co_name c))) (ob_events st)))"
    using pendingEventsFor_all(1) [OF assms(1), of c facilityId] by simp
  from mset_eq_imp_distinct_iff [OF this] show ?thesis
    using distinct_map_filter [OF assms(2)] by simp
qed

lemma all_standing_drain:
  fixes handle :: handler
  assumes "all_standing handle c facilityId n st" and "length (ob_events st) \<le> limit"
    and "distinct (map ev_id (ob_events st))" and clock: "\<And>e a t. t \<le> fst (handle c e a t)"
  defines "st' \<equiv> fst (dispatchEvents handle [c] limit facilityId st)"
  shows "all_standing handle c facilityId (Suc n) (st'\<lparr>ob_now := ob_now st' + 3600000\<rparr>)"
    and "ob_events st' = ob_events st"
proof -
  define es where "es = pendingEventsFor st c limit facilityId"
  define res where "res = \<lparr>di_claimed = 0, di_succeeded = 0, di_failed = 0, di_deadLettered = 0\<rparr>"
  have st': "st' = fst (foldl (dispatch_event handle c) (st, res) es)"
    by (simp add: st'_def dispatchEvents_def dispatch_consumer_def es_def res_def)
  have "distinct (map ev_id es)" "\<forall>e \<in> set es. claimable (ob_deliveries st (ev_id e, co_name c))"
    unfolding es_def using pendingEventsFor_distinct [OF assms(2,3)] pendingEventsFor_claimable by blast+
  from dispatch_fold [where handle = handle and c = c and st = st and res = res, OF this clock]
  have after: "ob_now st \<le> ob_now st'" "ob_events st' = ob_events st"
    "\<And>j. j \<notin> (\<lambda>e. (ev_id e, co_name c)) ` set es \<Longrightarrow> ob_deliveries st' j = ob_deliveries st j"
    "\<And>e. e \<in> set es \<Longrightarrow> advanced (\<lambda>a t. snd (handle c e a t)) (ob_deliveries st (ev_id e, co_name c))
        (ob_now st') (ob_deliveries st' (ev_id e, co_name c))"
    unfolding st' [symmetric] by blast+
  show "ob_events st' = ob_events st" by (rule after(2))
  have "standing (handle c e) (Suc n) (ob_now st' + 3600000) (ob_deliveries st' (ev_id e, co_name c))"
    if e: "e \<in> set (ob_events st)" "concerns c facilityId e" for e
  proof (cases "e \<in> set es")
    case True
    then have u: "unsettled (ob_now st) (ob_deliveries st (ev_id e, co_name c))"
      by (simp add: es_def pendingEventsFor_all(2) [OF assms(2)])
    have "standing (handle c e) n (ob_now st) (ob_deliveries st (ev_id e, co_name c))"
      using assms(1) e by (simp add: all_standing_def)
    from standing_advances [OF this u after(4) [OF True]] show ?thesis .
  next
    case False
    then have "\<not> unsettled (ob_now st) (ob_deliveries st (ev_id e, co_name c))"
      using e by (simp add: es_def pendingEventsFor_all(2) [OF assms(2)])
    moreover have "(ev_id e, co_name c) \<notin> (\<lambda>e. (ev_id e, co_name c)) ` set es"
    proof
      assume "(ev_id e, co_name c) \<in> (\<lambda>e. (ev_id e, co_name c)) ` set es"
      then obtain x where "x \<in> set es" "ev_id x = ev_id e" by auto
      moreover have "x \<in> set (ob_events st)"
        using \<open>x \<in> set es\<close> by (simp add: es_def pendingEventsFor_all(2) [OF assms(2)])
      ultimately have "x = e" using assms(3) e(1) by (auto simp: distinct_map dest: inj_onD)
      then show False using False \<open>x \<in> set es\<close> by simp
    qed
    ultimately show ?thesis
      using assms(1) e after(3) by (auto simp: all_standing_def standing_def)
  qed
  then show "all_standing handle c facilityId (Suc n) (st'\<lparr>ob_now := ob_now st' + 3600000\<rparr>)"
    by (simp add: all_standing_def after(2))
qed

lemma all_standing_drains:
  fixes handle :: handler
  assumes "all_standing handle c facilityId n st" and "length (ob_events st) \<le> limit"
    and "distinct (map ev_id (ob_events st))" and clock: "\<And>e a t. t \<le> fst (handle c e a t)"
  shows "all_standing handle c facilityId (n + m) (drains handle c limit facilityId m st)
    \<and> ob_events (drains handle c limit facilityId m st) = ob_events st"
  using assms(1-3)
proof (induction m arbitrary: n st)
  case (Suc m)
  note one = all_standing_drain [OF Suc.prems clock]
  from Suc.IH [OF one(1)] one(2) Suc.prems(2,3) show ?case by (simp add: Let_def)
qed simp

section \<open>Properties\<close>

text \<open>
  C5. Workers may interleave and crash in any way: in every state they can reach at most one of them
  is handling a delivery, and the row says so (being processed, on that attempt); the attempts of a
  row stay between one and five, a row waits for a retry only below five, with a time for it, and is
  dead exactly at five, and a row has a completion time exactly when it is settled; and once it is
  settled, nothing changes it and no handler is called for it again, whatever the workers do.
\<close>

theorem dispatch_exclusive:
  assumes "dispatch_step\<^sup>*\<^sup>* fresh_dispatchers s"
  shows "(ds_workers s v = Handling k a \<and> ds_workers s w = Handling k b \<longrightarrow> v = w)
    \<and> (ds_workers s v = Handling k a \<longrightarrow> (\<exists>d. ds_deliveries s k = Some d
        \<and> dl_status d = Processing \<and> dl_attempts d = a))
    \<and> (ds_deliveries s k = Some d \<longrightarrow> 1 \<le> dl_attempts d \<and> dl_attempts d \<le> 5
        \<and> (dl_status d = Failed \<longrightarrow> dl_attempts d < 5 \<and> dl_nextAttemptAt d \<noteq> None)
        \<and> (dl_status d = Dead_letter \<longrightarrow> dl_attempts d = 5)
        \<and> (dl_completedAt d \<noteq> None \<longleftrightarrow> dl_status d \<in> {Succeeded, Dead_letter}))
    \<and> (ds_deliveries s k = Some d \<and> dl_status d \<in> {Succeeded, Dead_letter}
        \<and> dispatch_step\<^sup>*\<^sup>* s t \<longrightarrow> ds_deliveries t k = Some d
          \<and> filter (\<lambda>c. fst c = k) (ds_claims t) = filter (\<lambda>c. fst c = k) (ds_claims s))"
proof -
  have ok: "dispatch_ok s" by (rule dispatching.reachable_holds [OF refl assms])
  have "ds_deliveries t k = Some d \<and> filter (\<lambda>c. fst c = k) (ds_claims t) = filter (\<lambda>c. fst c = k) (ds_claims s)"
    if "ds_deliveries s k = Some d" "dl_status d \<in> {Succeeded, Dead_letter}" "dispatch_step\<^sup>*\<^sup>* s t"
    using reach.run_preserves [OF that(3) settled_out_of_reach [OF ok that(1,2)]]
    by (simp add: out_of_reach_def)
  moreover have "ds_deliveries s k = Some d \<longrightarrow> row_ok d" using dispatch_okD(1) [OF ok] by blast
  moreover have "ds_workers s v = Handling k a \<longrightarrow>
      (\<exists>d. ds_deliveries s k = Some d \<and> dl_status d = Processing \<and> dl_attempts d = a)"
    using dispatch_okD(2) [OF ok, of v] by auto
  moreover have "ds_workers s v = Handling k a \<and> ds_workers s w = Handling k b \<longrightarrow> v = w"
    using dispatch_okD(3) [OF ok] by blast
  ultimately show ?thesis by (simp add: row_ok_def maxAttempts_def split: if_splits)
qed

definition settled_example :: dispatchers where
  "settled_example = foldl do_move fresh_dispatchers [Look 0 (''e'', ''c''), Commit 0, Succeed 0 7]"

theorem dispatch_exclusive_witness:
  "filter (\<lambda>c. fst c = (''e'', ''c''))
    (ds_claims (foldl do_move settled_example [Look 1 (''e'', ''c''), Commit 1])) = [((''e'', ''c''), 1)]"
proof -
  define d where "d = \<lparr>dl_status = Succeeded, dl_attempts = 1, dl_nextAttemptAt = None,
    dl_completedAt = Some 7, dl_lastError = None\<rparr>"
  have run: "dispatch_step\<^sup>*\<^sup>* fresh_dispatchers settled_example"
    unfolding settled_example_def by (rule moves_run)
  have "ds_deliveries settled_example (''e'', ''c'') = Some d" "dl_status d \<in> {Succeeded, Dead_letter}"
    unfolding d_def by code_simp+
  with dispatch_exclusive [OF run] moves_run
  have "filter (\<lambda>c. fst c = (''e'', ''c''))
      (ds_claims (foldl do_move settled_example [Look 1 (''e'', ''c''), Commit 1])) =
    filter (\<lambda>c. fst c = (''e'', ''c'')) (ds_claims settled_example)" by blast
  also have "\<dots> = [((''e'', ''c''), 1)]" by code_simp
  finally show ?thesis .
qed

lemma retry_claimed_twice:
  "ds_claims (foldl do_move fresh_dispatchers [Look 0 j, Commit 0, Fail 0 0 [], Look 0 j,
    Look 1 j, Commit 0, Fail 0 1 [], Commit 1]) = [(j, 1), (j, 2), (j, 2)]"
  by (simp add: fresh_dispatchers_def claim_read_def update_row_def settle_failure_def maxAttempts_def)



text \<open>
  C28. Without crashes the queue drains: for a consumer whose events are new, a batch as large as the
  queue and a clock that does not run backwards, five drains an hour apart settle every event the
  consumer asks for. A delivery that succeeded did so on an attempt its handler returned from, after
  its handler had thrown on each attempt before it; a dead one is dead because the handler threw on
  all five.
\<close>

theorem drains_settle:
  fixes handle :: handler
  assumes "distinct (map ev_id (ob_events st))" and "length (ob_events st) \<le> limit"
    and clock: "\<And>e a t. t \<le> fst (handle c e a t)"
    and new: "\<forall>e \<in> set (ob_events st). ob_deliveries st (ev_id e, co_name c) = None"
  shows "\<forall>e \<in> set (ob_events st). concerns c facilityId e \<longrightarrow>
    (\<exists>d. ob_deliveries (drains handle c limit facilityId 5 st) (ev_id e, co_name c) = Some d
      \<and> 1 \<le> dl_attempts d \<and> dl_attempts d \<le> 5
      \<and> (dl_status d = Succeeded \<and> (\<exists>t. snd (handle c e (dl_attempts d) t) = None)
            \<and> (\<forall>a. 1 \<le> a \<and> a < dl_attempts d \<longrightarrow> (\<exists>t. snd (handle c e a t) \<noteq> None))
        \<or> dl_status d = Dead_letter \<and> dl_attempts d = 5
            \<and> (\<forall>a. 1 \<le> a \<and> a \<le> 5 \<longrightarrow> (\<exists>t. snd (handle c e a t) \<noteq> None))))"
proof (intro ballI impI)
  fix e assume e: "e \<in> set (ob_events st)" "concerns c facilityId e"
  have "all_standing handle c facilityId 0 st"
    using new by (simp add: all_standing_def standing_def attempts_of_def threw_def unsettled_def maxAttempts_def)
  from all_standing_drains [where m = 5, OF this assms(2,1) clock]
  have "standing (handle c e) 5 (ob_now (drains handle c limit facilityId 5 st))
      (ob_deliveries (drains handle c limit facilityId 5 st) (ev_id e, co_name c))"
    using e by (simp add: all_standing_def)
  then show "\<exists>d. ob_deliveries (drains handle c limit facilityId 5 st) (ev_id e, co_name c) = Some d
      \<and> 1 \<le> dl_attempts d \<and> dl_attempts d \<le> 5
      \<and> (dl_status d = Succeeded \<and> (\<exists>t. snd (handle c e (dl_attempts d) t) = None)
            \<and> (\<forall>a. 1 \<le> a \<and> a < dl_attempts d \<longrightarrow> (\<exists>t. snd (handle c e a t) \<noteq> None))
        \<or> dl_status d = Dead_letter \<and> dl_attempts d = 5
            \<and> (\<forall>a. 1 \<le> a \<and> a \<le> 5 \<longrightarrow> (\<exists>t. snd (handle c e a t) \<noteq> None)))"
    unfolding standing_def delivered_def dead_def threw_def maxAttempts_def by force
qed

definition outbox_example :: outbox where
  "outbox_example = \<lparr>ob_events = [\<lparr>ev_id = ''e'', ev_name = ''lead.created'', ev_facilityId = None,
    ev_occurredAt = 0\<rparr>], ob_deliveries = Map.empty, ob_now = 0\<rparr>"

definition twice_down :: handler where
  "twice_down c e a t = (t, if a < 3 then Some ''down'' else None)"

theorem drains_settle_witness:
  "\<exists>d. ob_deliveries (drains twice_down
      \<lparr>co_name = ''c'', co_events = [''lead.created'']\<rparr> 100 None 5 outbox_example) (''e'', ''c'') = Some d
    \<and> dl_status d \<in> {Succeeded, Dead_letter}"
proof -
  have "t \<le> fst (twice_down \<lparr>co_name = ''c'', co_events = [''lead.created'']\<rparr> e a t)" for e a t
    by (simp add: twice_down_def)
  from drains_settle [where st = outbox_example and limit = 100 and facilityId = None
      and handle = twice_down and c = "\<lparr>co_name = ''c'', co_events = [''lead.created'']\<rparr>", OF _ _ this]
  show ?thesis by (auto simp: outbox_example_def concerns_def)
qed

end
