(* ===== verification/JobRuns.thy ===== *)
theory JobRuns
  imports Transitions
begin

text \<open>
  The job runner (\<open>packages/core/jobs/runner.ts\<close>): one row per job, facility and business date. The
  table is a map from the columns of its unique index (for a job without a facility, of the partial
  index that covers those rows). \<open>runJob\<close> is modelled as the function one worker runs from start to
  end, the handler being what it recorded and whether it threw, and as a step relation in which any
  number of workers interleave between their database statements and may crash.
\<close>

section \<open>Rows and outcomes\<close>

datatype job_status = Run_running | Run_succeeded | Run_failed | Run_partial

record job_item =
  ji_itemId :: string
  ji_ok :: bool

record job_run =
  jr_status :: job_status
  jr_startedAt :: date
  jr_finishedAt :: "date option"
  jr_itemsOk :: nat
  jr_itemsFailed :: nat
  jr_details :: "job_item list option"
  jr_lastError :: "string option"

type_synonym job_key = "string \<times> string option \<times> date"
type_synonym job_runs = "job_key \<rightharpoonup> job_run"

datatype skip_reason = Already_ran | In_progress

datatype run_result = Skipped skip_reason job_run | Completed job_run

definition new_run :: "date \<Rightarrow> job_run" where
  "new_run now = \<lparr>jr_status = Run_running, jr_startedAt = now, jr_finishedAt = None, jr_itemsOk = 0,
    jr_itemsFailed = 0, jr_details = None, jr_lastError = None\<rparr>"

text \<open>A forced re-run resets the row; \<open>details: undefined\<close> leaves the old details in place.\<close>

definition reset_run :: "date \<Rightarrow> job_run \<Rightarrow> job_run" where
  "reset_run now r = r\<lparr>jr_status := Run_running, jr_startedAt := now, jr_finishedAt := None,
    jr_itemsOk := 0, jr_itemsFailed := 0, jr_lastError := None\<rparr>"

definition skip_run :: "job_run \<Rightarrow> run_result" where
  "skip_run existing = Skipped (if jr_status existing = Run_running then In_progress else Already_ran) existing"

text \<open>What the handler leaves behind: the items it recorded and the message it threw, if it did. With
  no items the details column is not written.\<close>

definition finish_run :: "date \<Rightarrow> job_item list \<Rightarrow> string option \<Rightarrow> job_run \<Rightarrow> job_run" where
  "finish_run now items thrown r = (
    let itemsFailed = length (filter (\<lambda>x. \<not> ji_ok x) items);
        r = r\<lparr>jr_finishedAt := Some now, jr_itemsOk := length items - itemsFailed,
          jr_itemsFailed := itemsFailed,
          jr_details := (if 0 < length items then Some items else jr_details r)\<rparr>
    in case thrown of
        None \<Rightarrow> r\<lparr>jr_status := (if 0 < itemsFailed then Run_partial else Run_succeeded)\<rparr>
      | Some message \<Rightarrow> r\<lparr>jr_status := Run_failed, jr_lastError := Some (take 1000 message)\<rparr>)"

section \<open>The statements of runJob\<close>

datatype run_write = Insert_run | Reset_run | Skip_run job_run

definition run_decide :: "bool \<Rightarrow> job_run option \<Rightarrow> run_write" where
  "run_decide force existing = (case existing of None \<Rightarrow> Insert_run
    | Some r \<Rightarrow> if \<not> force then Skip_run r else Reset_run)"

text \<open>The write either makes the worker the one that runs the job, or skips: an insert fails when
  another worker's row is there.\<close>

fun run_commit :: "job_runs \<Rightarrow> job_key \<Rightarrow> date \<Rightarrow> run_write \<Rightarrow> job_runs \<times> run_result option" where
  "run_commit db k now (Skip_run r) = (db, Some (skip_run r))"
| "run_commit db k now Insert_run = (case db k of
      None \<Rightarrow> (db(k \<mapsto> new_run now), None)
    | Some claimed \<Rightarrow> (db, Some (Skipped In_progress claimed)))"
| "run_commit db k now Reset_run = (case db k of
      None \<Rightarrow> (db, None)
    | Some r \<Rightarrow> (db(k \<mapsto> reset_run now r), None))"

definition runJob ::
  "job_key \<Rightarrow> bool \<Rightarrow> date \<Rightarrow> date \<Rightarrow> job_item list \<Rightarrow> string option \<Rightarrow> job_runs \<Rightarrow> job_runs \<times> run_result"
where
  "runJob k force now ended items thrown db = (
    let (db, skipped) = run_commit db k now (run_decide force (db k))
    in case skipped of
        Some result \<Rightarrow> (db, result)
      | None \<Rightarrow> let run = finish_run ended items thrown (the (db k)) in (db(k \<mapsto> run), Completed run))"

text \<open>The most recent completed business date of a job, over the dates of its rows.\<close>

definition lastSuccessfulRun :: "job_runs \<Rightarrow> string \<Rightarrow> string option \<Rightarrow> date list \<Rightarrow> date option" where
  "lastSuccessfulRun db jobName facilityId dates = (
    case sort_by (by_key uminus) (filter (\<lambda>d. case db (jobName, facilityId, d) of None \<Rightarrow> False
      | Some r \<Rightarrow> jr_status r \<in> {Run_succeeded, Run_partial}) dates) of
      [] \<Rightarrow> None | d # _ \<Rightarrow> Some d)"

section \<open>Many workers\<close>

datatype job_worker = Waiting | Read_row job_key bool "job_run option" | Working job_key

record job_system =
  js_runs :: job_runs
  js_workers :: "nat \<Rightarrow> job_worker"
  js_starts :: "(job_key \<times> bool) list"

text \<open>\<open>js_starts\<close> is the history of the handler calls: the key, and whether the call was forced.\<close>

inductive job_step :: "job_system \<Rightarrow> job_system \<Rightarrow> bool" where
  job_read: "js_workers s w = Waiting \<Longrightarrow>
    job_step s (s\<lparr>js_workers := (js_workers s)(w := Read_row k force (js_runs s k))\<rparr>)"
| job_start: "js_workers s w = Read_row k force row \<Longrightarrow>
    run_commit (js_runs s) k now (run_decide force row) = (db, None) \<Longrightarrow>
    job_step s (s\<lparr>js_runs := db, js_workers := (js_workers s)(w := Working k),
      js_starts := js_starts s @ [(k, force)]\<rparr>)"
| job_skip: "js_workers s w = Read_row k force row \<Longrightarrow>
    run_commit (js_runs s) k now (run_decide force row) = (db, Some result) \<Longrightarrow>
    job_step s (s\<lparr>js_runs := db, js_workers := (js_workers s)(w := Waiting)\<rparr>)"
| job_finish: "js_workers s w = Working k \<Longrightarrow> js_runs s k = Some r \<Longrightarrow>
    job_step s (s\<lparr>js_runs := (js_runs s)(k \<mapsto> finish_run ended items thrown r),
      js_workers := (js_workers s)(w := Waiting)\<rparr>)"
| job_crash: "job_step s (s\<lparr>js_workers := (js_workers s)(w := Waiting)\<rparr>)"

definition no_runs :: job_system where
  "no_runs = \<lparr>js_runs = Map.empty, js_workers = (\<lambda>_. Waiting), js_starts = []\<rparr>"

inductive_cases job_stepE: "job_step s t"

section \<open>Lemmas\<close>

text \<open>The row is there exactly when the job was started, and every start but the first was forced.\<close>

definition starts_ok :: "job_key \<Rightarrow> job_system \<Rightarrow> bool" where
  "starts_ok k s \<longleftrightarrow> (js_runs s k = None \<longleftrightarrow> filter (\<lambda>x. fst x = k) (js_starts s) = [])
    \<and> (\<forall>x \<in> set (tl (filter (\<lambda>x. fst x = k) (js_starts s))). snd x)
    \<and> (\<forall>w force r. js_workers s w = Read_row k force (Some r) \<longrightarrow> js_runs s k \<noteq> None)"

lemma run_commit_cases:
  assumes "run_commit db k now (run_decide force row) = (db', res)"
  obtains (skip) r where "db' = db" and "res = Some r"
    | (insert) "row = None" and "db k = None" and "db' = db(k \<mapsto> new_run now)" and "res = None"
    | (reset) r where "force" and "row \<noteq> None" and "db k = Some r" and "db' = db(k \<mapsto> reset_run now r)" and "res = None"
    | (gone) "row \<noteq> None" and "db k = None" and "db' = db" and "res = None"
  using assms by (cases row; cases force; cases "db k") (auto simp: run_decide_def)

lemma starts_ok_step: "job_step s t \<Longrightarrow> starts_ok k s \<Longrightarrow> starts_ok k t"
proof (induction rule: job_step.induct)
  case (job_start s w j force row now db)
  show ?case
  proof (cases "j = k")
    case True
    from job_start.hyps(2) show ?thesis
    proof (cases rule: run_commit_cases)
      case insert
      then have "filter (\<lambda>x. fst x = k) (js_starts s) = []"
        using job_start.prems True by (simp add: starts_ok_def)
      then show ?thesis using insert True by (simp add: starts_ok_def)
    next
      case (reset r)
      then have "filter (\<lambda>x. fst x = k) (js_starts s) \<noteq> []"
        using job_start.prems True by (simp add: starts_ok_def)
      then show ?thesis using reset True job_start.prems by (auto simp: starts_ok_def)
    next
      case gone
      then show ?thesis using job_start.prems job_start.hyps(1) True by (auto simp: starts_ok_def)
    qed simp
  next
    case False
    have "db k = js_runs s k"
      using job_start.hyps(2) by (cases rule: run_commit_cases) (use False in auto)
    then show ?thesis using job_start.prems False by (auto simp: starts_ok_def)
  qed
next
  case (job_skip s w j force row now db result)
  have "db = js_runs s" using job_skip.hyps(2) by (cases rule: run_commit_cases) auto
  then show ?case using job_skip.prems by (auto simp: starts_ok_def)
next
  case (job_finish s w j r ended items thrown)
  then show ?case by (auto simp: starts_ok_def)
qed (auto simp: starts_ok_def)

lemma starts_ok_none: "starts_ok k no_runs"
  by (simp add: starts_ok_def no_runs_def)

interpretation starting: invariant_of job_step "starts_ok k" "(=) no_runs" for k
  by unfold_locales (auto intro: starts_ok_step starts_ok_none)

text \<open>A row nobody works on moves only when somebody forces it.\<close>

definition at_rest :: "job_key \<Rightarrow> job_run \<Rightarrow> (job_key \<times> bool) list \<Rightarrow> job_system \<Rightarrow> bool" where
  "at_rest k r cs s \<longleftrightarrow> js_runs s k = Some r \<and> (\<forall>w. js_workers s w \<noteq> Working k)
      \<and> filter (\<lambda>x. fst x = k) (js_starts s) = cs
    \<or> (\<exists>ys. filter (\<lambda>x. fst x = k) (js_starts s) = cs @ (k, True) # ys)"

lemma at_rest_start:
  assumes "js_workers s w = Read_row j force row"
    and "run_commit (js_runs s) j now (run_decide force row) = (db, None)" and "at_rest k r cs s"
  shows "at_rest k r cs (s\<lparr>js_runs := db, js_workers := (js_workers s)(w := Working j),
    js_starts := js_starts s @ [(j, force)]\<rparr>)"
proof (cases "j = k")
  case True
  from assms(2) show ?thesis
    by (cases rule: run_commit_cases) (use True assms(3) in \<open>auto simp: at_rest_def\<close>)
next
  case False
  have "db k = js_runs s k" using assms(2) by (cases rule: run_commit_cases) (use False in auto)
  then show ?thesis using False assms(3) by (auto simp: at_rest_def)
qed

lemma at_rest_step: "job_step s t \<Longrightarrow> at_rest k r cs s \<Longrightarrow> at_rest k r cs t"
proof (induction rule: job_step.induct)
  case (job_start s w j force row now db)
  then show ?case by (rule at_rest_start)
next
  case (job_skip s w j force row now db result)
  have "db = js_runs s" using job_skip.hyps(2) by (cases rule: run_commit_cases) auto
  then show ?case using job_skip.prems by (auto simp: at_rest_def)
next
  case (job_finish s w j r' ended items thrown)
  then show ?case by (cases "j = k") (auto simp: at_rest_def)
qed (auto simp: at_rest_def)

interpretation resting: preserved job_step "at_rest k r cs" for k r cs
  by unfold_locales (rule at_rest_step)

section \<open>Properties\<close>

text \<open>
  C29. At most once, however workers interleave or crash: of all the calls of a job's handler for one
  facility and business date at most one was not forced, and it was the first; and a row that no
  worker is working on, in particular one whose worker died, stays exactly as it is until somebody
  forces a re-run.
\<close>

theorem job_started_once:
  assumes "job_step\<^sup>*\<^sup>* no_runs s"
  shows "list_all snd (tl (filter (\<lambda>x. fst x = k) (js_starts s)))
    \<and> length (filter (\<lambda>x. fst x = k \<and> \<not> snd x) (js_starts s)) \<le> 1
    \<and> (js_runs s k = Some r \<and> (\<forall>w. js_workers s w \<noteq> Working k) \<and> job_step\<^sup>*\<^sup>* s t \<longrightarrow>
        js_runs t k = Some r \<or>
        (\<exists>ys. filter (\<lambda>x. fst x = k) (js_starts t) =
          filter (\<lambda>x. fst x = k) (js_starts s) @ (k, True) # ys))"
proof -
  have ok: "starts_ok k s" by (rule starting.reachable_holds [OF refl assms])
  let ?mine = "filter (\<lambda>x. fst x = k) (js_starts s)"
  have forced: "list_all snd (tl ?mine)" using ok by (simp add: starts_ok_def list_all_iff)
  have "length (filter (\<lambda>x. \<not> snd x) ?mine) \<le> 1"
  proof (cases ?mine)
    case (Cons x xs)
    then have "filter (\<lambda>x. \<not> snd x) xs = []" using forced by (auto simp: filter_empty_conv list_all_iff)
    then show ?thesis unfolding Cons by simp
  qed simp
  moreover have "filter (\<lambda>x. \<not> snd x) ?mine = filter (\<lambda>x. fst x = k \<and> \<not> snd x) (js_starts s)"
    by (simp add: conj_commute)
  moreover have "at_rest k r ?mine t"
    if "js_runs s k = Some r" "\<forall>w. js_workers s w \<noteq> Working k" "job_step\<^sup>*\<^sup>* s t"
    using resting.run_preserves [OF that(3)] that(1,2) by (simp add: at_rest_def)
  ultimately show ?thesis using forced by (auto simp: at_rest_def)
qed

definition two_workers :: job_system where
  "two_workers = \<lparr>js_runs = Map.empty, js_workers = (\<lambda>w. if w < 2 then Read_row (''bill'', None, 0) False None
    else Waiting), js_starts = []\<rparr>"

theorem job_started_once_witness:
  "length (filter (\<lambda>x. fst x = (''bill'', None, 0) \<and> \<not> snd x)
    (js_starts (two_workers\<lparr>js_runs := [(''bill'', None, 0) \<mapsto> new_run 0],
      js_workers := (js_workers two_workers)(0 := Working (''bill'', None, 0)),
      js_starts := [((''bill'', None, 0), False)]\<rparr>))) \<le> 1"
proof -
  let ?k = "(''bill'', None, 0) :: job_key"
  let ?t = "two_workers\<lparr>js_runs := [?k \<mapsto> new_run 0],
    js_workers := (js_workers two_workers)(0 := Working ?k), js_starts := [(?k, False)]\<rparr>"
  define s1 where "s1 = no_runs\<lparr>js_workers := (js_workers no_runs)(0 := Read_row ?k False None)\<rparr>"
  have a: "job_step no_runs s1"
    using job_step.job_read [of no_runs 0 ?k False] by (simp add: s1_def no_runs_def)
  have "job_step s1 (s1\<lparr>js_workers := (js_workers s1)(1 := Read_row ?k False None)\<rparr>)"
    using job_step.job_read [of s1 1 ?k False] by (simp add: s1_def no_runs_def)
  moreover have "s1\<lparr>js_workers := (js_workers s1)(1 := Read_row ?k False None)\<rparr> = two_workers"
    by (auto simp: s1_def two_workers_def no_runs_def fun_eq_iff)
  moreover have "job_step two_workers ?t"
    using job_step.job_start [of two_workers 0 ?k False None 0 "[?k \<mapsto> new_run 0]"]
    by (simp add: two_workers_def run_decide_def)
  ultimately have "job_step\<^sup>*\<^sup>* no_runs ?t" using a by (simp add: rtranclp.rtrancl_into_rtrancl)
  from job_started_once [OF this, of ?k] show ?thesis by blast
qed

text \<open>
  One call of the runner: an unforced call for a date that has a row changes nothing and says
  whether that run is still going; any other call runs the handler once and leaves a finished row
  whose item counts add up to the items recorded, failed exactly when the handler threw and otherwise
  partial exactly when an item failed; and no other row is touched.
\<close>

theorem runJob_correct:
  "case runJob k force now ended items thrown db of (db', Skipped reason r) \<Rightarrow>
      \<not> force \<and> db k = Some r \<and> db' = db \<and> (reason = In_progress \<longleftrightarrow> jr_status r = Run_running)
    | (db', Completed r) \<Rightarrow> (force \<or> db k = None) \<and> db' = db(k \<mapsto> r) \<and> jr_finishedAt r = Some ended
        \<and> jr_itemsOk r + jr_itemsFailed r = length items
        \<and> jr_itemsFailed r = length (filter (\<lambda>x. \<not> ji_ok x) items)
        \<and> jr_status r = (if thrown \<noteq> None then Run_failed
            else if list_all ji_ok items then Run_succeeded else Run_partial)"
proof -
  have n: "length items - length (filter (\<lambda>x. \<not> ji_ok x) items) + length (filter (\<lambda>x. \<not> ji_ok x) items) = length items"
    by simp
  have p: "0 < length (filter (\<lambda>x. \<not> ji_ok x) items) \<longleftrightarrow> \<not> list_all ji_ok items"
    by (auto simp: list_all_iff filter_empty_conv)
  have finished: "jr_finishedAt (finish_run ended items thrown r) = Some ended"
      "jr_itemsOk (finish_run ended items thrown r) = length items - length (filter (\<lambda>x. \<not> ji_ok x) items)"
      "jr_itemsFailed (finish_run ended items thrown r) = length (filter (\<lambda>x. \<not> ji_ok x) items)"
      "jr_status (finish_run ended items thrown r) = (if thrown \<noteq> None then Run_failed
        else if list_all ji_ok items then Run_succeeded else Run_partial)" for r
    using p by (cases thrown; simp add: finish_run_def Let_def)+
  show ?thesis
    by (cases "db k"; cases force)
      (simp_all add: runJob_def run_decide_def skip_run_def Let_def finished n)
qed

end
