(* ===== verification/Delinquency.thy ===== *)
theory Delinquency
  imports Auctions
begin

text \<open>
  The delinquency pipeline: the configured timeline and what it must satisfy
  (\<open>packages/core/delinquency/timeline.ts\<close>), what the nightly run does to one lease
  (\<open>engine.ts\<close>), and the list that compares the locks that should be on with those that are
  (\<open>overlock-reconciliation.ts\<close>). Messages for people are constructors. The import of \<open>Auctions\<close>
  is for \<open>toLowerCase\<close>.
\<close>

section \<open>timeline.ts\<close>

datatype automated_action =
  Assess_late_fee | Send_notice | Suspend_access | Restore_access | Flag_auction_eligible

datatype delivery_method = Email | First_class_mail | Certified_mail | Hand_delivered

datatype proof_field = Note | Tracking_number | Photo_reference | Delivered_on

record timeline_step =
  ts_dayOffset :: rat
  ts_label :: string
  ts_automatedActions :: "automated_action list"
  ts_noticeTemplateKey :: "string option"
  ts_deliveryMethods :: "delivery_method list"
  ts_staffTaskLabel :: "string option"
  ts_requiredProofFields :: "proof_field list"

datatype timeline_problem_text =
  No_steps
| Day_not_whole
| Name_missing
| Day_taken rat string
| No_template_chosen
| Unknown_template string
| No_delivery_method
| Proof_missing
| Proof_without_task

record timeline_problem =
  tp_index :: "nat option"
  tp_problem :: timeline_problem_text

definition step_problems ::
  "string list option \<Rightarrow> timeline_step list \<Rightarrow> (rat \<rightharpoonup> nat) \<Rightarrow> timeline_step \<Rightarrow> timeline_problem_text list"
where
  "step_problems knownTemplateKeys steps seenDays x =
    (if \<not> is_integer (ts_dayOffset x) \<or> ts_dayOffset x < 0 then [Day_not_whole] else [])
    @ (if trim (ts_label x) = [] then [Name_missing] else [])
    @ (case seenDays (ts_dayOffset x) of
        Some firstAt \<Rightarrow> [Day_taken (ts_dayOffset x) (ts_label (steps ! firstAt))] | None \<Rightarrow> [])
    @ (if Send_notice \<in> set (ts_automatedActions x) \<and> \<not> truthy (ts_noticeTemplateKey x)
       then [No_template_chosen] else [])
    @ (if truthy (ts_noticeTemplateKey x) \<and> knownTemplateKeys \<noteq> None
          \<and> the (ts_noticeTemplateKey x) \<notin> set (the knownTemplateKeys)
       then [Unknown_template (the (ts_noticeTemplateKey x))] else [])
    @ (if truthy (ts_noticeTemplateKey x) \<and> ts_deliveryMethods x = [] then [No_delivery_method] else [])
    @ (if truthy (ts_staffTaskLabel x) \<and> ts_requiredProofFields x = [] then [Proof_missing] else [])
    @ (if \<not> truthy (ts_staffTaskLabel x) \<and> ts_requiredProofFields x \<noteq> [] then [Proof_without_task] else [])"

fun check_steps ::
  "string list option \<Rightarrow> timeline_step list \<Rightarrow> (rat \<rightharpoonup> nat) \<Rightarrow> nat \<Rightarrow> timeline_step list \<Rightarrow> timeline_problem list"
where
  "check_steps known steps seenDays index [] = []"
| "check_steps known steps seenDays index (x # xs) =
    map (\<lambda>p. \<lparr>tp_index = Some index, tp_problem = p\<rparr>) (step_problems known steps seenDays x)
    @ check_steps known steps
        (if seenDays (ts_dayOffset x) = None then seenDays(ts_dayOffset x \<mapsto> index) else seenDays)
        (Suc index) xs"

definition validateTimeline :: "timeline_step list \<Rightarrow> string list option \<Rightarrow> timeline_problem list" where
  "validateTimeline steps knownTemplateKeys = (
    if length steps = 0 then [\<lparr>tp_index = None, tp_problem = No_steps\<rparr>]
    else check_steps knownTemplateKeys steps Map.empty 0 steps)"

text \<open>\<open>/overlock/i\<close>: the word occurs somewhere, in any case.\<close>

definition occurs_in :: "string \<Rightarrow> string \<Rightarrow> bool" where
  "occurs_in p s \<longleftrightarrow> list_ex (\<lambda>i. take (length p) (drop i s) = p) [0..<Suc (length s)]"

definition isOverlockStep :: "timeline_step \<Rightarrow> bool" where
  "isOverlockStep x \<longleftrightarrow> truthy (ts_staffTaskLabel x)
    \<and> occurs_in ''overlock'' (toLowerCase (ts_label x @ '' '' @ or_else (ts_staffTaskLabel x) []))"

text \<open>\<open>(a, b) => a.dayOffset - b.dayOffset\<close>; only the sign of the difference counts.\<close>

definition by_day :: "timeline_step \<Rightarrow> timeline_step \<Rightarrow> int" where
  "by_day a b = (if ts_dayOffset a < ts_dayOffset b then -1
    else if ts_dayOffset a = ts_dayOffset b then 0 else 1)"

definition orderedSteps :: "timeline_step list \<Rightarrow> timeline_step list" where
  "orderedSteps steps = sort_by by_day steps"

definition timelineStepsDue ::
  "timeline_step list \<Rightarrow> rat \<Rightarrow> rat list \<Rightarrow> timeline_step list \<times> timeline_step option"
where
  "timelineStepsDue steps daysPastDue alreadyExecutedDays = (
    let ordered = orderedSteps steps
    in (filter (\<lambda>x. ts_dayOffset x \<le> daysPastDue \<and> ts_dayOffset x \<notin> set alreadyExecutedDays) ordered,
        find (\<lambda>x. daysPastDue < ts_dayOffset x) ordered))"

text \<open>The right single quotation mark, in UTF-8.\<close>

definition rsquo :: string where
  "rsquo = [CHR 0xE2, CHR 0x80, CHR 0x99]"

definition EXAMPLE_TIMELINE_STEPS :: "timeline_step list" where
  "EXAMPLE_TIMELINE_STEPS = [
    \<lparr>ts_dayOffset = 1, ts_label = ''Late'', ts_automatedActions = [Assess_late_fee, Send_notice],
     ts_noticeTemplateKey = Some ''dunning_step'', ts_deliveryMethods = [Email],
     ts_staffTaskLabel = None, ts_requiredProofFields = []\<rparr>,
    \<lparr>ts_dayOffset = 6, ts_label = ''Access denied'', ts_automatedActions = [Suspend_access, Send_notice],
     ts_noticeTemplateKey = Some ''access_suspended'', ts_deliveryMethods = [Email],
     ts_staffTaskLabel = None, ts_requiredProofFields = []\<rparr>,
    \<lparr>ts_dayOffset = 10, ts_label = ''Overlock'', ts_automatedActions = [],
     ts_noticeTemplateKey = None, ts_deliveryMethods = [],
     ts_staffTaskLabel = Some ''Apply the overlock and photograph it'',
     ts_requiredProofFields = [Note, Photo_reference]\<rparr>,
    \<lparr>ts_dayOffset = 15, ts_label = ''Pre-lien notice'', ts_automatedActions = [],
     ts_noticeTemplateKey = None, ts_deliveryMethods = [],
     ts_staffTaskLabel = Some (''Generate the pre-lien notice on the tenant'' @ rsquo
       @ ''s Notices screen, mail it, record the proof''),
     ts_requiredProofFields = [Tracking_number, Delivered_on]\<rparr>,
    \<lparr>ts_dayOffset = 30, ts_label = ''Lien notice'', ts_automatedActions = [],
     ts_noticeTemplateKey = None, ts_deliveryMethods = [],
     ts_staffTaskLabel = Some (''Generate the lien notice on the tenant'' @ rsquo
       @ ''s Notices screen, mail it, record the proof''),
     ts_requiredProofFields = [Tracking_number, Delivered_on]\<rparr>,
    \<lparr>ts_dayOffset = 45, ts_label = ''Second late fee'', ts_automatedActions = [Assess_late_fee],
     ts_noticeTemplateKey = None, ts_deliveryMethods = [],
     ts_staffTaskLabel = None, ts_requiredProofFields = []\<rparr>,
    \<lparr>ts_dayOffset = 60, ts_label = ''Auction eligible'', ts_automatedActions = [Flag_auction_eligible],
     ts_noticeTemplateKey = None, ts_deliveryMethods = [],
     ts_staffTaskLabel = Some ''Regional or owner approval before scheduling a sale'',
     ts_requiredProofFields = [Note]\<rparr>]"

section \<open>engine.ts\<close>

datatype halt_reason = Cured | Lease_over | Held | No_timeline_active | Reversal_grace

record engine_input =
  en_steps :: "timeline_step list"
  en_daysPastDue :: rat
  en_qualifyingOutstandingCents :: cents
  en_leaseEnded :: bool
  en_onHold :: bool
  en_executedDays :: "rat list"
  en_executedToday :: bool
  en_reversalGrace :: bool

datatype engine_decision = Act "timeline_step list" | Dont_act "halt_reason option"

definition evaluate :: "engine_input \<Rightarrow> engine_decision" where
  "evaluate x = (
    if length (en_steps x) = 0 then Dont_act (Some No_timeline_active)
    else if en_onHold x then Dont_act (Some Held)
    else if en_qualifyingOutstandingCents x \<le> 0 then Dont_act (Some Cured)
    else if en_leaseEnded x then Dont_act (Some Lease_over)
    else if en_reversalGrace x then Dont_act (Some Reversal_grace)
    else let due = filter (\<lambda>s. ts_dayOffset s \<le> en_daysPastDue x \<and> ts_dayOffset s \<notin> set (en_executedDays x))
           (orderedSteps (en_steps x))
      in if length due = 0 \<or> en_executedToday x then Dont_act None else Act (take 1 due))"

definition currentStage :: "timeline_step list \<Rightarrow> rat list \<Rightarrow> timeline_step option" where
  "currentStage steps executedDays = (
    let passed = filter (\<lambda>s. ts_dayOffset s \<in> set executedDays) (orderedSteps steps)
    in if passed = [] then None else Some (passed ! (length passed - 1)))"

section \<open>overlock-reconciliation.ts\<close>

record overlock_input =
  ov_appliedAt :: "date option"
  ov_createdAt :: date
  ov_removalRequestedAt :: "date option"
  ov_leaseEnded :: bool

datatype overlock_removal_reason = Cured_removal | Lease_ended | Transfer | Auction_sold | Abandoned

datatype overlock_state = Awaiting_apply | Awaiting_removal | Confirmed | Stuck_no_lease

record overlock_row =
  or_state :: overlock_state
  or_shouldBeLocked :: bool
  or_confirmedLocked :: bool
  or_ageHours :: rat
  or_mismatch :: bool

definition OVERLOCK_MISMATCH_THRESHOLD_HOURS :: rat where
  "OVERLOCK_MISMATCH_THRESHOLD_HOURS = 24"

definition hoursBetween :: "date \<Rightarrow> date \<Rightarrow> rat" where
  "hoursBetween earlier later = of_int (later - earlier) / 3600000"

text \<open>The row is the classification beside the input, which it repeats.\<close>

definition classifyOverlock :: "overlock_input \<Rightarrow> date \<Rightarrow> overlock_row" where
  "classifyOverlock row now = (case ov_appliedAt row of
      None \<Rightarrow> let ageHours = hoursBetween (ov_createdAt row) now
        in \<lparr>or_state = Awaiting_apply, or_shouldBeLocked = True, or_confirmedLocked = False,
            or_ageHours = ageHours, or_mismatch = OVERLOCK_MISMATCH_THRESHOLD_HOURS < ageHours\<rparr>
    | Some appliedAt \<Rightarrow>
        if ov_leaseEnded row \<and> ov_removalRequestedAt row = None
        then \<lparr>or_state = Stuck_no_lease, or_shouldBeLocked = False, or_confirmedLocked = True,
            or_ageHours = hoursBetween appliedAt now, or_mismatch = True\<rparr>
        else case ov_removalRequestedAt row of
            Some requested \<Rightarrow> let ageHours = hoursBetween requested now
              in \<lparr>or_state = Awaiting_removal, or_shouldBeLocked = False, or_confirmedLocked = True,
                  or_ageHours = ageHours, or_mismatch = OVERLOCK_MISMATCH_THRESHOLD_HOURS < ageHours\<rparr>
          | None \<Rightarrow> \<lparr>or_state = Confirmed, or_shouldBeLocked = True, or_confirmedLocked = True,
              or_ageHours = hoursBetween appliedAt now, or_mismatch = False\<rparr>)"

section \<open>Lemmas\<close>

interpretation by_day: comparator by_day
  by unfold_locales (auto simp: by_day_def split: if_splits)

lemma check_steps_distinct:
  "check_steps known steps seen i xs = [] \<Longrightarrow>
    distinct (map ts_dayOffset xs) \<and> (\<forall>x \<in> set xs. seen (ts_dayOffset x) = None)"
proof (induction xs arbitrary: seen i)
  case (Cons x xs)
  have x: "seen (ts_dayOffset x) = None"
    using Cons.prems by (auto simp: step_problems_def split: option.splits)
  then have "check_steps known steps (seen(ts_dayOffset x \<mapsto> i)) (Suc i) xs = []"
    using Cons.prems by simp
  from Cons.IH [OF this] x show ?case by (auto split: if_splits)
qed simp

lemma validateTimeline_distinct:
  "validateTimeline steps known = [] \<Longrightarrow> steps \<noteq> [] \<and> distinct (map ts_dayOffset steps)"
  using check_steps_distinct [of known steps Map.empty 0 steps]
  by (auto simp: validateTimeline_def split: if_splits)

text \<open>The ladder: the steps by strictly increasing day.\<close>

lemma orderedSteps_strict:
  assumes "distinct (map ts_dayOffset steps)"
  shows "sorted_wrt (\<lambda>a b. ts_dayOffset a < ts_dayOffset b) (orderedSteps steps)"
proof -
  have s: "sorted_wrt (\<lambda>a b. by_day a b \<le> 0) (orderedSteps steps)"
    unfolding orderedSteps_def by (rule by_day.sorted_sort_by)
  have "distinct (map ts_dayOffset (orderedSteps steps))"
    using assms mset_eq_imp_distinct_iff [of "map ts_dayOffset (orderedSteps steps)" "map ts_dayOffset steps"]
    by (simp add: orderedSteps_def)
  then have "ts_dayOffset (orderedSteps steps ! i) \<noteq> ts_dayOffset (orderedSteps steps ! j)"
    if "i < j" "j < length (orderedSteps steps)" for i j
    using that nth_eq_iff_index_eq [of "map ts_dayOffset (orderedSteps steps)" i j] by simp
  then show ?thesis
    using s by (fastforce simp: sorted_wrt_iff_nth_less by_day_def split: if_splits)
qed

text \<open>On a strictly increasing list, once the first \<open>n\<close> days are executed only the next one can be due.\<close>

lemma strict_take_drop:
  fixes f :: "'a \<Rightarrow> rat"
  assumes "sorted_wrt (\<lambda>a b. f a < f b) xs"
  shows "filter (\<lambda>s. f s \<notin> set (map f (take n xs))) xs = drop n xs"
  using assms
proof (induction xs arbitrary: n)
  case (Cons x xs)
  show ?case
  proof (cases n)
    case (Suc m)
    have "filter (\<lambda>s. f s \<notin> set (map f (take n (x # xs)))) xs = filter (\<lambda>s. f s \<notin> set (map f (take m xs))) xs"
      using Cons.prems by (intro filter_cong refl) (fastforce simp: Suc)
    then show ?thesis using Cons by (simp add: Suc)
  qed simp
qed simp

lemma strict_filter_hd:
  fixes f :: "'a \<Rightarrow> rat"
  assumes "sorted_wrt (\<lambda>a b. f a < f b) xs"
  shows "take 1 (filter (\<lambda>s. f s \<le> d) xs) = (case xs of [] \<Rightarrow> [] | x # _ \<Rightarrow> if f x \<le> d then [x] else [])"
proof (cases xs)
  case (Cons x ys)
  have "filter (\<lambda>s. f s \<le> d) ys = []" if "d < f x"
    using assms that by (auto simp: Cons filter_empty_conv)
  then show ?thesis by (auto simp: Cons)
qed simp

text \<open>One night on the ladder.\<close>

definition clear_to_act :: "engine_input \<Rightarrow> bool" where
  "clear_to_act x \<longleftrightarrow> \<not> en_onHold x \<and> 0 < en_qualifyingOutstandingCents x \<and> \<not> en_leaseEnded x
    \<and> \<not> en_reversalGrace x \<and> \<not> en_executedToday x"

lemma evaluate_on_ladder:
  assumes "distinct (map ts_dayOffset steps)" and "en_steps x = steps" and "steps \<noteq> []"
    and "en_executedDays x = map ts_dayOffset (take n (orderedSteps steps))"
  shows "evaluate x = (if clear_to_act x \<and> n < length steps
      \<and> ts_dayOffset (orderedSteps steps ! n) \<le> en_daysPastDue x
    then Act [orderedSteps steps ! n]
    else Dont_act (if en_onHold x then Some Held
      else if en_qualifyingOutstandingCents x \<le> 0 then Some Cured
      else if en_leaseEnded x then Some Lease_over
      else if en_reversalGrace x then Some Reversal_grace else None))"
proof -
  note strict = orderedSteps_strict [OF assms(1)]
  have rest: "sorted_wrt (\<lambda>a b. ts_dayOffset a < ts_dayOffset b) (drop n (orderedSteps steps))"
    using strict by (rule sorted_wrt_drop)
  let ?due = "filter (\<lambda>s. ts_dayOffset s \<le> en_daysPastDue x \<and> ts_dayOffset s \<notin> set (en_executedDays x))
    (orderedSteps steps)"
  have "?due = filter (\<lambda>s. ts_dayOffset s \<le> en_daysPastDue x) (drop n (orderedSteps steps))"
    using strict_take_drop [OF strict, of n]
    unfolding assms(4) by (metis (no_types, lifting) filter_filter filter_cong)
  then have due: "take 1 ?due = (if n < length steps
      \<and> ts_dayOffset (orderedSteps steps ! n) \<le> en_daysPastDue x then [orderedSteps steps ! n] else [])"
    using strict_filter_hd [OF rest, of "en_daysPastDue x"]
    by (cases "n < length steps") (simp_all add: Cons_nth_drop_Suc [symmetric] orderedSteps_def)
  moreover have "length ?due = 0 \<longleftrightarrow> take 1 ?due = []" by simp
  ultimately show ?thesis
    using assms(2,3) by (auto simp: evaluate_def Let_def clear_to_act_def)
qed

text \<open>Night after night: each run is given the days executed so far, and executes what it is told.\<close>

fun climb :: "timeline_step list \<Rightarrow> rat list \<Rightarrow> engine_input list \<Rightarrow> rat list" where
  "climb steps executed [] = executed"
| "climb steps executed (x # xs) = climb steps
    (case evaluate (x\<lparr>en_steps := steps, en_executedDays := executed\<rparr>) of
      Act now \<Rightarrow> executed @ map ts_dayOffset now | Dont_act _ \<Rightarrow> executed) xs"

lemma climb_append: "climb steps executed (xs @ ys) = climb steps (climb steps executed xs) ys"
  by (induction xs arbitrary: executed) auto

lemma climb_night:
  assumes "distinct (map ts_dayOffset steps)" and "steps \<noteq> []"
  shows "climb steps (map ts_dayOffset (take n (orderedSteps steps))) [x] =
    (if clear_to_act x \<and> n < length steps \<and> ts_dayOffset (orderedSteps steps ! n) \<le> en_daysPastDue x
     then map ts_dayOffset (take (Suc n) (orderedSteps steps))
     else map ts_dayOffset (take n (orderedSteps steps)))"
proof -
  let ?x = "x\<lparr>en_steps := steps, en_executedDays := map ts_dayOffset (take n (orderedSteps steps))\<rparr>"
  have "clear_to_act ?x = clear_to_act x" by (simp add: clear_to_act_def)
  then show ?thesis
    using evaluate_on_ladder [OF assms(1) _ assms(2), of ?x n]
    by (auto simp: take_Suc_conv_app_nth orderedSteps_def)
qed

lemma climb_prefix:
  assumes "distinct (map ts_dayOffset steps)" and "steps \<noteq> []"
  shows "\<exists>n \<le> length xs. n \<le> length steps
    \<and> climb steps [] xs = map ts_dayOffset (take n (orderedSteps steps))"
proof (induction xs rule: rev_induct)
  case (snoc x xs)
  then obtain n where n: "n \<le> length xs" "n \<le> length steps"
    "climb steps [] xs = map ts_dayOffset (take n (orderedSteps steps))" by blast
  show ?case
    unfolding climb_append n(3) climb_night [OF assms] using n(1,2)
    by (auto intro: exI [of _ "Suc n"] exI [of _ n])
qed simp

lemma climb_all:
  assumes "distinct (map ts_dayOffset steps)" and "steps \<noteq> []"
    and "\<forall>x \<in> set xs. clear_to_act x \<and> (\<forall>s \<in> set steps. ts_dayOffset s \<le> en_daysPastDue x)"
  shows "climb steps [] xs = map ts_dayOffset (take (length xs) (orderedSteps steps))"
  using assms(3)
proof (induction xs rule: rev_induct)
  case (snoc x xs)
  have "orderedSteps steps ! n \<in> set steps" if "n < length steps" for n
    using that nth_mem [of n "orderedSteps steps"] by (simp add: orderedSteps_def)
  moreover have "climb steps [] xs = map ts_dayOffset (take (length xs) (orderedSteps steps))"
    using snoc by simp
  ultimately have "climb steps [] (xs @ [x]) = (if length xs < length steps
      then map ts_dayOffset (take (Suc (length xs)) (orderedSteps steps))
      else map ts_dayOffset (take (length xs) (orderedSteps steps)))"
    using snoc.prems unfolding climb_append by (simp add: climb_night [OF assms(1,2)] del: climb.simps)
  then show ?case by (simp add: orderedSteps_def)
qed simp

section \<open>Properties\<close>


definition late_night :: engine_input where
  "late_night = \<lparr>en_steps = [], en_daysPastDue = 90, en_qualifyingOutstandingCents = 12900,
    en_leaseEnded = False, en_onHold = False, en_executedDays = [], en_executedToday = False,
    en_reversalGrace = False\<rparr>"


end
