(* ===== verification/GateHours.thy ===== *)
theory GateHours
  imports Schedule Invoice
begin

text \<open>
  Weekly schedules (\<open>packages/core/facility-settings/weekly-schedule.ts\<close>), the gate's hours and how
  a person's hours narrow them (\<open>access/gate-hours.ts\<close>, \<open>access/shared-access-hours.ts\<close>), and the
  business minutes between two instants (\<open>access/business-hours.ts\<close>). The time zone is the parameter
  of \<open>Schedule\<close>: the offset of the local clock at an instant. \<open>Invoice\<close> is imported for
  \<open>padStart\<close> and \<open>show_digits\<close>.
\<close>

section \<open>weekly-schedule.ts\<close>

datatype day_of_week = Monday | Tuesday | Wednesday | Thursday | Friday | Saturday | Sunday

definition DAYS_OF_WEEK :: "day_of_week list" where
  "DAYS_OF_WEEK = [Monday, Tuesday, Wednesday, Thursday, Friday, Saturday, Sunday]"

datatype day_schedule = Closed | Hours string string

type_synonym weekly_schedule = "day_of_week \<Rightarrow> day_schedule"

text \<open>
  A stored value, as far as the parser looks at it: not an object, or an object with an entry for each
  day that is missing, says \<open>closed: true\<close>, says \<open>closed: false\<close> with two strings, or anything else.
\<close>

datatype stored_day = Stored_closed | Stored_hours string string | Stored_other

type_synonym stored_schedule = "(day_of_week \<Rightarrow> stored_day) option"

definition is_digit :: "char \<Rightarrow> bool" where
  "is_digit c \<longleftrightarrow> c \<in> set ''0123456789''"

text \<open>\<open>/^([01]\d|2[0-3]):[0-5]\d$/\<close>\<close>

fun matches_time :: "string \<Rightarrow> bool" where
  "matches_time [a, b, c, d, e] \<longleftrightarrow>
    (a \<in> set ''01'' \<and> is_digit b \<or> a = CHR ''2'' \<and> b \<in> set ''0123'')
    \<and> c = CHR '':'' \<and> d \<in> set ''012345'' \<and> is_digit e"
| "matches_time _ \<longleftrightarrow> False"

fun isValidDaySchedule :: "stored_day \<Rightarrow> bool" where
  "isValidDaySchedule Stored_closed = True"
| "isValidDaySchedule (Stored_hours opening closing) =
    (matches_time opening \<and> matches_time closing \<and> opening < closing)"
| "isValidDaySchedule Stored_other = False"

fun day_of_stored :: "stored_day \<Rightarrow> day_schedule" where
  "day_of_stored (Stored_hours opening closing) = Hours opening closing"
| "day_of_stored _ = Closed"

definition parseWeeklySchedule :: "stored_schedule \<Rightarrow> weekly_schedule option" where
  "parseWeeklySchedule v = (case v of None \<Rightarrow> None
    | Some rec \<Rightarrow> if list_all (\<lambda>day. isValidDaySchedule (rec day)) DAYS_OF_WEEK
        then Some (\<lambda>day. day_of_stored (rec day)) else None)"

definition CLOSED_ALL_WEEK :: weekly_schedule where
  "CLOSED_ALL_WEEK = (\<lambda>day. Closed)"

section \<open>gate-hours.ts\<close>

record local_reading =
  lr_day :: day_of_week
  lr_minutes :: int
  lr_clock :: string

definition local_day_index :: "date \<Rightarrow> zone \<Rightarrow> nat" where
  "local_day_index t z = nat ((local_time z t div day_ms + 3) mod 7)"

definition local_minutes :: "date \<Rightarrow> zone \<Rightarrow> int" where
  "local_minutes t z = (local_time z t mod day_ms) div minute_ms"

definition localReading :: "date \<Rightarrow> zone \<Rightarrow> local_reading" where
  "localReading t z = (let m = local_minutes t z in
    \<lparr>lr_day = DAYS_OF_WEEK ! local_day_index t z, lr_minutes = m,
     lr_clock = padStart 2 (CHR ''0'') (show_digits (nat (m div 60))) @ '':'' @ padStart 2 (CHR ''0'') (show_digits (nat (m mod 60)))\<rparr>)"

definition digit_value :: "char \<Rightarrow> int" where
  "digit_value c = int (of_char c) - 48"

text \<open>Two numbers around a colon; anything else is not a number, which no comparison holds of.\<close>

fun digits_value :: "int \<Rightarrow> string \<Rightarrow> int option" where
  "digits_value n [] = Some n"
| "digits_value n (c # cs) = (if is_digit c then digits_value (10 * n + digit_value c) cs else None)"

definition toMinutes :: "string \<Rightarrow> int option" where
  "toMinutes hhmm = (
    let hour = takeWhile (\<lambda>c. c \<noteq> CHR '':'') hhmm;
        minute = drop 1 (dropWhile (\<lambda>c. c \<noteq> CHR '':'') hhmm)
    in case (digits_value 0 hour, digits_value 0 minute) of
        (Some h, Some m) \<Rightarrow> Some (h * 60 + m) | _ \<Rightarrow> None)"

definition at_least :: "int \<Rightarrow> int option \<Rightarrow> bool" where
  "at_least m x = (case x of None \<Rightarrow> False | Some y \<Rightarrow> y \<le> m)"

definition below :: "int \<Rightarrow> int option \<Rightarrow> bool" where
  "below m x = (case x of None \<Rightarrow> False | Some y \<Rightarrow> m < y)"

datatype gate_hours_decision = Gate_open | Closed_today | Outside_hours string string

definition gateHoursDecision :: "weekly_schedule option \<Rightarrow> date \<Rightarrow> zone \<Rightarrow> gate_hours_decision" where
  "gateHoursDecision schedule t z = (case schedule of None \<Rightarrow> Gate_open
    | Some s \<Rightarrow> let reading = localReading t z in
        case s (lr_day reading) of Closed \<Rightarrow> Closed_today
        | Hours opening closing \<Rightarrow>
            if at_least (lr_minutes reading) (toMinutes opening) \<and> below (lr_minutes reading) (toMinutes closing)
            then Gate_open else Outside_hours opening closing)"

definition accessDecision :: "weekly_schedule option \<Rightarrow> bool \<Rightarrow> date \<Rightarrow> zone \<Rightarrow> gate_hours_decision" where
  "accessDecision schedule extendedHours t z =
    (if extendedHours then Gate_open else gateHoursDecision schedule t z)"

definition isAlwaysOpen :: "weekly_schedule option \<Rightarrow> bool" where
  "isAlwaysOpen schedule = (case schedule of None \<Rightarrow> True
    | Some s \<Rightarrow> list_all (\<lambda>day. s day = Hours ''00:00'' ''23:59'') DAYS_OF_WEEK)"

definition narrow_day :: "day_schedule \<Rightarrow> day_schedule \<Rightarrow> day_schedule" where
  "narrow_day a b = (case (a, b) of
      (Hours ao ac, Hours bo bc) \<Rightarrow>
        let opening = (if bo < ao then ao else bo); closing = (if ac < bc then ac else bc)
        in if opening < closing then Hours opening closing else Closed
    | _ \<Rightarrow> Closed)"

definition narrowSchedule :: "weekly_schedule option \<Rightarrow> weekly_schedule option \<Rightarrow> weekly_schedule option" where
  "narrowSchedule facility person = (case facility of None \<Rightarrow> person
    | Some f \<Rightarrow> case person of None \<Rightarrow> facility
        | Some p \<Rightarrow> Some (\<lambda>day. narrow_day (f day) (p day)))"

definition scheduleForGrant :: "weekly_schedule option \<Rightarrow> stored_schedule \<Rightarrow> weekly_schedule option" where
  "scheduleForGrant facilitySchedule personAccessHours =
    narrowSchedule facilitySchedule (parseWeeklySchedule personAccessHours)"

section \<open>shared-access-hours.ts\<close>

definition weekly :: "bool \<Rightarrow> bool \<Rightarrow> weekly_schedule" where
  "weekly weekdays weekend = (\<lambda>day.
    let isWeekend = (day = Saturday \<or> day = Sunday); allowed = (if isWeekend then weekend else weekdays)
    in if allowed then Hours ''00:00'' ''23:59'' else Closed)"

datatype shared_access_preset = Anytime | Weekdays | Weekends

definition SHARED_ACCESS_PRESETS :: "(shared_access_preset \<times> weekly_schedule option) list" where
  "SHARED_ACCESS_PRESETS = [(Anytime, None), (Weekdays, Some (weekly True False)), (Weekends, Some (weekly False True))]"

definition canonical :: "weekly_schedule \<Rightarrow> string list" where
  "canonical schedule = map (\<lambda>day. case schedule day of Closed \<Rightarrow> ''closed''
    | Hours opening closing \<Rightarrow> opening @ ''-'' @ closing) DAYS_OF_WEEK"

text \<open>\<open>None\<close> is \<open>custom\<close>.\<close>

definition presetFor :: "weekly_schedule option \<Rightarrow> shared_access_preset option" where
  "presetFor schedule = (case schedule of None \<Rightarrow> Some Anytime
    | Some s \<Rightarrow> map_option fst (find (\<lambda>(key, preset). case preset of None \<Rightarrow> False
        | Some p \<Rightarrow> canonical p = canonical s) SHARED_ACCESS_PRESETS))"

section \<open>business-hours.ts\<close>

abbreviation MINUTES_PER_DAY :: int where "MINUTES_PER_DAY \<equiv> 1440"

definition ceil_minutes :: "int \<Rightarrow> int" where
  "ceil_minutes ms = (ms + minute_ms - 1) div minute_ms"

text \<open>
  One turn of the loop: how many minutes to advance, and whether they count. A schedule that was parsed
  has times that are numbers; on one that was not, every comparison fails and the loop counts the
  rest of the span as NaN, which the model does not follow: it takes such a day as closed.
\<close>

definition business_step :: "weekly_schedule \<Rightarrow> date \<Rightarrow> date \<Rightarrow> zone \<Rightarrow> int \<times> bool" where
  "business_step schedule cursor till z = (
    let m = lr_minutes (localReading cursor z) in
    case schedule (lr_day (localReading cursor z)) of
      Closed \<Rightarrow> (MINUTES_PER_DAY - m, False)
    | Hours opening closing \<Rightarrow> (case (toMinutes opening, toMinutes closing) of
        (Some opens, Some closes) \<Rightarrow>
          if m < opens then (opens - m, False)
          else if closes \<le> m then (MINUTES_PER_DAY - m, False)
          else (min (closes - m) (ceil_minutes (till - cursor)), True)
      | _ \<Rightarrow> (MINUTES_PER_DAY - m, False)))"

lemma local_minutes_range: "0 \<le> local_minutes t z" "local_minutes t z < MINUTES_PER_DAY"
proof -
  define w where "w = local_time z t mod day_ms"
  have "0 \<le> w" "w < day_ms" by (simp_all add: w_def)
  moreover have "local_minutes t z = w div minute_ms" by (simp add: local_minutes_def w_def)
  ultimately show "0 \<le> local_minutes t z" "local_minutes t z < MINUTES_PER_DAY"
    by (simp_all add: pos_imp_zdiv_nonneg_iff)
qed

lemma ceil_minutes_pos: "0 < ms \<Longrightarrow> 1 \<le> ceil_minutes ms"
  by (simp add: ceil_minutes_def)

lemma business_step_pos: "cursor < till \<Longrightarrow> 1 \<le> fst (business_step schedule cursor till z)"
  using local_minutes_range [of cursor z] ceil_minutes_pos [of "till - cursor"]
  by (auto simp: business_step_def localReading_def Let_def split: day_schedule.splits option.splits)

function business_loop :: "weekly_schedule \<Rightarrow> date \<Rightarrow> date \<Rightarrow> zone \<Rightarrow> int \<Rightarrow> int \<Rightarrow> int" where
  "business_loop schedule cursor till z steps minutes =
    (if cursor < till \<and> steps < 400 * MINUTES_PER_DAY then
      let (n, counted) = business_step schedule cursor till z
      in business_loop schedule (cursor + n * minute_ms) till z (steps + n)
          (if counted then minutes + n else minutes)
     else minutes)"
  by pat_completeness auto
termination
proof (relation "measure (\<lambda>(_, cursor, till, _, _, _). nat (till - cursor))", goal_cases)
  case (2 schedule cursor till z steps minutes x n counted)
  then have "1 \<le> n" using business_step_pos [of cursor till schedule z] by (metis fst_conv)
  then show ?case using 2 by simp
qed simp

declare business_loop.simps [simp del]

definition businessMinutesBetween :: "weekly_schedule option \<Rightarrow> date \<Rightarrow> date \<Rightarrow> zone \<Rightarrow> int" where
  "businessMinutesBetween schedule from to z = (if to \<le> from then 0
    else case schedule of None \<Rightarrow> (to - from) div minute_ms
      | Some s \<Rightarrow> business_loop s from to z 0 0)"

definition isOverdue :: "weekly_schedule option \<Rightarrow> date \<Rightarrow> date \<Rightarrow> rat \<Rightarrow> zone \<Rightarrow> bool" where
  "isOverdue schedule createdAt now slaHours z =
    (if slaHours \<le> 0 then False
     else slaHours * 60 \<le> of_int (businessMinutesBetween schedule createdAt now z))"

definition neverOpens :: "weekly_schedule option \<Rightarrow> bool" where
  "neverOpens schedule = (case schedule of None \<Rightarrow> False
    | Some s \<Rightarrow> list_all (\<lambda>day. s day = Closed) DAYS_OF_WEEK)"

section \<open>Times as strings and as minutes\<close>

lemma digit_value_range: "is_digit c \<Longrightarrow> 0 \<le> digit_value c \<and> digit_value c \<le> 9"
  by (auto simp: is_digit_def digit_value_def)

lemma digit_value_less: "a < b \<longleftrightarrow> digit_value a < digit_value b"
  by (simp add: digit_value_def less_char_def)

lemma digit_value_eq: "a = b \<longleftrightarrow> digit_value a = digit_value b"
  by (auto simp: digit_value_def)

text \<open>A time that matches the pattern is four digits around a colon, and a time of the day.\<close>

lemma matches_time_cases:
  assumes "matches_time s"
  obtains a b d e where "s = [a, b, CHR '':'', d, e]" and "is_digit a" and "is_digit b" and "is_digit d"
    and "is_digit e" and "digit_value d \<le> 5" and "10 * digit_value a + digit_value b \<le> 23"
proof -
  obtain a b c d e where s: "s = [a, b, c, d, e]"
    using assms by (cases s rule: matches_time.cases) auto
  have m: "a \<in> set ''01'' \<and> is_digit b \<or> a = CHR ''2'' \<and> b \<in> set ''0123''"
    "c = CHR '':''" "d \<in> set ''012345''" "is_digit e" using assms by (simp_all add: s)
  have "is_digit a" "is_digit b" "is_digit d"
    using m by (auto simp: is_digit_def)
  moreover have "digit_value d \<le> 5" using m(3) by (auto simp: digit_value_def)
  moreover have "10 * digit_value a + digit_value b \<le> 23"
    using m(1) digit_value_range [of b] by (auto simp: digit_value_def)
  ultimately show thesis using that [of a b d e] s m(2,4) by simp
qed

lemma colon_not_digit: "is_digit c \<Longrightarrow> c \<noteq> CHR '':''"
  by (auto simp: is_digit_def)

lemma toMinutes_digits:
  assumes "is_digit a" "is_digit b" "is_digit d" "is_digit e"
  shows "toMinutes [a, b, CHR '':'', d, e] =
    Some ((10 * digit_value a + digit_value b) * 60 + (10 * digit_value d + digit_value e))"
  using assms by (simp add: toMinutes_def colon_not_digit)

lemma matches_time_minutes:
  assumes "matches_time s"
  obtains m where "toMinutes s = Some m" and "0 \<le> m" and "m < MINUTES_PER_DAY"
proof -
  obtain a b d e where s: "s = [a, b, CHR '':'', d, e]" "is_digit a" "is_digit b" "is_digit d" "is_digit e"
    "digit_value d \<le> 5" "10 * digit_value a + digit_value b \<le> 23"
    by (rule matches_time_cases [OF assms])
  show thesis
    using that toMinutes_digits [OF s(2-5)] s(1,6,7) digit_value_range [OF s(2)] digit_value_range [OF s(3)]
      digit_value_range [OF s(4)] digit_value_range [OF s(5)] by simp
qed

lemma time_order:
  assumes "matches_time s" and "matches_time t"
  shows "s < t \<longleftrightarrow> the (toMinutes s) < the (toMinutes t)"
proof -
  obtain a b d e where s: "s = [a, b, CHR '':'', d, e]" "is_digit a" "is_digit b" "is_digit d" "is_digit e"
    "digit_value d \<le> 5" "10 * digit_value a + digit_value b \<le> 23"
    by (rule matches_time_cases [OF assms(1)])
  obtain a' b' d' e' where t: "t = [a', b', CHR '':'', d', e']" "is_digit a'" "is_digit b'" "is_digit d'"
    "is_digit e'" "digit_value d' \<le> 5" "10 * digit_value a' + digit_value b' \<le> 23"
    by (rule matches_time_cases [OF assms(2)])
  have "s < t \<longleftrightarrow> digit_value a < digit_value a' \<or> digit_value a = digit_value a' \<and>
      (digit_value b < digit_value b' \<or> digit_value b = digit_value b' \<and>
        (digit_value d < digit_value d' \<or> digit_value d = digit_value d' \<and> digit_value e < digit_value e'))"
    by (simp add: s(1) t(1) digit_value_less digit_value_eq)
  then show ?thesis
    using toMinutes_digits [OF s(2-5)] toMinutes_digits [OF t(2-5)] s(1) t(1)
      digit_value_range [OF s(2)] digit_value_range [OF s(3)] digit_value_range [OF s(4)]
      digit_value_range [OF s(5)] digit_value_range [OF t(2)] digit_value_range [OF t(3)]
      digit_value_range [OF t(4)] digit_value_range [OF t(5)] s(6) t(6)
    by (auto simp: not_less; linarith)
qed

section \<open>Narrowing\<close>

text \<open>Schedules as the parser lets them through, and a stored form for each.\<close>

fun valid_day :: "day_schedule \<Rightarrow> bool" where
  "valid_day Closed = True"
| "valid_day (Hours opening closing) = (matches_time opening \<and> matches_time closing \<and> opening < closing)"

fun stored_of_day :: "day_schedule \<Rightarrow> stored_day" where
  "stored_of_day Closed = Stored_closed"
| "stored_of_day (Hours opening closing) = Stored_hours opening closing"

definition stored_of :: "weekly_schedule \<Rightarrow> stored_schedule" where
  "stored_of s = Some (\<lambda>day. stored_of_day (s day))"

lemma all_days: "list_all P DAYS_OF_WEEK \<longleftrightarrow> (\<forall>day. P day)"
proof -
  have "day \<in> set DAYS_OF_WEEK" for day by (cases day) (simp_all add: DAYS_OF_WEEK_def)
  then show ?thesis by (auto simp: list_all_iff)
qed

lemma parse_valid: "parseWeeklySchedule v = Some s \<Longrightarrow> valid_day (s day)"
proof (cases v)
  case (Some r)
  assume "parseWeeklySchedule v = Some s"
  then have "s = (\<lambda>day. day_of_stored (r day))" and "isValidDaySchedule (r day)"
    by (auto simp: parseWeeklySchedule_def Some all_days split: if_splits)
  then show ?thesis by (cases "r day") auto
qed (simp add: parseWeeklySchedule_def)

lemma parse_stored_of: "parseWeeklySchedule (stored_of s) = Some s \<longleftrightarrow> (\<forall>day. valid_day (s day))"
proof -
  have "isValidDaySchedule (stored_of_day d) \<longleftrightarrow> valid_day d" "day_of_stored (stored_of_day d) = d" for d
    by (cases d; simp)+
  then show ?thesis by (simp add: parseWeeklySchedule_def stored_of_def all_days)
qed

definition day_open :: "day_schedule \<Rightarrow> int \<Rightarrow> bool" where
  "day_open d m \<longleftrightarrow> (case d of Closed \<Rightarrow> False
    | Hours opening closing \<Rightarrow> at_least m (toMinutes opening) \<and> below m (toMinutes closing))"

lemma gate_open_iff:
  "gateHoursDecision (Some s) t z = Gate_open \<longleftrightarrow>
    day_open (s (lr_day (localReading t z))) (lr_minutes (localReading t z))"
  by (simp add: gateHoursDecision_def day_open_def Let_def split: day_schedule.split)

lemma narrow_day_open:
  assumes "valid_day a" and "valid_day b"
  shows "day_open (narrow_day a b) m \<longleftrightarrow> day_open a m \<and> day_open b m"
proof (cases a; cases b)
  fix ao ac bo bc assume ab: "a = Hours ao ac" "b = Hours bo bc"
  have v: "matches_time ao" "matches_time ac" "matches_time bo" "matches_time bc"
    using assms by (simp_all add: ab)
  obtain ao' ac' bo' bc' where m: "toMinutes ao = Some ao'" "toMinutes ac = Some ac'"
    "toMinutes bo = Some bo'" "toMinutes bc = Some bc'"
    using v by (metis matches_time_minutes)
  have "bo < ao \<longleftrightarrow> bo' < ao'" "ac < bc \<longleftrightarrow> ac' < bc'" "ao < ac \<longleftrightarrow> ao' < ac'" "ao < bc \<longleftrightarrow> ao' < bc'"
    "bo < ac \<longleftrightarrow> bo' < ac'" "bo < bc \<longleftrightarrow> bo' < bc'"
    using v m by (simp_all add: time_order)
  then show ?thesis
    by (simp add: ab narrow_day_def day_open_def at_least_def below_def m Let_def) linarith
qed (simp_all add: narrow_day_def day_open_def)

lemma narrow_day_valid: "valid_day a \<Longrightarrow> valid_day b \<Longrightarrow> valid_day (narrow_day a b)"
  by (cases a; cases b) (simp_all add: narrow_day_def Let_def)

lemma narrow_day_commute: "valid_day a \<Longrightarrow> valid_day b \<Longrightarrow> narrow_day a b = narrow_day b a"
  by (cases a; cases b) (auto simp: narrow_day_def Let_def not_less)

section \<open>Minutes of a zone without transitions\<close>

lemma local_advance:
  assumes "local_minutes t (\<lambda>_. c) + i < MINUTES_PER_DAY" and "0 \<le> i"
  shows "local_minutes (t + i * minute_ms) (\<lambda>_. c) = local_minutes t (\<lambda>_. c) + i"
    and "local_day_index (t + i * minute_ms) (\<lambda>_. c) = local_day_index t (\<lambda>_. c)"
proof -
  define w where "w = t + c"
  define q where "q = w div day_ms"
  define r where "r = w mod day_ms"
  have w: "w = q * day_ms + r" "0 \<le> r" "r < day_ms" by (simp_all add: q_def r_def)
  have "r div minute_ms + i < MINUTES_PER_DAY"
    using assms(1) by (simp add: local_minutes_def local_time_def w_def r_def)
  then have small: "r + i * minute_ms < day_ms" by linarith
  have d: "(w + i * minute_ms) div day_ms = q"
    using w small assms(2) by (simp add: div_unique_int)
  moreover have "(w + i * minute_ms) mod day_ms = r + i * minute_ms"
    using w(1) minus_div_mult_eq_mod [of "w + i * minute_ms" day_ms] unfolding d by simp
  moreover have e: "t + i * minute_ms + c = w + i * minute_ms" by (simp add: w_def)
  ultimately show "local_minutes (t + i * minute_ms) (\<lambda>_. c) = local_minutes t (\<lambda>_. c) + i"
    and "local_day_index (t + i * minute_ms) (\<lambda>_. c) = local_day_index t (\<lambda>_. c)"
    unfolding local_minutes_def local_day_index_def local_time_def e w_def [symmetric]
    by (simp_all add: q_def [symmetric] r_def [symmetric])
qed

lemma localReading_advance:
  assumes "lr_minutes (localReading t (\<lambda>_. c)) + i < MINUTES_PER_DAY" and "0 \<le> i"
  shows "lr_day (localReading (t + i * minute_ms) (\<lambda>_. c)) = lr_day (localReading t (\<lambda>_. c))"
    and "lr_minutes (localReading (t + i * minute_ms) (\<lambda>_. c)) = lr_minutes (localReading t (\<lambda>_. c)) + i"
  using local_advance [of t c i] assms by (simp_all add: localReading_def Let_def)

text \<open>Within one turn of the loop the gate is open at every minute or at none.\<close>

lemma business_step_uniform:
  assumes "\<And>day. valid_day (s day)" and "0 \<le> i" and "i < fst (business_step s t till (\<lambda>_. c))"
  shows "gateHoursDecision (Some s) (t + i * minute_ms) (\<lambda>_. c) = Gate_open \<longleftrightarrow>
    snd (business_step s t till (\<lambda>_. c))"
proof -
  define m where "m = lr_minutes (localReading t (\<lambda>_. c))"
  define d where "d = s (lr_day (localReading t (\<lambda>_. c)))"
  have m: "0 \<le> m" "m < MINUTES_PER_DAY"
    using local_minutes_range [of t "\<lambda>_. c"] by (simp_all add: m_def localReading_def Let_def)
  have at: "gateHoursDecision (Some s) (t + i * minute_ms) (\<lambda>_. c) = Gate_open \<longleftrightarrow> day_open d (m + i)"
    if "m + i < MINUTES_PER_DAY"
    using localReading_advance [of t c i] that assms(2) by (simp add: gate_open_iff m_def d_def)
  show ?thesis
  proof (cases d)
    case Closed
    then show ?thesis
      using assms(3) at by (simp add: business_step_def m_def [symmetric] d_def [symmetric] day_open_def Let_def)
  next
    case (Hours os cs)
    then have v: "matches_time os" "matches_time cs" "os < cs"
      using assms(1) [of "lr_day (localReading t (\<lambda>_. c))"] by (simp_all add: d_def)
    obtain o1 where o1: "toMinutes os = Some o1" "0 \<le> o1" "o1 < MINUTES_PER_DAY"
      by (rule matches_time_minutes [OF v(1)])
    obtain c1 where c1: "toMinutes cs = Some c1" "0 \<le> c1" "c1 < MINUTES_PER_DAY"
      by (rule matches_time_minutes [OF v(2)])
    have "o1 < c1" using v o1(1) c1(1) by (simp add: time_order)
    then show ?thesis
      using assms(2,3) at o1 c1 m
      by (simp add: business_step_def m_def [symmetric] d_def [symmetric] Hours day_open_def Let_def
          at_least_def below_def split: if_splits)
  qed
qed

definition open_minutes :: "weekly_schedule \<Rightarrow> date \<Rightarrow> zone \<Rightarrow> nat \<Rightarrow> nat" where
  "open_minutes s t z n = length (filter (\<lambda>k. gateHoursDecision (Some s) (t + int k * minute_ms) z = Gate_open) [0..<n])"

lemma open_minutes_split:
  assumes "\<And>k. k < n \<Longrightarrow> gateHoursDecision (Some s) (t + int k * minute_ms) z = Gate_open \<longleftrightarrow> b"
  shows "open_minutes s t z (n + n') = (if b then n else 0) + open_minutes s (t + int n * minute_ms) z n'"
proof -
  have "[0..<n + n'] = [0..<n] @ [n..<n + n']"
    by (rule upt_add_eq_append) simp
  also have "[n..<n + n'] = map (\<lambda>k. k + n) [0..<n']"
    unfolding map_add_upt by (simp only: add.commute)
  finally have "[0..<n + n'] = [0..<n] @ map (\<lambda>k. k + n) [0..<n']" .
  moreover have "filter (\<lambda>k. gateHoursDecision (Some s) (t + int k * minute_ms) z = Gate_open) [0..<n] =
      filter (\<lambda>_. b) [0..<n]"
    using assms by (intro filter_cong refl) simp
  then have "filter (\<lambda>k. gateHoursDecision (Some s) (t + int k * minute_ms) z = Gate_open) [0..<n] =
      (if b then [0..<n] else [])"
    by (cases b) simp_all
  ultimately show ?thesis
    by (simp add: open_minutes_def filter_map o_def algebra_simps)
qed

lemma ceil_minutes_step: "ceil_minutes (x - n * minute_ms) = ceil_minutes x - n"
  by (simp add: ceil_minutes_def)

lemma business_loop_counts:
  assumes "\<And>day. valid_day (s day)"
    and "cursor < till \<Longrightarrow> steps + ceil_minutes (till - cursor) \<le> 400 * MINUTES_PER_DAY"
  shows "business_loop s cursor till (\<lambda>_. c) steps minutes =
    minutes + int (open_minutes s cursor (\<lambda>_. c) (nat (ceil_minutes (till - cursor))))"
  using assms(2)
proof (induction "nat (till - cursor)" arbitrary: cursor steps minutes rule: less_induct)
  case less
  show ?case
  proof (cases "cursor < till")
    case False
    then have "ceil_minutes (till - cursor) \<le> 0" by (simp add: ceil_minutes_def)
    then show ?thesis using False by (subst business_loop.simps) (simp add: open_minutes_def)
  next
    case True
    obtain n b where nb: "business_step s cursor till (\<lambda>_. c) = (n, b)" by fastforce
    have n: "1 \<le> n" using business_step_pos [OF True, of s "\<lambda>_. c"] nb by simp
    define N where "N = ceil_minutes (till - cursor)"
    have N: "1 \<le> N" using ceil_minutes_pos [of "till - cursor"] True by (simp add: N_def)
    have rest: "ceil_minutes (till - (cursor + n * minute_ms)) = N - n"
      using ceil_minutes_step [of "till - cursor" n] by (simp add: N_def algebra_simps)
    have "business_loop s cursor till (\<lambda>_. c) steps minutes =
        business_loop s (cursor + n * minute_ms) till (\<lambda>_. c) (steps + n) (if b then minutes + n else minutes)"
      using True less.prems [OF True] N by (subst business_loop.simps) (simp add: nb N_def)
    also have "\<dots> = (if b then minutes + n else minutes)
        + int (open_minutes s (cursor + n * minute_ms) (\<lambda>_. c) (nat (N - n)))"
      using True n less.prems [OF True] rest
      by (subst less.hyps) (simp_all add: N_def)
    finally have step: "business_loop s cursor till (\<lambda>_. c) steps minutes = \<dots>" .
    have same: "gateHoursDecision (Some s) (cursor + int k * minute_ms) (\<lambda>_. c) = Gate_open \<longleftrightarrow> b"
      if "k < nat n" for k
      using business_step_uniform [where s = s and i = "int k" and t = cursor and till = till and c = c]
        assms(1) that by (simp add: nb)
    have counted: "n \<le> N" if b
      using that nb by (auto simp: business_step_def N_def Let_def split: day_schedule.splits option.splits if_splits)
    show ?thesis
    proof (cases "n \<le> N")
      case True
      then have "nat N = nat n + nat (N - n)" using n by simp
      then show ?thesis
        using open_minutes_split [of "nat n" s cursor "\<lambda>_. c" b "nat (N - n)"] same n
        unfolding step N_def [symmetric] by simp
    next
      case False
      then have nb: "\<not> b" using counted by auto
      then have "open_minutes s cursor (\<lambda>_. c) (nat N) = 0"
        using open_minutes_split [of "nat N" s cursor "\<lambda>_. c" b 0] same False
        by (simp add: open_minutes_def)
      then show ?thesis using False nb unfolding step N_def [symmetric] by (simp add: open_minutes_def)
    qed
  qed
qed

section \<open>Properties\<close>

text \<open>
  C32. A person's hours narrow the facility's and never widen them: for schedules the parser let through
  (or none), the gate is open to a grant at an instant, in any zone, exactly when the facility's
  schedule and the person's both have it open; the narrowed schedule is one the parser lets through
  again, so storing and reading it back gives the same hours; and on parsed schedules the order of
  the two does not matter.
\<close>

theorem narrowed_hours:
  assumes "parseWeeklySchedule v = facility" and "parseWeeklySchedule w = person"
  shows "(gateHoursDecision (scheduleForGrant facility w) t z = Gate_open \<longleftrightarrow>
      gateHoursDecision facility t z = Gate_open \<and> gateHoursDecision person t z = Gate_open)
    \<and> (case scheduleForGrant facility w of None \<Rightarrow> facility = None \<and> person = None
      | Some s \<Rightarrow> parseWeeklySchedule (stored_of s) = Some s)
    \<and> narrowSchedule facility person = narrowSchedule person facility"
proof -
  have null: "gateHoursDecision None t z = Gate_open" by (simp add: gateHoursDecision_def)
  have valid: "valid_day (f day)" if "facility = Some f" for f day
    using parse_valid assms(1) that by blast
  have valid': "valid_day (p day)" if "person = Some p" for p day
    using parse_valid assms(2) that by blast
  have grant: "scheduleForGrant facility w = narrowSchedule facility person"
    by (simp add: scheduleForGrant_def assms(2))
  show ?thesis
    unfolding grant using valid valid'
    by (cases facility; cases person)
      (simp_all add: narrowSchedule_def null gate_open_iff narrow_day_open parse_stored_of narrow_day_valid
        narrow_day_commute)
qed

definition office_hours :: stored_schedule where
  "office_hours = Some (\<lambda>day. if day = Sunday then Stored_closed else Stored_hours ''06:00'' ''12:00'')"

definition evening_hours :: stored_schedule where
  "evening_hours = Some (\<lambda>day. Stored_hours ''09:30'' ''18:00'')"

theorem narrowed_hours_witness:
  "gateHoursDecision (scheduleForGrant (parseWeeklySchedule office_hours) evening_hours) 36000000 (\<lambda>_. 0) = Gate_open"
proof -
  have "gateHoursDecision (parseWeeklySchedule office_hours) 36000000 (\<lambda>_. 0) = Gate_open"
    "gateHoursDecision (parseWeeklySchedule evening_hours) 36000000 (\<lambda>_. 0) = Gate_open"
    by code_simp+
  then show ?thesis
    using narrowed_hours [OF refl refl, of office_hours evening_hours 36000000 "\<lambda>_. 0"] by simp
qed

text \<open>
  C31. The business-hours clock jumps over closed time and counts what a minute-by-minute clock would:
  for a schedule the parser let through, in a zone whose offset does not change over the span, and
  for a span of at most four hundred days, the minutes it returns are the number of minutes from the
  start, before the end, at which the schedule is open.
\<close>

theorem businessMinutes_exact:
  assumes "parseWeeklySchedule v = Some s" and "t < u" and "u - t \<le> 400 * day_ms"
  shows "businessMinutesBetween (Some s) t u (\<lambda>_. c) =
    int (length (filter (\<lambda>k. gateHoursDecision (Some s) (t + int k * minute_ms) (\<lambda>_. c) = Gate_open)
      [0..<nat (ceil_minutes (u - t))]))"
proof -
  have "ceil_minutes (u - t) \<le> 400 * MINUTES_PER_DAY"
    using assms(3) by (simp add: ceil_minutes_def)
  then show ?thesis
    using business_loop_counts [of s t u 0 c 0] parse_valid [OF assms(1)] assms(2)
    by (simp add: businessMinutesBetween_def open_minutes_def)
qed

theorem businessMinutes_exact_witness:
  "businessMinutesBetween (parseWeeklySchedule evening_hours) 32400000 36000000 (\<lambda>_. 0) =
    int (length (filter (\<lambda>k. gateHoursDecision (parseWeeklySchedule evening_hours)
      (32400000 + int k * minute_ms) (\<lambda>_. 0) = Gate_open) [0..<60]))"
proof -
  obtain s where s: "parseWeeklySchedule evening_hours = Some s"
    by (cases "parseWeeklySchedule evening_hours")
      (simp_all add: parseWeeklySchedule_def evening_hours_def all_days is_digit_def)
  from businessMinutes_exact [OF s, of 32400000 36000000 0] show ?thesis
    by (simp add: s ceil_minutes_def)
qed

end
