(* ===== verification/Access.thy ===== *)
theory Access
  imports Prelude
begin

text \<open>
  Gate access: the grant's state machine (\<open>packages/core/access/grant-state.ts\<close>), the decision to
  suspend or restore it (\<open>suspension.ts\<close>), the flags of an access event (\<open>anomalies.ts\<close>) and the
  comparison of the credentials on file with those a gate controller holds
  (\<open>reconciliation.ts\<close>). Sentences for people are constructors; the two sentences of
  \<open>suspension.ts\<close> and the fingerprint of a schedule are left out.
\<close>

section \<open>grant-state.ts\<close>

datatype grant_state = Pending | Active | Suspended | Revoked

definition GRANT_STATES :: "grant_state list" where
  "GRANT_STATES = [Pending, Active, Suspended, Revoked]"

fun grant_name :: "grant_state \<Rightarrow> string" where
  "grant_name Pending = ''pending''"
| "grant_name Active = ''active''"
| "grant_name Suspended = ''suspended''"
| "grant_name Revoked = ''revoked''"

fun ALLOWED :: "grant_state \<Rightarrow> grant_state list" where
  "ALLOWED Pending = [Active, Revoked]"
| "ALLOWED Active = [Suspended, Revoked]"
| "ALLOWED Suspended = [Active, Revoked]"
| "ALLOWED Revoked = []"

datatype transition_refusal = Already grant_state | Revoked_is_final | Cannot_move grant_state grant_state

text \<open>The verdict: None when the move is allowed, the reason otherwise.\<close>

definition canTransition :: "grant_state \<Rightarrow> grant_state \<Rightarrow> transition_refusal option" where
  "canTransition src to =
    (if src = to then Some (Already to)
     else if to \<notin> set (ALLOWED src)
     then Some (if src = Revoked then Revoked_is_final else Cannot_move src to)
     else None)"

definition opensGate :: "grant_state \<Rightarrow> bool" where
  "opensGate s \<longleftrightarrow> s = Active"

definition starts_with :: "string \<Rightarrow> string \<Rightarrow> bool" where
  "starts_with p s \<longleftrightarrow> take (length p) s = p"

definition isSystemCause :: "string \<Rightarrow> bool" where
  "isSystemCause cause \<longleftrightarrow> starts_with ''system:'' cause"

definition isTenantCause :: "string \<Rightarrow> bool" where
  "isTenantCause cause \<longleftrightarrow> starts_with ''tenant:'' cause"

section \<open>suspension.ts\<close>

datatype gate_no_action_reason =
  On_hold | Rule_disabled | Not_past_due_enough | Already_active | Balance_outstanding | Not_suspendable

datatype gate_decision = Suspend int | Restore | No_action gate_no_action_reason

record gate_input =
  gi_state :: string
  gi_daysPastDue :: int
  gi_balanceCents :: cents
  gi_suspendAtDays :: int
  gi_restoreAtOrBelowCents :: cents
  gi_onHold :: bool

definition gateDecision :: "gate_input \<Rightarrow> gate_decision" where
  "gateDecision i =
    (if gi_onHold i then No_action On_hold
     else if gi_state i \<noteq> ''active'' \<and> gi_state i \<noteq> ''suspended'' then No_action Not_suspendable
     else let settled = gi_balanceCents i \<le> gi_restoreAtOrBelowCents i in
       if gi_state i = ''suspended''
       then (if settled then Restore else No_action Balance_outstanding)
       else if gi_suspendAtDays i \<le> 0 then No_action Rule_disabled
       else if settled then No_action Already_active
       else if gi_daysPastDue i < gi_suspendAtDays i then No_action Not_past_due_enough
       else Suspend (gi_daysPastDue i))"

definition restoreShortfallCents :: "cents \<Rightarrow> cents \<Rightarrow> cents" where
  "restoreShortfallCents facilityBalanceCents restoreAtOrBelowCents =
    max 0 (facilityBalanceCents - restoreAtOrBelowCents)"

definition wouldRestoreAccess :: "cents \<Rightarrow> cents \<Rightarrow> cents \<Rightarrow> bool" where
  "wouldRestoreAccess facilityBalanceCents restoreAtOrBelowCents payingCents \<longleftrightarrow>
    payingCents \<ge> restoreShortfallCents facilityBalanceCents restoreAtOrBelowCents"

text \<open>The state a decision asks for, and the decision on a grant.\<close>

fun moved :: "gate_decision \<Rightarrow> grant_state \<Rightarrow> grant_state" where
  "moved (Suspend n) s = Suspended"
| "moved Restore s = Active"
| "moved (No_action r) s = s"

abbreviation decided :: "grant_state \<Rightarrow> gate_input \<Rightarrow> gate_decision" where
  "decided s i \<equiv> gateDecision (i\<lparr>gi_state := grant_name s\<rparr>)"

fun chargeable :: "grant_state \<Rightarrow> bool" where
  "chargeable s \<longleftrightarrow> s = Active \<or> s = Suspended"

text \<open>The gate rule. A hold stops every move. Otherwise a suspended grant is restored exactly when
  the balance is within the facility's threshold, an active one is suspended exactly when the rule is
  on, the balance is above the threshold and the days past due have reached the rule's, and a pending
  or revoked grant is never moved. Every move asked for is one the grant's state machine allows, and
  deciding again on the state it leads to asks for nothing: the rule does not flap. What a screen
  tells the tenant agrees with the rule: a payment reopens a suspended gate exactly when
  wouldRestoreAccess says so, and the shortfall is the least such payment.\<close>

theorem gateDecision_correct:
  fixes i :: gate_input and s :: grant_state
  defines "settled \<equiv> gi_balanceCents i \<le> gi_restoreAtOrBelowCents i"
  shows "(gi_onHold i \<longrightarrow> decided s i = No_action On_hold) \<and>
    (decided s i = Restore \<longleftrightarrow> \<not> gi_onHold i \<and> s = Suspended \<and> settled) \<and>
    (decided s i = Suspend n \<longleftrightarrow> \<not> gi_onHold i \<and> s = Active \<and> \<not> settled \<and> n = gi_daysPastDue i \<and>
      0 < gi_suspendAtDays i \<and> gi_suspendAtDays i \<le> gi_daysPastDue i) \<and>
    (moved (decided s i) s \<noteq> s \<longrightarrow> canTransition s (moved (decided s i) s) = None) \<and>
    (\<exists>r. decided (moved (decided s i) s) i = No_action r) \<and>
    (\<not> gi_onHold i \<longrightarrow> 0 \<le> pay \<longrightarrow> (decided Suspended (i\<lparr>gi_balanceCents := gi_balanceCents i - pay\<rparr>) = Restore \<longleftrightarrow>
      wouldRestoreAccess (gi_balanceCents i) (gi_restoreAtOrBelowCents i) pay))"
proof -
  have "gi_onHold i \<Longrightarrow> decided s i = No_action On_hold"
    and "decided s i = Restore \<longleftrightarrow> \<not> gi_onHold i \<and> s = Suspended \<and> settled"
    and "decided s i = Suspend n \<longleftrightarrow> \<not> gi_onHold i \<and> s = Active \<and> \<not> settled \<and> n = gi_daysPastDue i \<and>
      0 < gi_suspendAtDays i \<and> gi_suspendAtDays i \<le> gi_daysPastDue i"
    and "moved (decided s i) s \<noteq> s \<Longrightarrow> canTransition s (moved (decided s i) s) = None"
    and "\<exists>r. decided (moved (decided s i) s) i = No_action r"
    and "\<not> gi_onHold i \<Longrightarrow> 0 \<le> pay \<Longrightarrow>
      decided Suspended (i\<lparr>gi_balanceCents := gi_balanceCents i - pay\<rparr>) = Restore \<longleftrightarrow>
      wouldRestoreAccess (gi_balanceCents i) (gi_restoreAtOrBelowCents i) pay"
    by (cases s; auto simp: gateDecision_def settled_def Let_def canTransition_def wouldRestoreAccess_def
      restoreShortfallCents_def split: if_splits; fail)+
  then show ?thesis by blast
qed

theorem gateDecision_correct_witness:
  "gateDecision \<lparr>gi_state = ''suspended'', gi_daysPastDue = 12, gi_balanceCents = 48750,
      gi_suspendAtDays = 10, gi_restoreAtOrBelowCents = 5000, gi_onHold = True\<rparr> = No_action On_hold \<and>
    (gateDecision \<lparr>gi_state = ''suspended'', gi_daysPastDue = 12, gi_balanceCents = 5000,
      gi_suspendAtDays = 10, gi_restoreAtOrBelowCents = 5000, gi_onHold = False\<rparr> = Restore \<longleftrightarrow>
      wouldRestoreAccess 48750 5000 43750) \<and> canTransition Active Suspended = None"
  using gateDecision_correct [of "\<lparr>gi_state = ''suspended'', gi_daysPastDue = 12,
        gi_balanceCents = 48750, gi_suspendAtDays = 10, gi_restoreAtOrBelowCents = 5000, gi_onHold = True\<rparr>"
        Suspended]
    gateDecision_correct [of "\<lparr>gi_state = ''suspended'', gi_daysPastDue = 12,
        gi_balanceCents = 48750, gi_suspendAtDays = 10, gi_restoreAtOrBelowCents = 5000, gi_onHold = False\<rparr>"
        Suspended _ 43750]
    gateDecision_correct [of "\<lparr>gi_state = ''active'', gi_daysPastDue = 12,
        gi_balanceCents = 48750, gi_suspendAtDays = 10, gi_restoreAtOrBelowCents = 5000, gi_onHold = False\<rparr>"
        Active]
  by (simp add: gateDecision_def)

section \<open>anomalies.ts\<close>

datatype access_flag = After_hours_attempt | Denied_repeated | Unknown_code | Suspended_attempt

definition REPEATED_DENIAL_COUNT :: int where "REPEATED_DENIAL_COUNT = 5"

record event_for_flags =
  ef_denied :: bool
  ef_reason :: string
  ef_credentialKnown :: bool
  ef_grantState :: "string option"
  ef_recentDenials :: int

definition flagsFor :: "event_for_flags \<Rightarrow> access_flag list" where
  "flagsFor e =
    (if ef_denied e \<and> \<not> ef_credentialKnown e then [Unknown_code] else [])
    @ (if ef_reason e = ''outside_hours'' then [After_hours_attempt] else [])
    @ (if ef_denied e \<and> ef_grantState e = Some ''suspended'' then [Suspended_attempt] else [])
    @ (if ef_denied e \<and> ef_recentDenials e \<ge> REPEATED_DENIAL_COUNT then [Denied_repeated] else [])"

definition isAccessFlag :: "string \<Rightarrow> bool" where
  "isAccessFlag value \<longleftrightarrow>
    value \<in> set [''after_hours_attempt'', ''denied_repeated'', ''unknown_code'', ''suspended_attempt'']"

lemma flagsFor_distinct: "distinct (flagsFor e)"
  by (simp add: flagsFor_def)

section \<open>reconciliation.ts\<close>

record expected_credential =
  ec_credentialId :: string
  ec_codeHash :: "string option"
  ec_shouldOpen :: bool
  ec_windowFingerprint :: "string option"

record actual_credential =
  ac_credentialId :: "string option"
  ac_externalId :: string
  ac_codeHash :: "string option"
  ac_opens :: bool
  ac_windowFingerprint :: "string option"

datatype drift_kind =
  Missing_at_controller | Unknown_at_controller | Open_state_mismatch | Code_mismatch | Window_mismatch

definition DRIFT_KINDS :: "drift_kind list" where
  "DRIFT_KINDS =
    [Missing_at_controller, Unknown_at_controller, Open_state_mismatch, Code_mismatch, Window_mismatch]"

datatype severity = Security | Service

fun DRIFT_SEVERITY :: "drift_kind \<Rightarrow> severity" where
  "DRIFT_SEVERITY Unknown_at_controller = Security"
| "DRIFT_SEVERITY Open_state_mismatch = Security"
| "DRIFT_SEVERITY Code_mismatch = Service"
| "DRIFT_SEVERITY Missing_at_controller = Service"
| "DRIFT_SEVERITY Window_mismatch = Service"

record drift =
  dr_kind :: drift_kind
  dr_credentialId :: "string option"
  dr_externalId :: "string option"
  dr_gateTooPermissive :: bool

definition unknown_row :: "actual_credential \<Rightarrow> drift" where
  "unknown_row row = \<lparr>dr_kind = Unknown_at_controller, dr_credentialId = None,
    dr_externalId = Some (ac_externalId row), dr_gateTooPermissive = ac_opens row\<rparr>"

text \<open>The first loop: rows without a credential are findings, the others are indexed, a later row
  replacing an earlier one.\<close>

fun index_rows ::
  "actual_credential list \<Rightarrow> (string \<rightharpoonup> actual_credential) \<Rightarrow> drift list \<times> (string \<rightharpoonup> actual_credential)"
where
  "index_rows [] m = ([], m)"
| "index_rows (row # rows) m =
    (if truthy (ac_credentialId row)
     then index_rows rows (m(the (ac_credentialId row) \<mapsto> row))
     else let (drifts, m') = index_rows rows m in (unknown_row row # drifts, m'))"

definition found :: "expected_credential \<Rightarrow> actual_credential \<Rightarrow> drift_kind \<Rightarrow> bool \<Rightarrow> drift" where
  "found want has kind permissive = \<lparr>dr_kind = kind, dr_credentialId = Some (ec_credentialId want),
    dr_externalId = Some (ac_externalId has), dr_gateTooPermissive = permissive\<rparr>"

text \<open>The second loop's body.\<close>

definition compare_one :: "(string \<rightharpoonup> actual_credential) \<Rightarrow> expected_credential \<Rightarrow> drift list" where
  "compare_one actualById want = (case actualById (ec_credentialId want) of
      None \<Rightarrow> (if ec_shouldOpen want
        then [\<lparr>dr_kind = Missing_at_controller, dr_credentialId = Some (ec_credentialId want),
          dr_externalId = None, dr_gateTooPermissive = False\<rparr>]
        else [])
    | Some has \<Rightarrow>
        (if ac_opens has \<noteq> ec_shouldOpen want
         then [found want has Open_state_mismatch (ac_opens has \<and> \<not> ec_shouldOpen want)] else [])
        @ (if truthy (ec_codeHash want) \<and> truthy (ac_codeHash has) \<and> ec_codeHash want \<noteq> ac_codeHash has
           then [found want has Code_mismatch False] else [])
        @ (if ec_windowFingerprint want \<noteq> ac_windowFingerprint has
           then [found want has Window_mismatch
             (ac_windowFingerprint has = None \<and> ec_windowFingerprint want \<noteq> None)] else []))"

definition diffControllerState :: "expected_credential list \<Rightarrow> actual_credential list \<Rightarrow> drift list" where
  "diffControllerState expected actual = (let (drifts, actualById) = index_rows actual (\<lambda>_. None)
    in drifts @ concat (map (compare_one actualById) expected))"

record drift_summary =
  dsu_total :: nat
  dsu_byKind :: "drift_kind \<Rightarrow> nat"
  dsu_tooPermissive :: nat

definition summarizeDrift :: "drift list \<Rightarrow> drift_summary" where
  "summarizeDrift drifts = \<lparr>dsu_total = length drifts,
    dsu_byKind = foldl (\<lambda>byKind d. byKind(dr_kind d := byKind (dr_kind d) + 1)) (\<lambda>kind. 0) drifts,
    dsu_tooPermissive = length (filter dr_gateTooPermissive drifts)\<rparr>"

subsection \<open>What the comparison finds\<close>

definition names :: "actual_credential \<Rightarrow> string \<Rightarrow> bool" where
  "names row k \<longleftrightarrow> truthy (ac_credentialId row) \<and> ac_credentialId row = Some k"

text \<open>The row the controller holds for a credential: the last one that names it.\<close>

definition row_for :: "actual_credential list \<Rightarrow> string \<Rightarrow> actual_credential option" where
  "row_for actual k = find (\<lambda>row. names row k) (rev actual)"

lemma find_append: "find P (xs @ ys) = (case find P xs of None \<Rightarrow> find P ys | Some x \<Rightarrow> Some x)"
  by (induction xs) auto

lemma index_rows_eq:
  "index_rows actual m = (map unknown_row (filter (\<lambda>row. \<not> truthy (ac_credentialId row)) actual),
    \<lambda>k. case row_for actual k of None \<Rightarrow> m k | Some row \<Rightarrow> Some row)"
proof (induction actual arbitrary: m)
  case Nil
  then show ?case by (simp add: row_for_def)
next
  case (Cons row rows)
  show ?case
    by (auto simp: Cons row_for_def find_append truthy_def names_def fun_eq_iff split: option.splits)
qed

lemma diffControllerState_eq:
  "diffControllerState expected actual =
    map unknown_row (filter (\<lambda>row. \<not> truthy (ac_credentialId row)) actual)
    @ concat (map (compare_one (row_for actual)) expected)"
proof -
  have "(\<lambda>k. case row_for actual k of None \<Rightarrow> None | Some row \<Rightarrow> Some row) = row_for actual"
    by (simp add: fun_eq_iff split: option.splits)
  then show ?thesis by (simp add: diffControllerState_def index_rows_eq)
qed

text \<open>What the gate does agrees with what is on file for a credential.\<close>

definition agrees :: "expected_credential \<Rightarrow> actual_credential option \<Rightarrow> bool" where
  "agrees want held = (case held of
      None \<Rightarrow> \<not> ec_shouldOpen want
    | Some has \<Rightarrow> ac_opens has = ec_shouldOpen want \<and> ec_windowFingerprint want = ac_windowFingerprint has \<and>
        (truthy (ec_codeHash want) \<longrightarrow> truthy (ac_codeHash has) \<longrightarrow> ec_codeHash want = ac_codeHash has))"

lemma compare_one_Nil: "compare_one held want = [] \<longleftrightarrow> agrees want (held (ec_credentialId want))"
  by (auto simp: compare_one_def agrees_def split: option.splits)

text \<open>The controller lets in somebody the file says must not come in, or at an hour it says is shut.\<close>

definition lets_in :: "expected_credential \<Rightarrow> actual_credential \<Rightarrow> bool" where
  "lets_in want has \<longleftrightarrow> ac_opens has \<and> \<not> ec_shouldOpen want \<or>
    ac_windowFingerprint has = None \<and> ec_windowFingerprint want \<noteq> None"

lemma bex_if_single: "(\<exists>d \<in> set (if b then [x] else []). P d) \<longleftrightarrow> b \<and> P x"
  by (cases b) simp_all

lemma compare_one_permissive:
  "(\<exists>d \<in> set (compare_one held want). dr_gateTooPermissive d) \<longleftrightarrow>
    (\<exists>has. held (ec_credentialId want) = Some has \<and> lets_in want has)"
proof (cases "held (ec_credentialId want)")
  case None
  then show ?thesis by (simp add: compare_one_def)
next
  case (Some has)
  have "(\<exists>d \<in> set (compare_one held want). dr_gateTooPermissive d) \<longleftrightarrow> lets_in want has"
    unfolding compare_one_def Some option.case set_append bex_Un bex_if_single lets_in_def found_def
      drift.select_convs
    by auto
  then show ?thesis using Some by simp
qed

lemma row_for_Cons:
  "row_for (row # rows) k =
    (case row_for rows k of Some r \<Rightarrow> Some r | None \<Rightarrow> if names row k then Some row else None)"
  by (cases "find (\<lambda>r. names r k) (rev rows)") (simp_all add: row_for_def find_append)

definition concerning :: "string set \<Rightarrow> actual_credential list \<Rightarrow> actual_credential list" where
  "concerning K = filter (\<lambda>row. truthy (ac_credentialId row) \<longrightarrow> the (ac_credentialId row) \<in> K)"

lemma row_for_concerning: "k \<in> K \<Longrightarrow> row_for (concerning K actual) k = row_for actual k"
proof (induction actual)
  case (Cons row rows)
  then show ?case
    by (cases "names row k") (auto simp: concerning_def row_for_Cons names_def split: option.split)
qed (simp add: concerning_def)

lemma unnamed_concerning:
  "filter (\<lambda>row. \<not> truthy (ac_credentialId row)) (concerning K actual) =
    filter (\<lambda>row. \<not> truthy (ac_credentialId row)) actual"
  unfolding concerning_def filter_filter by (rule filter_cong) auto

text \<open>The nightly comparison. It reports nothing exactly when every row of the controller names a
  credential and each credential on file agrees with the last row that names it; it reports that the
  gate is too permissive exactly when an unnamed row opens the gate or a named row lets in what the
  file forbids. A row that names a credential which is not on file is never looked at: leaving all
  such rows out gives the same report, even when they open the gate.\<close>

theorem diffControllerState_complete:
  "(diffControllerState expected actual = [] \<longleftrightarrow>
    (\<forall>row \<in> set actual. truthy (ac_credentialId row)) \<and>
    (\<forall>want \<in> set expected. agrees want (row_for actual (ec_credentialId want)))) \<and>
    ((\<exists>d \<in> set (diffControllerState expected actual). dr_gateTooPermissive d) \<longleftrightarrow>
    (\<exists>row \<in> set actual. \<not> truthy (ac_credentialId row) \<and> ac_opens row) \<or>
    (\<exists>want \<in> set expected. \<exists>has. row_for actual (ec_credentialId want) = Some has \<and> lets_in want has)) \<and>
    diffControllerState expected (concerning (ec_credentialId ` set expected) actual) =
    diffControllerState expected actual"
proof -
  have r1: "diffControllerState expected actual = [] \<longleftrightarrow>
    (\<forall>row \<in> set actual. truthy (ac_credentialId row)) \<and>
    (\<forall>want \<in> set expected. agrees want (row_for actual (ec_credentialId want)))"
    by (auto simp: diffControllerState_eq filter_empty_conv compare_one_Nil)
  have r2: "(\<exists>d \<in> set (diffControllerState expected actual). dr_gateTooPermissive d) \<longleftrightarrow>
    (\<exists>row \<in> set actual. \<not> truthy (ac_credentialId row) \<and> ac_opens row) \<or>
    (\<exists>want \<in> set expected. \<exists>has. row_for actual (ec_credentialId want) = Some has \<and> lets_in want has)"
    by (simp add: diffControllerState_eq bex_Un compare_one_permissive unknown_row_def) blast
  have "map (compare_one (row_for (concerning (ec_credentialId ` set expected) actual))) expected =
      map (compare_one (row_for actual)) expected"
    by (rule map_cong [OF refl]) (simp only: compare_one_def row_for_concerning imageI)
  then have r3: "diffControllerState expected (concerning (ec_credentialId ` set expected) actual) =
    diffControllerState expected actual"
    by (simp only: diffControllerState_eq unnamed_concerning)
  show ?thesis using r1 r2 r3 by blast
qed

theorem diffControllerState_complete_witness:
  "diffControllerState [\<lparr>ec_credentialId = ''c1'', ec_codeHash = None, ec_shouldOpen = True,
      ec_windowFingerprint = None\<rparr>]
    [\<lparr>ac_credentialId = Some ''c1'', ac_externalId = ''7'', ac_codeHash = Some ''x'', ac_opens = True,
      ac_windowFingerprint = None\<rparr>,
     \<lparr>ac_credentialId = Some ''c9'', ac_externalId = ''8'', ac_codeHash = Some ''y'', ac_opens = True,
      ac_windowFingerprint = None\<rparr>] = []"
  unfolding diffControllerState_complete [THEN conjunct1]
  by (simp add: truthy_def agrees_def row_for_def names_def)

lemma summarizeDrift_byKind:
  "dsu_byKind (summarizeDrift drifts) k = length (filter (\<lambda>d. dr_kind d = k) drifts)"
proof -
  have "foldl (\<lambda>byKind d. byKind(dr_kind d := byKind (dr_kind d) + 1)) f drifts k =
      f k + length (filter (\<lambda>d. dr_kind d = k) drifts)" for f :: "drift_kind \<Rightarrow> nat"
    by (induction drifts arbitrary: f) auto
  then show ?thesis by (simp add: summarizeDrift_def)
qed

lemma summarizeDrift_total:
  "dsu_total (summarizeDrift drifts) = (\<Sum>k \<leftarrow> DRIFT_KINDS. dsu_byKind (summarizeDrift drifts) k)"
proof -
  have "length drifts = (\<Sum>k \<leftarrow> DRIFT_KINDS. length (filter (\<lambda>d. dr_kind d = k) drifts))"
    by (induction drifts) (auto simp: DRIFT_KINDS_def intro: drift_kind.exhaust)
  then show ?thesis by (simp add: summarizeDrift_byKind) (simp add: summarizeDrift_def)
qed

end
