(* ===== verification/Holds.thy ===== *)
theory Holds
  imports Calendar Delinquency
begin

text \<open>
  The age of a debt and what stops its clock: days past due and the aging report
  (\<open>packages/core/metrics/delinquency.ts\<close>), the holds on a lease and their effects
  (\<open>packages/core/holds/catalog.ts\<close>), and the number of days the delinquency engine works with
  (\<open>apps/web/lib/delinquency/engine.ts\<close>). The labels and banner texts of the hold types are left out.
\<close>

section \<open>metrics/delinquency.ts\<close>

record unpaid_invoice =
  ui_dueDate :: date
  ui_totalCents :: cents
  ui_amountPaidCents :: cents
  ui_status :: string

definition outstandingCents :: "unpaid_invoice \<Rightarrow> cents" where
  "outstandingCents invoice =
    (if ui_status invoice = ''void'' \<or> ui_status invoice = ''uncollectible'' then 0
     else max 0 (ui_totalCents invoice - ui_amountPaidCents invoice))"

definition oldestUnpaidDue :: "unpaid_invoice list \<Rightarrow> date option" where
  "oldestUnpaidDue invoices = (let unpaid = filter (\<lambda>invoice. 0 < outstandingCents invoice) invoices in
    if length unpaid = 0 then None
    else Some (foldl (\<lambda>oldest invoice. if ui_dueDate invoice < oldest then ui_dueDate invoice else oldest)
      (ui_dueDate (unpaid ! 0)) unpaid))"

definition daysPastDue :: "unpaid_invoice list \<Rightarrow> date \<Rightarrow> int" where
  "daysPastDue invoices asOf = (case oldestUnpaidDue invoices of
      None \<Rightarrow> 0
    | Some oldestDue \<Rightarrow> max 0 ((utc_day asOf - utc_day oldestDue) div day_ms))"

datatype ar_bucket = D0to10 | D11to30 | D31to60 | D61to90 | Over90

definition arBucketFor :: "int \<Rightarrow> ar_bucket" where
  "arBucketFor days =
    (if days \<le> 10 then D0to10 else if days \<le> 30 then D11to30 else if days \<le> 60 then D31to60
     else if days \<le> 90 then D61to90 else Over90)"

record aged_balance =
  ab_daysPastDue :: int
  ab_outstandingCents :: cents

record ar_aging =
  ag_bucket :: "ar_bucket \<Rightarrow> cents"
  ag_totalCents :: cents

definition no_aging :: ar_aging where
  "no_aging = \<lparr>ag_bucket = (\<lambda>_. 0), ag_totalCents = 0\<rparr>"

definition aging_step :: "ar_aging \<Rightarrow> 'x aged_balance_scheme \<Rightarrow> ar_aging" where
  "aging_step aging balance =
    (if ab_outstandingCents balance \<le> 0 then aging
     else let b = arBucketFor (ab_daysPastDue balance) in
       \<lparr>ag_bucket = (ag_bucket aging)(b := ag_bucket aging b + ab_outstandingCents balance),
        ag_totalCents = ag_totalCents aging + ab_outstandingCents balance\<rparr>)"

definition arAging :: "'x aged_balance_scheme list \<Rightarrow> ar_aging" where
  "arAging balances = foldl aging_step no_aging balances"

definition sumArAging :: "ar_aging list \<Rightarrow> ar_aging" where
  "sumArAging agings = foldl (\<lambda>acc aging.
    \<lparr>ag_bucket = (\<lambda>b. ag_bucket acc b + ag_bucket aging b),
     ag_totalCents = ag_totalCents acc + ag_totalCents aging\<rparr>) no_aging agings"

record haltable_balance = aged_balance +
  hb_halted :: bool

record ar_aging_split =
  as_chased :: ar_aging
  as_halted :: ar_aging
  as_total :: ar_aging

definition arAgingSplit :: "haltable_balance list \<Rightarrow> ar_aging_split" where
  "arAgingSplit balances = (
    let chased = arAging (filter (\<lambda>balance. \<not> hb_halted balance) balances);
        halted = arAging (filter (\<lambda>balance. hb_halted balance) balances)
    in \<lparr>as_chased = chased, as_halted = halted, as_total = sumArAging [chased, halted]\<rparr>)"

definition sumArAgingSplit :: "ar_aging_split list \<Rightarrow> ar_aging_split" where
  "sumArAgingSplit splits = \<lparr>as_chased = sumArAging (map as_chased splits),
    as_halted = sumArAging (map as_halted splits), as_total = sumArAging (map as_total splits)\<rparr>"

section \<open>holds/catalog.ts\<close>

datatype hold_effect =
  Halt_dunning | Halt_late_fees | Halt_access_suspension | Block_auction | Suppress_marketing
| Halt_autopay | Pause_lien_clock

record hold_type_spec =
  hs_type :: string
  hs_effects :: "hold_effect list"
  hs_liftRequiresManager :: bool
  hs_requiresEstateContact :: bool

definition HOLD_TYPES :: "hold_type_spec list" where
  "HOLD_TYPES =
    [\<lparr>hs_type = ''military_scra'', hs_effects = [Halt_dunning, Halt_late_fees, Halt_access_suspension,
        Block_auction, Suppress_marketing, Halt_autopay],
      hs_liftRequiresManager = True, hs_requiresEstateContact = False\<rparr>,
     \<lparr>hs_type = ''bankruptcy'', hs_effects = [Halt_dunning, Halt_late_fees, Halt_access_suspension,
        Block_auction, Suppress_marketing, Halt_autopay],
      hs_liftRequiresManager = True, hs_requiresEstateContact = False\<rparr>,
     \<lparr>hs_type = ''deceased'', hs_effects = [Halt_dunning, Halt_late_fees, Halt_access_suspension,
        Block_auction, Suppress_marketing, Halt_autopay],
      hs_liftRequiresManager = False, hs_requiresEstateContact = True\<rparr>,
     \<lparr>hs_type = ''litigation'', hs_effects = [Halt_dunning, Halt_late_fees, Block_auction, Suppress_marketing],
      hs_liftRequiresManager = False, hs_requiresEstateContact = False\<rparr>,
     \<lparr>hs_type = ''dispute'', hs_effects = [Halt_dunning, Halt_late_fees],
      hs_liftRequiresManager = False, hs_requiresEstateContact = False\<rparr>,
     \<lparr>hs_type = ''do_not_contact'', hs_effects = [Halt_dunning, Suppress_marketing],
      hs_liftRequiresManager = False, hs_requiresEstateContact = False\<rparr>,
     \<lparr>hs_type = ''payment_plan'', hs_effects = [Halt_dunning, Halt_late_fees, Halt_access_suspension,
        Block_auction],
      hs_liftRequiresManager = False, hs_requiresEstateContact = False\<rparr>,
     \<lparr>hs_type = ''emergency'', hs_effects = [Halt_dunning, Halt_late_fees, Halt_access_suspension,
        Block_auction, Pause_lien_clock],
      hs_liftRequiresManager = False, hs_requiresEstateContact = False\<rparr>]"

definition BY_TYPE :: "string \<rightharpoonup> hold_type_spec" where
  "BY_TYPE = map_of (rev (map (\<lambda>spec. (hs_type spec, spec)) HOLD_TYPES))"

definition holdTypeSpec :: "string \<Rightarrow> hold_type_spec option" where
  "holdTypeSpec type = BY_TYPE type"

record hold =
  ho_type :: string
  ho_effectiveFrom :: date
  ho_effectiveTo :: "date option"
  ho_liftedAt :: "date option"

definition holdIsActive :: "hold \<Rightarrow> date \<Rightarrow> bool" where
  "holdIsActive h asOf =
    (if ho_liftedAt h \<noteq> None then False
     else if ho_effectiveFrom h > asOf then False
     else case ho_effectiveTo h of Some t \<Rightarrow> \<not> t \<le> asOf | None \<Rightarrow> True)"

definition declared :: "hold \<Rightarrow> hold_effect set" where
  "declared h = (case holdTypeSpec (ho_type h) of None \<Rightarrow> {} | Some spec \<Rightarrow> set (hs_effects spec))"

definition effectsOf :: "hold list \<Rightarrow> date \<Rightarrow> hold_effect set" where
  "effectsOf holds asOf =
    foldl (\<lambda>effects h. if \<not> holdIsActive h asOf then effects else effects \<union> declared h) {} holds"

definition hasEffect :: "hold list \<Rightarrow> hold_effect \<Rightarrow> date \<Rightarrow> bool" where
  "hasEffect holds effect asOf \<longleftrightarrow> effect \<in> effectsOf holds asOf"

text \<open>The days of a window are put into a set one by one.\<close>

function add_days :: "date \<Rightarrow> date \<Rightarrow> date set \<Rightarrow> date set" where
  "add_days day until days = (if day < until then add_days (day + day_ms) until (insert day days) else days)"
  by auto
termination by (relation "measure (\<lambda>(day, until, _). nat (until - day))") auto

declare add_days.simps [simp del]

definition hold_ends :: "hold \<Rightarrow> date list" where
  "hold_ends h = map the (filter (\<lambda>d. d \<noteq> None) [ho_effectiveTo h, ho_liftedAt h])"

definition paused_step :: "date \<Rightarrow> date \<Rightarrow> date set \<Rightarrow> hold \<Rightarrow> date set" where
  "paused_step start until days h =
    (if Pause_lien_clock \<notin> declared h then days
     else let ends = hold_ends h;
              firstDay = max (utc_day (ho_effectiveFrom h)) start;
              lastDay = min (if ends = [] then until else utc_day (Min (set ends))) until
          in add_days firstDay lastDay days)"

definition pausedDays :: "hold list \<Rightarrow> date \<Rightarrow> date \<Rightarrow> nat" where
  "pausedDays holds src until = card (foldl (paused_step (utc_day src) (utc_day until)) {} holds)"

definition dateInsidePausedWindow :: "hold list \<Rightarrow> date \<Rightarrow> bool" where
  "dateInsidePausedWindow holds d \<longleftrightarrow> pausedDays holds d (utc_day d + day_ms) > 0"

section \<open>The engine's day count\<close>

definition daysPastDueNet :: "unpaid_invoice list \<Rightarrow> hold list \<Rightarrow> date \<Rightarrow> int" where
  "daysPastDueNet invoices emergencyHolds businessDate = max 0 (daysPastDue invoices businessDate
    - int (pausedDays emergencyHolds (or_else (oldestUnpaidDue invoices) businessDate) businessDate))"

section \<open>Aging\<close>

lemma foldl_aging:
  "ag_totalCents (foldl aging_step a bs) =
    ag_totalCents a + sum_by (\<lambda>x. max 0 (ab_outstandingCents x)) bs"
  "ag_bucket (foldl aging_step a bs) b = ag_bucket a b +
    sum_by (\<lambda>x. max 0 (ab_outstandingCents x)) (filter (\<lambda>x. arBucketFor (ab_daysPastDue x) = b) bs)"
  by (induction bs arbitrary: a) (auto simp: aging_step_def Let_def)

lemma arAging_total: "ag_totalCents (arAging bs) = sum_by (\<lambda>x. max 0 (ab_outstandingCents x)) bs"
  and arAging_bucket: "ag_bucket (arAging bs) b =
    sum_by (\<lambda>x. max 0 (ab_outstandingCents x)) (filter (\<lambda>x. arBucketFor (ab_daysPastDue x) = b) bs)"
  by (simp_all add: arAging_def foldl_aging no_aging_def)

definition buckets :: "ar_bucket list" where
  "buckets = [D0to10, D11to30, D31to60, D61to90, Over90]"

lemma sum_by_buckets:
  "(\<Sum>b \<leftarrow> buckets. sum_by f (filter (\<lambda>x. g x = b) xs)) = sum_by f xs"
proof (induction xs)
  case (Cons x xs)
  then show ?case by (cases "g x") (simp_all add: buckets_def)
qed (simp add: buckets_def)

lemma sumArAging_pair:
  "sumArAging [a, b] = \<lparr>ag_bucket = (\<lambda>k. ag_bucket a k + ag_bucket b k),
    ag_totalCents = ag_totalCents a + ag_totalCents b\<rparr>"
  by (simp add: sumArAging_def no_aging_def)

lemma sum_by_split:
  "sum_by f (filter (\<lambda>x. \<not> P x) xs) + sum_by f (filter P xs) = sum_by f xs"
  by (induction xs) auto

lemma arAging_eq:
  "arAging bs = \<lparr>ag_bucket = (\<lambda>b. sum_by (\<lambda>x. max 0 (ab_outstandingCents x))
      (filter (\<lambda>x. arBucketFor (ab_daysPastDue x) = b) bs)),
    ag_totalCents = sum_by (\<lambda>x. max 0 (ab_outstandingCents x)) bs\<rparr>"
  by (rule ar_aging.equality) (simp_all add: arAging_total arAging_bucket fun_eq_iff)

lemma arAgingSplit_total: "as_total (arAgingSplit hs) = arAging hs"
proof -
  have "sum_by f (filter (\<lambda>x. \<not> hb_halted x \<and> P x) hs) + sum_by f (filter (\<lambda>x. hb_halted x \<and> P x) hs) =
      sum_by f (filter P hs)" for f :: "haltable_balance \<Rightarrow> int" and P
    by (induction hs) auto
  then show ?thesis
    by (simp add: arAgingSplit_def Let_def sumArAging_pair arAging_eq sum_by_split)
qed

text \<open>The aging report. The buckets add up to the total, the total is every positive balance and
  nothing else, and each bucket holds the balances whose age is in its range. Splitting the balances
  into those still chased and those behind a hold loses nothing: chased and halted add up, bucket by
  bucket and in total, to the aging of all of them.\<close>

theorem aging_adds_up:
  "ag_totalCents (arAging bs) = sum_by (\<lambda>x. max 0 (ab_outstandingCents x)) bs \<and>
  (\<Sum>b \<leftarrow> buckets. ag_bucket (arAging bs) b) = ag_totalCents (arAging bs) \<and>
  ag_bucket (arAging bs) b =
    sum_by (\<lambda>x. max 0 (ab_outstandingCents x)) (filter (\<lambda>x. arBucketFor (ab_daysPastDue x) = b) bs) \<and>
  as_total (arAgingSplit hs) = arAging hs"
  by (simp_all add: arAging_total arAging_bucket sum_by_buckets arAgingSplit_total)

section \<open>Effects\<close>

lemma effects_fold:
  "foldl (\<lambda>effects h. if \<not> holdIsActive h asOf then effects else effects \<union> declared h) E holds =
    E \<union> (\<Union>h \<in> {h \<in> set holds. holdIsActive h asOf}. declared h)"
  by (induction holds arbitrary: E) auto

lemma effectsOf_eq: "effectsOf holds asOf = (\<Union>h \<in> {h \<in> set holds. holdIsActive h asOf}. declared h)"
  by (simp add: effectsOf_def effects_fold)

lemma holdIsActive_iff:
  "holdIsActive h asOf \<longleftrightarrow> ho_liftedAt h = None \<and> ho_effectiveFrom h \<le> asOf \<and>
    (\<forall>t. ho_effectiveTo h = Some t \<longrightarrow> asOf < t)"
  by (auto simp: holdIsActive_def split: option.split)

lemma declared_types:
  "declared h \<noteq> {} \<longleftrightarrow> ho_type h \<in> hs_type ` set HOLD_TYPES"
  "Block_auction \<in> declared h \<longleftrightarrow> ho_type h \<in> {''military_scra'', ''bankruptcy'', ''deceased'',
    ''litigation'', ''payment_plan'', ''emergency''}"
  "Pause_lien_clock \<in> declared h \<longleftrightarrow> ho_type h = ''emergency''"
  by (auto simp: declared_def holdTypeSpec_def BY_TYPE_def HOLD_TYPES_def map_of_eq_None_iff)

text \<open>Holds stack and never weaken one another. An effect is in force exactly when some hold that
  has started, has not ended and has not been lifted declares it; another hold beside it takes nothing
  away; a lifted hold has no effect at any time, whatever its end date; and every catalogued type
  stops dunning.\<close>

theorem hold_effects_union:
  "hasEffect holds effect asOf \<longleftrightarrow> (\<exists>h \<in> set holds. ho_liftedAt h = None \<and> ho_effectiveFrom h \<le> asOf \<and>
    (\<forall>t. ho_effectiveTo h = Some t \<longrightarrow> asOf < t) \<and> effect \<in> declared h)"
  "set holds \<subseteq> set holds2 \<Longrightarrow> hasEffect holds effect asOf \<Longrightarrow> hasEffect holds2 effect asOf"
  "hasEffect (h\<lparr>ho_liftedAt := Some t\<rparr> # holds) effect asOf \<longleftrightarrow> hasEffect holds effect asOf"
  "hasEffect holds effect asOf \<Longrightarrow> hasEffect holds Halt_dunning asOf"
proof -
  show eq: "hasEffect holds effect asOf \<longleftrightarrow> (\<exists>h \<in> set holds. ho_liftedAt h = None \<and> ho_effectiveFrom h \<le> asOf
    \<and> (\<forall>t. ho_effectiveTo h = Some t \<longrightarrow> asOf < t) \<and> effect \<in> declared h)" for holds effect
    by (simp add: hasEffect_def effectsOf_eq holdIsActive_iff) blast
  show "set holds \<subseteq> set holds2 \<Longrightarrow> hasEffect holds effect asOf \<Longrightarrow> hasEffect holds2 effect asOf"
    unfolding eq by blast
  show "hasEffect (h\<lparr>ho_liftedAt := Some t\<rparr> # holds) effect asOf \<longleftrightarrow> hasEffect holds effect asOf"
    unfolding eq by simp
  have "effect \<in> declared h \<Longrightarrow> Halt_dunning \<in> declared h" for h
    by (auto simp: declared_def holdTypeSpec_def BY_TYPE_def HOLD_TYPES_def split: if_splits)
  then show "hasEffect holds effect asOf \<Longrightarrow> hasEffect holds Halt_dunning asOf"
    unfolding eq by blast
qed

theorem hold_effects_union_witness:
  "hasEffect [\<lparr>ho_type = ''dispute'', ho_effectiveFrom = 0, ho_effectiveTo = None, ho_liftedAt = None\<rparr>,
      \<lparr>ho_type = ''bankruptcy'', ho_effectiveFrom = 5, ho_effectiveTo = Some 90, ho_liftedAt = None\<rparr>]
    Block_auction 7 \<and>
    hasEffect [\<lparr>ho_type = ''bankruptcy'', ho_effectiveFrom = 5, ho_effectiveTo = Some 90, ho_liftedAt = None\<rparr>]
    Halt_dunning 7"
proof -
  let ?b = "\<lparr>ho_type = ''bankruptcy'', ho_effectiveFrom = 5, ho_effectiveTo = Some 90, ho_liftedAt = None\<rparr>"
  have b: "hasEffect [?b] Block_auction 7"
    unfolding hold_effects_union(1) by (simp add: declared_types)
  then show ?thesis
    using hold_effects_union(2) [of "[?b]" _ Block_auction 7] hold_effects_union(4) [OF b] by simp
qed

section \<open>The clock\<close>

lemma day_of_mono: "s \<le> t \<Longrightarrow> day_of s \<le> day_of t"
  by (simp add: day_of_def zdiv_mono1)

lemma add_days_eq:
  "add_days (a * day_ms) (b * day_ms) days = days \<union> (\<lambda>n. n * day_ms) ` {n. a \<le> n \<and> n < b}"
proof (induction "nat (b - a)" arbitrary: a days)
  case 0
  then show ?case by (subst add_days.simps) auto
next
  case (Suc k)
  then have less: "a < b" by simp
  have "add_days (a * day_ms) (b * day_ms) days = add_days ((a + 1) * day_ms) (b * day_ms) (insert (a * day_ms) days)"
    using less by (subst add_days.simps) (simp add: algebra_simps)
  also have "\<dots> = insert (a * day_ms) days \<union> (\<lambda>n. n * day_ms) ` {n. a + 1 \<le> n \<and> n < b}"
    using Suc.hyps(2) by (intro Suc.hyps(1)) simp
  also have "\<dots> = days \<union> (\<lambda>n. n * day_ms) ` {n. a \<le> n \<and> n < b}"
  proof -
    have "{n. a \<le> n \<and> n < b} = insert a {n. a + 1 \<le> n \<and> n < b}" using less by auto
    then show ?thesis by auto
  qed
  finally show ?case .
qed

text \<open>A hold stops the clock on a day when it declares so, has started by that day, and neither its end
  nor its lift falls on the day or before.\<close>

definition stops_clock :: "hold \<Rightarrow> int \<Rightarrow> bool" where
  "stops_clock h n \<longleftrightarrow> Pause_lien_clock \<in> declared h \<and> day_of (ho_effectiveFrom h) \<le> n \<and>
    (\<forall>t \<in> set (hold_ends h). n < day_of t)"

lemma below_Min: "ts \<noteq> [] \<Longrightarrow> n < day_of (Min (set ts)) \<longleftrightarrow> (\<forall>t \<in> set ts. n < day_of t)"
proof -
  assume ts: "ts \<noteq> []"
  have "day_of (Min (set ts)) \<le> day_of t" if "t \<in> set ts" for t
    using that by (intro day_of_mono Min_le) auto
  moreover have "Min (set ts) \<in> set ts" using ts by (intro Min_in) auto
  ultimately show ?thesis by force
qed

lemma paused_step_eq:
  "paused_step (a * day_ms) (b * day_ms) days h =
    days \<union> (\<lambda>n. n * day_ms) ` {n. a \<le> n \<and> n < b \<and> stops_clock h n}"
proof (cases "Pause_lien_clock \<in> declared h")
  case True
  let ?l = "if hold_ends h = [] then b else min (day_of (Min (set (hold_ends h)))) b"
  have first: "max (utc_day (ho_effectiveFrom h)) (a * day_ms) = max (day_of (ho_effectiveFrom h)) a * day_ms"
    by (simp add: utc_day_eq max_def)
  have final: "min (if hold_ends h = [] then b * day_ms else utc_day (Min (set (hold_ends h)))) (b * day_ms)
      = ?l * day_ms"
    by (simp add: utc_day_eq min_def)
  have "{n. max (day_of (ho_effectiveFrom h)) a \<le> n \<and> n < ?l} = {n. a \<le> n \<and> n < b \<and> stops_clock h n}"
    using True below_Min [of "hold_ends h"] by (cases "hold_ends h = []") (auto simp: stops_clock_def)
  then show ?thesis
    using True unfolding paused_step_def Let_def first final add_days_eq by simp
qed (simp add: paused_step_def stops_clock_def)

lemma paused_fold:
  "foldl (paused_step (a * day_ms) (b * day_ms)) days holds =
    days \<union> (\<lambda>n. n * day_ms) ` {n. a \<le> n \<and> n < b \<and> (\<exists>h \<in> set holds. stops_clock h n)}"
  by (induction holds arbitrary: days) (auto simp: paused_step_eq)

lemma pausedDays_eq:
  "pausedDays holds src until = card {n. day_of src \<le> n \<and> n < day_of until \<and> (\<exists>h \<in> set holds. stops_clock h n)}"
  by (simp add: pausedDays_def utc_day_eq paused_fold card_image inj_on_def)

lemma dateInsidePausedWindow_iff:
  "dateInsidePausedWindow holds d \<longleftrightarrow> (\<exists>h \<in> set holds. stops_clock h (day_of d))"
proof -
  have next_: "day_of (utc_day d + day_ms) = day_of d + 1"
    using day_of_mult [of "day_of d + 1"] by (simp add: utc_day_eq algebra_simps)
  have "{n. day_of d \<le> n \<and> n < day_of d + 1 \<and> (\<exists>h \<in> set holds. stops_clock h n)} =
      (if \<exists>h \<in> set holds. stops_clock h (day_of d) then {day_of d} else {})"
    by (auto simp: order_le_less)
  then show ?thesis
    by (simp add: dateInsidePausedWindow_def pausedDays_eq next_)
qed

lemma daysPastDue_eq:
  "oldestUnpaidDue invoices = Some due \<Longrightarrow> daysPastDue invoices d = max 0 (day_of d - day_of due)"
proof -
  have "utc_day d - utc_day due = (day_of d - day_of due) * day_ms"
    by (simp only: utc_day_eq left_diff_distrib)
  moreover assume "oldestUnpaidDue invoices = Some due"
  ultimately show ?thesis by (simp add: daysPastDue_def del: left_diff_distrib)
qed

text \<open>The days a debt has been running.\<close>

definition running_days :: "hold list \<Rightarrow> date \<Rightarrow> date \<Rightarrow> int set" where
  "running_days holds due d = {n. day_of due \<le> n \<and> n < day_of d \<and> \<not> (\<exists>h \<in> set holds. stops_clock h n)}"

lemma finite_days: "finite {n :: int. a \<le> n \<and> n < b \<and> P n}"
  by (rule finite_subset [of _ "{a..<b}"]) auto

lemma daysPastDueNet_eq:
  assumes due: "oldestUnpaidDue invoices = Some due"
  shows "daysPastDueNet invoices holds d = int (card (running_days holds due d))"
proof -
  let ?on = "{n. day_of due \<le> n \<and> n < day_of d \<and> (\<exists>h \<in> set holds. stops_clock h n)}"
  have "card {day_of due ..< day_of d} = card (?on \<union> running_days holds due d)"
    by (rule arg_cong [where f = card]) (auto simp: running_days_def)
  also have "\<dots> = card ?on + card (running_days holds due d)"
    unfolding running_days_def by (rule card_Un_disjoint) (auto intro: finite_days)
  finally show ?thesis
    by (simp add: daysPastDueNet_def due daysPastDue_eq pausedDays_eq)
qed

text \<open>C22. An emergency hold stops the lien clock, it does not rewind or jump it. The number of days the
  delinquency engine works with is the number of days since the oldest unpaid due date on which no
  hold stopped the clock, each counted once however many holds overlap; so it stays the same over a
  stopped day, goes up by one over any other day, and never falls while the debt stands. A notice
  deadline is inside a paused window exactly when its day is a stopped one.\<close>

theorem lien_clock:
  assumes due: "oldestUnpaidDue invoices = Some due" and late: "day_of due \<le> day_of d"
  shows "daysPastDueNet invoices holds d = int (card (running_days holds due d)) \<and>
    daysPastDueNet invoices holds (d + day_ms) = daysPastDueNet invoices holds d +
      (if dateInsidePausedWindow holds d then 0 else 1) \<and>
    daysPastDueNet invoices [] d = daysPastDue invoices d"
proof -
  have r1: "daysPastDueNet invoices holds d = int (card (running_days holds due d))"
    by (rule daysPastDueNet_eq [OF due])
  have tomorrow: "day_of (d + day_ms) = day_of d + 1" by (simp add: day_of_def)
  have "running_days holds due (d + day_ms) =
      (if dateInsidePausedWindow holds d then running_days holds due d
       else insert (day_of d) (running_days holds due d))"
    using late by (auto simp: running_days_def tomorrow dateInsidePausedWindow_iff order_le_less)
  moreover have "finite (running_days holds due d)" "day_of d \<notin> running_days holds due d"
    unfolding running_days_def by (simp_all add: finite_days)
  ultimately have r2: "daysPastDueNet invoices holds (d + day_ms) = daysPastDueNet invoices holds d +
      (if dateInsidePausedWindow holds d then 0 else 1)"
    by (simp add: daysPastDueNet_eq [OF due])
  have r3: "daysPastDueNet invoices [] d = daysPastDue invoices d"
    by (simp add: daysPastDueNet_def pausedDays_eq daysPastDue_def split: option.split)
  show ?thesis using r1 r2 r3 by blast
qed

theorem lien_clock_witness:
  "daysPastDueNet [\<lparr>ui_dueDate = 0, ui_totalCents = 9500, ui_amountPaidCents = 0, ui_status = ''open''\<rparr>]
      [\<lparr>ho_type = ''emergency'', ho_effectiveFrom = 10 * day_ms, ho_effectiveTo = Some (24 * day_ms),
        ho_liftedAt = None\<rparr>] (10 * day_ms + day_ms) =
    daysPastDueNet [\<lparr>ui_dueDate = 0, ui_totalCents = 9500, ui_amountPaidCents = 0, ui_status = ''open''\<rparr>]
      [\<lparr>ho_type = ''emergency'', ho_effectiveFrom = 10 * day_ms, ho_effectiveTo = Some (24 * day_ms),
        ho_liftedAt = None\<rparr>] (10 * day_ms)"
proof -
  let ?i = "[\<lparr>ui_dueDate = 0, ui_totalCents = 9500, ui_amountPaidCents = 0, ui_status = ''open''\<rparr>]"
  have due: "oldestUnpaidDue ?i = Some 0" by (simp add: oldestUnpaidDue_def outstandingCents_def)
  have late: "day_of 0 \<le> day_of (10 * day_ms)" by (simp add: day_of_def)
  show ?thesis
    by (subst lien_clock [OF due late, THEN conjunct2, THEN conjunct1])
      (simp add: dateInsidePausedWindow_iff stops_clock_def declared_types hold_ends_def day_of_def)
qed

end
