(* ===== verification/GateQueue.thy ===== *)
theory GateQueue
  imports Access Outbox
begin

text \<open>
  The access-control service (\<open>apps/web/lib/access/service.ts\<close>): moving a grant, issuing and
  withdrawing credentials, the queue of commands each of these leaves for the gate controller, and
  the drain that sends them with retries. The tables are maps, the queue is a list in the order of
  \<open>createdAt\<close>. Parameters: the adapter (\<open>send\<close>, with the controller's own state), the facilities that
  have no controller (\<open>manual\<close>), the hash of a code and the codes the generator draws. A command row is
  identified by its idempotency key, which is unique; the key's text is a constructor with its parts.
\<close>

section \<open>The tables\<close>

datatype command_type =
  Grant_access | Revoke_access | Suspend_access | Resume_access | Set_credential | Revoke_credential

datatype command_status = Queued | Sent | Failing | Dead | Awaiting_manual

datatype command_key = Grant_key string grant_state date | Credential_key string | Revoke_key string

record command_input =
  ci_facilityId :: string
  ci_grantId :: "string option"
  ci_credentialId :: "string option"
  ci_type :: command_type
  ci_key :: command_key

record gate_command = command_input +
  gc_status :: command_status
  gc_attempts :: nat
  gc_nextAttemptAt :: date
  gc_lastError :: "string option"
  gc_deadLetteredAt :: "date option"
  gc_completedAt :: "date option"

record grant =
  gr_facilityId :: string
  gr_state :: grant_state
  gr_cause :: string
  gr_updatedAt :: date

datatype sync_status = Sync_pending | Synced | Sync_failed

record credential =
  cr_facilityId :: string
  cr_grantId :: string
  cr_leaseId :: "string option"
  cr_codeHash :: string
  cr_active :: bool
  cr_sync :: sync_status

datatype gate_entity = Access_grant string | Gate_command command_key

record gate_event =
  ge_name :: string
  ge_facilityId :: string
  ge_entity :: gate_entity

record gate_db =
  gd_grants :: "string \<rightharpoonup> grant"
  gd_credentials :: "string \<rightharpoonup> credential"
  gd_commands :: "gate_command list"
  gd_events :: "gate_event list"
  gd_tasks :: "command_key list"

section \<open>Grants\<close>

definition ensureGrantForHolder ::
  "string option \<Rightarrow> string \<Rightarrow> string \<Rightarrow> string \<Rightarrow> date \<Rightarrow> gate_db \<Rightarrow> (string \<times> grant_state \<times> bool) \<times> gate_db"
where
  "ensureGrantForHolder existing newId facilityId cause now db =
    (case existing of
      Some i \<Rightarrow> ((i, gr_state (the (gd_grants db i)), False), db)
    | None \<Rightarrow> ((newId, Pending, True), db\<lparr>gd_grants := (gd_grants db)(newId \<mapsto>
        \<lparr>gr_facilityId = facilityId, gr_state = Pending, gr_cause = cause, gr_updatedAt = now\<rparr>)\<rparr>))"

text \<open>A row whose key is taken is skipped.\<close>

definition enqueueCommand :: "date \<Rightarrow> command_input \<Rightarrow> gate_db \<Rightarrow> gate_db" where
  "enqueueCommand now x db =
    (if ci_key x \<in> set (map ci_key (gd_commands db)) then db
     else db\<lparr>gd_commands := gd_commands db @
       [command_input.extend x \<lparr>gc_status = Queued, gc_attempts = 0, gc_nextAttemptAt = now,
         gc_lastError = None, gc_deadLetteredAt = None, gc_completedAt = None\<rparr>]\<rparr>)"

definition command_for :: "grant_state \<Rightarrow> grant_state \<Rightarrow> command_type" where
  "command_for src to =
    (if to = Active then (if src = Suspended then Resume_access else Grant_access)
     else if to = Suspended then Suspend_access else Revoke_access)"

definition event_for :: "grant_state \<Rightarrow> grant_state \<Rightarrow> string" where
  "event_for src to =
    (if to = Active then (if src = Suspended then ''access.restored'' else ''access.granted'')
     else if to = Suspended then ''access.suspended'' else ''access.revoked'')"

datatype transition_result = Moved grant_state bool | No_such_grant | Refused transition_refusal

definition transitionGrant ::
  "string \<Rightarrow> grant_state \<Rightarrow> string \<Rightarrow> date \<Rightarrow> gate_db \<Rightarrow> transition_result \<times> gate_db"
where
  "transitionGrant grantId to cause now db =
    (case gd_grants db grantId of
      None \<Rightarrow> (No_such_grant, db)
    | Some g \<Rightarrow> let src = gr_state g in
        (case canTransition src to of
          Some reason \<Rightarrow> (if src = to then (Moved src False, db) else (Refused reason, db))
        | None \<Rightarrow>
            let db1 = db\<lparr>gd_grants := (gd_grants db)(grantId \<mapsto>
                  g\<lparr>gr_state := to, gr_cause := cause, gr_updatedAt := now\<rparr>)\<rparr>;
                db2 = enqueueCommand now \<lparr>ci_facilityId = gr_facilityId g, ci_grantId = Some grantId,
                  ci_credentialId = None, ci_type = command_for src to,
                  ci_key = Grant_key grantId to (gr_updatedAt g)\<rparr> db1;
                db3 = db2\<lparr>gd_events := gd_events db2 @ [\<lparr>ge_name = event_for src to,
                  ge_facilityId = gr_facilityId g, ge_entity = Access_grant grantId\<rparr>]\<rparr>
            in (Moved to True, db3)))"

section \<open>Credentials\<close>

definition MAX_CODE_ATTEMPTS :: nat where "MAX_CODE_ATTEMPTS = 20"

definition hash_taken :: "gate_db \<Rightarrow> string list \<Rightarrow> string \<Rightarrow> string \<Rightarrow> bool" where
  "hash_taken db ids facilityId h = list_ex (\<lambda>i. case gd_credentials db i of
      Some c \<Rightarrow> cr_facilityId c = facilityId \<and> cr_codeHash c = h \<and> cr_active c | None \<Rightarrow> False) ids"

text \<open>The generator's draws are a list; only the first twenty are tried. \<open>ids\<close> lists the credential
  table.\<close>

definition generateUniqueCode ::
  "(string \<Rightarrow> string) \<Rightarrow> string list \<Rightarrow> string list \<Rightarrow> string \<Rightarrow> gate_db \<Rightarrow> (string \<times> string) option"
where
  "generateUniqueCode hashCode ids draws facilityId db =
    map_option (\<lambda>code. (code, hashCode code))
      (find (\<lambda>code. \<not> hash_taken db ids facilityId (hashCode code)) (take MAX_CODE_ATTEMPTS draws))"

definition issueCredential ::
  "(string \<Rightarrow> string) \<Rightarrow> string list \<Rightarrow> string list \<Rightarrow> string \<Rightarrow> string option \<Rightarrow> string \<Rightarrow> date \<Rightarrow> gate_db \<Rightarrow>
    ((string \<times> string) \<times> gate_db) option"
where
  "issueCredential hashCode ids draws grantId leaseId newId now db =
    (case gd_grants db grantId of
      None \<Rightarrow> None
    | Some g \<Rightarrow> (case generateUniqueCode hashCode ids draws (gr_facilityId g) db of
        None \<Rightarrow> None
      | Some (code, codeHash) \<Rightarrow>
          let db1 = db\<lparr>gd_credentials := (gd_credentials db)(newId \<mapsto>
                \<lparr>cr_facilityId = gr_facilityId g, cr_grantId = grantId, cr_leaseId = leaseId,
                 cr_codeHash = codeHash, cr_active = True, cr_sync = Sync_pending\<rparr>)\<rparr>;
              db2 = enqueueCommand now \<lparr>ci_facilityId = gr_facilityId g, ci_grantId = Some grantId,
                ci_credentialId = Some newId, ci_type = Set_credential, ci_key = Credential_key newId\<rparr> db1
          in Some ((newId, code), db2)))"

definition revokeCredential :: "string \<Rightarrow> date \<Rightarrow> gate_db \<Rightarrow> bool \<times> gate_db" where
  "revokeCredential credentialId now db =
    (case gd_credentials db credentialId of
      None \<Rightarrow> (False, db)
    | Some c \<Rightarrow> if \<not> cr_active c then (False, db)
        else let db1 = db\<lparr>gd_credentials := (gd_credentials db)(credentialId \<mapsto>
                  c\<lparr>cr_active := False, cr_sync := Sync_pending\<rparr>)\<rparr>
          in (True, enqueueCommand now \<lparr>ci_facilityId = cr_facilityId c, ci_grantId = Some (cr_grantId c),
            ci_credentialId = Some credentialId, ci_type = Revoke_credential,
            ci_key = Revoke_key credentialId\<rparr> db1))"

section \<open>The drain\<close>

definition MAX_ATTEMPTS :: nat where "MAX_ATTEMPTS = 5"

definition gate_backoffMs :: "nat \<Rightarrow> int" where
  "gate_backoffMs attempts = min (60000 * 2 ^ attempts) (30 * 60000)"

datatype send_outcome = Accepted | Rejected bool string

record drain_result =
  dn_attempted :: nat
  dn_succeeded :: nat
  dn_failed :: nat
  dn_deadLettered :: nat
  dn_manual :: nat

definition is_due :: "date \<Rightarrow> string option \<Rightarrow> gate_command \<Rightarrow> bool" where
  "is_due now facilityId c \<longleftrightarrow> gc_status c \<in> {Queued, Failing} \<and> gc_nextAttemptAt c \<le> now \<and>
    (facilityId = None \<or> facilityId = Some (ci_facilityId c))"

definition due_commands :: "date \<Rightarrow> string option \<Rightarrow> gate_db \<Rightarrow> gate_command list" where
  "due_commands now facilityId db = take 100 (filter (is_due now facilityId) (gd_commands db))"

definition update_command :: "command_key \<Rightarrow> (gate_command \<Rightarrow> gate_command) \<Rightarrow> gate_db \<Rightarrow> gate_db" where
  "update_command k f db =
    db\<lparr>gd_commands := map (\<lambda>c. if ci_key c = k then f c else c) (gd_commands db)\<rparr>"

definition set_sync :: "string option \<Rightarrow> sync_status \<Rightarrow> gate_db \<Rightarrow> gate_db" where
  "set_sync credentialId s db = (case credentialId of
      None \<Rightarrow> db
    | Some i \<Rightarrow> (case gd_credentials db i of
        None \<Rightarrow> db
      | Some c \<Rightarrow> db\<lparr>gd_credentials := (gd_credentials db)(i \<mapsto> c\<lparr>cr_sync := s\<rparr>)\<rparr>))"

definition settle_sent :: "date \<Rightarrow> gate_command \<Rightarrow> gate_db \<Rightarrow> gate_db" where
  "settle_sent t command db = set_sync (ci_credentialId command) Synced
    (update_command (ci_key command) (\<lambda>c. c\<lparr>gc_status := Sent, gc_completedAt := Some t,
      gc_attempts := gc_attempts command + 1\<rparr>) db)"

definition giveUp :: "bool \<Rightarrow> gate_command \<Rightarrow> bool" where
  "giveUp retryable command \<longleftrightarrow> \<not> retryable \<or> MAX_ATTEMPTS \<le> gc_attempts command + 1"

definition settle_rejected :: "date \<Rightarrow> date \<Rightarrow> bool \<Rightarrow> string \<Rightarrow> gate_command \<Rightarrow> gate_db \<Rightarrow> gate_db" where
  "settle_rejected now t retryable message command db = (
    let attempts = gc_attempts command + 1;
        db1 = update_command (ci_key command) (\<lambda>c. c\<lparr>
          gc_status := (if giveUp retryable command then Dead else Failing), gc_attempts := attempts,
          gc_lastError := Some message, gc_nextAttemptAt := now + gate_backoffMs attempts,
          gc_deadLetteredAt := (if giveUp retryable command then Some t else None)\<rparr>) db
    in if giveUp retryable command
       then (let db2 = set_sync (ci_credentialId command) Sync_failed db1
         in db2\<lparr>gd_events := gd_events db2 @ [\<lparr>ge_name = ''access.sync_failed'',
           ge_facilityId = ci_facilityId command,
           ge_entity = Gate_command (ci_key command)\<rparr>]\<rparr>)
       else db1)"

definition park_manual :: "gate_command \<Rightarrow> gate_db \<Rightarrow> gate_db" where
  "park_manual command db = (let db1 = update_command (ci_key command) (\<lambda>c. c\<lparr>gc_status := Awaiting_manual\<rparr>) db
    in db1\<lparr>gd_tasks := List.insert (ci_key command) (gd_tasks db1)\<rparr>)"

type_synonym 'c adapter = "'c \<Rightarrow> gate_command \<Rightarrow> 'c \<times> send_outcome"

fun drain_loop ::
  "(string \<Rightarrow> bool) \<Rightarrow> 'c adapter \<Rightarrow> date \<Rightarrow> date \<Rightarrow> gate_command list \<Rightarrow> 'c \<times> gate_db \<times> drain_result \<Rightarrow>
    'c \<times> gate_db \<times> drain_result"
where
  "drain_loop manual send now t [] st = st"
| "drain_loop manual send now t (command # commands) (s, db, r) = (
    let r = r\<lparr>dn_attempted := dn_attempted r + 1\<rparr> in
    if manual (ci_facilityId command)
    then drain_loop manual send now t commands (s, park_manual command db, r\<lparr>dn_manual := dn_manual r + 1\<rparr>)
    else (case send s command of
        (s', Accepted) \<Rightarrow>
          drain_loop manual send now t commands (s', settle_sent t command db, r\<lparr>dn_succeeded := dn_succeeded r + 1\<rparr>)
      | (s', Rejected retryable message) \<Rightarrow>
          drain_loop manual send now t commands (s', settle_rejected now t retryable message command db,
            if giveUp retryable command then r\<lparr>dn_deadLettered := dn_deadLettered r + 1\<rparr>
            else r\<lparr>dn_failed := dn_failed r + 1\<rparr>)))"

definition drainGateCommands ::
  "(string \<Rightarrow> bool) \<Rightarrow> 'c adapter \<Rightarrow> date \<Rightarrow> date \<Rightarrow> string option \<Rightarrow> 'c \<Rightarrow> gate_db \<Rightarrow> 'c \<times> gate_db \<times> drain_result"
where
  "drainGateCommands manual send now t facilityId s db =
    drain_loop manual send now t (due_commands now facilityId db)
      (s, db, \<lparr>dn_attempted = 0, dn_succeeded = 0, dn_failed = 0, dn_deadLettered = 0, dn_manual = 0\<rparr>)"

section \<open>What the commands tell the controller\<close>

text \<open>The effect of a command on who may pass.\<close>

definition obey :: "(string \<Rightarrow> bool) \<Rightarrow> 'x command_input_scheme \<Rightarrow> string \<Rightarrow> bool" where
  "obey opens c = (case ci_grantId c of
      None \<Rightarrow> opens
    | Some i \<Rightarrow> (case ci_type c of
        Grant_access \<Rightarrow> opens(i := True)
      | Resume_access \<Rightarrow> opens(i := True)
      | Suspend_access \<Rightarrow> opens(i := False)
      | Revoke_access \<Rightarrow> opens(i := False)
      | Set_credential \<Rightarrow> opens
      | Revoke_credential \<Rightarrow> opens))"

abbreviation told :: "'x command_input_scheme list \<Rightarrow> string \<Rightarrow> bool" where
  "told cs \<equiv> foldl obey (\<lambda>_. False) cs"

abbreviation core :: "gate_command \<Rightarrow> command_input" where
  "core c \<equiv> command_input.truncate c"

lemma core_simps [simp]:
  "ci_key (core c) = ci_key c" "ci_grantId (core c) = ci_grantId c" "ci_type (core c) = ci_type c"
  "ci_facilityId (core c) = ci_facilityId c" "ci_credentialId (core c) = ci_credentialId c"
  by (simp_all add: command_input.truncate_def)

lemma obey_core: "obey b (core c) = obey b c"
  unfolding obey_def core_simps by (rule refl)

lemma told_core: "foldl obey b (map core cs) = foldl obey b cs"
  by (induction cs arbitrary: b) (simp_all add: obey_core)

lemma keys_core: "map ci_key (map core cs) = map ci_key cs"
  by (induction cs) simp_all

lemma core_update: "(\<And>c. core (f c) = core c) \<Longrightarrow>
    map core (map (\<lambda>c. if ci_key c = k then f c else c) cs) = map core cs"
  by (induction cs) simp_all

lemma core_gc [simp]:
  "core (c\<lparr>gc_status := s\<rparr>) = core c" "core (c\<lparr>gc_attempts := n\<rparr>) = core c"
  "core (c\<lparr>gc_nextAttemptAt := d\<rparr>) = core c" "core (c\<lparr>gc_lastError := e\<rparr>) = core c"
  "core (c\<lparr>gc_deadLetteredAt := x\<rparr>) = core c" "core (c\<lparr>gc_completedAt := x\<rparr>) = core c"
  by (simp_all add: command_input.truncate_def)

lemma set_sync_frame [simp]:
  "gd_grants (set_sync i s db) = gd_grants db" "gd_commands (set_sync i s db) = gd_commands db"
  "gd_events (set_sync i s db) = gd_events db"
  by (simp_all add: set_sync_def split: option.split)

text \<open>A drain moves rows, it never adds, drops or rewrites a command, and it never touches a grant.\<close>

definition same_orders :: "gate_db \<Rightarrow> gate_db \<Rightarrow> bool" where
  "same_orders db db' \<longleftrightarrow> gd_grants db' = gd_grants db \<and>
    map core (gd_commands db') = map core (gd_commands db)"

lemma same_orders_trans: "same_orders a b \<Longrightarrow> same_orders b c \<Longrightarrow> same_orders a c"
  by (simp add: same_orders_def)

lemma same_orders_settle:
  "same_orders db (park_manual c db)" "same_orders db (settle_sent t c db)"
  "same_orders db (settle_rejected now t retryable message c db)"
  by (simp_all add: same_orders_def park_manual_def settle_sent_def settle_rejected_def update_command_def
      core_update Let_def del: map_map)

lemma drain_loop_orders: "same_orders db (fst (snd (drain_loop manual send now t cs (s, db, r))))"
proof (induction cs arbitrary: s db r)
  case Nil
  then show ?case by (simp add: same_orders_def)
next
  case (Cons c cs)
  show ?case
  proof (cases "manual (ci_facilityId c)")
    case True
    then show ?thesis by (simp add: Let_def same_orders_trans [OF same_orders_settle(1) Cons.IH])
  next
    case False
    obtain s' out where send: "send s c = (s', out)" by fastforce
    show ?thesis
    proof (cases out)
      case Accepted
      then show ?thesis using False send
        by (simp add: Let_def same_orders_trans [OF same_orders_settle(2) Cons.IH])
    next
      case (Rejected retryable message)
      then show ?thesis using False send
        by (simp add: Let_def same_orders_trans [OF same_orders_settle(3) Cons.IH])
    qed
  qed
qed

lemma drain_orders: "same_orders db (fst (snd (drainGateCommands manual send now t facilityId s db)))"
  by (simp add: drainGateCommands_def drain_loop_orders)

subsection \<open>The system\<close>

text \<open>What may happen to the tables and the controller: each operation once, at a time the database
  hands out. A grant is moved at a later millisecond than it was last written.\<close>

inductive gate_step ::
  "(string \<Rightarrow> bool) \<Rightarrow> 'c adapter \<Rightarrow> 'c \<times> gate_db \<Rightarrow> 'c \<times> gate_db \<Rightarrow> bool"
  for manual send
where
  create_grant: "gd_grants db newId = None \<Longrightarrow>
    gate_step manual send (s, db) (s, snd (ensureGrantForHolder None newId facilityId cause now db))"
| move_grant: "(\<And>g. gd_grants db grantId = Some g \<Longrightarrow> gr_updatedAt g < now) \<Longrightarrow>
    gate_step manual send (s, db) (s, snd (transitionGrant grantId to cause now db))"
| issue: "issueCredential hashCode ids draws grantId leaseId newId now db = Some (issued, db') \<Longrightarrow>
    gate_step manual send (s, db) (s, db')"
| withdraw: "gate_step manual send (s, db) (s, snd (revokeCredential credentialId now db))"
| drain: "drainGateCommands manual send now t facilityId s db = (s', db', r) \<Longrightarrow>
    gate_step manual send (s, db) (s', db')"

inductive_cases gate_stepE [elim]: "gate_step manual send (s, db) (s', db')"

definition no_access :: gate_db where
  "no_access = \<lparr>gd_grants = Map.empty, gd_credentials = Map.empty, gd_commands = [], gd_events = [],
    gd_tasks = []\<rparr>"

text \<open>The queue, in the order it was filled, tells the controller exactly which grants are active.\<close>

definition orders_ok :: "gate_db \<Rightarrow> bool" where
  "orders_ok db \<longleftrightarrow> distinct (map ci_key (gd_commands db)) \<and>
    (\<forall>c \<in> set (gd_commands db). \<forall>i st u. ci_key c = Grant_key i st u \<longrightarrow>
      (\<exists>g. gd_grants db i = Some g \<and> u < gr_updatedAt g)) \<and>
    (\<forall>i. told (gd_commands db) i \<longleftrightarrow> (\<exists>g. gd_grants db i = Some g \<and> opensGate (gr_state g)))"

lemma orders_ok_same:
  assumes "same_orders db db'" and "orders_ok db"
  shows "orders_ok db'"
proof -
  have g: "gd_grants db' = gd_grants db" and c: "map core (gd_commands db') = map core (gd_commands db)"
    using assms(1) by (simp_all add: same_orders_def)
  have keys: "map ci_key (gd_commands db') = map ci_key (gd_commands db)"
    using arg_cong [OF c, of "map ci_key"] by (simp only: keys_core)
  have told: "told (gd_commands db') = told (gd_commands db)"
    using arg_cong [OF c, of told] by (simp only: told_core)
  have ks: "ci_key ` set (gd_commands db') = ci_key ` set (gd_commands db)"
    using arg_cong [OF keys, of set] by (simp only: set_map)
  show ?thesis
    unfolding orders_ok_def
  proof (intro conjI ballI allI impI)
    show "distinct (map ci_key (gd_commands db'))" using assms(2) by (simp add: keys orders_ok_def)
    show "told (gd_commands db') i \<longleftrightarrow> (\<exists>g. gd_grants db' i = Some g \<and> opensGate (gr_state g))" for i
      using assms(2) by (simp add: told g orders_ok_def)
    fix c i st u assume "c \<in> set (gd_commands db')" and k: "ci_key c = Grant_key i st u"
    then obtain c' where "c' \<in> set (gd_commands db)" "ci_key c' = Grant_key i st u"
      using ks by (metis imageE imageI)
    then show "\<exists>g. gd_grants db' i = Some g \<and> u < gr_updatedAt g"
      using assms(2) unfolding g orders_ok_def by blast
  qed
qed

lemma enqueue_frame [simp]:
  "gd_grants (enqueueCommand now x db) = gd_grants db" "gd_events (enqueueCommand now x db) = gd_events db"
  "gd_credentials (enqueueCommand now x db) = gd_credentials db"
  by (simp_all add: enqueueCommand_def)

abbreviation queued :: "date \<Rightarrow> command_input \<Rightarrow> gate_command" where
  "queued now x \<equiv> command_input.extend x \<lparr>gc_status = Queued, gc_attempts = 0, gc_nextAttemptAt = now,
    gc_lastError = None, gc_deadLetteredAt = None, gc_completedAt = None\<rparr>"

lemma queued_simps [simp]:
  "ci_key (queued now x) = ci_key x" "ci_grantId (queued now x) = ci_grantId x"
  "ci_type (queued now x) = ci_type x" "ci_facilityId (queued now x) = ci_facilityId x"
  "gc_attempts (queued now x) = 0" "gc_status (queued now x) = Queued"
  by (simp_all add: command_input.extend_def)

lemma enqueue_commands:
  "gd_commands (enqueueCommand now x db) =
    (if ci_key x \<in> ci_key ` set (gd_commands db) then gd_commands db else gd_commands db @ [queued now x])"
  by (simp add: enqueueCommand_def)

lemma orders_ok_neutral:
  assumes ok: "orders_ok db" and g: "gd_grants db' = gd_grants db"
    and c: "gd_commands db' = gd_commands (enqueueCommand now x db)"
    and x: "ci_type x = Set_credential \<or> ci_type x = Revoke_credential" "\<And>i st u. ci_key x \<noteq> Grant_key i st u"
  shows "orders_ok db'"
proof -
  have "obey b (queued now x) = b" for b
    using x(1) by (auto simp: obey_def fun_eq_iff split: option.split)
  then show ?thesis
    using ok x(2) by (auto simp: orders_ok_def g c enqueue_commands)
qed

text \<open>What a move of a grant does on every branch.\<close>

lemma transition_refused:
  "gd_grants db i = Some g \<Longrightarrow> canTransition (gr_state g) to \<noteq> None \<Longrightarrow> snd (transitionGrant i to cause now db) = db"
  by (auto simp: transitionGrant_def Let_def)

lemma transition_move:
  assumes "gd_grants db i = Some g" and "canTransition (gr_state g) to = None"
    and "Grant_key i to (gr_updatedAt g) \<notin> ci_key ` set (gd_commands db)"
  shows "fst (transitionGrant i to cause now db) = Moved to True"
    and "gd_grants (snd (transitionGrant i to cause now db)) =
      (gd_grants db)(i \<mapsto> g\<lparr>gr_state := to, gr_cause := cause, gr_updatedAt := now\<rparr>)"
    and "gd_commands (snd (transitionGrant i to cause now db)) = gd_commands db @
      [queued now \<lparr>ci_facilityId = gr_facilityId g, ci_grantId = Some i, ci_credentialId = None,
        ci_type = command_for (gr_state g) to, ci_key = Grant_key i to (gr_updatedAt g)\<rparr>]"
    and "gd_events (snd (transitionGrant i to cause now db)) = gd_events db @
      [\<lparr>ge_name = event_for (gr_state g) to, ge_facilityId = gr_facilityId g, ge_entity = Access_grant i\<rparr>]"
  using assms by (simp_all add: transitionGrant_def Let_def enqueue_commands)

lemma event_for_known: "canTransition src to = None \<Longrightarrow> isKnownEvent (event_for src to)"
  by (cases to) (auto simp: event_for_def isKnownEvent_def EVENT_NAMES_def)

lemma orders_ok_fresh:
  assumes ok: "orders_ok db" and g: "gd_grants db i = Some g"
  shows "Grant_key i to (gr_updatedAt g) \<notin> ci_key ` set (gd_commands db)"
proof
  assume "Grant_key i to (gr_updatedAt g) \<in> ci_key ` set (gd_commands db)"
  then obtain c where "c \<in> set (gd_commands db)" "ci_key c = Grant_key i to (gr_updatedAt g)" by auto
  then obtain g' where "gd_grants db i = Some g'" "gr_updatedAt g < gr_updatedAt g'"
    using ok unfolding orders_ok_def by blast
  then show False using g by simp
qed

lemma orders_ok_transition:
  assumes ok: "orders_ok db" and later: "\<And>g. gd_grants db i = Some g \<Longrightarrow> gr_updatedAt g < now"
  shows "orders_ok (snd (transitionGrant i to cause now db))"
proof (cases "gd_grants db i")
  case None
  then show ?thesis using ok by (simp add: transitionGrant_def)
next
  case (Some g)
  show ?thesis
  proof (cases "canTransition (gr_state g) to")
    case (Some reason)
    then show ?thesis using transition_refused [OF \<open>gd_grants db i = Some g\<close>] ok by simp
  next
    case None
    have fresh: "Grant_key i to (gr_updatedAt g) \<notin> ci_key ` set (gd_commands db)"
      by (rule orders_ok_fresh [OF ok Some])
    have legal: "to \<noteq> gr_state g" "to \<in> set (ALLOWED (gr_state g))"
      using None by (auto simp: canTransition_def split: if_splits)
    let ?x = "\<lparr>ci_facilityId = gr_facilityId g, ci_grantId = Some i, ci_credentialId = None,
        ci_type = command_for (gr_state g) to, ci_key = Grant_key i to (gr_updatedAt g)\<rparr>"
    have obeys: "obey b (queued now ?x) = b(i := opensGate to)" for b
      using legal by (cases to; cases "gr_state g") (simp_all add: obey_def command_for_def opensGate_def)
    note move = transition_move [OF Some None fresh]
    have told: "told (gd_commands db) j \<longleftrightarrow> (\<exists>g. gd_grants db j = Some g \<and> opensGate (gr_state g))" for j
      using ok by (simp add: orders_ok_def)
    show ?thesis
      unfolding orders_ok_def move(2,3)
    proof (intro conjI ballI allI impI)
      show "distinct (map ci_key (gd_commands db @ [queued now ?x]))"
        using ok fresh by (simp add: orders_ok_def)
      show "told (gd_commands db @ [queued now ?x]) j \<longleftrightarrow>
        (\<exists>h. ((gd_grants db)(i \<mapsto> g\<lparr>gr_state := to, gr_cause := cause, gr_updatedAt := now\<rparr>)) j = Some h \<and>
          opensGate (gr_state h))" for j
        by (simp add: obeys told)
      fix c j st u
      assume "c \<in> set (gd_commands db @ [queued now ?x])" and k: "ci_key c = Grant_key j st u"
      then consider "c \<in> set (gd_commands db)" | "j = i" "u = gr_updatedAt g" by auto
      then show "\<exists>h. ((gd_grants db)(i \<mapsto> g\<lparr>gr_state := to, gr_cause := cause, gr_updatedAt := now\<rparr>)) j = Some h \<and>
          u < gr_updatedAt h"
      proof cases
        case 1
        then obtain h where "gd_grants db j = Some h" "u < gr_updatedAt h"
          using ok k unfolding orders_ok_def by blast
        then show ?thesis using later Some by (cases "j = i") fastforce+
      next
        case 2
        then show ?thesis using later Some by simp
      qed
    qed
  qed
qed

lemma orders_ok_create:
  "orders_ok db \<Longrightarrow> gd_grants db i = None \<Longrightarrow>
    orders_ok (snd (ensureGrantForHolder None i facilityId cause now db))"
  by (fastforce simp: orders_ok_def ensureGrantForHolder_def opensGate_def)

lemma orders_ok_issue:
  assumes ok: "orders_ok db"
    and r: "issueCredential hashCode ids draws grantId leaseId newId now db = Some (issued, db')"
  shows "orders_ok db'"
proof -
  obtain g code h where g: "gd_grants db grantId = Some g"
    "generateUniqueCode hashCode ids draws (gr_facilityId g) db = Some (code, h)"
    using r by (auto simp: issueCredential_def split: option.splits)
  show ?thesis
  proof (rule orders_ok_neutral [OF ok])
    from g show "gd_grants db' = gd_grants db"
    "gd_commands db' = gd_commands (enqueueCommand now \<lparr>ci_facilityId = gr_facilityId g,
      ci_grantId = Some grantId, ci_credentialId = Some newId, ci_type = Set_credential,
      ci_key = Credential_key newId\<rparr> db)"
      using r by (auto simp: issueCredential_def Let_def enqueue_commands)
  qed simp_all
qed

lemma orders_ok_withdraw:
  assumes ok: "orders_ok db"
  shows "orders_ok (snd (revokeCredential i now db))"
proof (cases "\<exists>c. gd_credentials db i = Some c \<and> cr_active c")
  case True
  then obtain c where c: "gd_credentials db i = Some c" "cr_active c" by blast
  show ?thesis
  proof (rule orders_ok_neutral [OF ok])
    show "gd_grants (snd (revokeCredential i now db)) = gd_grants db"
      "gd_commands (snd (revokeCredential i now db)) = gd_commands (enqueueCommand now
        \<lparr>ci_facilityId = cr_facilityId c, ci_grantId = Some (cr_grantId c), ci_credentialId = Some i,
         ci_type = Revoke_credential, ci_key = Revoke_key i\<rparr> db)"
      using c by (simp_all add: revokeCredential_def Let_def enqueue_commands)
  qed simp_all
next
  case False
  then show ?thesis using ok by (auto simp: revokeCredential_def split: option.split)
qed

interpretation orders: invariant_of "gate_step manual send" "\<lambda>st. orders_ok (snd st)"
    "\<lambda>st. snd st = no_access"
proof
  fix st st' :: "'a \<times> gate_db"
  assume "gate_step manual send st st'" "orders_ok (snd st)"
  then show "orders_ok (snd st')"
  proof cases
    case (drain now t facilityId s db s' db' r)
    have "same_orders db db'"
      using drain_orders [of db manual send now t facilityId s] drain(3) by simp
    then show ?thesis using drain \<open>orders_ok (snd st)\<close> orders_ok_same by simp
  qed (auto intro: orders_ok_create orders_ok_transition orders_ok_issue orders_ok_withdraw)
next
  fix st :: "'a \<times> gate_db"
  assume "snd st = no_access"
  then show "orders_ok (snd st)" by (simp add: no_access_def orders_ok_def)
qed

text \<open>The queue is append-only and a revoked grant stays revoked.\<close>

lemma transition_frame:
  "gd_grants (snd (transitionGrant i to cause now db)) j =
    (if j = i \<and> (\<exists>g. gd_grants db i = Some g \<and> canTransition (gr_state g) to = None)
     then Some ((the (gd_grants db i))\<lparr>gr_state := to, gr_cause := cause, gr_updatedAt := now\<rparr>)
     else gd_grants db j)"
  "\<exists>cs. map core (gd_commands (snd (transitionGrant i to cause now db))) = map core (gd_commands db) @ cs"
  by (auto simp: transitionGrant_def Let_def enqueue_commands split: option.split)

lemma issue_frame:
  assumes "issueCredential hashCode ids draws grantId leaseId newId now db = Some (issued, db')"
  shows "gd_grants db' = gd_grants db" "\<exists>cs. map core (gd_commands db') = map core (gd_commands db) @ cs"
  using assms by (auto simp: issueCredential_def Let_def enqueue_commands split: option.splits)

lemma withdraw_frame:
  "gd_grants (snd (revokeCredential i now db)) = gd_grants db"
  "\<exists>cs. map core (gd_commands (snd (revokeCredential i now db))) = map core (gd_commands db) @ cs"
  by (auto simp: revokeCredential_def Let_def enqueue_commands split: option.split)

lemma create_frame:
  "gd_commands (snd (ensureGrantForHolder None i facilityId cause now db)) = gd_commands db"
  "j \<noteq> i \<Longrightarrow> gd_grants (snd (ensureGrantForHolder None i facilityId cause now db)) j = gd_grants db j"
  by (simp_all add: ensureGrantForHolder_def)

lemma drained_frame:
  assumes "drainGateCommands manual send now t facilityId s db = (s', db', r)"
  shows "gd_grants db' = gd_grants db" "map core (gd_commands db') = map core (gd_commands db)"
  using drain_orders [of db manual send now t facilityId s] by (simp_all add: assms same_orders_def)

interpretation order_log: append_only "gate_step manual send" "\<lambda>st. map core (gd_commands (snd st))"
proof
  fix st st' :: "'a \<times> gate_db"
  assume "gate_step manual send st st'"
  then show "\<exists>cs. map core (gd_commands (snd st')) = map core (gd_commands (snd st)) @ cs"
  proof cases
    case (drain now t facilityId s db s' db' r)
    then show ?thesis by (simp add: drained_frame(2) [OF drain(3)])
  qed (use transition_frame(2) issue_frame(2) withdraw_frame(2) in \<open>simp_all add: create_frame(1)\<close>)
qed

definition is_revoked :: "string \<Rightarrow> gate_db \<Rightarrow> bool" where
  "is_revoked i db \<longleftrightarrow> (\<exists>g. gd_grants db i = Some g \<and> gr_state g = Revoked)"

lemma revoked_is_final: "canTransition Revoked to \<noteq> None"
  by (simp add: canTransition_def)

interpretation final: preserved "gate_step manual send" "\<lambda>st. is_revoked i (snd st)"
proof
  fix st st' :: "'a \<times> gate_db"
  assume step: "gate_step manual send st st'" and "is_revoked i (snd st)"
  then obtain g where g: "gd_grants (snd st) i = Some g" "gr_state g = Revoked"
    unfolding is_revoked_def by blast
  have "gd_grants (snd st') i = Some g"
    using step
  proof cases
    case (create_grant db newId s facilityId cause now)
    then show ?thesis using g create_frame(2) [of i newId] by (cases "newId = i") simp_all
  next
    case (move_grant db grantId now s to cause)
    then show ?thesis using g revoked_is_final [of to] by (auto simp: transition_frame(1))
  next
    case (drain now t facilityId s db s' db' r)
    then show ?thesis using g by (simp add: drained_frame(1) [OF drain(3)])
  qed (use g issue_frame(1) withdraw_frame(1) in simp_all)
  then show "is_revoked i (snd st')" using g unfolding is_revoked_def by blast
qed


text \<open>A tenant who has just moved in.\<close>

definition moved_in :: gate_db where
  "moved_in = snd (transitionGrant ''g'' Active ''system:move_in'' 5
    (snd (ensureGrantForHolder None ''g'' ''f'' ''system:move_in'' 3 no_access)))"

lemma moved_in_reachable: "(gate_step manual send)\<^sup>*\<^sup>* (s, no_access) (s, moved_in)"
proof -
  let ?a = "snd (ensureGrantForHolder None ''g'' ''f'' ''system:move_in'' 3 no_access)"
  have "gate_step manual send (s, no_access) (s, ?a)"
    by (rule create_grant) (simp add: no_access_def)
  moreover have "gate_step manual send (s, ?a) (s, moved_in)"
    unfolding moved_in_def by (rule move_grant) (simp add: ensureGrantForHolder_def split: if_splits)
  ultimately show ?thesis by (meson converse_rtranclp_into_rtranclp rtranclp.rtrancl_refl)
qed

lemma moved_in_eq: "moved_in = \<lparr>
    gd_grants = [''g'' \<mapsto> \<lparr>gr_facilityId = ''f'', gr_state = Active, gr_cause = ''system:move_in'', gr_updatedAt = 5\<rparr>],
    gd_credentials = Map.empty,
    gd_commands = [queued 5 \<lparr>ci_facilityId = ''f'', ci_grantId = Some ''g'', ci_credentialId = None,
      ci_type = Grant_access, ci_key = Grant_key ''g'' Active 3\<rparr>],
    gd_events = [\<lparr>ge_name = ''access.granted'', ge_facilityId = ''f'', ge_entity = Access_grant ''g''\<rparr>],
    gd_tasks = []\<rparr>"
  by (simp add: moved_in_def ensureGrantForHolder_def transitionGrant_def enqueueCommand_def no_access_def
      canTransition_def command_for_def event_for_def)


section \<open>What a drain does\<close>

text \<open>The row a due command becomes.\<close>

definition sent_row :: "date \<Rightarrow> gate_command \<Rightarrow> gate_command \<Rightarrow> gate_command" where
  "sent_row t command c = c\<lparr>gc_status := Sent, gc_completedAt := Some t, gc_attempts := gc_attempts command + 1\<rparr>"

definition rejected_row :: "date \<Rightarrow> date \<Rightarrow> bool \<Rightarrow> string \<Rightarrow> gate_command \<Rightarrow> gate_command \<Rightarrow> gate_command" where
  "rejected_row now t retryable message command c = c\<lparr>
    gc_status := (if giveUp retryable command then Dead else Failing), gc_attempts := gc_attempts command + 1,
    gc_lastError := Some message, gc_nextAttemptAt := now + gate_backoffMs (gc_attempts command + 1),
    gc_deadLetteredAt := (if giveUp retryable command then Some t else None)\<rparr>"

definition processed ::
  "(string \<Rightarrow> bool) \<Rightarrow> date \<Rightarrow> date \<Rightarrow> gate_command \<Rightarrow> gate_command \<Rightarrow> gate_command \<Rightarrow> bool"
where
  "processed manual now t command c c' \<longleftrightarrow>
    (if manual (ci_facilityId command) then c' = c\<lparr>gc_status := Awaiting_manual\<rparr>
     else c' = sent_row t command c \<or> (\<exists>retryable message. c' = rejected_row now t retryable message command c))"

lemma row_keys [simp]:
  "ci_key (sent_row t command c) = ci_key c" "ci_key (rejected_row now t retryable message command c) = ci_key c"
  by (simp_all add: sent_row_def rejected_row_def)

lemma settle_rows:
  "gd_commands (park_manual command db) = map (\<lambda>c. if ci_key c = ci_key command
    then c\<lparr>gc_status := Awaiting_manual\<rparr> else c) (gd_commands db)"
  "gd_commands (settle_sent t command db) = map (\<lambda>c. if ci_key c = ci_key command
    then sent_row t command c else c) (gd_commands db)"
  "gd_commands (settle_rejected now t retryable message command db) = map (\<lambda>c. if ci_key c = ci_key command
    then rejected_row now t retryable message command c else c) (gd_commands db)"
  by (simp_all add: park_manual_def settle_sent_def settle_rejected_def update_command_def Let_def sent_row_def
      rejected_row_def)

text \<open>The rows a drain of \<open>cs\<close> leaves: one function of the rows before it.\<close>

definition rows_by ::
  "(string \<Rightarrow> bool) \<Rightarrow> date \<Rightarrow> date \<Rightarrow> gate_command list \<Rightarrow> (gate_command \<Rightarrow> gate_command) \<Rightarrow> bool"
where
  "rows_by manual now t cs f \<longleftrightarrow> (\<forall>c. ci_key (f c) = ci_key c \<and> (ci_key c \<notin> ci_key ` set cs \<longrightarrow> f c = c)) \<and>
    (\<forall>command \<in> set cs. \<forall>c. ci_key c = ci_key command \<longrightarrow> processed manual now t command c (f c))"

lemma rows_by_Cons:
  assumes f: "rows_by manual now t cs f" and fresh: "ci_key command \<notin> ci_key ` set cs"
    and h: "\<And>c. ci_key (h c) = ci_key c" "\<And>c. processed manual now t command c (h c)"
  shows "rows_by manual now t (command # cs) (\<lambda>c. f (if ci_key c = ci_key command then h c else c))"
  using assms unfolding rows_by_def by (auto simp: image_iff)

lemma drain_loop_rows:
  "distinct (map ci_key cs) \<Longrightarrow> \<exists>f. rows_by manual now t cs f \<and>
    gd_commands (fst (snd (drain_loop manual send now t cs (s, db, r)))) = map f (gd_commands db)"
proof (induction cs arbitrary: s db r)
  case Nil
  have "rows_by manual now t [] (\<lambda>c. c)" by (simp add: rows_by_def)
  then show ?case by fastforce
next
  case (Cons command cs)
  have d: "distinct (map ci_key cs)" "ci_key command \<notin> ci_key ` set cs" using Cons.prems by auto
  have rest: "\<exists>f. rows_by manual now t (command # cs) f \<and>
      gd_commands (fst (snd (drain_loop manual send now t cs (s', db', r')))) = map f (gd_commands db)"
    if db': "gd_commands db' = map (\<lambda>c. if ci_key c = ci_key command then h c else c) (gd_commands db)"
      and h: "\<And>c. ci_key (h c) = ci_key c" "\<And>c. processed manual now t command c (h c)" for s' db' r' h
  proof -
    obtain f where f: "rows_by manual now t cs f"
      "gd_commands (fst (snd (drain_loop manual send now t cs (s', db', r')))) = map f (gd_commands db')"
      using Cons.IH [OF d(1)] by blast
    show ?thesis
      using rows_by_Cons [OF f(1) d(2) h] f(2) by (auto simp: db' o_def)
  qed
  show ?case
  proof (cases "manual (ci_facilityId command)")
    case True
    then show ?thesis
      using rest [OF settle_rows(1)] by (simp add: Let_def processed_def)
  next
    case False
    obtain s' out where send: "send s command = (s', out)" by fastforce
    show ?thesis
    proof (cases out)
      case Accepted
      have "processed manual now t command c (sent_row t command c)" for c
        using False by (simp add: processed_def)
      from rest [OF settle_rows(2) row_keys(1) this] show ?thesis
        using False send Accepted by (simp add: Let_def)
    next
      case (Rejected retryable message)
      have "processed manual now t command c (rejected_row now t retryable message command c)" for c
        using False unfolding processed_def by auto
      from rest [OF settle_rows(3) row_keys(2) this] show ?thesis
        using False send Rejected by (simp add: Let_def)
    qed
  qed
qed

lemma drain_rows:
  assumes "distinct (map ci_key (gd_commands db))" and "drainGateCommands manual send now t facilityId s db = (s', db', r)"
  shows "\<exists>f. rows_by manual now t (due_commands now facilityId db) f \<and> gd_commands db' = map f (gd_commands db)"
proof -
  have "distinct (map ci_key (due_commands now facilityId db))"
    unfolding due_commands_def take_map [symmetric]
    using assms(1) by (intro distinct_take distinct_map_filter) 
  from drain_loop_rows [OF this, where manual = manual and now = now and t = t and send = send and s = s
      and db = db] show ?thesis
    using assms(2) unfolding drainGateCommands_def by (metis fst_conv snd_conv)
qed

text \<open>The counters.\<close>

lemma drain_loop_counts:
  "drain_loop manual send now t cs (s, db, r) = (s', db', r') \<Longrightarrow>
    dn_attempted r' = dn_attempted r + length cs \<and>
    dn_attempted r' + dn_succeeded r + dn_failed r + dn_deadLettered r + dn_manual r =
      dn_attempted r + dn_succeeded r' + dn_failed r' + dn_deadLettered r' + dn_manual r' \<and>
    length (gd_events db') + dn_deadLettered r = length (gd_events db) + dn_deadLettered r'"
proof (induction cs arbitrary: s db r)
  case (Cons command cs)
  have ev: "gd_events (park_manual command db) = gd_events db" "gd_events (settle_sent t command db) = gd_events db"
    "length (gd_events (settle_rejected now t retryable message command db)) = length (gd_events db) +
      (if giveUp retryable command then 1 else 0)" for retryable message
    by (simp_all add: park_manual_def settle_sent_def settle_rejected_def update_command_def Let_def)
  show ?case
  proof (cases "manual (ci_facilityId command)")
    case True
    then show ?thesis using Cons.prems by (auto simp: Let_def ev dest!: Cons.IH)
  next
    case False
    obtain s1 out where send: "send s command = (s1, out)" by fastforce
    show ?thesis
      using Cons.prems False send by (cases out) (auto simp: Let_def ev split: if_splits dest!: Cons.IH)
  qed
qed simp

text \<open>No command is sent more than five times.\<close>

definition attempts_ok :: "gate_db \<Rightarrow> bool" where
  "attempts_ok db \<longleftrightarrow> (\<forall>c \<in> set (gd_commands db). gc_attempts c \<le> MAX_ATTEMPTS \<and>
    (gc_status c \<in> {Queued, Failing} \<longrightarrow> gc_attempts c < MAX_ATTEMPTS))"

lemma attempts_ok_more:
  assumes "attempts_ok db"
    and "\<And>c. c \<in> set (gd_commands db') \<Longrightarrow> c \<in> set (gd_commands db) \<or> gc_attempts c = 0"
  shows "attempts_ok db'"
  using assms unfolding attempts_ok_def MAX_ATTEMPTS_def by fastforce

lemma new_rows:
  "c \<in> set (gd_commands (snd (transitionGrant i to cause now db))) \<Longrightarrow>
    c \<in> set (gd_commands db) \<or> gc_attempts c = 0"
  "c \<in> set (gd_commands (snd (revokeCredential i now db))) \<Longrightarrow>
    c \<in> set (gd_commands db) \<or> gc_attempts c = 0"
  "issueCredential hashCode ids draws i leaseId newId now db = Some (issued, db') \<Longrightarrow>
    c \<in> set (gd_commands db') \<Longrightarrow> c \<in> set (gd_commands db) \<or> gc_attempts c = 0"
  by (auto simp: transitionGrant_def revokeCredential_def issueCredential_def Let_def enqueue_commands
      split: option.splits if_splits)

lemmas attempts_ok_ops =
  attempts_ok_more [OF _ new_rows(1)] attempts_ok_more [OF _ new_rows(2)] attempts_ok_more [OF _ new_rows(3)]

lemma attempts_ok_create:
  "attempts_ok db \<Longrightarrow> attempts_ok (snd (ensureGrantForHolder None i facilityId cause now db))"
  by (simp add: attempts_ok_def create_frame(1))

lemma attempts_ok_drain:
  assumes ok: "attempts_ok db" and keys: "distinct (map ci_key (gd_commands db))"
    and run: "drainGateCommands manual send now t facilityId s db = (s', db', r)"
  shows "attempts_ok db'"
proof -
  let ?due = "due_commands now facilityId db"
  obtain f where f: "rows_by manual now t ?due f" "gd_commands db' = map f (gd_commands db)"
    using drain_rows [OF keys run] by blast
  have due: "c \<in> set (gd_commands db)" "gc_status c \<in> {Queued, Failing}" if "c \<in> set ?due" for c
    using that by (auto simp: due_commands_def is_due_def dest!: in_set_takeD)
  have "gc_attempts (f c) \<le> MAX_ATTEMPTS \<and> (gc_status (f c) \<in> {Queued, Failing} \<longrightarrow> gc_attempts (f c) < MAX_ATTEMPTS)"
    if c: "c \<in> set (gd_commands db)" for c
  proof (cases "ci_key c \<in> ci_key ` set ?due")
    case True
    then obtain command where command: "command \<in> set ?due" "ci_key c = ci_key command" by auto
    have "gc_attempts command < MAX_ATTEMPTS" "gc_attempts c \<le> MAX_ATTEMPTS"
      using ok due [OF command(1)] c unfolding attempts_ok_def by blast+
    moreover have "processed manual now t command c (f c)"
      using f(1) command unfolding rows_by_def by blast
    ultimately show ?thesis
      by (auto simp: processed_def sent_row_def rejected_row_def giveUp_def split: if_splits)
  next
    case False
    then have "f c = c" using f(1) unfolding rows_by_def by blast
    then show ?thesis using ok c unfolding attempts_ok_def by simp
  qed
  then show ?thesis by (simp add: attempts_ok_def f(2))
qed

interpretation attempts: invariant_of "gate_step manual send" "\<lambda>st. orders_ok (snd st) \<and> attempts_ok (snd st)"
    "\<lambda>st. snd st = no_access"
proof
  fix st st' :: "'a \<times> gate_db"
  assume step: "gate_step manual send st st'" and ok: "orders_ok (snd st) \<and> attempts_ok (snd st)"
  from step have "attempts_ok (snd st')"
  proof cases
    case (drain now t facilityId s db s' db' r)
    then show ?thesis using ok attempts_ok_drain [OF _ _ drain(3)] unfolding orders_ok_def by simp
  qed (use ok in \<open>auto intro: attempts_ok_ops attempts_ok_create\<close>)
  then show "orders_ok (snd st') \<and> attempts_ok (snd st')"
    using ok orders.step_preserves [OF step] by simp
next
  fix st :: "'a \<times> gate_db"
  assume "snd st = no_access"
  then show "orders_ok (snd st) \<and> attempts_ok (snd st)"
    by (simp add: no_access_def orders_ok_def attempts_ok_def)
qed

lemma processed_row:
  assumes "processed manual now t c c c'"
  shows "if manual (ci_facilityId c) then gc_status c' = Awaiting_manual \<and> gc_attempts c' = gc_attempts c
    else gc_attempts c' = gc_attempts c + 1 \<and> (gc_status c' = Sent \<or> gc_status c' = Dead \<or>
      gc_status c' = Failing \<and> now + 60000 < gc_nextAttemptAt c' \<and> gc_attempts c' < MAX_ATTEMPTS)"
proof -
  have "1 < 2 * (2::int) ^ gc_attempts c"
    using one_le_power [of "2::int" "gc_attempts c"] by linarith
  then have "60000 < gate_backoffMs (gc_attempts c + 1)" by (simp add: gate_backoffMs_def)
  then show ?thesis
    using assms by (auto simp: processed_def sent_row_def rejected_row_def giveUp_def split: if_splits)
qed

lemma due_mem: "c \<in> set (due_commands now facilityId db) \<Longrightarrow> c \<in> set (gd_commands db)"
  by (auto simp: due_commands_def dest!: in_set_takeD)

text \<open>A drain settles what it takes, in every reachable state and with any adapter. It takes the first
  hundred commands that are due, handles each once and counts it once; every other row is untouched. A
  taken command ends parked for a person at a facility without a controller, and otherwise sent, or
  failing with a next attempt after this one, or dead; one event is written for each that is given up.
  No command is ever sent a sixth time, and one that still waits has been tried fewer than five times.\<close>

theorem drain_settles:
  assumes run: "(gate_step manual send)\<^sup>*\<^sup>* (s0, no_access) (s, db)"
    and drained: "drainGateCommands manual send now t facilityId s db = (s', db', r)"
  shows "dn_attempted r = length (due_commands now facilityId db) \<and> dn_attempted r \<le> 100 \<and>
      dn_attempted r = dn_succeeded r + dn_failed r + dn_deadLettered r + dn_manual r \<and>
    length (gd_events db') = length (gd_events db) + dn_deadLettered r \<and>
    (c \<in> set (gd_commands db) \<longrightarrow> c \<notin> set (due_commands now facilityId db) \<longrightarrow> c \<in> set (gd_commands db')) \<and>
    (c \<in> set (due_commands now facilityId db) \<longrightarrow> (\<exists>c' \<in> set (gd_commands db'). ci_key c' = ci_key c \<and>
      (if manual (ci_facilityId c) then gc_status c' = Awaiting_manual \<and> gc_attempts c' = gc_attempts c
       else gc_attempts c' = gc_attempts c + 1 \<and> (gc_status c' = Sent \<or> gc_status c' = Dead \<or>
         gc_status c' = Failing \<and> now + 60000 < gc_nextAttemptAt c' \<and> gc_attempts c' < MAX_ATTEMPTS)))) \<and>
    (c \<in> set (gd_commands db) \<longrightarrow> gc_attempts c \<le> 5) \<and>
    (c \<in> set (gd_commands db) \<longrightarrow> gc_status c \<in> {Queued, Failing} \<longrightarrow> gc_attempts c < 5)"
proof -
  have ok: "attempts_ok db" "orders_ok db" using attempts.reachable_holds [OF _ run] by simp_all
  then have r1: "c \<in> set (gd_commands db) \<Longrightarrow> gc_attempts c \<le> 5"
    "c \<in> set (gd_commands db) \<Longrightarrow> gc_status c \<in> {Queued, Failing} \<Longrightarrow> gc_attempts c < 5"
    unfolding attempts_ok_def MAX_ATTEMPTS_def by blast+
  have keys: "distinct (map ci_key (gd_commands db))" using ok(2) by (simp add: orders_ok_def)
  note counts = drain_loop_counts [OF drained [unfolded drainGateCommands_def]]
  then have r2: "dn_attempted r = length (due_commands now facilityId db) \<and> dn_attempted r \<le> 100 \<and>
      dn_attempted r = dn_succeeded r + dn_failed r + dn_deadLettered r + dn_manual r"
    by (simp add: due_commands_def)
  have r3: "length (gd_events db') = length (gd_events db) + dn_deadLettered r" using counts by simp
  obtain f where f: "rows_by manual now t (due_commands now facilityId db) f" "gd_commands db' = map f (gd_commands db)"
    using drain_rows [OF keys drained] by blast
  have r4: "c \<in> set (gd_commands db')" if "c \<in> set (gd_commands db)" "c \<notin> set (due_commands now facilityId db)"
  proof -
    have "ci_key c \<notin> ci_key ` set (due_commands now facilityId db)"
      using that due_mem [of _ now facilityId db] keys by (auto simp: distinct_map inj_on_def)
    then have "f c = c" using f(1) unfolding rows_by_def by blast
    then show ?thesis using that(1) f(2) by (metis image_eqI set_map)
  qed
  have r5: "\<exists>c' \<in> set (gd_commands db'). ci_key c' = ci_key c \<and>
      (if manual (ci_facilityId c) then gc_status c' = Awaiting_manual \<and> gc_attempts c' = gc_attempts c
       else gc_attempts c' = gc_attempts c + 1 \<and> (gc_status c' = Sent \<or> gc_status c' = Dead \<or>
         gc_status c' = Failing \<and> now + 60000 < gc_nextAttemptAt c' \<and> gc_attempts c' < MAX_ATTEMPTS))"
    if c: "c \<in> set (due_commands now facilityId db)"
  proof (rule bexI)
    show "f c \<in> set (gd_commands db')" using due_mem [OF c] f(2) by simp
    have "processed manual now t c c (f c)" and k: "ci_key (f c) = ci_key c"
      using f(1) c unfolding rows_by_def by blast+
    from processed_row [OF this(1)] k
    show "ci_key (f c) = ci_key c \<and>
      (if manual (ci_facilityId c) then gc_status (f c) = Awaiting_manual \<and> gc_attempts (f c) = gc_attempts c
       else gc_attempts (f c) = gc_attempts c + 1 \<and> (gc_status (f c) = Sent \<or> gc_status (f c) = Dead \<or>
         gc_status (f c) = Failing \<and> now + 60000 < gc_nextAttemptAt (f c) \<and> gc_attempts (f c) < MAX_ATTEMPTS))"
      by (rule conjI [rotated])
  qed
  show ?thesis using r1 r2 r3 r4 r5 by blast
qed

lemma drain_loop_accepted:
  assumes "\<And>b c. c \<in> set cs \<Longrightarrow> send b c = (obey b c, Accepted)" and "\<And>c. c \<in> set cs \<Longrightarrow> \<not> manual (ci_facilityId c)"
  shows "fst (drain_loop manual send now t cs (b, db, r)) = foldl obey b cs"
  using assms by (induction cs arbitrary: b db r) (simp_all add: Let_def)

lemma moved_in_due: "due_commands 9 None moved_in = gd_commands moved_in"
  by (simp add: moved_in_eq due_commands_def is_due_def command_input.extend_def)

theorem drain_settles_witness:
  "dn_attempted (snd (snd (drainGateCommands (\<lambda>_. False) (\<lambda>s c. (s, Rejected True ''offline'')) 9 9 None
    (0 :: nat) moved_in))) = 1"
proof -
  obtain s' db' r where run: "drainGateCommands (\<lambda>_. False) (\<lambda>s c. (s, Rejected True ''offline'')) 9 9 None
    (0 :: nat) moved_in = (s', db', r)"
    by (metis prod.exhaust)
  from drain_settles [OF moved_in_reachable run] show ?thesis
    unfolding run moved_in_due by (simp add: moved_in_eq)
qed

text \<open>A controller that loses the first command it is sent, and obeys every other.\<close>

definition first_lost :: "nat \<Rightarrow> (nat \<times> (string \<Rightarrow> bool)) adapter" where
  "first_lost k s c = (let (n, b) = s in
    if n = k then ((n + 1, b), Rejected True ''controller offline'') else ((n + 1, obey b c), Accepted))"

text \<open>Move in, fall behind, pay: the suspension is lost once, and its retry comes after the restore.\<close>

definition overtaken :: "(nat \<times> (string \<Rightarrow> bool)) \<times> gate_db" where
  "overtaken = (
    let db = snd (ensureGrantForHolder None ''g'' ''f'' ''system:move_in'' 1 no_access);
        db = snd (transitionGrant ''g'' Active ''system:move_in'' 2 db);
        (s, db, r) = drainGateCommands (\<lambda>_. False) (first_lost 1) 10 10 None (0, \<lambda>_. False) db;
        db = snd (transitionGrant ''g'' Suspended ''system:delinquency'' 20 db);
        (s, db, r) = drainGateCommands (\<lambda>_. False) (first_lost 1) 30 30 None s db;
        db = snd (transitionGrant ''g'' Active ''system:delinquency_cleared'' 40 db);
        (s, db, r) = drainGateCommands (\<lambda>_. False) (first_lost 1) 50 50 None s db;
        (s, db, r) = drainGateCommands (\<lambda>_. False) (first_lost 1) 900000 900000 None s db
    in (s, db))"



end
