(* ===== verification/GatePass.thy ===== *)
theory GatePass
  imports Holds GateQueue
begin

text \<open>
  The nightly suspension pass and the restore after a payment
  (\<open>apps/web/lib/access/delinquency-gate.ts\<close>): what every tenant at a facility owes, how late they
  are and whether a hold is in force, and the moves of their grants and of the grants of the people
  they let in. What the queries return are arguments: the leases with their rent invoices, the ledger
  balance of a lease, the leases on hold, the tenants with a bank payment in flight, the grant of a
  tenant and the grants of the people on a lease. The audit entries are left out, and all moves of one
  pass are given the same time.
\<close>

section \<open>What a tenant owes\<close>

record gate_lease =
  gl_id :: string
  gl_tenantId :: string
  gl_invoices :: "unpaid_invoice list"

record tenant_state =
  tn_tenantId :: string
  tn_leaseIds :: "string list"
  tn_daysPastDue :: int
  tn_balanceCents :: cents
  tn_onHold :: bool

definition no_state :: "string \<Rightarrow> tenant_state" where
  "no_state tenantId = \<lparr>tn_tenantId = tenantId, tn_leaseIds = [], tn_daysPastDue = 0, tn_balanceCents = 0,
    tn_onHold = False\<rparr>"

definition add_lease ::
  "(string \<rightharpoonup> cents) \<Rightarrow> string set \<Rightarrow> date \<Rightarrow> gate_lease \<Rightarrow> tenant_state \<Rightarrow> tenant_state"
where
  "add_lease balanceByLease held asOf lease st = st\<lparr>
    tn_leaseIds := tn_leaseIds st @ [gl_id lease],
    tn_daysPastDue := max (tn_daysPastDue st) (daysPastDue (gl_invoices lease) asOf),
    tn_balanceCents := tn_balanceCents st + or_else (balanceByLease (gl_id lease)) 0,
    tn_onHold := tn_onHold st \<or> gl_id lease \<in> held\<rparr>"

text \<open>\<open>byTenant\<close> is a map kept in the order its keys were first set.\<close>

fun set_tenant :: "(tenant_state \<Rightarrow> tenant_state) \<Rightarrow> string \<Rightarrow> tenant_state list \<Rightarrow> tenant_state list" where
  "set_tenant f k [] = [f (no_state k)]"
| "set_tenant f k (st # sts) = (if tn_tenantId st = k then f st # sts else st # set_tenant f k sts)"

definition tenantStates ::
  "gate_lease list \<Rightarrow> (string \<rightharpoonup> cents) \<Rightarrow> string set \<Rightarrow> date \<Rightarrow> tenant_state list"
where
  "tenantStates leases balanceByLease held asOf =
    foldl (\<lambda>sts lease. set_tenant (add_lease balanceByLease held asOf lease) (gl_tenantId lease) sts) [] leases"

section \<open>Moving the grants\<close>

definition move_all :: "string list \<Rightarrow> grant_state \<Rightarrow> string \<Rightarrow> date \<Rightarrow> gate_db \<Rightarrow> gate_db" where
  "move_all ids to cause now db = foldl (\<lambda>db i. snd (transitionGrant i to cause now db)) db ids"

definition cascadeAuthorizedAccess ::
  "(string \<Rightarrow> string list) \<Rightarrow> string \<Rightarrow> grant_state \<Rightarrow> string \<Rightarrow> date \<Rightarrow> gate_db \<Rightarrow> gate_db"
where
  "cascadeAuthorizedAccess people leaseId to cause now db = move_all (people leaseId) to cause now db"

definition apply_move ::
  "(string \<Rightarrow> string list) \<Rightarrow> string \<Rightarrow> string list \<Rightarrow> grant_state \<Rightarrow> string \<Rightarrow> date \<Rightarrow> gate_db \<Rightarrow> gate_db"
where
  "apply_move people grantId leaseIds to cause now db =
    foldl (\<lambda>db leaseId. cascadeAuthorizedAccess people leaseId to cause now db)
      (snd (transitionGrant grantId to cause now db)) leaseIds"

definition applySuspend ::
  "(string \<Rightarrow> string list) \<Rightarrow> string \<Rightarrow> string list \<Rightarrow> date \<Rightarrow> gate_db \<Rightarrow> gate_db" where
  "applySuspend people grantId leaseIds now db =
    apply_move people grantId leaseIds Suspended ''system:delinquency'' now db"

definition applyRestore ::
  "(string \<Rightarrow> string list) \<Rightarrow> string \<Rightarrow> string list \<Rightarrow> date \<Rightarrow> gate_db \<Rightarrow> gate_db" where
  "applyRestore people grantId leaseIds now db =
    apply_move people grantId leaseIds Active ''system:delinquency_cleared'' now db"

record gate_policy =
  gp_suspendAtDays :: int
  gp_restoreAtOrBelowCents :: cents

record gate_outcome =
  go_suspended :: nat
  go_restored :: nat
  go_unchanged :: nat

definition input_of :: "gate_policy \<Rightarrow> tenant_state \<Rightarrow> grant_state \<Rightarrow> gate_input" where
  "input_of policy st s = \<lparr>gi_state = grant_name s, gi_daysPastDue = tn_daysPastDue st,
    gi_balanceCents = tn_balanceCents st, gi_suspendAtDays = gp_suspendAtDays policy,
    gi_restoreAtOrBelowCents = gp_restoreAtOrBelowCents policy, gi_onHold = tn_onHold st\<rparr>"

record pass_env =
  pe_policy :: gate_policy
  pe_grantOf :: "string \<rightharpoonup> string"
  pe_people :: "string \<Rightarrow> string list"
  pe_settling :: "string set"
  pe_now :: date

text \<open>One tenant of the pass. The state of the grant is the one read before the loop.\<close>

definition pass_step ::
  "pass_env \<Rightarrow> (string \<rightharpoonup> grant) \<Rightarrow> gate_db \<times> gate_outcome \<Rightarrow> tenant_state \<Rightarrow> gate_db \<times> gate_outcome"
where
  "pass_step env read acc st = (let (db, outcome) = acc in
    case pe_grantOf env (tn_tenantId st) of
      None \<Rightarrow> (db, outcome)
    | Some i \<Rightarrow> (case read i of
        None \<Rightarrow> (db, outcome)
      | Some g \<Rightarrow>
          if tn_tenantId st \<in> pe_settling env \<and> gr_state g \<noteq> Suspended
          then (db, outcome\<lparr>go_unchanged := go_unchanged outcome + 1\<rparr>)
          else (case gateDecision (input_of (pe_policy env) st (gr_state g)) of
              Suspend n \<Rightarrow> (applySuspend (pe_people env) i (tn_leaseIds st) (pe_now env) db,
                outcome\<lparr>go_suspended := go_suspended outcome + 1\<rparr>)
            | Restore \<Rightarrow> (applyRestore (pe_people env) i (tn_leaseIds st) (pe_now env) db,
                outcome\<lparr>go_restored := go_restored outcome + 1\<rparr>)
            | No_action reason \<Rightarrow> (db, outcome\<lparr>go_unchanged := go_unchanged outcome + 1\<rparr>))))"

definition no_outcome :: gate_outcome where
  "no_outcome = \<lparr>go_suspended = 0, go_restored = 0, go_unchanged = 0\<rparr>"

definition evaluateAccessSuspensions :: "pass_env \<Rightarrow> tenant_state list \<Rightarrow> gate_db \<Rightarrow> gate_db \<times> gate_outcome" where
  "evaluateAccessSuspensions env states db = foldl (pass_step env (gd_grants db)) (db, no_outcome) states"

text \<open>The restore a payment asks for: the suspended grants of the tenants the payer pays for.\<close>

definition restore_step ::
  "pass_env \<Rightarrow> tenant_state list \<Rightarrow> (string \<rightharpoonup> grant) \<Rightarrow> gate_db \<times> bool \<Rightarrow> string \<Rightarrow> gate_db \<times> bool"
where
  "restore_step env states read acc tenantId = (let (db, restored) = acc in
    case pe_grantOf env tenantId of
      None \<Rightarrow> (db, restored)
    | Some i \<Rightarrow> (case read i of
        None \<Rightarrow> (db, restored)
      | Some g \<Rightarrow> if gr_state g \<noteq> Suspended then (db, restored)
          else (case find (\<lambda>row. tn_tenantId row = tenantId) states of
              None \<Rightarrow> (db, restored)
            | Some st \<Rightarrow> if gateDecision (input_of (pe_policy env) st (gr_state g)) \<noteq> Restore then (db, restored)
                else (applyRestore (pe_people env) i (tn_leaseIds st) (pe_now env) db, True))))"

definition restoreAccessIfSettled ::
  "pass_env \<Rightarrow> tenant_state list \<Rightarrow> string list \<Rightarrow> gate_db \<Rightarrow> gate_db \<times> bool"
where
  "restoreAccessIfSettled env states tenantIds db =
    foldl (restore_step env states (gd_grants db)) (db, False) tenantIds"

section \<open>What a tenant owes is all of it\<close>

definition leases_of :: "string \<Rightarrow> gate_lease list \<Rightarrow> gate_lease list" where
  "leases_of k leases = filter (\<lambda>l. gl_tenantId l = k) leases"

lemma add_lease_tenant [simp]: "tn_tenantId (add_lease bal held asOf lease st) = tn_tenantId st"
  by (simp add: add_lease_def)

lemma set_tenant_eq:
  "distinct (map tn_tenantId sts) \<Longrightarrow> set_tenant f k sts =
    (if k \<in> tn_tenantId ` set sts then map (\<lambda>st. if tn_tenantId st = k then f st else st) sts
     else sts @ [f (no_state k)])"
proof (induction sts)
  case (Cons st sts)
  have "map (\<lambda>s. if tn_tenantId s = k then f s else s) sts = sts" if "tn_tenantId st = k"
    using Cons.prems that by (intro map_idI) (auto simp: image_iff)
  then show ?case using Cons by auto
qed simp

text \<open>The state of one tenant, from the leases in their name.\<close>

definition state_from :: "(string \<rightharpoonup> cents) \<Rightarrow> string set \<Rightarrow> date \<Rightarrow> string \<Rightarrow> gate_lease list \<Rightarrow> tenant_state" where
  "state_from bal held asOf k ls = foldl (\<lambda>st l. add_lease bal held asOf l st) (no_state k) ls"

lemma state_from_eq:
  "state_from bal held asOf k ls = \<lparr>tn_tenantId = k, tn_leaseIds = map gl_id ls,
    tn_daysPastDue = Max (insert 0 ((\<lambda>l. daysPastDue (gl_invoices l) asOf) ` set ls)),
    tn_balanceCents = sum_by (\<lambda>l. or_else (bal (gl_id l)) 0) ls, tn_onHold = (\<exists>l \<in> set ls. gl_id l \<in> held)\<rparr>"
proof (induction ls rule: rev_induct)
  case Nil
  then show ?case by (simp add: state_from_def no_state_def)
next
  case (snoc l ls)
  have "state_from bal held asOf k (ls @ [l]) = add_lease bal held asOf l (state_from bal held asOf k ls)"
    by (simp add: state_from_def)
  moreover have "Max (insert 0 (insert d S)) = max (Max (insert 0 S)) d" if "finite S" for d :: int and S
    using that by (subst insert_commute) (simp add: max.commute)
  ultimately show ?case unfolding snoc by (auto simp: add_lease_def)
qed

lemma tenantStates_snoc: "tenantStates (leases @ [l]) bal held asOf =
    set_tenant (add_lease bal held asOf l) (gl_tenantId l) (tenantStates leases bal held asOf)"
  by (simp add: tenantStates_def)

lemma state_from_tenant [simp]: "tn_tenantId (state_from bal held asOf k ls) = k"
  by (simp add: state_from_eq)

lemma tenantStates_eq:
  "\<exists>ks. distinct ks \<and> set ks = gl_tenantId ` set leases \<and> tenantStates leases bal held asOf =
    map (\<lambda>k. state_from bal held asOf k (leases_of k leases)) ks"
proof (induction leases rule: rev_induct)
  case Nil
  then show ?case by (simp add: tenantStates_def)
next
  case (snoc l leases)
  let ?F = "\<lambda>k. state_from bal held asOf k (leases_of k leases)"
  let ?G = "\<lambda>k. state_from bal held asOf k (leases_of k (leases @ [l]))"
  obtain ks where ks: "distinct ks" "set ks = gl_tenantId ` set leases" "tenantStates leases bal held asOf = map ?F ks"
    using snoc by blast
  have same: "?G k = ?F k" if "k \<noteq> gl_tenantId l" for k
    using that by (simp add: leases_of_def)
  have more: "?G (gl_tenantId l) = add_lease bal held asOf l (?F (gl_tenantId l))"
    by (simp add: leases_of_def state_from_def)
  have keys: "map tn_tenantId (map ?F ks) = ks" by (simp add: o_def)
  have eq: "tenantStates (leases @ [l]) bal held asOf =
      (if gl_tenantId l \<in> set ks then map ?G ks
       else map ?F ks @ [add_lease bal held asOf l (no_state (gl_tenantId l))])"
  proof -
    have "tenantStates (leases @ [l]) bal held asOf =
        (if gl_tenantId l \<in> set ks
         then map (\<lambda>st. if tn_tenantId st = gl_tenantId l then add_lease bal held asOf l st else st) (map ?F ks)
         else map ?F ks @ [add_lease bal held asOf l (no_state (gl_tenantId l))])"
      unfolding tenantStates_snoc ks(3) using ks(1) by (subst set_tenant_eq) (simp_all add: o_def image_image)
    moreover have "map (\<lambda>st. if tn_tenantId st = gl_tenantId l then add_lease bal held asOf l st else st) (map ?F ks) =
        map ?G ks"
      using same more by simp
    ultimately show ?thesis by simp
  qed
  show ?case
  proof (cases "gl_tenantId l \<in> set ks")
    case True
    then show ?thesis using ks eq by (intro exI [of _ ks]) auto
  next
    case False
    then have "gl_tenantId x \<noteq> gl_tenantId l" if "x \<in> set leases" for x
      using that ks(2) by (metis imageI)
    then have "leases_of (gl_tenantId l) leases = []" by (simp add: leases_of_def filter_empty_conv)
    then have "?F (gl_tenantId l) = no_state (gl_tenantId l)" by (simp add: state_from_def)
    then have "tenantStates (leases @ [l]) bal held asOf = map ?G (ks @ [gl_tenantId l])"
    proof -
      have "map ?G ks = map ?F ks" using False same by (intro map_cong refl) metis
      then show ?thesis using False eq more \<open>?F (gl_tenantId l) = no_state (gl_tenantId l)\<close> by simp
    qed
    then show ?thesis using False ks by (intro exI [of _ "ks @ [gl_tenantId l]"]) auto
  qed
qed

lemma tenantStates_mem:
  "st \<in> set (tenantStates leases bal held asOf) \<longleftrightarrow> leases_of (tn_tenantId st) leases \<noteq> [] \<and>
    st = state_from bal held asOf (tn_tenantId st) (leases_of (tn_tenantId st) leases)"
  "distinct (map tn_tenantId (tenantStates leases bal held asOf))"
proof -
  obtain ks where ks: "distinct ks" "set ks = gl_tenantId ` set leases" "tenantStates leases bal held asOf =
    map (\<lambda>k. state_from bal held asOf k (leases_of k leases)) ks"
    using tenantStates_eq by blast
  then show "distinct (map tn_tenantId (tenantStates leases bal held asOf))" by (simp add: o_def)
  have k: "k \<in> set ks \<longleftrightarrow> leases_of k leases \<noteq> []" for k
    using ks(2) by (auto simp: leases_of_def filter_empty_conv)
  define F where "F = (\<lambda>k. state_from bal held asOf k (leases_of k leases))"
  have F: "tn_tenantId (F k) = k" for k by (simp add: F_def)
  have "st \<in> F ` set ks \<longleftrightarrow> tn_tenantId st \<in> set ks \<and> st = F (tn_tenantId st)"
    using F by (metis imageE imageI)
  then show "st \<in> set (tenantStates leases bal held asOf) \<longleftrightarrow> leases_of (tn_tenantId st) leases \<noteq> [] \<and>
    st = state_from bal held asOf (tn_tenantId st) (leases_of (tn_tenantId st) leases)"
    unfolding ks(3) set_map k F_def .
qed

section \<open>What the pass moves\<close>

definition state_of :: "gate_db \<Rightarrow> string \<Rightarrow> grant_state option" where
  "state_of db i = map_option gr_state (gd_grants db i)"

text \<open>A grant follows a move when the state machine allows it.\<close>

definition follow :: "grant_state \<Rightarrow> grant_state \<Rightarrow> grant_state" where
  "follow to s = (if canTransition s to = None then to else s)"

lemma follow_idem: "follow to (follow to s) = follow to s"
  by (cases s; cases to) (simp_all add: follow_def canTransition_def)

lemma state_of_transition:
  "state_of (snd (transitionGrant i to cause now db)) j =
    (if j = i then map_option (follow to) (state_of db j) else state_of db j)"
  by (cases "gd_grants db i") (auto simp: state_of_def transition_frame(1) follow_def)

lemma state_of_move_all:
  "state_of (move_all ids to cause now db) j =
    (if j \<in> set ids then map_option (follow to) (state_of db j) else state_of db j)"
proof (induction ids arbitrary: db)
  case (Cons i ids)
  have "move_all (i # ids) to cause now db = move_all ids to cause now (snd (transitionGrant i to cause now db))"
    by (simp add: move_all_def)
  then show ?case
    by (simp add: Cons state_of_transition option.map_comp o_def follow_idem)
qed (simp add: move_all_def)

lemma apply_move_eq:
  "apply_move people i leaseIds to cause now db = move_all (i # concat (map people leaseIds)) to cause now db"
proof -
  have "foldl (\<lambda>db l. cascadeAuthorizedAccess people l to cause now db) d ls =
      move_all (concat (map people ls)) to cause now d" for d ls
    by (induction ls arbitrary: d) (simp_all add: cascadeAuthorizedAccess_def move_all_def)
  then show ?thesis by (simp add: apply_move_def) (simp add: move_all_def)
qed

text \<open>The move the pass decides on for a grant that is read in state \<open>s\<close>.\<close>

definition pass_move :: "pass_env \<Rightarrow> tenant_state \<Rightarrow> grant_state \<Rightarrow> grant_state option" where
  "pass_move env st s =
    (if tn_tenantId st \<in> pe_settling env \<and> s \<noteq> Suspended then None
     else case gateDecision (input_of (pe_policy env) st s) of
       Suspend _ \<Rightarrow> Some Suspended | Restore \<Rightarrow> Some Active | No_action _ \<Rightarrow> None)"

text \<open>The grants a tenant of the pass reaches: their own and those of the people on their leases.\<close>

definition reach_of :: "pass_env \<Rightarrow> tenant_state \<Rightarrow> string list" where
  "reach_of env st = (case pe_grantOf env (tn_tenantId st) of
    None \<Rightarrow> [] | Some i \<Rightarrow> i # concat (map (pe_people env) (tn_leaseIds st)))"

definition planned :: "pass_env \<Rightarrow> (string \<rightharpoonup> grant) \<Rightarrow> tenant_state \<Rightarrow> grant_state option" where
  "planned env read st = (case pe_grantOf env (tn_tenantId st) of
      None \<Rightarrow> None
    | Some i \<Rightarrow> (case read i of None \<Rightarrow> None | Some g \<Rightarrow> pass_move env st (gr_state g)))"

lemma pass_step_states:
  "state_of (fst (pass_step env read (db, out) st)) j = (case planned env read st of
      Some to \<Rightarrow> if j \<in> set (reach_of env st) then map_option (follow to) (state_of db j) else state_of db j
    | None \<Rightarrow> state_of db j)"
  by (simp add: pass_step_def planned_def pass_move_def reach_of_def applySuspend_def applyRestore_def
      apply_move_eq state_of_move_all split: option.split gate_decision.split)

lemma pass_step_db: "planned env read st = None \<Longrightarrow> fst (pass_step env read acc st) = fst acc"
  by (auto simp: pass_step_def planned_def pass_move_def Let_def split: option.splits gate_decision.splits prod.split
      if_splits)

lemma pass_step_counts:
  "planned env read st = None \<Longrightarrow> go_suspended (snd (pass_step env read acc st)) = go_suspended (snd acc) \<and>
    go_restored (snd (pass_step env read acc st)) = go_restored (snd acc)"
  by (auto simp: pass_step_def planned_def pass_move_def Let_def split: option.splits gate_decision.splits prod.split
      if_splits)

lemma pass_untouched:
  "(\<And>st. st \<in> set sts \<Longrightarrow> j \<notin> set (reach_of env st)) \<Longrightarrow>
    state_of (fst (foldl (pass_step env read) acc sts)) j = state_of (fst acc) j"
proof (induction sts arbitrary: acc)
  case (Cons st sts)
  have "state_of (fst (pass_step env read acc st)) j = state_of (fst acc) j"
    using Cons.prems [of st] pass_step_states [of env read "fst acc" "snd acc" st j] by (simp split: option.split)
  then show ?case using Cons by simp
qed simp

text \<open>No grant is reached by two tenants.\<close>

definition separate :: "pass_env \<Rightarrow> tenant_state list \<Rightarrow> bool" where
  "separate env sts \<longleftrightarrow> (\<forall>m < length sts. \<forall>n < length sts. m \<noteq> n \<longrightarrow>
    set (reach_of env (sts ! m)) \<inter> set (reach_of env (sts ! n)) = {})"

lemma pass_states:
  assumes sep: "separate env sts" and st: "st \<in> set sts" and j: "j \<in> set (reach_of env st)"
  shows "state_of (fst (foldl (pass_step env read) acc sts)) j = (case planned env read st of
      Some to \<Rightarrow> map_option (follow to) (state_of (fst acc) j) | None \<Rightarrow> state_of (fst acc) j)"
proof -
  obtain n where n: "n < length sts" "st = sts ! n" using st by (metis in_set_conv_nth)
  let ?before = "take n sts" and ?after = "drop (Suc n) sts"
  have split: "sts = ?before @ st # ?after" using n by (simp add: id_take_nth_drop)
  have other: "j \<notin> set (reach_of env (sts ! m))" if "m < length sts" "m \<noteq> n" for m
    using sep that n j unfolding separate_def by (metis disjoint_iff)
  have before: "j \<notin> set (reach_of env st')" if "st' \<in> set ?before" for st'
  proof -
    obtain k where "k < n" "st' = sts ! k" using \<open>st' \<in> set ?before\<close> n(1) by (auto simp: in_set_conv_nth)
    then show ?thesis using other [of k] n(1) by simp
  qed
  have after: "j \<notin> set (reach_of env st')" if "st' \<in> set ?after" for st'
  proof -
    obtain k where "k < length sts - Suc n" "st' = sts ! (Suc n + k)" using \<open>st' \<in> set ?after\<close> by (auto simp: in_set_conv_nth)
    then show ?thesis using other [of "Suc n + k"] by simp
  qed
  let ?mid = "foldl (pass_step env read) acc ?before"
  have "foldl (pass_step env read) acc sts = foldl (pass_step env read) (pass_step env read ?mid st) ?after"
    by (subst split) simp
  then show ?thesis
    using pass_untouched [of ?after j env read "pass_step env read ?mid st"] after
      pass_untouched [of ?before j env read acc] before
      pass_step_states [of env read "fst ?mid" "snd ?mid" st j] j
    by (simp split: option.split)
qed

lemma pass_idle:
  "(\<And>st. st \<in> set sts \<Longrightarrow> planned env read st = None) \<Longrightarrow>
    fst (foldl (pass_step env read) acc sts) = fst acc \<and>
    go_suspended (snd (foldl (pass_step env read) acc sts)) = go_suspended (snd acc) \<and>
    go_restored (snd (foldl (pass_step env read) acc sts)) = go_restored (snd acc)"
  by (induction sts arbitrary: acc) (simp_all add: pass_step_db pass_step_counts)

lemma input_of_decided:
  "gateDecision (input_of policy st s) = decided s (input_of policy st Pending)"
  by (simp add: input_of_def)

lemma pass_move_follow: "pass_move env st s = Some to \<Longrightarrow> follow to s = to \<and> pass_move env st to = None"
  by (cases s; cases "tn_onHold st")
    (auto simp: pass_move_def input_of_def gateDecision_def Let_def follow_def canTransition_def split: if_splits)

text \<open>What the pass over the leases does, when no grant is shared by two tenants.\<close>

lemma pass_reached:
  assumes "separate env states" "st \<in> set states" "j \<in> set (reach_of env st)"
  shows "state_of (fst (evaluateAccessSuspensions env states db)) j = (case planned env (gd_grants db) st of
    Some to \<Rightarrow> map_option (follow to) (state_of db j) | None \<Rightarrow> state_of db j)"
  using pass_states [OF assms, of "gd_grants db" "(db, no_outcome)"]
  by (simp only: evaluateAccessSuspensions_def fst_conv)

lemma planned_move:
  "pe_grantOf env (tn_tenantId st) = Some i \<Longrightarrow> state_of d i = Some s \<Longrightarrow>
    planned env (gd_grants d) st = pass_move env st s"
  by (auto simp: planned_def state_of_def)

lemma pass_own_grant:
  assumes "separate env states" "st \<in> set states" "pe_grantOf env (tn_tenantId st) = Some i" "state_of db i = Some s"
  shows "state_of (fst (evaluateAccessSuspensions env states db)) i = Some (or_else (pass_move env st s) s)"
  using pass_reached [OF assms(1,2), of i db] assms planned_move [OF assms(3,4)] pass_move_follow [of env st s]
  by (auto simp: reach_of_def split: option.split)

lemma pass_people:
  assumes "separate env states" "st \<in> set states" "pe_grantOf env (tn_tenantId st) = Some i" "state_of db i = Some s"
    and "p \<in> set (pe_people env l)" "l \<in> set (tn_leaseIds st)" "state_of db p = Some sp"
  shows "state_of (fst (evaluateAccessSuspensions env states db)) p =
    Some (case pass_move env st s of Some to \<Rightarrow> follow to sp | None \<Rightarrow> sp)"
proof -
  have "p \<in> set (reach_of env st)" using assms by (auto simp: reach_of_def)
  from pass_reached [OF assms(1,2) this] show ?thesis
    using planned_move [OF assms(3,4)] assms(7) by (simp split: option.split)
qed

lemma pass_again:
  assumes sep: "separate env states" and db': "db' = fst (evaluateAccessSuspensions env states db)"
  shows "evaluateAccessSuspensions env states db' = (db'', out) \<Longrightarrow>
    db'' = db' \<and> go_suspended out = 0 \<and> go_restored out = 0"
proof -
  assume again: "evaluateAccessSuspensions env states db' = (db'', out)"
  have "planned env (gd_grants db') st = None" if st: "st \<in> set states" for st
  proof (cases "pe_grantOf env (tn_tenantId st)")
    case (Some i)
    show ?thesis
    proof (cases "state_of db i")
      case None
      then have "state_of db' i = None"
        using pass_reached [OF sep st, of i db] Some by (simp add: db' reach_of_def split: option.split)
      then show ?thesis using Some by (auto simp: planned_def state_of_def split: option.split)
    next
      case (Some s)
      note after = pass_own_grant [OF sep st \<open>pe_grantOf env (tn_tenantId st) = Some i\<close> Some, folded db']
      show ?thesis
        using planned_move [OF \<open>pe_grantOf env (tn_tenantId st) = Some i\<close> after] pass_move_follow [of env st s]
        by (cases "pass_move env st s") simp_all
    qed
  qed (simp add: planned_def)
  from pass_idle [OF this, of states "(db', no_outcome)"] again show ?thesis
    by (simp add: evaluateAccessSuspensions_def no_outcome_def)
qed

lemma suspended_only_if:
  assumes st: "st \<in> set (tenantStates leases bal held asOf)" and move: "pass_move env st s = Some Suspended"
  defines "ls \<equiv> leases_of (tn_tenantId st) leases"
  shows "tn_tenantId st \<notin> pe_settling env \<and> 0 < gp_suspendAtDays (pe_policy env) \<and>
    (\<forall>l \<in> set ls. gl_id l \<notin> held) \<and>
    gp_restoreAtOrBelowCents (pe_policy env) < sum_by (\<lambda>l. or_else (bal (gl_id l)) 0) ls \<and>
    (\<exists>l \<in> set ls. gp_suspendAtDays (pe_policy env) \<le> daysPastDue (gl_invoices l) asOf)"
proof -
  have eq: "st = state_from bal held asOf (tn_tenantId st) ls"
    using st unfolding ls_def tenantStates_mem(1) by blast
  have f: "tn_onHold st = (\<exists>l \<in> set ls. gl_id l \<in> held)"
    "tn_balanceCents st = sum_by (\<lambda>l. or_else (bal (gl_id l)) 0) ls"
    "tn_daysPastDue st = Max (insert 0 ((\<lambda>l. daysPastDue (gl_invoices l) asOf) ` set ls))"
    by (subst eq, simp add: state_from_eq)+
  have r: "tn_tenantId st \<notin> pe_settling env \<and> \<not> tn_onHold st \<and> 0 < gp_suspendAtDays (pe_policy env) \<and>
      gp_restoreAtOrBelowCents (pe_policy env) < tn_balanceCents st \<and>
      gp_suspendAtDays (pe_policy env) \<le> tn_daysPastDue st"
    using move by (cases s; cases "tn_onHold st")
      (auto simp: pass_move_def input_of_def gateDecision_def Let_def split: if_splits)
  have "tn_daysPastDue st \<in> insert 0 ((\<lambda>l. daysPastDue (gl_invoices l) asOf) ` set ls)"
    unfolding f(3) by (rule Max_in) auto
  then have "\<exists>l \<in> set ls. gp_suspendAtDays (pe_policy env) \<le> daysPastDue (gl_invoices l) asOf"
    using r by auto
  then show ?thesis using r f(1,2) by auto
qed

text \<open>C18. The nightly pass, over the leases of a facility, when no grant is shared by two tenants. Each
  tenant's grant ends where the gate rule puts it, and the grants of the people on their leases follow
  as far as their own state allows; no other grant moves. Running the pass again moves nothing. Nobody
  is suspended who has a lease on hold or a bank payment in flight, whose ledger balances add up to no
  more than the facility's threshold, or none of whose leases is as late as the rule asks.\<close>

theorem suspension_pass:
  fixes env leases bal held asOf db
  defines "states \<equiv> tenantStates leases bal held asOf"
  defines "db' \<equiv> fst (evaluateAccessSuspensions env states db)"
  assumes sep: "separate env states"
  shows "(st \<in> set states \<longrightarrow> pe_grantOf env (tn_tenantId st) = Some i \<longrightarrow> state_of db i = Some s \<longrightarrow>
      state_of db' i = Some (or_else (pass_move env st s) s) \<and>
      (p \<in> set (pe_people env l) \<longrightarrow> l \<in> set (tn_leaseIds st) \<longrightarrow> state_of db p = Some sp \<longrightarrow>
        state_of db' p = Some (case pass_move env st s of Some to \<Rightarrow> follow to sp | None \<Rightarrow> sp))) \<and>
    ((\<forall>st \<in> set states. j \<notin> set (reach_of env st)) \<longrightarrow> state_of db' j = state_of db j) \<and>
    (evaluateAccessSuspensions env states db' = (db'', out) \<longrightarrow>
      db'' = db' \<and> go_suspended out = 0 \<and> go_restored out = 0) \<and>
    (st \<in> set states \<longrightarrow> pass_move env st s = Some Suspended \<longrightarrow>
      tn_tenantId st \<notin> pe_settling env \<and> 0 < gp_suspendAtDays (pe_policy env) \<and>
      (\<forall>l \<in> set (leases_of (tn_tenantId st) leases). gl_id l \<notin> held) \<and>
      gp_restoreAtOrBelowCents (pe_policy env) <
        sum_by (\<lambda>l. or_else (bal (gl_id l)) 0) (leases_of (tn_tenantId st) leases) \<and>
      (\<exists>l \<in> set (leases_of (tn_tenantId st) leases). gp_suspendAtDays (pe_policy env) \<le> daysPastDue (gl_invoices l) asOf))"
proof -
  have "state_of db' j = state_of db j" if "\<forall>st \<in> set states. j \<notin> set (reach_of env st)"
    using pass_untouched [of states j env "gd_grants db" "(db, no_outcome)"] that
    by (simp add: db'_def evaluateAccessSuspensions_def)
  moreover note pass_own_grant [OF sep, of st i db s, folded db'_def] pass_people [OF sep, of st i db s p l sp, folded db'_def]
    pass_again [OF sep db'_def [THEN meta_eq_to_obj_eq], of db'' out] suspended_only_if [of st leases bal held asOf env s, folded states_def]
  ultimately show ?thesis by (intro conjI impI) (simp_all del: imp_disjL)
qed

theorem suspension_pass_witness:
  "state_of (fst (evaluateAccessSuspensions
      \<lparr>pe_policy = \<lparr>gp_suspendAtDays = 6, gp_restoreAtOrBelowCents = 0\<rparr>, pe_grantOf = [''t'' \<mapsto> ''g''],
       pe_people = (\<lambda>_. []), pe_settling = {}, pe_now = 20 * day_ms\<rparr>
      (tenantStates [\<lparr>gl_id = ''l'', gl_tenantId = ''t'', gl_invoices = [\<lparr>ui_dueDate = 0, ui_totalCents = 9500,
        ui_amountPaidCents = 0, ui_status = ''open''\<rparr>]\<rparr>] [''l'' \<mapsto> 9500] {} (10 * day_ms)) moved_in)) ''g'' =
    Some Suspended"
proof -
  let ?env = "\<lparr>pe_policy = \<lparr>gp_suspendAtDays = 6, gp_restoreAtOrBelowCents = 0\<rparr>, pe_grantOf = [''t'' \<mapsto> ''g''],
    pe_people = (\<lambda>_. []), pe_settling = {}, pe_now = 20 * day_ms\<rparr>"
  let ?ls = "[\<lparr>gl_id = ''l'', gl_tenantId = ''t'', gl_invoices = [\<lparr>ui_dueDate = 0, ui_totalCents = 9500,
    ui_amountPaidCents = 0, ui_status = ''open''\<rparr>]\<rparr>]"
  let ?states = "tenantStates ?ls [''l'' \<mapsto> 9500] {} (10 * day_ms)"
  let ?st = "\<lparr>tn_tenantId = ''t'', tn_leaseIds = [''l''], tn_daysPastDue = 10, tn_balanceCents = 9500, tn_onHold = False\<rparr>"
  have states: "?states = [?st]"
    by (simp add: tenantStates_def add_lease_def no_state_def daysPastDue_def oldestUnpaidDue_def
        outstandingCents_def utc_day_eq day_of_def)
  have sep: "separate ?env ?states" unfolding states by (simp add: separate_def)
  have "state_of moved_in ''g'' = Some Active" by (simp add: moved_in_eq state_of_def)
  from suspension_pass [OF sep, THEN conjunct1, of ?st "''g''" moved_in Active] this show ?thesis
    unfolding states by (simp add: pass_move_def input_of_def gateDecision_def)
qed

end
