(* ===== verification/Rates.thy ===== *)
theory Rates
  imports Holds
begin

text \<open>
  What decides a tenant's rent: the rules of a rate change
  (\<open>packages/core/pricing/rate-increase.ts\<close>), the rate on a transfer (\<open>transfer-rate.ts\<close>), and
  whether a unit counts as free or may be set so (\<open>packages/core/inventory/unit-status.ts\<close>,
  \<open>unrentable.ts\<close>). The workflow that uses these rules is in \<open>RateRuns\<close>.
\<close>

section \<open>rate-increase.ts: dates and problems\<close>

definition addDays :: "date \<Rightarrow> int \<Rightarrow> date" where
  "addDays day days = utc_day day + days * day_ms"

definition rate_daysBetween :: "date \<Rightarrow> date \<Rightarrow> int" where
  "rate_daysBetween src to = round_div (utc_day to - utc_day src) day_ms"

definition noticeDateFor :: "date \<Rightarrow> int \<Rightarrow> date" where
  "noticeDateFor effectiveDate noticeDays = addDays effectiveDate (- noticeDays)"

datatype schedule_problem =
  Effective_not_in_future | Insufficient_notice | Not_an_increase | Notice_days_not_positive

definition scheduleProblem :: "cents \<Rightarrow> cents \<Rightarrow> date \<Rightarrow> int \<Rightarrow> date \<Rightarrow> schedule_problem option" where
  "scheduleProblem currentRateCents newRateCents effectiveDate noticeDays today =
    (if noticeDays \<le> 0 then Some Notice_days_not_positive
     else if newRateCents \<le> currentRateCents then Some Not_an_increase
     else if rate_daysBetween today effectiveDate \<le> 0 then Some Effective_not_in_future
     else if rate_daysBetween today effectiveDate < noticeDays then Some Insufficient_notice
     else None)"

definition earliestEffectiveDate :: "date \<Rightarrow> int \<Rightarrow> date" where
  "earliestEffectiveDate today noticeDays = addDays today (max 1 noticeDays)"

datatype decrease_problem = Not_a_decrease | Effective_in_past | Rate_below_zero

definition decreaseProblem :: "cents \<Rightarrow> cents \<Rightarrow> date \<Rightarrow> date \<Rightarrow> decrease_problem option" where
  "decreaseProblem currentRateCents newRateCents effectiveDate today =
    (if newRateCents < 0 then Some Rate_below_zero
     else if newRateCents \<ge> currentRateCents then Some Not_a_decrease
     else if rate_daysBetween today effectiveDate < 0 then Some Effective_in_past
     else None)"

section \<open>rate-increase.ts: who is raised, and to what\<close>

record ecri_policy =
  ep_minMonthsSinceLastChange :: int
  ep_minGapCents :: cents
  ep_percentStepBps :: int
  ep_minStepCents :: cents
  ep_maxStepCents :: cents
  ep_capAtStreet :: bool

definition DEFAULT_ECRI_POLICY :: ecri_policy where
  "DEFAULT_ECRI_POLICY = \<lparr>ep_minMonthsSinceLastChange = 9, ep_minGapCents = 1500, ep_percentStepBps = 1000,
    ep_minStepCents = 500, ep_maxStepCents = 3000, ep_capAtStreet = True\<rparr>"

record candidate_lease =
  ca_leaseId :: string
  ca_inPlaceRateCents :: cents
  ca_streetRateCents :: cents
  ca_monthsSinceLastChange :: "int option"

definition isEligibleForIncrease :: "candidate_lease \<Rightarrow> ecri_policy \<Rightarrow> bool" where
  "isEligibleForIncrease candidate rule = (case ca_monthsSinceLastChange candidate of
      None \<Rightarrow> False
    | Some months \<Rightarrow>
        if months < ep_minMonthsSinceLastChange rule then False
        else ca_streetRateCents candidate - ca_inPlaceRateCents candidate \<ge> ep_minGapCents rule)"

definition step_for :: "candidate_lease \<Rightarrow> ecri_policy \<Rightarrow> cents" where
  "step_for candidate policy =
    min (max (round_div (ca_inPlaceRateCents candidate * ep_percentStepBps policy) 10000) (ep_minStepCents policy))
      (ep_maxStepCents policy)"

definition targetRateFor :: "candidate_lease \<Rightarrow> ecri_policy \<Rightarrow> cents" where
  "targetRateFor candidate policy = (
    let target = round_div (ca_inPlaceRateCents candidate + step_for candidate policy) 100 * 100
    in if ep_capAtStreet policy then min target (ca_streetRateCents candidate) else target)"

definition projectedMonthlyDeltaCents :: "(cents \<times> cents) list \<Rightarrow> cents" where
  "projectedMonthlyDeltaCents rows = foldl (\<lambda>t (current, new). t + (new - current)) 0 rows"

datatype ecri_exclusion =
  In_lien_process | Is_delinquent | Not_moved_in | Under_hold | Move_out_notice | Promotion_running

record ecri_exclusion_input =
  ex_status :: string
  ex_hasActiveHold :: bool
  ex_noticeGivenAt :: "date option"
  ex_promoPeriodsRemaining :: int
  ex_minStayRunning :: bool

definition ecriExclusion :: "ecri_exclusion_input \<Rightarrow> ecri_exclusion option" where
  "ecriExclusion lease =
    (if ex_status lease = ''pending_auction'' then Some In_lien_process
     else if ex_status lease = ''delinquent'' then Some Is_delinquent
     else if ex_status lease = ''pending'' then Some Not_moved_in
     else if ex_hasActiveHold lease then Some Under_hold
     else if ex_noticeGivenAt lease \<noteq> None then Some Move_out_notice
     else if ex_promoPeriodsRemaining lease > 0 \<or> ex_minStayRunning lease then Some Promotion_running
     else None)"

section \<open>rate-increase.ts: the life of a change\<close>

datatype rate_increase_state = Pending_approval | Approved | Notice_sent | Notice_failed | Applied | Cancelled

definition LIVE_RATE_INCREASE_STATUSES :: "rate_increase_state list" where
  "LIVE_RATE_INCREASE_STATUSES = [Pending_approval, Approved, Notice_sent, Notice_failed]"

definition isCancellable :: "rate_increase_state \<Rightarrow> bool" where
  "isCancellable status \<longleftrightarrow> status \<in> set LIVE_RATE_INCREASE_STATUSES"

datatype notice_delivery_verdict = Reached | Undeliverable | No_send_record

definition DEAD_MESSAGE_STATUSES :: "string list" where
  "DEAD_MESSAGE_STATUSES = [''bounced'', ''failed'', ''suppressed'', ''cancelled'']"

definition noticeDeliveryVerdict :: "string list \<Rightarrow> notice_delivery_verdict" where
  "noticeDeliveryVerdict statuses =
    (if length statuses = 0 then No_send_record
     else if list_all (\<lambda>status. status \<in> set DEAD_MESSAGE_STATUSES) statuses then Undeliverable
     else Reached)"

record rate_increase =
  ri_id :: string
  ri_leaseId :: string
  ri_currentRateCents :: cents
  ri_newRateCents :: cents
  ri_effectiveDate :: date
  ri_noticeDate :: date
  ri_noticeDays :: int
  ri_status :: rate_increase_state
  ri_batchId :: "string option"
  ri_approvedAt :: "date option"
  ri_noticeSentAt :: "date option"
  ri_noticeEventId :: "string option"
  ri_noticeFailureReason :: "notice_delivery_verdict option"
  ri_appliedAt :: "date option"
  ri_cancelledAt :: "date option"
  ri_renoticedFromId :: "string option"

definition isRateDecrease :: "rate_increase \<Rightarrow> bool" where
  "isRateDecrease row \<longleftrightarrow> ri_newRateCents row < ri_currentRateCents row"

definition noticeIsDue :: "rate_increase \<Rightarrow> date \<Rightarrow> bool" where
  "noticeIsDue row today =
    (if isRateDecrease row then False
     else ri_status row = Approved \<and> rate_daysBetween today (ri_noticeDate row) \<le> 0)"

definition applyIsDue :: "rate_increase \<Rightarrow> date \<Rightarrow> bool" where
  "applyIsDue row today =
    (if rate_daysBetween today (ri_effectiveDate row) > 0 then False
     else if isRateDecrease row then ri_status row = Approved else ri_status row = Notice_sent)"

section \<open>transfer-rate.ts\<close>

datatype transfer_rate_policy = Preserve_discount | Street | In_place

definition transferRateFor :: "transfer_rate_policy \<Rightarrow> cents \<Rightarrow> cents option \<Rightarrow> cents \<Rightarrow> cents" where
  "transferRateFor policy inPlaceRateCents fromStreetRateCents toStreetRateCents =
    (if policy = Street then toStreetRateCents
     else if policy = In_place then inPlaceRateCents
     else case fromStreetRateCents of
         None \<Rightarrow> toStreetRateCents
       | Some f \<Rightarrow> if f \<le> 0 then toStreetRateCents
           else min (round_div (toStreetRateCents * inPlaceRateCents) f) toStreetRateCents)"

definition isRateRise :: "cents \<Rightarrow> cents \<Rightarrow> bool" where
  "isRateRise currentRateCents newRateCents \<longleftrightarrow> newRateCents > currentRateCents"

section \<open>unit-status.ts and unrentable.ts\<close>

definition OCCUPYING_LEASE_STATUSES :: "string list" where
  "OCCUPYING_LEASE_STATUSES = [''pending'', ''active'', ''delinquent'', ''pending_auction'']"

definition PORTAL_SELF_SERVICE_STATUSES :: "string list" where
  "PORTAL_SELF_SERVICE_STATUSES = filter (\<lambda>status. status \<noteq> ''pending_auction'') OCCUPYING_LEASE_STATUSES"

definition isPortalSelfService :: "string \<Rightarrow> bool" where
  "isPortalSelfService status \<longleftrightarrow> status \<in> set PORTAL_SELF_SERVICE_STATUSES"

datatype unit_status = Available | Maintenance | Unrentable | Occupied | Reserved | Overlocked

definition MANUAL_UNIT_STATUSES :: "unit_status list" where
  "MANUAL_UNIT_STATUSES = [Available, Maintenance, Unrentable]"

record unit_occupancy_facts =
  uf_activeLease :: "(string \<times> string) option"
  uf_activeReservation :: "string option"
  uf_activeCheckoutLock :: "string option"
  uf_overlocked :: bool
  uf_blockingMaintenanceTicket :: "string option"

definition deriveUnitStatus :: "unit_status \<Rightarrow> unit_occupancy_facts \<Rightarrow> unit_status" where
  "deriveUnitStatus operationalStatus facts =
    (if uf_overlocked facts then Overlocked
     else if uf_activeLease facts \<noteq> None then Occupied
     else if uf_activeReservation facts \<noteq> None \<or> uf_activeCheckoutLock facts \<noteq> None then Reserved
     else operationalStatus)"

definition isManualUnitStatus :: "unit_status \<Rightarrow> bool" where
  "isManualUnitStatus value \<longleftrightarrow> value \<in> set MANUAL_UNIT_STATUSES"

datatype status_refusal =
  Derived_status unit_status | Blocked_by_overlock | Blocked_by_lease string string
| Blocked_by_reservation string | Blocked_by_ticket string

definition canSetManualStatus :: "unit_status \<Rightarrow> unit_occupancy_facts \<Rightarrow> status_refusal option" where
  "canSetManualStatus target facts =
    (if \<not> isManualUnitStatus target then Some (Derived_status target)
     else if uf_overlocked facts then Some Blocked_by_overlock
     else case uf_activeLease facts of
         Some (i, status) \<Rightarrow> Some (Blocked_by_lease i status)
       | None \<Rightarrow> (case uf_activeReservation facts of
           Some i \<Rightarrow> Some (Blocked_by_reservation i)
         | None \<Rightarrow> (case uf_blockingMaintenanceTicket facts of
             Some i \<Rightarrow> if target = Available then Some (Blocked_by_ticket i) else None
           | None \<Rightarrow> None)))"

definition isRentable :: "unit_status \<Rightarrow> bool" where
  "isRentable status \<longleftrightarrow> status = Available"

definition daysUnrentable :: "date \<Rightarrow> date \<Rightarrow> int" where
  "daysUnrentable setAt now = max 0 ((now - setAt) div day_ms)"

definition rentLostCents :: "cents \<Rightarrow> int \<Rightarrow> cents" where
  "rentLostCents monthlyStreetRateCents days = round_div (monthlyStreetRateCents * 12 * days) 365"

datatype unrentable_refusal = Too_many_units | Review_too_late

definition unrentableLimitRefusal ::
  "int \<Rightarrow> date \<Rightarrow> date option \<Rightarrow> int \<Rightarrow> int \<Rightarrow> bool \<Rightarrow> unrentable_refusal option"
where
  "unrentableLimitRefusal unitsAfter setAt reviewAt maxUnits maxDays mayExceed =
    (if mayExceed then None
     else if unitsAfter > maxUnits then Some Too_many_units
     else case reviewAt of
         None \<Rightarrow> Some Review_too_late
       | Some t \<Rightarrow> if t > setAt + maxDays * day_ms then Some Review_too_late else None)"

section \<open>The rules\<close>

lemma rate_daysBetween_eq: "rate_daysBetween src to = day_of to - day_of src"
proof -
  have "utc_day to - utc_day src = (day_of to - day_of src) * day_ms"
    by (simp only: utc_day_eq left_diff_distrib)
  then show ?thesis unfolding rate_daysBetween_def by (simp only: round_div_mult)
qed

lemma day_of_addDays [simp]: "day_of (addDays d n) = day_of d + n"
proof -
  have "addDays d n = (day_of d + n) * day_ms" by (simp only: addDays_def utc_day_eq distrib_right)
  then show ?thesis by (simp only: day_of_mult)
qed

lemma step_bounds:
  "0 \<le> ep_minStepCents policy \<Longrightarrow> ep_minStepCents policy \<le> ep_maxStepCents policy \<Longrightarrow>
    ep_minStepCents policy \<le> step_for candidate policy \<and> step_for candidate policy \<le> ep_maxStepCents policy"
  by (auto simp: step_for_def)

text \<open>The notice period and the size of a raise. A raise can be scheduled exactly from the earliest
  date the form offers on; the notice day of such a raise is not past and at least the notice period
  before it takes effect. The rate a batch proposes is a whole number of dollars or the street rate,
  never above street where the policy caps it there, and otherwise within half a dollar of the
  current rate plus a step between the policy's floor and ceiling.\<close>

theorem rate_rules:
  "(0 < noticeDays \<longrightarrow> current < new \<longrightarrow> (scheduleProblem current new effective noticeDays today = None \<longleftrightarrow>
    day_of (earliestEffectiveDate today noticeDays) \<le> day_of effective)) \<and>
    (scheduleProblem current new effective noticeDays today = None \<longrightarrow> (current < new \<and> day_of today \<le> day_of (noticeDateFor effective noticeDays) \<and>
    day_of (noticeDateFor effective noticeDays) + noticeDays = day_of effective)) \<and>
    (ep_capAtStreet policy \<longrightarrow> targetRateFor candidate policy \<le> ca_streetRateCents candidate) \<and>
    (100 dvd targetRateFor candidate policy \<or> targetRateFor candidate policy = ca_streetRateCents candidate) \<and>
    (0 \<le> ep_minStepCents policy \<longrightarrow> ep_minStepCents policy \<le> ep_maxStepCents policy \<longrightarrow> targetRateFor candidate policy \<noteq> ca_streetRateCents candidate \<longrightarrow> (ca_inPlaceRateCents candidate + ep_minStepCents policy - 50 \<le> targetRateFor candidate policy \<and>
    targetRateFor candidate policy \<le> ca_inPlaceRateCents candidate + ep_maxStepCents policy + 50))"
proof -
  have r1: "0 < noticeDays \<Longrightarrow> current < new \<Longrightarrow> scheduleProblem current new effective noticeDays today = None \<longleftrightarrow>
      day_of (earliestEffectiveDate today noticeDays) \<le> day_of effective"
    by (auto simp: scheduleProblem_def rate_daysBetween_eq earliestEffectiveDate_def)
  have r2: "scheduleProblem current new effective noticeDays today = None \<Longrightarrow>
      current < new \<and> day_of today \<le> day_of (noticeDateFor effective noticeDays) \<and>
      day_of (noticeDateFor effective noticeDays) + noticeDays = day_of effective"
    by (auto simp: scheduleProblem_def rate_daysBetween_eq noticeDateFor_def split: if_splits)
  have r3: "ep_capAtStreet policy \<Longrightarrow> targetRateFor candidate policy \<le> ca_streetRateCents candidate"
    by (simp add: targetRateFor_def Let_def)
  have r4: "100 dvd targetRateFor candidate policy \<or> targetRateFor candidate policy = ca_streetRateCents candidate"
    by (auto simp: targetRateFor_def Let_def min_def)
  let ?t = "round_div (ca_inPlaceRateCents candidate + step_for candidate policy) 100 * 100"
  have r5: "ca_inPlaceRateCents candidate + ep_minStepCents policy - 50 \<le> targetRateFor candidate policy \<and>
      targetRateFor candidate policy \<le> ca_inPlaceRateCents candidate + ep_maxStepCents policy + 50"
    if p: "0 \<le> ep_minStepCents policy" "ep_minStepCents policy \<le> ep_maxStepCents policy"
      and n: "targetRateFor candidate policy \<noteq> ca_streetRateCents candidate"
  proof -
    have "targetRateFor candidate policy = ?t" using n by (auto simp: targetRateFor_def Let_def min_def split: if_splits)
    moreover have "\<bar>?t - (ca_inPlaceRateCents candidate + step_for candidate policy)\<bar> \<le> 50"
      unfolding round_div_def by presburger
    ultimately show ?thesis using step_bounds [OF p, of candidate] by linarith
  qed
  show ?thesis using r1 r2 r3 r4 r5 by blast
qed

theorem rate_rules_witness:
  "scheduleProblem 10000 11000 (40 * day_ms) 30 (5 * day_ms) = None \<and>
    day_of (5 * day_ms) \<le> day_of (noticeDateFor (40 * day_ms) 30) \<and>
    targetRateFor \<lparr>ca_leaseId = ''l'', ca_inPlaceRateCents = 8950, ca_streetRateCents = 15000,
      ca_monthsSinceLastChange = Some 12\<rparr> DEFAULT_ECRI_POLICY \<le> 15000 \<and>
    targetRateFor \<lparr>ca_leaseId = ''l'', ca_inPlaceRateCents = 8950, ca_streetRateCents = 15000,
      ca_monthsSinceLastChange = Some 12\<rparr> DEFAULT_ECRI_POLICY \<le> 8950 + 3000 + 50"
proof -
  let ?c = "\<lparr>ca_leaseId = ''l'', ca_inPlaceRateCents = 8950, ca_streetRateCents = 15000,
      ca_monthsSinceLastChange = Some 12\<rparr>"
  have s: "scheduleProblem 10000 11000 (40 * day_ms) 30 (5 * day_ms) = None"
    using rate_rules [THEN conjunct1, of 30 10000 11000 "40 * day_ms" "5 * day_ms"]
    by (simp add: earliestEffectiveDate_def) (simp add: day_of_def)
  have "targetRateFor ?c DEFAULT_ECRI_POLICY \<noteq> 15000"
    by (simp add: targetRateFor_def step_for_def DEFAULT_ECRI_POLICY_def round_div_def Let_def)
  then show ?thesis
    using s rate_rules [of 30 10000 11000 "40 * day_ms" "5 * day_ms" DEFAULT_ECRI_POLICY ?c]
    by (simp add: DEFAULT_ECRI_POLICY_def)
qed

text \<open>What a unit is sold as. A unit is rentable exactly when nothing stands on it and its operator
  has it available; whenever a status may be set by hand, the unit's status becomes the one that was
  set unless a checkout has locked it; a unit that is overlocked, leased or reserved is never set by
  hand, and one with an open blocking ticket can only be taken further out of service.\<close>

theorem unit_status_correct:
  "isManualUnitStatus op \<Longrightarrow> isRentable (deriveUnitStatus op facts) \<longleftrightarrow> op = Available \<and> \<not> uf_overlocked facts \<and>
    uf_activeLease facts = None \<and> uf_activeReservation facts = None \<and> uf_activeCheckoutLock facts = None"
  "canSetManualStatus target facts = None \<Longrightarrow> isManualUnitStatus target \<and>
    deriveUnitStatus target facts = (if uf_activeCheckoutLock facts = None then target else Reserved)"
  "canSetManualStatus target facts = None \<longleftrightarrow> isManualUnitStatus target \<and> \<not> uf_overlocked facts \<and>
    uf_activeLease facts = None \<and> uf_activeReservation facts = None \<and>
    (uf_blockingMaintenanceTicket facts \<noteq> None \<longrightarrow> target \<noteq> Available)"
  by (cases "uf_activeLease facts"; auto simp: isRentable_def deriveUnitStatus_def canSetManualStatus_def
      isManualUnitStatus_def MANUAL_UNIT_STATUSES_def split: option.splits if_splits)+

theorem unit_status_correct_witness:
  "isRentable (deriveUnitStatus Available \<lparr>uf_activeLease = None, uf_activeReservation = None,
      uf_activeCheckoutLock = None, uf_overlocked = False, uf_blockingMaintenanceTicket = Some ''k''\<rparr>) \<and>
    deriveUnitStatus Maintenance \<lparr>uf_activeLease = None, uf_activeReservation = None,
      uf_activeCheckoutLock = None, uf_overlocked = False, uf_blockingMaintenanceTicket = Some ''k''\<rparr> = Maintenance"
proof -
  let ?f = "\<lparr>uf_activeLease = None, uf_activeReservation = None, uf_activeCheckoutLock = None,
    uf_overlocked = False, uf_blockingMaintenanceTicket = Some ''k''\<rparr> :: unit_occupancy_facts"
  have "canSetManualStatus Maintenance ?f = None"
    unfolding unit_status_correct(3) by (simp add: isManualUnitStatus_def MANUAL_UNIT_STATUSES_def)
  from unit_status_correct(2) [OF this] unit_status_correct(1) [of Available ?f] show ?thesis
    by (simp add: isManualUnitStatus_def MANUAL_UNIT_STATUSES_def)
qed

end
