(* ===== verification/RateRuns.thy ===== *)
theory RateRuns
  imports Rates Transitions
begin

text \<open>
  The rate-change workflow (\<open>apps/web/lib/pricing/tenant-rate-increases.ts\<close>) of one facility: a
  change is scheduled, approved, its notice sent and checked, and applied by nightly jobs; it can be
  cancelled or sent again. The table of changes is a list in the order of insertion, on which the jobs
  work row by row with guarded writes. What the queries return of other tables is an argument: why a
  lease must not be raised, the message statuses of a notice event. Permission checks are arguments;
  the tasks and audit entries the operations write are left out.
\<close>

section \<open>The tables\<close>

record rate_lease =
  rl_monthlyRateCents :: cents
  rl_status :: string

datatype change_reason = Ecri | Retention

record rate_change =
  rc_leaseId :: string
  rc_previousRateCents :: cents
  rc_newRateCents :: cents
  rc_effectiveFrom :: date
  rc_reason :: change_reason
  rc_rateIncreaseId :: string

record rate_db =
  rd_leases :: "string \<rightharpoonup> rate_lease"
  rd_increases :: "rate_increase list"
  rd_changes :: "rate_change list"
  rd_events :: "string list"

text \<open>What an operation reads besides: the facts of the leases, the messages of an event, the facility's
  notice period, the business date and the clock.\<close>

record rate_env =
  re_facts :: "string \<rightharpoonup> ecri_exclusion_input"
  re_messages :: "string \<Rightarrow> string list"
  re_noticeDays :: int
  re_today :: date
  re_now :: date

definition ecriExclusionsFor :: "rate_env \<Rightarrow> string \<Rightarrow> ecri_exclusion option" where
  "ecriExclusionsFor env leaseId = (case re_facts env leaseId of None \<Rightarrow> None | Some f \<Rightarrow> ecriExclusion f)"

definition is_live :: "rate_increase \<Rightarrow> bool" where
  "is_live r \<longleftrightarrow> ri_status r \<in> set LIVE_RATE_INCREASE_STATUSES"

definition find_increase :: "string \<Rightarrow> rate_db \<Rightarrow> rate_increase option" where
  "find_increase i db = find (\<lambda>r. ri_id r = i) (rd_increases db)"

definition live_exists :: "string \<Rightarrow> rate_db \<Rightarrow> bool" where
  "live_exists leaseId db \<longleftrightarrow> list_ex (\<lambda>r. ri_leaseId r = leaseId \<and> is_live r) (rd_increases db)"

text \<open>\<open>updateMany\<close> with the id and the status in its condition: the row, when it still has that status.\<close>

definition claim :: "string \<Rightarrow> rate_increase_state \<Rightarrow> (rate_increase \<Rightarrow> rate_increase) \<Rightarrow> rate_db \<Rightarrow> rate_db" where
  "claim i st f db = db\<lparr>rd_increases :=
    map (\<lambda>r. if ri_id r = i \<and> ri_status r = st then f r else r) (rd_increases db)\<rparr>"

definition claims :: "string \<Rightarrow> rate_increase_state \<Rightarrow> rate_db \<Rightarrow> bool" where
  "claims i st db \<longleftrightarrow> list_ex (\<lambda>r. ri_id r = i \<and> ri_status r = st) (rd_increases db)"

definition update_increase :: "string \<Rightarrow> (rate_increase \<Rightarrow> rate_increase) \<Rightarrow> rate_db \<Rightarrow> rate_db" where
  "update_increase i f db = db\<lparr>rd_increases := map (\<lambda>r. if ri_id r = i then f r else r) (rd_increases db)\<rparr>"

definition add_increase :: "rate_increase \<Rightarrow> rate_db \<Rightarrow> rate_db" where
  "add_increase r db = db\<lparr>rd_increases := rd_increases db @ [r]\<rparr>"

definition applyRateChange ::
  "string \<Rightarrow> cents \<Rightarrow> date \<Rightarrow> change_reason \<Rightarrow> string \<Rightarrow> rate_db \<Rightarrow> rate_db"
where
  "applyRateChange leaseId newRateCents effectiveFrom reason rateIncreaseId db =
    (case rd_leases db leaseId of
      None \<Rightarrow> db
    | Some lease \<Rightarrow> db\<lparr>
        rd_leases := (rd_leases db)(leaseId \<mapsto> lease\<lparr>rl_monthlyRateCents := newRateCents\<rparr>),
        rd_changes := rd_changes db @ [\<lparr>rc_leaseId = leaseId,
          rc_previousRateCents = rl_monthlyRateCents lease, rc_newRateCents = newRateCents,
          rc_effectiveFrom = effectiveFrom, rc_reason = reason, rc_rateIncreaseId = rateIncreaseId\<rparr>]\<rparr>)"

section \<open>Scheduling\<close>

datatype rate_refusal =
  Not_here | Lease_over | Excluded ecri_exclusion | Increase_problem schedule_problem
| Decrease_refused decrease_problem | Live_change | No_reason | No_authority | Wrong_status rate_increase_state
| Rate_moved cents cents | Address_bad | No_candidates

definition new_increase ::
  "string \<Rightarrow> string \<Rightarrow> cents \<Rightarrow> cents \<Rightarrow> date \<Rightarrow> int \<Rightarrow> rate_increase"
where
  "new_increase newId leaseId current new effectiveDate noticeDays = \<lparr>ri_id = newId, ri_leaseId = leaseId,
    ri_currentRateCents = current, ri_newRateCents = new, ri_effectiveDate = effectiveDate,
    ri_noticeDate = noticeDateFor effectiveDate noticeDays, ri_noticeDays = noticeDays,
    ri_status = Pending_approval, ri_batchId = None, ri_approvedAt = None, ri_noticeSentAt = None,
    ri_noticeEventId = None, ri_noticeFailureReason = None, ri_appliedAt = None, ri_cancelledAt = None,
    ri_renoticedFromId = None\<rparr>"

definition scheduleRateIncrease ::
  "rate_env \<Rightarrow> string \<Rightarrow> cents \<Rightarrow> date \<Rightarrow> string \<Rightarrow> rate_db \<Rightarrow> rate_refusal option \<times> rate_db"
where
  "scheduleRateIncrease env leaseId newRateCents effective newId db =
    (case rd_leases db leaseId of
      None \<Rightarrow> (Some Not_here, db)
    | Some lease \<Rightarrow>
        if rl_status lease \<notin> set OCCUPYING_LEASE_STATUSES then (Some Lease_over, db)
        else (case ecriExclusionsFor env leaseId of
            Some e \<Rightarrow> (Some (Excluded e), db)
          | None \<Rightarrow> let effectiveDate = utc_day effective in
              (case scheduleProblem (rl_monthlyRateCents lease) newRateCents effectiveDate (re_noticeDays env) (re_today env) of
                Some p \<Rightarrow> (Some (Increase_problem p), db)
              | None \<Rightarrow> if live_exists leaseId db then (Some Live_change, db)
                  else (None, add_increase (new_increase newId leaseId (rl_monthlyRateCents lease) newRateCents
                    effectiveDate (re_noticeDays env)) db))))"

definition scheduleRateDecrease ::
  "rate_env \<Rightarrow> (cents \<Rightarrow> bool) \<Rightarrow> string \<Rightarrow> string \<Rightarrow> cents \<Rightarrow> date \<Rightarrow> string \<Rightarrow> rate_db \<Rightarrow> rate_refusal option \<times> rate_db"
where
  "scheduleRateDecrease env may reasonCode leaseId newRateCents effective newId db =
    (if trim reasonCode = [] then (Some No_reason, db)
     else case rd_leases db leaseId of
      None \<Rightarrow> (Some Not_here, db)
    | Some lease \<Rightarrow>
        if rl_status lease \<notin> set OCCUPYING_LEASE_STATUSES then (Some Lease_over, db)
        else let effectiveDate = utc_day effective in
          (case decreaseProblem (rl_monthlyRateCents lease) newRateCents effectiveDate (re_today env) of
            Some p \<Rightarrow> (Some (Decrease_refused p), db)
          | None \<Rightarrow>
              if \<not> may (rl_monthlyRateCents lease - newRateCents) then (Some No_authority, db)
              else if live_exists leaseId db then (Some Live_change, db)
              else (None, add_increase ((new_increase newId leaseId (rl_monthlyRateCents lease) newRateCents
                  effectiveDate 0)\<lparr>ri_noticeDate := effectiveDate, ri_status := Approved,
                  ri_approvedAt := Some (re_now env)\<rparr>) db)))"

text \<open>The leases a batch raises: the rows of the preview, without their display columns and order.\<close>

definition previewEligibleBatch :: "rate_env \<Rightarrow> ecri_policy \<Rightarrow> rate_db \<Rightarrow> candidate_lease list \<Rightarrow> (candidate_lease \<times> cents) list" where
  "previewEligibleBatch env rule db leases =
    filter (\<lambda>(c, new). ecriExclusionsFor env (ca_leaseId c) = None)
      (filter (\<lambda>(c, new). new > ca_inPlaceRateCents c)
        (filter (\<lambda>(c, new). isEligibleForIncrease c rule)
          (map (\<lambda>c. (c, targetRateFor c rule))
            (filter (\<lambda>c. \<not> live_exists (ca_leaseId c) db) leases))))"

definition scheduleEligibleBatch ::
  "rate_env \<Rightarrow> ecri_policy \<Rightarrow> date \<Rightarrow> string \<Rightarrow> (string \<Rightarrow> string) \<Rightarrow> candidate_lease list \<Rightarrow> rate_db \<Rightarrow>
    rate_refusal option \<times> rate_db"
where
  "scheduleEligibleBatch env rule effectiveDate batchId newId leases db = (
    let effective = utc_day effectiveDate in
    case scheduleProblem 0 1 effective (re_noticeDays env) (re_today env) of
      Some p \<Rightarrow> (Some (Increase_problem p), db)
    | None \<Rightarrow> let candidates = previewEligibleBatch env rule db leases in
        if length candidates = 0 then (Some No_candidates, db)
        else (None, db\<lparr>rd_increases := rd_increases db @
          map (\<lambda>(c, new). (new_increase (newId (ca_leaseId c)) (ca_leaseId c) (ca_inPlaceRateCents c) new effective
            (re_noticeDays env))\<lparr>ri_batchId := Some batchId\<rparr>) candidates\<rparr>))"

section \<open>Approving, cancelling, sending again\<close>

definition approveRateIncrease :: "rate_env \<Rightarrow> bool \<Rightarrow> string \<Rightarrow> string \<Rightarrow> rate_db \<Rightarrow> rate_refusal option \<times> rate_db" where
  "approveRateIncrease env regional i reasonCode db =
    (case find_increase i db of
      None \<Rightarrow> (Some Not_here, db)
    | Some row \<Rightarrow>
        if \<not> regional then (Some No_authority, db)
        else if trim reasonCode = [] then (Some No_reason, db)
        else if ri_status row \<noteq> Pending_approval then (Some (Wrong_status (ri_status row)), db)
        else (None, update_increase i
          (\<lambda>r. r\<lparr>ri_status := Approved, ri_approvedAt := Some (re_now env)\<rparr>) db))"

definition cancel_row :: "date \<Rightarrow> rate_increase \<Rightarrow> rate_increase" where
  "cancel_row now r = r\<lparr>ri_status := Cancelled, ri_cancelledAt := Some now\<rparr>"

definition cancelRateIncrease :: "rate_env \<Rightarrow> string \<Rightarrow> string \<Rightarrow> rate_db \<Rightarrow> rate_refusal option \<times> rate_db" where
  "cancelRateIncrease env i reasonCode db =
    (case find_increase i db of
      None \<Rightarrow> (Some Not_here, db)
    | Some row \<Rightarrow>
        if trim reasonCode = [] then (Some No_reason, db)
        else if \<not> isCancellable (ri_status row) then (Some (Wrong_status (ri_status row)), db)
        else (None, update_increase i (cancel_row (re_now env)) db))"

text \<open>\<open>addressStillBad\<close> is the outcome of comparing the failed addresses with the ones on file.\<close>

definition renoticeRateIncrease ::
  "rate_env \<Rightarrow> (string \<Rightarrow> bool) \<Rightarrow> string \<Rightarrow> string \<Rightarrow> string \<Rightarrow> rate_db \<Rightarrow> rate_refusal option \<times> rate_db"
where
  "renoticeRateIncrease env addressStillBad i reasonCode newId db =
    (case find_increase i db of
      None \<Rightarrow> (Some Not_here, db)
    | Some row \<Rightarrow>
        if trim reasonCode = [] then (Some No_reason, db)
        else if ri_status row \<noteq> Notice_failed then (Some (Wrong_status (ri_status row)), db)
        else (case rd_leases db (ri_leaseId row) of
            None \<Rightarrow> (Some Lease_over, db)
          | Some lease \<Rightarrow>
              if rl_status lease \<notin> set OCCUPYING_LEASE_STATUSES then (Some Lease_over, db)
              else if rl_monthlyRateCents lease \<noteq> ri_currentRateCents row
              then (Some (Rate_moved (rl_monthlyRateCents lease) (ri_currentRateCents row)), db)
              else if truthy (ri_noticeEventId row) \<and> addressStillBad (the (ri_noticeEventId row))
              then (Some Address_bad, db)
              else let earliest = earliestEffectiveDate (re_today env) (re_noticeDays env);
                       effectiveDate = utc_day (if ri_effectiveDate row \<ge> earliest then ri_effectiveDate row else earliest)
                in (case scheduleProblem (ri_currentRateCents row) (ri_newRateCents row) effectiveDate
                      (re_noticeDays env) (re_today env) of
                    Some p \<Rightarrow> (Some (Increase_problem p), db)
                  | None \<Rightarrow> (None, add_increase
                      ((new_increase newId (ri_leaseId row) (ri_currentRateCents row) (ri_newRateCents row)
                        effectiveDate (re_noticeDays env))\<lparr>ri_batchId := ri_batchId row, ri_status := Approved,
                        ri_approvedAt := ri_approvedAt row, ri_renoticedFromId := Some (ri_id row)\<rparr>)
                      (update_increase i (cancel_row (re_now env)) db)))))"

section \<open>The nightly jobs\<close>

definition cancelIneligibleIncrease :: "rate_env \<Rightarrow> rate_increase \<Rightarrow> rate_db \<Rightarrow> rate_db" where
  "cancelIneligibleIncrease env row db = claim (ri_id row) (ri_status row) (cancel_row (re_now env)) db"

definition send_one :: "rate_env \<Rightarrow> (string \<Rightarrow> string) \<Rightarrow> rate_db \<Rightarrow> rate_increase \<Rightarrow> rate_db" where
  "send_one env eventId db row =
    (if \<not> noticeIsDue row (re_today env) then db
     else if ecriExclusionsFor env (ri_leaseId row) \<noteq> None \<and> \<not> isRateDecrease row
     then cancelIneligibleIncrease env row db
     else if \<not> claims (ri_id row) Approved db then db
     else (claim (ri_id row) Approved (\<lambda>r. r\<lparr>ri_status := Notice_sent, ri_noticeSentAt := Some (re_now env),
         ri_noticeEventId := Some (eventId (ri_id row))\<rparr>) db)\<lparr>rd_events := rd_events db @ [eventId (ri_id row)]\<rparr>)"

text \<open>The rows a run of the notice job reads.\<close>

definition notice_row :: "rate_env \<Rightarrow> rate_increase \<Rightarrow> bool" where
  "notice_row env r \<longleftrightarrow> ri_status r = Approved \<and> ri_noticeDate r \<le> utc_day (re_today env)"

definition sendDueRateIncreaseNotices :: "rate_env \<Rightarrow> (string \<Rightarrow> string) \<Rightarrow> rate_db \<Rightarrow> rate_db" where
  "sendDueRateIncreaseNotices env eventId db = foldl (send_one env eventId) db
    (filter (notice_row env) (rd_increases db))"

definition NO_SEND_RECORD_GRACE_MS :: int where
  "NO_SEND_RECORD_GRACE_MS = 2 * 60 * 60 * 1000"

text \<open>Whether a notice counts as not delivered.\<close>

definition notice_lost :: "rate_env \<Rightarrow> rate_increase \<Rightarrow> bool" where
  "notice_lost env row \<longleftrightarrow> (
    let verdict = noticeDeliveryVerdict (re_messages env (the (ri_noticeEventId row)))
    in verdict \<noteq> Reached \<and> \<not> (verdict = No_send_record \<and>
      re_now env - or_else (ri_noticeSentAt row) 0 < NO_SEND_RECORD_GRACE_MS))"

definition reconcile_one :: "rate_env \<Rightarrow> rate_db \<Rightarrow> rate_increase \<Rightarrow> rate_db" where
  "reconcile_one env db row =
    (if \<not> notice_lost env row then db
     else claim (ri_id row) Notice_sent (\<lambda>r. r\<lparr>ri_status := Notice_failed,
       ri_noticeFailureReason := Some (noticeDeliveryVerdict (re_messages env (the (ri_noticeEventId row))))\<rparr>) db)"

definition sent_row_due :: "rate_increase \<Rightarrow> bool" where
  "sent_row_due r \<longleftrightarrow> ri_status r = Notice_sent \<and> ri_noticeEventId r \<noteq> None"

definition reconcileRateIncreaseNotices :: "rate_env \<Rightarrow> rate_db \<Rightarrow> rate_db" where
  "reconcileRateIncreaseNotices env db = foldl (reconcile_one env) db
    (filter sent_row_due (rd_increases db))"

definition apply_one :: "rate_env \<Rightarrow> rate_db \<Rightarrow> rate_increase \<Rightarrow> rate_db" where
  "apply_one env db row =
    (if \<not> applyIsDue row (re_today env) then db
     else case rd_leases db (ri_leaseId row) of
        None \<Rightarrow> update_increase (ri_id row) (cancel_row (re_now env)) db
      | Some lease \<Rightarrow>
          if rl_status lease \<notin> set OCCUPYING_LEASE_STATUSES
          then update_increase (ri_id row) (cancel_row (re_now env)) db
          else if \<not> isRateDecrease row \<and> ecriExclusionsFor env (ri_leaseId row) \<noteq> None
          then cancelIneligibleIncrease env row db
          else if rl_monthlyRateCents lease \<noteq> ri_currentRateCents row then db
          else if \<not> claims (ri_id row) (ri_status row) db then db
          else applyRateChange (ri_leaseId row) (ri_newRateCents row) (ri_effectiveDate row)
            (if isRateDecrease row then Retention else Ecri) (ri_id row)
            (claim (ri_id row) (ri_status row)
              (\<lambda>r. r\<lparr>ri_status := Applied, ri_appliedAt := Some (re_now env)\<rparr>) db))"

definition apply_row_due :: "rate_env \<Rightarrow> rate_increase \<Rightarrow> bool" where
  "apply_row_due env r \<longleftrightarrow> (ri_status r = Notice_sent \<or> ri_status r = Approved) \<and>
    ri_effectiveDate r \<le> utc_day (re_today env)"

definition applyDueRateIncreases :: "rate_env \<Rightarrow> rate_db \<Rightarrow> rate_db" where
  "applyDueRateIncreases env db = (let db = reconcileRateIncreaseNotices env db in
    foldl (apply_one env) db (filter (apply_row_due env) (rd_increases db)))"

section \<open>The system\<close>

text \<open>Every operation, in any order, under any facts, messages and clock. Leases also change elsewhere.\<close>

definition ids_of :: "rate_db \<Rightarrow> string set" where
  "ids_of db = ri_id ` set (rd_increases db)"

inductive rate_step :: "rate_db \<Rightarrow> rate_db \<Rightarrow> bool" where
  schedule: "newId \<notin> ids_of db \<Longrightarrow> rate_step db (snd (scheduleRateIncrease env leaseId new effective newId db))"
| lower: "newId \<notin> ids_of db \<Longrightarrow>
    rate_step db (snd (scheduleRateDecrease env may reasonCode leaseId new effective newId db))"
| batch: "distinct (map (\<lambda>c. newId (ca_leaseId c)) leases) \<Longrightarrow> distinct (map ca_leaseId leases) \<Longrightarrow>
    (\<And>c. c \<in> set leases \<Longrightarrow> newId (ca_leaseId c) \<notin> ids_of db) \<Longrightarrow>
    rate_step db (snd (scheduleEligibleBatch env rule effective batchId newId leases db))"
| approve: "rate_step db (snd (approveRateIncrease env regional i reasonCode db))"
| cancel: "rate_step db (snd (cancelRateIncrease env i reasonCode db))"
| renotice: "newId \<notin> ids_of db \<Longrightarrow> rate_step db (snd (renoticeRateIncrease env bad i reasonCode newId db))"
| send: "rate_step db (sendDueRateIncreaseNotices env eventId db)"
| reconcile: "rate_step db (reconcileRateIncreaseNotices env db)"
| apply_due: "rate_step db (applyDueRateIncreases env db)"
| elsewhere: "rate_step db (db\<lparr>rd_leases := ls\<rparr>)"

inductive_cases rate_stepE [elim]: "rate_step db db'"

definition no_rates :: "rate_db \<Rightarrow> bool" where
  "no_rates db \<longleftrightarrow> rd_increases db = [] \<and> rd_changes db = []"

text \<open>What a row of a given status has behind it.\<close>

definition row_ok :: "rate_increase \<Rightarrow> bool" where
  "row_ok r \<longleftrightarrow> (ri_status r \<in> {Approved, Notice_sent, Notice_failed, Applied} \<longrightarrow> ri_approvedAt r \<noteq> None) \<and>
    (ri_status r \<in> {Notice_sent, Notice_failed} \<longrightarrow> \<not> isRateDecrease r) \<and>
    (ri_status r \<in> {Notice_sent, Notice_failed, Applied} \<longrightarrow> isRateDecrease r \<or>
      ri_noticeSentAt r \<noteq> None \<and> ri_noticeEventId r \<noteq> None)"

definition backed :: "rate_increase list \<Rightarrow> rate_change \<Rightarrow> bool" where
  "backed rows c \<longleftrightarrow> (\<exists>r \<in> set rows. ri_id r = rc_rateIncreaseId c \<and> ri_status r = Applied \<and>
    ri_leaseId r = rc_leaseId c \<and> ri_currentRateCents r = rc_previousRateCents c \<and>
    ri_newRateCents r = rc_newRateCents c \<and> ri_effectiveDate r = rc_effectiveFrom c)"

definition one_live :: "rate_increase list \<Rightarrow> bool" where
  "one_live rows \<longleftrightarrow> (\<forall>r \<in> set rows. \<forall>r' \<in> set rows.
    is_live r \<longrightarrow> is_live r' \<longrightarrow> ri_leaseId r = ri_leaseId r' \<longrightarrow> ri_id r = ri_id r')"

definition rates_ok :: "rate_db \<Rightarrow> bool" where
  "rates_ok db \<longleftrightarrow> distinct (map ri_id (rd_increases db)) \<and> (\<forall>r \<in> set (rd_increases db). row_ok r) \<and>
    one_live (rd_increases db) \<and> (\<forall>c \<in> set (rd_changes db). backed (rd_increases db) c)"

lemma rates_okI:
  "distinct (map ri_id (rd_increases db)) \<Longrightarrow> (\<And>r. r \<in> set (rd_increases db) \<Longrightarrow> row_ok r) \<Longrightarrow>
    one_live (rd_increases db) \<Longrightarrow> (\<And>c. c \<in> set (rd_changes db) \<Longrightarrow> backed (rd_increases db) c) \<Longrightarrow> rates_ok db"
  unfolding rates_ok_def by blast

lemma live_existsD: "\<not> live_exists l db \<Longrightarrow> r \<in> set (rd_increases db) \<Longrightarrow> is_live r \<Longrightarrow> ri_leaseId r \<noteq> l"
  by (auto simp: live_exists_def list_ex_iff)

lemma by_id: "rates_ok db \<Longrightarrow> r \<in> set (rd_increases db) \<Longrightarrow> r' \<in> set (rd_increases db) \<Longrightarrow> ri_id r = ri_id r' \<Longrightarrow> r = r'"
  unfolding rates_ok_def by (metis distinct_map inj_onD)

lemma find_increaseD: "find_increase i db = Some r \<Longrightarrow> r \<in> set (rd_increases db) \<and> ri_id r = i"
  by (auto simp: find_increase_def find_Some_iff)

text \<open>One row is rewritten.\<close>

definition safe_rewrite :: "(rate_increase \<Rightarrow> rate_increase) \<Rightarrow> rate_increase \<Rightarrow> bool" where
  "safe_rewrite f r \<longleftrightarrow> ri_id (f r) = ri_id r \<and> ri_leaseId (f r) = ri_leaseId r \<and> row_ok (f r) \<and>
    (is_live (f r) \<longrightarrow> is_live r) \<and> ri_status r \<noteq> Applied"

lemma update_rows:
  assumes ok: "rates_ok db" and r: "r \<in> set (rd_increases db)" and f: "safe_rewrite f r"
  shows "map ri_id (rd_increases (update_increase (ri_id r) f db)) = map ri_id (rd_increases db)"
    and "x \<in> set (rd_increases (update_increase (ri_id r) f db)) \<Longrightarrow>
      x = f r \<or> x \<in> set (rd_increases db) \<and> ri_id x \<noteq> ri_id r"
    and "x \<in> set (rd_increases db) \<Longrightarrow> ri_id x \<noteq> ri_id r \<Longrightarrow> x \<in> set (rd_increases (update_increase (ri_id r) f db))"
    and "f r \<in> set (rd_increases (update_increase (ri_id r) f db))"
proof -
  have same: "x = r" if "x \<in> set (rd_increases db)" "ri_id x = ri_id r" for x
    using by_id [OF ok that(1) r that(2)] .
  show "map ri_id (rd_increases (update_increase (ri_id r) f db)) = map ri_id (rd_increases db)"
    using f same by (simp add: update_increase_def safe_rewrite_def) metis
  show "x \<in> set (rd_increases (update_increase (ri_id r) f db)) \<Longrightarrow>
      x = f r \<or> x \<in> set (rd_increases db) \<and> ri_id x \<noteq> ri_id r"
    using same by (auto simp: update_increase_def)
  show "x \<in> set (rd_increases db) \<Longrightarrow> ri_id x \<noteq> ri_id r \<Longrightarrow> x \<in> set (rd_increases (update_increase (ri_id r) f db))"
    by (force simp: update_increase_def)
  show "f r \<in> set (rd_increases (update_increase (ri_id r) f db))"
    using r by (force simp: update_increase_def)
qed

lemma rates_ok_update:
  assumes ok: "rates_ok db" and r: "r \<in> set (rd_increases db)" and f: "safe_rewrite f r"
  shows "rates_ok (update_increase (ri_id r) f db)"
proof (rule rates_okI)
  let ?db = "update_increase (ri_id r) f db"
  note rows = update_rows [OF ok r f]
  show "distinct (map ri_id (rd_increases ?db))" using ok unfolding rows(1) by (simp add: rates_ok_def)
  show "row_ok x" if "x \<in> set (rd_increases ?db)" for x
    using rows(2) [OF that] ok f unfolding rates_ok_def safe_rewrite_def by blast
  have old: "\<exists>x0 \<in> set (rd_increases db). is_live x0 \<and> ri_id x0 = ri_id x \<and> ri_leaseId x0 = ri_leaseId x"
    if "x \<in> set (rd_increases ?db)" "is_live x" for x
    using rows(2) [OF that(1)] that(2) r f unfolding safe_rewrite_def by metis
  show "one_live (rd_increases ?db)"
    unfolding one_live_def
  proof (intro ballI impI)
    fix x y assume "x \<in> set (rd_increases ?db)" "y \<in> set (rd_increases ?db)" "is_live x" "is_live y"
      "ri_leaseId x = ri_leaseId y"
    then show "ri_id x = ri_id y"
      using old [of x] old [of y] ok unfolding rates_ok_def one_live_def by metis
  qed
  show "backed (rd_increases ?db) c" if "c \<in> set (rd_changes ?db)" for c
  proof -
    have "backed (rd_increases db) c" using that ok by (simp add: update_increase_def rates_ok_def)
    then obtain x where x: "x \<in> set (rd_increases db)" "ri_status x = Applied" "ri_id x = rc_rateIncreaseId c"
      "ri_leaseId x = rc_leaseId c" "ri_currentRateCents x = rc_previousRateCents c"
      "ri_newRateCents x = rc_newRateCents c" "ri_effectiveDate x = rc_effectiveFrom c"
      unfolding backed_def by blast
    moreover have "ri_id x \<noteq> ri_id r" using by_id [OF ok x(1) r] x(2) f unfolding safe_rewrite_def by blast
    ultimately show ?thesis using rows(3) unfolding backed_def by blast
  qed
qed

text \<open>Rows are added.\<close>

lemma rates_ok_add:
  assumes ok: "rates_ok db" and ids: "distinct (map ri_id ns)" "\<And>n. n \<in> set ns \<Longrightarrow> ri_id n \<notin> ids_of db"
    and leases: "distinct (map ri_leaseId ns)" "\<And>n. n \<in> set ns \<Longrightarrow> \<not> live_exists (ri_leaseId n) db"
    and rows: "\<And>n. n \<in> set ns \<Longrightarrow> row_ok n"
  shows "rates_ok (db\<lparr>rd_increases := rd_increases db @ ns\<rparr>)"
proof (rule rates_okI)
  let ?rs = "rd_increases db @ ns"
  show "distinct (map ri_id (rd_increases (db\<lparr>rd_increases := ?rs\<rparr>)))"
    using ok ids by (auto simp: rates_ok_def ids_of_def image_iff) (metis image_eqI)
  show "row_ok x" if "x \<in> set (rd_increases (db\<lparr>rd_increases := ?rs\<rparr>))" for x
    using that ok rows by (auto simp: rates_ok_def)
  have inj: "n = m" if "n \<in> set ns" "m \<in> set ns" "ri_leaseId n = ri_leaseId m" for n m
    using leases(1) that by (metis distinct_map inj_onD)
  show "one_live (rd_increases (db\<lparr>rd_increases := ?rs\<rparr>))"
    unfolding one_live_def
  proof (intro ballI impI)
    fix x y assume "x \<in> set (rd_increases (db\<lparr>rd_increases := ?rs\<rparr>))" "y \<in> set (rd_increases (db\<lparr>rd_increases := ?rs\<rparr>))"
      and l: "is_live x" "is_live y" "ri_leaseId x = ri_leaseId y"
    then consider "x \<in> set (rd_increases db)" "y \<in> set (rd_increases db)" | "x \<in> set ns" "y \<in> set ns"
      | "x \<in> set (rd_increases db)" "y \<in> set ns" | "x \<in> set ns" "y \<in> set (rd_increases db)" by auto
    then show "ri_id x = ri_id y"
    proof cases
      case 1
      then show ?thesis using ok l unfolding rates_ok_def one_live_def by blast
    next
      case 2
      then show ?thesis using inj l(3) by blast
    next
      case 3
      then show ?thesis using live_existsD [OF leases(2)] l by metis
    next
      case 4
      then show ?thesis using live_existsD [OF leases(2)] l by metis
    qed
  qed
  show "backed (rd_increases (db\<lparr>rd_increases := ?rs\<rparr>)) c" if "c \<in> set (rd_changes (db\<lparr>rd_increases := ?rs\<rparr>))" for c
    using that ok unfolding rates_ok_def backed_def by auto
qed

lemma rates_ok_add_one:
  assumes "rates_ok db" and "ri_id n \<notin> ids_of db" and "\<not> live_exists (ri_leaseId n) db" and "row_ok n"
  shows "rates_ok (add_increase n db)"
  using rates_ok_add [OF assms(1), of "[n]"] assms by (simp add: add_increase_def)

lemma claim_eq:
  assumes ok: "rates_ok db" and r: "r \<in> set (rd_increases db)"
  shows "claim (ri_id r) (ri_status r) f db = update_increase (ri_id r) f db" and "claims (ri_id r) (ri_status r) db"
proof -
  have "map (\<lambda>x. if ri_id x = ri_id r \<and> ri_status x = ri_status r then f x else x) (rd_increases db) =
      map (\<lambda>x. if ri_id x = ri_id r then f x else x) (rd_increases db)"
    using by_id [OF ok _ r] by (intro map_cong refl) metis
  then show "claim (ri_id r) (ri_status r) f db = update_increase (ri_id r) f db"
    by (simp only: claim_def update_increase_def)
  show "claims (ri_id r) (ri_status r) db" using r by (auto simp: claims_def list_ex_iff)
qed

text \<open>The rewrites of the operations.\<close>

lemma safe_approve:
  "row_ok r \<Longrightarrow> ri_status r = Pending_approval \<Longrightarrow> safe_rewrite (\<lambda>r. r\<lparr>ri_status := Approved, ri_approvedAt := Some t\<rparr>) r"
  by (simp add: safe_rewrite_def row_ok_def is_live_def LIVE_RATE_INCREASE_STATUSES_def)

lemma safe_cancel: "isCancellable (ri_status r) \<Longrightarrow> safe_rewrite (cancel_row t) r"
  by (auto simp: safe_rewrite_def row_ok_def is_live_def LIVE_RATE_INCREASE_STATUSES_def isCancellable_def
      cancel_row_def)

lemma safe_notice: "row_ok r \<Longrightarrow> ri_status r = Approved \<Longrightarrow> \<not> isRateDecrease r \<Longrightarrow>
    safe_rewrite (\<lambda>r. r\<lparr>ri_status := Notice_sent, ri_noticeSentAt := Some t, ri_noticeEventId := Some e\<rparr>) r"
  by (simp add: safe_rewrite_def row_ok_def is_live_def LIVE_RATE_INCREASE_STATUSES_def isRateDecrease_def)

lemma safe_fail: "row_ok r \<Longrightarrow> ri_status r = Notice_sent \<Longrightarrow>
    safe_rewrite (\<lambda>r. r\<lparr>ri_status := Notice_failed, ri_noticeFailureReason := Some v\<rparr>) r"
  by (simp add: safe_rewrite_def row_ok_def is_live_def LIVE_RATE_INCREASE_STATUSES_def isRateDecrease_def) blast

lemma safe_apply: "row_ok r \<Longrightarrow> ri_status r = Notice_sent \<or> ri_status r = Approved \<and> isRateDecrease r \<Longrightarrow>
    safe_rewrite (\<lambda>r. r\<lparr>ri_status := Applied, ri_appliedAt := Some t\<rparr>) r"
  by (elim disjE conjE, simp_all add: safe_rewrite_def row_ok_def is_live_def LIVE_RATE_INCREASE_STATUSES_def
      isRateDecrease_def, blast)

lemma row_okD: "rates_ok db \<Longrightarrow> r \<in> set (rd_increases db) \<Longrightarrow> row_ok r"
  by (simp add: rates_ok_def)

lemma update_frame [simp]:
  "rd_changes (update_increase i f db) = rd_changes db" "rd_leases (update_increase i f db) = rd_leases db"
  "rd_changes (claim i st f db) = rd_changes db" "rd_leases (claim i st f db) = rd_leases db"
  by (simp_all add: update_increase_def claim_def)

lemma rates_ok_frame: "rates_ok (db\<lparr>rd_events := es\<rparr>) \<longleftrightarrow> rates_ok db" "rates_ok (db\<lparr>rd_leases := ls\<rparr>) \<longleftrightarrow> rates_ok db"
  by (simp_all add: rates_ok_def)

subsection \<open>A job that works row by row\<close>

text \<open>A job reads its rows once and handles each in turn; handling one leaves the others as they were
  read.\<close>

locale row_job =
  fixes step :: "rate_db \<Rightarrow> rate_increase \<Rightarrow> rate_db" and due :: "rate_increase \<Rightarrow> bool"
  assumes step_ok: "rates_ok db \<Longrightarrow> row \<in> set (rd_increases db) \<Longrightarrow> due row \<Longrightarrow> rates_ok (step db row)"
    and step_others: "rates_ok db \<Longrightarrow> row \<in> set (rd_increases db) \<Longrightarrow> due row \<Longrightarrow>
      x \<in> set (rd_increases db) \<Longrightarrow> ri_id x \<noteq> ri_id row \<Longrightarrow> x \<in> set (rd_increases (step db row))"
begin

lemma loop_ok:
  "rates_ok db \<Longrightarrow> distinct (map ri_id rows) \<Longrightarrow> set rows \<subseteq> set (rd_increases db) \<Longrightarrow> list_all due rows \<Longrightarrow>
    rates_ok (foldl step db rows)"
proof (induction rows arbitrary: db)
  case (Cons row rows)
  have row: "row \<in> set (rd_increases db)" "due row" using Cons.prems by auto
  have "set rows \<subseteq> set (rd_increases (step db row))"
  proof
    fix x assume x: "x \<in> set rows"
    then have "ri_id x \<noteq> ri_id row" using Cons.prems(2) by (metis distinct.simps(2) image_eqI list.map(2) set_map)
    then show "x \<in> set (rd_increases (step db row))"
      using step_others [OF Cons.prems(1) row] Cons.prems(3) x by auto
  qed
  then show ?case
    using Cons.IH [OF step_ok [OF Cons.prems(1) row]] Cons.prems by simp
qed simp

lemma job_ok:
  assumes "rates_ok db"
  shows "rates_ok (foldl step db (filter due (rd_increases db)))"
proof (rule loop_ok [OF assms])
  have "distinct (map ri_id (rd_increases db))" using assms by (simp add: rates_ok_def)
  then show "distinct (map ri_id (filter due (rd_increases db)))" by (rule distinct_map_filter)
qed (auto simp: list_all_iff)

end

lemma rates_ok_change:
  assumes ok: "rates_ok db" and l: "rd_leases db (ri_leaseId r) = Some lease" and r: "r \<in> set (rd_increases db)"
    and a: "ri_status r = Applied" and c: "rl_monthlyRateCents lease = ri_currentRateCents r"
  shows "rates_ok (applyRateChange (ri_leaseId r) (ri_newRateCents r) (ri_effectiveDate r) reason (ri_id r) db)"
proof -
  have "backed (rd_increases db) \<lparr>rc_leaseId = ri_leaseId r, rc_previousRateCents = rl_monthlyRateCents lease,
      rc_newRateCents = ri_newRateCents r, rc_effectiveFrom = ri_effectiveDate r, rc_reason = reason,
      rc_rateIncreaseId = ri_id r\<rparr>"
    using r a c unfolding backed_def by (intro bexI [of _ r]) simp_all
  then show ?thesis using ok l by (auto simp: applyRateChange_def rates_ok_def)
qed

interpretation notices: row_job "send_one env eventId" "notice_row env"
proof
  fix db row
  assume ok: "rates_ok db" and row: "row \<in> set (rd_increases db)" and due: "notice_row env row"
  note eq = claim_eq [OF ok row] and rok = row_okD [OF ok row]
  have st: "ri_status row = Approved" using due by (simp add: notice_row_def)
  have c: "isCancellable (ri_status row)" by (simp add: st isCancellable_def LIVE_RATE_INCREASE_STATUSES_def)
  show "rates_ok (send_one env eventId db row)"
    using ok rates_ok_update [OF ok row safe_cancel [OF c]]
      rates_ok_update [OF ok row safe_notice [OF rok st]] eq st
    by (auto simp: send_one_def cancelIneligibleIncrease_def noticeIsDue_def rates_ok_frame split: if_splits)
  fix x assume x: "x \<in> set (rd_increases db)" "ri_id x \<noteq> ri_id row"
  show "x \<in> set (rd_increases (send_one env eventId db row))"
    using x by (auto simp: send_one_def cancelIneligibleIncrease_def claim_def image_iff)
qed

interpretation checks: row_job "reconcile_one env" sent_row_due
proof
  fix db row
  assume ok: "rates_ok db" and row: "row \<in> set (rd_increases db)" and due: "sent_row_due row"
  have st: "ri_status row = Notice_sent" using due by (simp add: sent_row_due_def)
  show "rates_ok (reconcile_one env db row)"
    using ok rates_ok_update [OF ok row safe_fail [OF row_okD [OF ok row] st]] claim_eq [OF ok row] st
    by (simp add: reconcile_one_def)
  fix x assume x: "x \<in> set (rd_increases db)" "ri_id x \<noteq> ri_id row"
  show "x \<in> set (rd_increases (reconcile_one env db row))"
    using x by (auto simp: reconcile_one_def claim_def image_iff)
qed

lemma applyRateChange_rows [simp]: "rd_increases (applyRateChange l n e reason i db) = rd_increases db"
  by (simp add: applyRateChange_def split: option.split)

interpretation applies: row_job "apply_one env" "apply_row_due env"
proof
  fix db row
  assume ok: "rates_ok db" and row: "row \<in> set (rd_increases db)" and due: "apply_row_due env row"
  note eq = claim_eq [OF ok row] and rok = row_okD [OF ok row]
  let ?apply = "\<lambda>r. r\<lparr>ri_status := Applied, ri_appliedAt := Some (re_now env)\<rparr>"
  have "isCancellable (ri_status row)"
    using due by (auto simp: apply_row_due_def isCancellable_def LIVE_RATE_INCREASE_STATUSES_def)
  note cancelled = rates_ok_update [OF ok row safe_cancel [OF this, of "re_now env"]]
  have applied: "rates_ok (applyRateChange (ri_leaseId row) (ri_newRateCents row) (ri_effectiveDate row) reason
      (ri_id row) (update_increase (ri_id row) ?apply db))"
    if "applyIsDue row (re_today env)" "rd_leases db (ri_leaseId row) = Some lease"
      "rl_monthlyRateCents lease = ri_currentRateCents row" for reason lease
  proof -
    have st: "ri_status row = Notice_sent \<or> ri_status row = Approved \<and> isRateDecrease row"
      using that(1) by (auto simp: applyIsDue_def split: if_splits)
    note safe = safe_apply [OF rok st, of "re_now env"]
    have "?apply row \<in> set (rd_increases (update_increase (ri_id row) ?apply db))"
      by (rule update_rows(4) [OF ok row safe])
    from rates_ok_change [OF rates_ok_update [OF ok row safe] _ this] show ?thesis
      using that(2,3) by simp
  qed
  show "rates_ok (apply_one env db row)"
    using ok cancelled applied eq
    by (simp add: apply_one_def cancelIneligibleIncrease_def split: option.split)
  fix x assume x: "x \<in> set (rd_increases db)" "ri_id x \<noteq> ri_id row"
  show "x \<in> set (rd_increases (apply_one env db row))"
    using x by (auto simp: apply_one_def cancelIneligibleIncrease_def claim_def update_increase_def image_iff
        split: option.split)
qed

subsection \<open>Every operation keeps the tables in order\<close>

lemma new_increase_simps [simp]:
  "ri_id (new_increase i l c n e d) = i" "ri_leaseId (new_increase i l c n e d) = l"
  "ri_status (new_increase i l c n e d) = Pending_approval"
  "row_ok (new_increase i l c n e d)"
  by (simp_all add: new_increase_def row_ok_def)

lemma schedule_ok: "rates_ok db \<Longrightarrow> newId \<notin> ids_of db \<Longrightarrow>
    rates_ok (snd (scheduleRateIncrease env leaseId new effective newId db))"
  by (simp add: scheduleRateIncrease_def Let_def rates_ok_add_one split: option.split)

lemma lower_ok: "rates_ok db \<Longrightarrow> newId \<notin> ids_of db \<Longrightarrow>
    rates_ok (snd (scheduleRateDecrease env may reasonCode leaseId new effective newId db))"
  by (auto simp: scheduleRateDecrease_def Let_def row_ok_def intro!: rates_ok_add_one split: option.split)

lemma preview_sub:
  "map fst (previewEligibleBatch env rule db leases) =
    filter (\<lambda>c. \<not> live_exists (ca_leaseId c) db \<and> isEligibleForIncrease c rule \<and>
      ca_inPlaceRateCents c < targetRateFor c rule \<and> ecriExclusionsFor env (ca_leaseId c) = None) leases"
  by (induction leases) (auto simp: previewEligibleBatch_def)

lemma batch_ok:
  assumes ok: "rates_ok db" and ids: "distinct (map (\<lambda>c. newId (ca_leaseId c)) leases)"
    "\<And>c. c \<in> set leases \<Longrightarrow> newId (ca_leaseId c) \<notin> ids_of db" and ls: "distinct (map ca_leaseId leases)"
  shows "rates_ok (snd (scheduleEligibleBatch env rule effective batchId newId leases db))"
proof -
  let ?cs = "previewEligibleBatch env rule db leases"
  let ?row = "\<lambda>(c, new). (new_increase (newId (ca_leaseId c)) (ca_leaseId c) (ca_inPlaceRateCents c) new
    (utc_day effective) (re_noticeDays env))\<lparr>ri_batchId := Some batchId\<rparr>"
  have row: "ri_id (?row x) = newId (ca_leaseId (fst x))" "ri_leaseId (?row x) = ca_leaseId (fst x)" "row_ok (?row x)" for x
    by (simp_all add: case_prod_beta row_ok_def)
  have sub: "fst x \<in> set leases" "\<not> live_exists (ca_leaseId (fst x)) db" if "x \<in> set ?cs" for x
    using that by (auto simp: previewEligibleBatch_def)
  have d: "distinct (map f (map fst ?cs))" if "distinct (map f leases)" for f :: "candidate_lease \<Rightarrow> string"
    unfolding preview_sub using that by (rule distinct_map_filter)
  have "rates_ok (db\<lparr>rd_increases := rd_increases db @ map ?row ?cs\<rparr>)"
  proof (rule rates_ok_add [OF ok])
    show "distinct (map ri_id (map ?row ?cs))" "distinct (map ri_leaseId (map ?row ?cs))"
      using d [OF ids(1)] d [OF ls] by (simp_all add: o_def row)
  qed (use sub ids(2) row in auto)
  then show ?thesis using ok by (simp add: scheduleEligibleBatch_def Let_def split: option.split)
qed

lemma approve_ok: "rates_ok db \<Longrightarrow> rates_ok (snd (approveRateIncrease env regional i reasonCode db))"
  by (auto simp: approveRateIncrease_def split: option.split dest!: find_increaseD
      intro!: rates_ok_update safe_approve intro: row_okD)

lemma cancel_ok: "rates_ok db \<Longrightarrow> rates_ok (snd (cancelRateIncrease env i reasonCode db))"
  by (auto simp: cancelRateIncrease_def split: option.split dest!: find_increaseD
      intro!: rates_ok_update safe_cancel)

lemma renotice_ok:
  assumes ok: "rates_ok db" and fresh: "newId \<notin> ids_of db"
  shows "rates_ok (snd (renoticeRateIncrease env bad i reasonCode newId db))"
proof (cases "find_increase i db")
  case None
  then show ?thesis using ok by (simp add: renoticeRateIncrease_def)
next
  case (Some row)
  then have row: "row \<in> set (rd_increases db)" and i: "i = ri_id row" by (auto dest: find_increaseD)
  show ?thesis
  proof (cases "ri_status row = Notice_failed")
    case failed: True
    have c: "isCancellable (ri_status row)"
      by (simp add: failed isCancellable_def LIVE_RATE_INCREASE_STATUSES_def)
    let ?db = "update_increase (ri_id row) (cancel_row (re_now env)) db"
    note safe = safe_cancel [OF c, of "re_now env"] and rows = update_rows [OF ok row safe_cancel [OF c, of "re_now env"]]
    have ok': "rates_ok ?db" by (rule rates_ok_update [OF ok row safe])
    have ids: "newId \<notin> ids_of ?db"
      using fresh rows(1) unfolding ids_of_def by (metis set_map)
    have none: "\<not> live_exists (ri_leaseId row) ?db"
    proof
      assume "live_exists (ri_leaseId row) ?db"
      then obtain x where x: "x \<in> set (rd_increases ?db)" "ri_leaseId x = ri_leaseId row" "is_live x"
        by (auto simp: live_exists_def list_ex_iff)
      then have "x \<in> set (rd_increases db)" "ri_id x \<noteq> ri_id row"
        using rows(2) [OF x(1)] by (auto simp: cancel_row_def is_live_def LIVE_RATE_INCREASE_STATUSES_def)
      moreover have "is_live row" by (simp add: is_live_def failed LIVE_RATE_INCREASE_STATUSES_def)
      ultimately show False using ok row x unfolding rates_ok_def one_live_def by metis
    qed
    have approved: "ri_approvedAt row \<noteq> None" using row_okD [OF ok row] failed by (simp add: row_ok_def)
    have added: "rates_ok (add_increase n ?db)"
      if "ri_id n = newId" "ri_leaseId n = ri_leaseId row" "row_ok n" for n
      using rates_ok_add_one [OF ok', of n] ids none that by simp
    have new: "row_ok (new_increase newId l c m e d\<lparr>ri_batchId := b, ri_status := Approved,
        ri_approvedAt := ri_approvedAt row, ri_renoticedFromId := f\<rparr>)" for l c m e d b f
      using approved by (simp add: row_ok_def)
    show ?thesis
      using ok Some failed i
      by (simp add: renoticeRateIncrease_def Let_def added new split: option.split)
  next
    case False
    then show ?thesis using ok Some by (simp add: renoticeRateIncrease_def)
  qed
qed

lemma send_ok: "rates_ok db \<Longrightarrow> rates_ok (sendDueRateIncreaseNotices env eventId db)"
  using notices.job_ok by (simp add: sendDueRateIncreaseNotices_def)

lemma reconcile_ok: "rates_ok db \<Longrightarrow> rates_ok (reconcileRateIncreaseNotices env db)"
  using checks.job_ok by (simp add: reconcileRateIncreaseNotices_def)

lemma apply_ok: "rates_ok db \<Longrightarrow> rates_ok (applyDueRateIncreases env db)"
  using applies.job_ok [OF reconcile_ok] by (simp add: applyDueRateIncreases_def Let_def)

interpretation rates: invariant_of rate_step rates_ok no_rates
proof
  fix db db' assume step: "rate_step db db'" and ok: "rates_ok db"
  from step show "rates_ok db'"
    by cases (use ok schedule_ok lower_ok batch_ok approve_ok cancel_ok renotice_ok send_ok reconcile_ok apply_ok
      rates_ok_frame(2) in \<open>simp_all\<close>)
qed (simp add: no_rates_def rates_ok_def one_live_def)

subsection \<open>What a night changes\<close>

lemma apply_one_changes:
  "rd_changes (apply_one env db row) = rd_changes db \<or>
    rd_changes (apply_one env db row) = rd_changes db @ [\<lparr>rc_leaseId = ri_leaseId row,
      rc_previousRateCents = ri_currentRateCents row, rc_newRateCents = ri_newRateCents row,
      rc_effectiveFrom = ri_effectiveDate row, rc_reason = (if isRateDecrease row then Retention else Ecri),
      rc_rateIncreaseId = ri_id row\<rparr>] \<and> applyIsDue row (re_today env) \<and>
      (isRateDecrease row \<or> ecriExclusionsFor env (ri_leaseId row) = None)"
  by (auto simp: apply_one_def applyRateChange_def cancelIneligibleIncrease_def split: option.split)

definition came_from :: "rate_env \<Rightarrow> rate_increase list \<Rightarrow> rate_change \<Rightarrow> bool" where
  "came_from env rows c \<longleftrightarrow> (\<exists>row \<in> set rows. c = \<lparr>rc_leaseId = ri_leaseId row,
      rc_previousRateCents = ri_currentRateCents row, rc_newRateCents = ri_newRateCents row,
      rc_effectiveFrom = ri_effectiveDate row, rc_reason = (if isRateDecrease row then Retention else Ecri),
      rc_rateIncreaseId = ri_id row\<rparr> \<and> applyIsDue row (re_today env) \<and>
      (isRateDecrease row \<or> ecriExclusionsFor env (ri_leaseId row) = None))"

lemma apply_loop_changes:
  "\<exists>cs. rd_changes (foldl (apply_one env) db rows) = rd_changes db @ cs \<and> (\<forall>c \<in> set cs. came_from env rows c)"
proof (induction rows arbitrary: db)
  case (Cons row rows)
  obtain cs where cs: "rd_changes (foldl (apply_one env) (apply_one env db row) rows) =
      rd_changes (apply_one env db row) @ cs" "\<forall>c \<in> set cs. came_from env rows c"
    using Cons by blast
  have more: "came_from env (row # rows) c" if "came_from env rows c" for c
    using that by (auto simp: came_from_def)
  let ?c = "\<lparr>rc_leaseId = ri_leaseId row, rc_previousRateCents = ri_currentRateCents row,
    rc_newRateCents = ri_newRateCents row, rc_effectiveFrom = ri_effectiveDate row,
    rc_reason = (if isRateDecrease row then Retention else Ecri), rc_rateIncreaseId = ri_id row\<rparr>"
  consider "rd_changes (apply_one env db row) = rd_changes db"
    | "rd_changes (apply_one env db row) = rd_changes db @ [?c]" "came_from env (row # rows) ?c"
    using apply_one_changes [of env db row] unfolding came_from_def by auto
  then show ?case
  proof cases
    case 1
    then show ?thesis using cs more by (intro exI [of _ cs]) simp
  next
    case 2
    then show ?thesis using cs more by (intro exI [of _ "?c # cs"]) simp
  qed
qed simp

lemma reconcile_one_changes [simp]: "rd_changes (reconcile_one env db row) = rd_changes db"
  by (simp add: reconcile_one_def)

lemma send_one_changes [simp]: "rd_changes (send_one env eventId db row) = rd_changes db"
  by (simp add: send_one_def cancelIneligibleIncrease_def)

lemma foldl_changes: "(\<And>db row. rd_changes (f db row) = rd_changes db) \<Longrightarrow> rd_changes (foldl f db rows) = rd_changes db"
  by (induction rows arbitrary: db) simp_all

lemma job_changes [simp]:
  "rd_changes (reconcileRateIncreaseNotices env db) = rd_changes db"
  "rd_changes (sendDueRateIncreaseNotices env eventId db) = rd_changes db"
  by (simp_all add: reconcileRateIncreaseNotices_def sendDueRateIncreaseNotices_def foldl_changes)

lemma add_increase_changes [simp]: "rd_changes (add_increase r db) = rd_changes db"
  by (simp add: add_increase_def)

lemma desk_changes:
  "rd_changes (snd (scheduleRateIncrease env l n e i db)) = rd_changes db"
  "rd_changes (snd (scheduleRateDecrease env may rc l n e i db)) = rd_changes db"
  "rd_changes (snd (scheduleEligibleBatch env rule e b ids ls db)) = rd_changes db"
  "rd_changes (snd (approveRateIncrease env reg i rc db)) = rd_changes db"
  "rd_changes (snd (cancelRateIncrease env i rc db)) = rd_changes db"
  "rd_changes (snd (renoticeRateIncrease env bad i rc i' db)) = rd_changes db"
  by (simp_all add: scheduleRateIncrease_def scheduleRateDecrease_def scheduleEligibleBatch_def
      approveRateIncrease_def cancelRateIncrease_def renoticeRateIncrease_def Let_def split: option.split)

interpretation rate_log: append_only rate_step rd_changes
proof
  fix db db' assume "rate_step db db'"
  then show "\<exists>cs. rd_changes db' = rd_changes db @ cs"
  proof cases
    case (apply_due env)
    then show ?thesis
      using apply_loop_changes [of env "reconcileRateIncreaseNotices env db"]
      by (auto simp: applyDueRateIncreases_def Let_def)
  qed (simp_all add: desk_changes)
qed


lemma failed_rows:
  "r \<in> set (rd_increases (claim i Notice_sent (\<lambda>r. r\<lparr>ri_status := Notice_failed, ri_noticeFailureReason := v\<rparr>) db)) \<Longrightarrow>
    ri_status r \<noteq> Notice_failed \<Longrightarrow> r \<in> set (rd_increases db) \<and> (ri_id r = i \<longrightarrow> ri_status r \<noteq> Notice_sent)"
  by (auto simp: claim_def split: if_splits)

lemma reconcile_rows:
  "r \<in> set (rd_increases (foldl (reconcile_one env) db rows)) \<Longrightarrow> ri_status r \<noteq> Notice_failed \<Longrightarrow>
    r \<in> set (rd_increases db) \<and> (r \<in> set rows \<longrightarrow> ri_status r = Notice_sent \<longrightarrow> \<not> notice_lost env r)"
proof (induction rows arbitrary: db)
  case (Cons row rows)
  have r: "r \<in> set (rd_increases (reconcile_one env db row))"
    "r \<in> set rows \<longrightarrow> ri_status r = Notice_sent \<longrightarrow> \<not> notice_lost env r"
    using Cons by auto
  show ?case
    using r Cons.prems(2) failed_rows [of r "ri_id row" _ db] by (auto simp: reconcile_one_def split: if_splits)
qed simp

text \<open>What one night applies. Every change the nightly run makes comes from a row that was in the
  table and whose effective day had come; a raise only from a row whose notice had been sent and was
  not found undelivered that same night, on a lease nothing excludes from being raised; a reduction
  only from an approved row. The change takes the lease from the rate the row was approved against to
  the row's new rate.\<close>

theorem apply_run_correct:
  "\<exists>cs. rd_changes (applyDueRateIncreases env db) = rd_changes db @ cs \<and> (\<forall>c \<in> set cs.
    \<exists>row \<in> set (rd_increases db). rc_rateIncreaseId c = ri_id row \<and> rc_leaseId c = ri_leaseId row \<and>
      rc_previousRateCents c = ri_currentRateCents row \<and> rc_newRateCents c = ri_newRateCents row \<and>
      day_of (ri_effectiveDate row) \<le> day_of (re_today env) \<and>
      (if isRateDecrease row then ri_status row = Approved
       else ri_status row = Notice_sent \<and> ecriExclusionsFor env (ri_leaseId row) = None \<and>
         (ri_noticeEventId row \<noteq> None \<longrightarrow> \<not> notice_lost env row)))"
proof -
  let ?db = "reconcileRateIncreaseNotices env db"
  let ?rows = "filter (apply_row_due env) (rd_increases ?db)"
  obtain cs where cs: "rd_changes (applyDueRateIncreases env db) = rd_changes db @ cs"
      "\<forall>c \<in> set cs. came_from env ?rows c"
    using apply_loop_changes [of env ?db ?rows] by (auto simp: applyDueRateIncreases_def Let_def)
  have row: "row \<in> set (rd_increases db) \<and> (ri_status row = Notice_sent \<longrightarrow> ri_noticeEventId row \<noteq> None \<longrightarrow>
      \<not> notice_lost env row)" if "row \<in> set ?rows" for row
    using that reconcile_rows [of row env db "filter sent_row_due (rd_increases db)"]
    by (auto simp: reconcileRateIncreaseNotices_def apply_row_due_def sent_row_due_def)
  show ?thesis
  proof (intro exI conjI ballI)
    show "rd_changes (applyDueRateIncreases env db) = rd_changes db @ cs" by (rule cs(1))
    fix c assume "c \<in> set cs"
    then obtain r where r: "r \<in> set ?rows" "c = \<lparr>rc_leaseId = ri_leaseId r,
      rc_previousRateCents = ri_currentRateCents r, rc_newRateCents = ri_newRateCents r,
      rc_effectiveFrom = ri_effectiveDate r, rc_reason = (if isRateDecrease r then Retention else Ecri),
      rc_rateIncreaseId = ri_id r\<rparr>" "applyIsDue r (re_today env)"
      "isRateDecrease r \<or> ecriExclusionsFor env (ri_leaseId r) = None"
      using cs(2) unfolding came_from_def by blast
    show "\<exists>row \<in> set (rd_increases db). rc_rateIncreaseId c = ri_id row \<and> rc_leaseId c = ri_leaseId row \<and>
      rc_previousRateCents c = ri_currentRateCents row \<and> rc_newRateCents c = ri_newRateCents row \<and>
      day_of (ri_effectiveDate row) \<le> day_of (re_today env) \<and>
      (if isRateDecrease row then ri_status row = Approved
       else ri_status row = Notice_sent \<and> ecriExclusionsFor env (ri_leaseId row) = None \<and>
         (ri_noticeEventId row \<noteq> None \<longrightarrow> \<not> notice_lost env row))"
      using row [OF r(1)] r(2-4)
      by (intro bexI [of _ r]) (auto simp: applyIsDue_def rate_daysBetween_eq split: if_splits)
  qed
qed

text \<open>A raise scheduled thirty days ahead, left unapproved until the day before it takes effect.\<close>

definition late_env :: "int \<Rightarrow> rate_env" where
  "late_env day = \<lparr>re_facts = Map.empty, re_messages = (\<lambda>_. [''sent'']), re_noticeDays = 30,
    re_today = day * day_ms, re_now = day * day_ms\<rparr>"

definition late_start :: rate_db where
  "late_start = \<lparr>rd_leases = [''l'' \<mapsto> \<lparr>rl_monthlyRateCents = 10000, rl_status = ''active''\<rparr>],
    rd_increases = [], rd_changes = [], rd_events = []\<rparr>"

definition late_noticed :: rate_db where
  "late_noticed = (
    let db = snd (scheduleRateIncrease (late_env 0) ''l'' 12000 (30 * day_ms) ''i'' late_start);
        db = snd (approveRateIncrease (late_env 29) True ''i'' ''annual review'' db)
    in sendDueRateIncreaseNotices (late_env 29) (\<lambda>i. ''e'') db)"

definition late_approval :: rate_db where
  "late_approval = applyDueRateIncreases (late_env 30) late_noticed"

text \<open>The tables and the row of the example.\<close>

abbreviation late_row ::
  "rate_increase_state \<Rightarrow> date option \<Rightarrow> date option \<Rightarrow> string option \<Rightarrow> date option \<Rightarrow> rate_increase"
where
  "late_row st approved sent ev applied \<equiv> \<lparr>ri_id = ''i'', ri_leaseId = ''l'', ri_currentRateCents = 10000,
    ri_newRateCents = 12000, ri_effectiveDate = 30 * day_ms, ri_noticeDate = 0, ri_noticeDays = 30,
    ri_status = st, ri_batchId = None, ri_approvedAt = approved, ri_noticeSentAt = sent,
    ri_noticeEventId = ev, ri_noticeFailureReason = None, ri_appliedAt = applied, ri_cancelledAt = None,
    ri_renoticedFromId = None\<rparr>"

abbreviation late_db :: "cents \<Rightarrow> rate_increase list \<Rightarrow> rate_change list \<Rightarrow> string list \<Rightarrow> rate_db" where
  "late_db rate rows changes events \<equiv> \<lparr>rd_leases = [''l'' \<mapsto> \<lparr>rl_monthlyRateCents = rate, rl_status = ''active''\<rparr>],
    rd_increases = rows, rd_changes = changes, rd_events = events\<rparr>"

lemma late_env_facts:
  "ecriExclusionsFor (late_env n) l = None" "re_today (late_env n) = n * day_ms" "re_now (late_env n) = n * day_ms"
  "re_noticeDays (late_env n) = 30" "re_messages (late_env n) e = [''sent'']"
  by (simp_all add: ecriExclusionsFor_def late_env_def)

lemma late_days:
  "utc_day (30 * day_ms) = 30 * day_ms" "utc_day (29 * day_ms) = 29 * day_ms"
  "rate_daysBetween (0 * day_ms) (30 * day_ms) = 30" "rate_daysBetween (29 * day_ms) 0 = -29"
  "rate_daysBetween (30 * day_ms) (30 * day_ms) = 0"
  unfolding rate_daysBetween_eq utc_day_eq by (simp_all add: day_of_def)

lemma late_noticed_eq: "late_noticed =
  late_db 10000 [late_row Notice_sent (Some (29 * day_ms)) (Some (29 * day_ms)) (Some ''e'') None] [] [''e'']"
proof -
  let ?t = "29 * day_ms"
  have nd: "noticeDateFor (30 * day_ms) 30 = 0"
    by (simp add: noticeDateFor_def addDays_def utc_day_eq day_of_def)
  have problem: "scheduleProblem 10000 12000 (30 * day_ms) 30 (0 * day_ms) = None"
    by (simp only: scheduleProblem_def late_days) simp
  have "snd (scheduleRateIncrease (late_env 0) ''l'' 12000 (30 * day_ms) ''i'' (late_db 10000 [] [] [])) =
      late_db 10000 [late_row Pending_approval None None None None] [] []"
    unfolding scheduleRateIncrease_def late_env_facts late_days(1) Let_def
    using problem nd
    by (simp add: OCCUPYING_LEASE_STATUSES_def live_exists_def add_increase_def new_increase_def)
  moreover have "snd (approveRateIncrease (late_env 29) True ''i'' ''annual review''
        (late_db 10000 [late_row Pending_approval None None None None] [] [])) =
      late_db 10000 [late_row Approved (Some ?t) None None None] [] []"
    by (simp add: approveRateIncrease_def find_increase_def update_increase_def trim_def js_space_def late_env_facts)
  moreover have "sendDueRateIncreaseNotices (late_env 29) (\<lambda>i. ''e'') (late_db 10000 [late_row Approved (Some ?t) None None None] [] []) =
      late_db 10000 [late_row Notice_sent (Some ?t) (Some ?t) (Some ''e'') None] [] [''e'']"
    using late_days(2,4)
    by (simp add: sendDueRateIncreaseNotices_def notice_row_def send_one_def noticeIsDue_def isRateDecrease_def late_env_facts
        claims_def claim_def late_env_facts)
  ultimately show ?thesis by (simp only: late_noticed_def late_start_def Let_def)
qed

lemma late_approval_eq: "late_approval = \<lparr>rd_leases = [''l'' \<mapsto> \<lparr>rl_monthlyRateCents = 12000, rl_status = ''active''\<rparr>],
    rd_increases = [\<lparr>ri_id = ''i'', ri_leaseId = ''l'', ri_currentRateCents = 10000,
      ri_newRateCents = 12000, ri_effectiveDate = 30 * day_ms, ri_noticeDate = 0, ri_noticeDays = 30,
      ri_status = Applied, ri_batchId = None, ri_approvedAt = Some (29 * day_ms),
      ri_noticeSentAt = Some (29 * day_ms), ri_noticeEventId = Some ''e'', ri_noticeFailureReason = None,
      ri_appliedAt = Some (30 * day_ms), ri_cancelledAt = None, ri_renoticedFromId = None\<rparr>],
    rd_changes = [\<lparr>rc_leaseId = ''l'', rc_previousRateCents = 10000, rc_newRateCents = 12000,
      rc_effectiveFrom = 30 * day_ms, rc_reason = Ecri, rc_rateIncreaseId = ''i''\<rparr>], rd_events = [''e'']\<rparr>"
  unfolding late_approval_def late_noticed_eq
  using late_days(1,5)
  by (simp add: applyDueRateIncreases_def reconcileRateIncreaseNotices_def sent_row_due_def reconcile_one_def
        notice_lost_def noticeDeliveryVerdict_def DEAD_MESSAGE_STATUSES_def apply_row_due_def apply_one_def
        applyIsDue_def isRateDecrease_def late_env_facts OCCUPYING_LEASE_STATUSES_def claims_def claim_def
        applyRateChange_def Let_def)

theorem apply_run_correct_witness:
  "\<exists>row \<in> set (rd_increases late_noticed). ri_newRateCents row = 12000 \<and> ri_status row = Notice_sent \<and>
    \<not> notice_lost (late_env 30) row"
proof -
  obtain cs where cs: "rd_changes late_approval = rd_changes late_noticed @ cs" and
    rows: "\<forall>c \<in> set cs. \<exists>row \<in> set (rd_increases late_noticed). rc_rateIncreaseId c = ri_id row \<and>
      rc_leaseId c = ri_leaseId row \<and> rc_previousRateCents c = ri_currentRateCents row \<and>
      rc_newRateCents c = ri_newRateCents row \<and> day_of (ri_effectiveDate row) \<le> day_of (re_today (late_env 30)) \<and>
      (if isRateDecrease row then ri_status row = Approved
       else ri_status row = Notice_sent \<and> ecriExclusionsFor (late_env 30) (ri_leaseId row) = None \<and>
         (ri_noticeEventId row \<noteq> None \<longrightarrow> \<not> notice_lost (late_env 30) row))"
    using apply_run_correct [of "late_env 30" late_noticed] unfolding late_approval_def by blast
  have "cs = rd_changes late_approval" using cs by (simp add: late_noticed_eq)
  then show ?thesis using rows by (simp add: late_approval_eq late_noticed_eq isRateDecrease_def)
qed

lemma late_reachable: "no_rates late_start" "rate_step\<^sup>*\<^sup>* late_start late_approval"
proof -
  show "no_rates late_start" by (simp add: no_rates_def late_start_def)
  show "rate_step\<^sup>*\<^sup>* late_start late_approval"
    unfolding late_approval_def late_noticed_def Let_def
    by (rule rtranclp.rtrancl_into_rtrancl, rule rtranclp.rtrancl_into_rtrancl,
        rule rtranclp.rtrancl_into_rtrancl, rule r_into_rtranclp, rule schedule,
        simp add: ids_of_def late_start_def, rule approve, rule send, rule apply_due)
qed

text \<open>The notice period is checked when a raise is scheduled and not again. An approved raise is sent its
  notice on the first run on or after its notice day, however late it was approved, and applied on its
  effective day; so a raise scheduled with thirty days to run and approved on the last of them is
  charged one day after the tenant is told.\<close>

theorem late_approval_short_notice:
  "(\<not> isRateDecrease row \<longrightarrow> (noticeIsDue row today \<longleftrightarrow>
    ri_status row = Approved \<and> day_of (ri_noticeDate row) \<le> day_of today)) \<and>
    map rc_newRateCents (rd_changes late_approval) = [12000] \<and>
    map (\<lambda>r. (ri_noticeDays r, map_option day_of (ri_noticeSentAt r), day_of (ri_effectiveDate r)))
      (rd_increases late_approval) = [(30, Some 29, 30)]"
proof -
  have r1: "\<not> isRateDecrease row \<Longrightarrow> noticeIsDue row today \<longleftrightarrow>
      ri_status row = Approved \<and> day_of (ri_noticeDate row) \<le> day_of today"
    by (auto simp: noticeIsDue_def rate_daysBetween_eq)
  have "day_of (29 * day_ms) = 29" "day_of (30 * day_ms) = 30" by (simp_all only: day_of_mult)
  then have r2: "map rc_newRateCents (rd_changes late_approval) = [12000] \<and>
    map (\<lambda>r. (ri_noticeDays r, map_option day_of (ri_noticeSentAt r), day_of (ri_effectiveDate r)))
      (rd_increases late_approval) = [(30, Some 29, 30)]"
    by (simp only: late_approval_eq rate_db.simps rate_increase.simps rate_change.simps list.map option.map)
  show ?thesis using r1 r2 by blast
qed

theorem late_approval_short_notice_witness:
  "noticeIsDue ((hd (rd_increases late_approval))\<lparr>ri_status := Approved\<rparr>) (29 * day_ms)"
proof -
  have "\<not> isRateDecrease ((hd (rd_increases late_approval))\<lparr>ri_status := Approved\<rparr>)"
    by (simp add: late_approval_eq isRateDecrease_def)
  from late_approval_short_notice [THEN conjunct1, THEN mp, OF this, of "29 * day_ms"] show ?thesis
    by (simp add: late_approval_eq day_of_def)
qed


end
