(* ===== verification/Accounting.thy ===== *)
theory Accounting
  imports Invoice Calendar
begin

text \<open>
  The month-end: closing a period and comparing what was filed with what the figures are now
  (\<open>packages/core/accounting/close.ts\<close>), and the general-journal entry cut from a filed month
  (\<open>journal.ts\<close>). Sentences for people are constructors; ratios are rational numbers. The
  management pack (\<open>pack.ts\<close>) is a document for people and is left out.
\<close>

section \<open>close.ts: the figures\<close>

definition CLOSE_SNAPSHOT_VERSION :: int where "CLOSE_SNAPSHOT_VERSION = 2"

definition PERIOD_COMPUTATION_VERSION :: int where "PERIOD_COMPUTATION_VERSION = 1"

record category_split =
  cs_rent :: cents
  cs_fee :: cents
  cs_protection :: cents
  cs_tax :: cents

record period_figures =
  pf_billedCents :: cents
  pf_collectedCents :: cents
  pf_billedByCategory :: category_split
  pf_collectedByCategory :: category_split
  pf_discountsCents :: cents
  pf_referralRewardsCents :: cents
  pf_writeOffsCents :: cents
  pf_refundsCents :: cents
  pf_unappliedCents :: cents
  pf_economicOccupancyRatio :: rat
  pf_grossPotentialCents :: cents
  pf_moveIns :: int
  pf_moveOuts :: int
  pf_netMoves :: int

text \<open>Of the snapshot, what is read of it: the figures taken at the moment of closing are stored only.\<close>

record period_snapshot =
  sn_version :: int
  sn_computationVersion :: "int option"
  sn_periodDerived :: period_figures

datatype close_refusal = Already_closed | Not_ended

definition canClosePeriod :: "date \<Rightarrow> date \<Rightarrow> bool \<Rightarrow> close_refusal option" where
  "canClosePeriod periodEnd now alreadyClosed =
    (if alreadyClosed then Some Already_closed
     else if now < periodEnd then Some Not_ended
     else None)"

section \<open>close.ts: drift\<close>

datatype figure_kind = Cents | Count | Ratio

record drift_field =
  df_key :: string
  df_kind :: figure_kind
  df_read :: "period_figures \<Rightarrow> rat"

abbreviation drift_field :: "string \<Rightarrow> figure_kind \<Rightarrow> (period_figures \<Rightarrow> rat) \<Rightarrow> drift_field" where
  "drift_field k kind read \<equiv> \<lparr>df_key = k, df_kind = kind, df_read = read\<rparr>"

definition DERIVED_FIELDS :: "drift_field list" where
  "DERIVED_FIELDS = [
    drift_field ''billedCents'' Cents (\<lambda>f. of_int (pf_billedCents f)),
    drift_field ''collectedCents'' Cents (\<lambda>f. of_int (pf_collectedCents f)),
    drift_field ''billed.rent'' Cents (\<lambda>f. of_int (cs_rent (pf_billedByCategory f))),
    drift_field ''billed.fee'' Cents (\<lambda>f. of_int (cs_fee (pf_billedByCategory f))),
    drift_field ''billed.protection'' Cents (\<lambda>f. of_int (cs_protection (pf_billedByCategory f))),
    drift_field ''billed.tax'' Cents (\<lambda>f. of_int (cs_tax (pf_billedByCategory f))),
    drift_field ''collected.rent'' Cents (\<lambda>f. of_int (cs_rent (pf_collectedByCategory f))),
    drift_field ''collected.fee'' Cents (\<lambda>f. of_int (cs_fee (pf_collectedByCategory f))),
    drift_field ''collected.protection'' Cents (\<lambda>f. of_int (cs_protection (pf_collectedByCategory f))),
    drift_field ''collected.tax'' Cents (\<lambda>f. of_int (cs_tax (pf_collectedByCategory f))),
    drift_field ''discountsCents'' Cents (\<lambda>f. of_int (pf_discountsCents f)),
    drift_field ''referralRewardsCents'' Cents (\<lambda>f. of_int (pf_referralRewardsCents f)),
    drift_field ''writeOffsCents'' Cents (\<lambda>f. of_int (pf_writeOffsCents f)),
    drift_field ''refundsCents'' Cents (\<lambda>f. of_int (pf_refundsCents f)),
    drift_field ''unappliedCents'' Cents (\<lambda>f. of_int (pf_unappliedCents f)),
    drift_field ''grossPotentialCents'' Cents (\<lambda>f. of_int (pf_grossPotentialCents f)),
    drift_field ''economicOccupancyRatio'' Ratio pf_economicOccupancyRatio,
    drift_field ''moveIns'' Count (\<lambda>f. of_int (pf_moveIns f)),
    drift_field ''moveOuts'' Count (\<lambda>f. of_int (pf_moveOuts f)),
    drift_field ''netMoves'' Count (\<lambda>f. of_int (pf_netMoves f))]"

record drift_row =
  dw_key :: string
  dw_filedValue :: rat
  dw_currentValue :: rat
  dw_deltaValue :: rat
  dw_kind :: figure_kind

definition changed :: "drift_field \<Rightarrow> period_figures \<Rightarrow> period_figures \<Rightarrow> bool" where
  "changed field filed current =
    (if df_kind field = Ratio then \<bar>df_read field current - df_read field filed\<bar> > 1 / 10 ^ 9
     else df_read field current \<noteq> df_read field filed)"

fun drift_rows :: "period_figures \<Rightarrow> period_figures \<Rightarrow> drift_field list \<Rightarrow> drift_row list" where
  "drift_rows filed current [] = []"
| "drift_rows filed current (field # fs) =
    (if \<not> changed field filed current then drift_rows filed current fs
     else \<lparr>dw_key = df_key field, dw_filedValue = df_read field filed, dw_currentValue = df_read field current,
       dw_deltaValue = df_read field current - df_read field filed, dw_kind = df_kind field\<rparr>
       # drift_rows filed current fs)"

definition periodDrift :: "period_figures \<Rightarrow> period_figures \<Rightarrow> drift_row list" where
  "periodDrift filed current = drift_rows filed current DERIVED_FIELDS"

definition computedOnCurrentVersion :: "int option \<Rightarrow> bool" where
  "computedOnCurrentVersion filedComputationVersion \<longleftrightarrow>
    or_else filedComputationVersion 0 = PERIOD_COMPUTATION_VERSION"

datatype drift_sentence = All_match | Calculation_changed nat | Data_changed nat

definition driftSummary :: "drift_row list \<Rightarrow> int option \<Rightarrow> drift_sentence" where
  "driftSummary rows filedComputationVersion =
    (if length rows = 0 then All_match
     else if \<not> computedOnCurrentVersion filedComputationVersion then Calculation_changed (length rows)
     else Data_changed (length rows))"

definition largestDrift :: "drift_row list \<Rightarrow> drift_row option" where
  "largestDrift rows =
    (if length rows = 0 then None
     else let money = filter (\<lambda>row. dw_kind row = Cents) rows;
              pool = (if length money > 0 then money else rows)
       in Some (foldl (\<lambda>best row. if \<bar>dw_deltaValue row\<bar> > \<bar>dw_deltaValue best\<bar> then row else best)
         (hd pool) (tl pool)))"

section \<open>journal.ts\<close>

datatype account =
  Accounts_receivable | Rental_income | Fee_income | Protection_income | Sales_tax_payable | Discounts_given
| Referral_rewards | Undeposited_funds | Customer_deposits | Bad_debt_expense

fun DEFAULT_CHART_OF_ACCOUNTS :: "account \<Rightarrow> string" where
  "DEFAULT_CHART_OF_ACCOUNTS Accounts_receivable = ''Accounts Receivable''"
| "DEFAULT_CHART_OF_ACCOUNTS Rental_income = ''Rental Income''"
| "DEFAULT_CHART_OF_ACCOUNTS Fee_income = ''Fee Income''"
| "DEFAULT_CHART_OF_ACCOUNTS Protection_income = ''Tenant Protection Income''"
| "DEFAULT_CHART_OF_ACCOUNTS Sales_tax_payable = ''Sales Tax Payable''"
| "DEFAULT_CHART_OF_ACCOUNTS Discounts_given = ''Discounts Given''"
| "DEFAULT_CHART_OF_ACCOUNTS Referral_rewards = ''Referral Rewards''"
| "DEFAULT_CHART_OF_ACCOUNTS Undeposited_funds = ''Undeposited Funds''"
| "DEFAULT_CHART_OF_ACCOUNTS Customer_deposits = ''Customer Deposits''"
| "DEFAULT_CHART_OF_ACCOUNTS Bad_debt_expense = ''Bad Debt Expense''"

text \<open>The stored chart: the fs that hold a string.\<close>

definition chartOrDefault :: "(account \<rightharpoonup> string) \<Rightarrow> account \<Rightarrow> string" where
  "chartOrDefault stored field = (case stored field of
      Some v \<Rightarrow> if trim v \<noteq> [] then trim v else DEFAULT_CHART_OF_ACCOUNTS field
    | None \<Rightarrow> DEFAULT_CHART_OF_ACCOUNTS field)"

datatype journal_text =
  Billed_in_period | Promotional_given | Rewards_given | Rent_billed | Fees_billed | Protection_billed
| Tax_billed | Money_received | Applied_to_invoices | Not_yet_applied | Written_off

record journal_line =
  jl_account :: string
  jl_debitCents :: cents
  jl_creditCents :: cents
  jl_description :: journal_text

datatype side = Debit | Credit

definition journal_line_for :: "string \<Rightarrow> cents \<Rightarrow> side \<Rightarrow> journal_text \<Rightarrow> journal_line option" where
  "journal_line_for acct amountCents side description =
    (if amountCents = 0 then None
     else let debit = (if side = Debit then amountCents > 0 else amountCents < 0);
              magnitude = \<bar>amountCents\<bar>
       in Some \<lparr>jl_account = acct, jl_debitCents = (if debit then magnitude else 0),
         jl_creditCents = (if debit then 0 else magnitude), jl_description = description\<rparr>)"

record journal =
  jo_date :: string
  jo_reference :: string
  jo_lines :: "journal_line list"
  jo_totalDebitCents :: cents
  jo_totalCreditCents :: cents

datatype journal_result = Journal journal | Filed_too_early | Unbalanced cents cents

text \<open>The first ten characters of \<open>toISOString\<close>, for the years 0 to 9999.\<close>

definition iso_day :: "date \<Rightarrow> string" where
  "iso_day t = padStart 4 (CHR ''0'') (show_digits (nat (utc_full_year t))) @ ''-''
    @ padStart 2 (CHR ''0'') (show_digits (nat (utc_month t + 1))) @ ''-'' @ padStart 2 (CHR ''0'') (show_digits (nat (utc_date t)))"

definition lastDayOf :: "int \<Rightarrow> int \<Rightarrow> string" where
  "lastDayOf year month = iso_day (utc year month 0)"

definition somes :: "'a option list \<Rightarrow> 'a list" where
  "somes xs = map the (filter (\<lambda>x. x \<noteq> None) xs)"

definition journal_lines :: "period_figures \<Rightarrow> (account \<Rightarrow> string) \<Rightarrow> journal_line list" where
  "journal_lines figures chart = (
    let billed = pf_billedByCategory figures;
        collected = pf_collectedByCategory figures;
        promotionalDiscounts = pf_discountsCents figures - pf_referralRewardsCents figures;
        grossBilled = cs_rent billed + cs_fee billed + cs_protection billed + cs_tax billed;
        receivableFromBilling = grossBilled - pf_discountsCents figures;
        collectedTotal = cs_rent collected + cs_fee collected + cs_protection collected + cs_tax collected
    in somes [
      journal_line_for (chart Accounts_receivable) receivableFromBilling Debit Billed_in_period,
      journal_line_for (chart Discounts_given) promotionalDiscounts Debit Promotional_given,
      journal_line_for (chart Referral_rewards) (pf_referralRewardsCents figures) Debit Rewards_given,
      journal_line_for (chart Rental_income) (cs_rent billed) Credit Rent_billed,
      journal_line_for (chart Fee_income) (cs_fee billed) Credit Fees_billed,
      journal_line_for (chart Protection_income) (cs_protection billed) Credit Protection_billed,
      journal_line_for (chart Sales_tax_payable) (cs_tax billed) Credit Tax_billed,
      journal_line_for (chart Undeposited_funds) (collectedTotal + pf_unappliedCents figures) Debit Money_received,
      journal_line_for (chart Accounts_receivable) collectedTotal Credit Applied_to_invoices,
      journal_line_for (chart Customer_deposits) (pf_unappliedCents figures) Credit Not_yet_applied,
      journal_line_for (chart Bad_debt_expense) (pf_writeOffsCents figures) Debit Written_off,
      journal_line_for (chart Accounts_receivable) (pf_writeOffsCents figures) Credit Written_off])"

definition buildJournal :: "period_snapshot \<Rightarrow> (account \<Rightarrow> string) \<Rightarrow> int \<Rightarrow> int \<Rightarrow> string \<Rightarrow> journal_result" where
  "buildJournal snapshot chart year month reference =
    (if sn_version snapshot < CLOSE_SNAPSHOT_VERSION then Filed_too_early
     else let lines = journal_lines (sn_periodDerived snapshot) chart;
              totalDebitCents = foldl (\<lambda>s entry. s + jl_debitCents entry) 0 lines;
              totalCreditCents = foldl (\<lambda>s entry. s + jl_creditCents entry) 0 lines
       in if totalDebitCents \<noteq> totalCreditCents then Unbalanced totalDebitCents totalCreditCents
          else Journal \<lparr>jo_date = lastDayOf year month, jo_reference = reference, jo_lines = lines,
            jo_totalDebitCents = totalDebitCents, jo_totalCreditCents = totalCreditCents\<rparr>)"

section \<open>The entry\<close>

text \<open>What a line moves on its account, debits counted positive.\<close>

definition net_of :: "string \<Rightarrow> journal_line list \<Rightarrow> cents" where
  "net_of acct lines = sum_by (\<lambda>l. jl_debitCents l - jl_creditCents l) (filter (\<lambda>l. jl_account l = acct) lines)"

definition signed :: "side \<Rightarrow> cents \<Rightarrow> cents" where
  "signed side amount = (if side = Debit then amount else - amount)"

lemma somes_mem [simp]: "l \<in> set (somes xs) \<longleftrightarrow> Some l \<in> set xs"
  by (force simp: somes_def image_iff)

lemma line_signed:
  "journal_line_for acct amount side d = Some l \<Longrightarrow> jl_debitCents l - jl_creditCents l = signed side amount \<and>
    0 \<le> jl_debitCents l \<and> 0 \<le> jl_creditCents l \<and> (jl_debitCents l = 0) \<noteq> (jl_creditCents l = 0) \<and> jl_account l = acct"
  by (cases side) (auto simp: journal_line_for_def Let_def signed_def split: if_splits)

lemma sum_somes_Cons:
  "sum_by (\<lambda>l. jl_debitCents l - jl_creditCents l) (somes (journal_line_for acct amount side d # xs)) =
    signed side amount + sum_by (\<lambda>l. jl_debitCents l - jl_creditCents l) (somes xs)"
  "net_of k (somes (journal_line_for acct amount side d # xs)) =
    (if acct = k then signed side amount else 0) + net_of k (somes xs)"
proof -
  have none: "amount = 0" if "journal_line_for acct amount side d = None"
    using that by (simp add: journal_line_for_def Let_def split: if_splits)
  show "sum_by (\<lambda>l. jl_debitCents l - jl_creditCents l) (somes (journal_line_for acct amount side d # xs)) =
      signed side amount + sum_by (\<lambda>l. jl_debitCents l - jl_creditCents l) (somes xs)"
    using none line_signed [of acct amount side d]
    by (cases "journal_line_for acct amount side d") (simp_all add: somes_def signed_def)
  show "net_of k (somes (journal_line_for acct amount side d # xs)) =
      (if acct = k then signed side amount else 0) + net_of k (somes xs)"
    using none line_signed [of acct amount side d]
    by (cases "journal_line_for acct amount side d") (simp_all add: somes_def net_of_def signed_def)
qed

lemma foldl_sum: "foldl (\<lambda>s x. s + f x) a xs = a + sum_by f xs" for a :: int
  by (induction xs arbitrary: a) simp_all

lemma sum_by_diff: "sum_by (\<lambda>x. f x - g x) xs = sum_by f xs - sum_by g xs" for f g :: "'a \<Rightarrow> int"
  by (induction xs) simp_all

lemma journal_balances: "sum_by jl_debitCents (journal_lines figures chart) = sum_by jl_creditCents (journal_lines figures chart)"
proof -
  have "sum_by (\<lambda>l. jl_debitCents l - jl_creditCents l) (journal_lines figures chart) = 0"
    unfolding journal_lines_def Let_def sum_somes_Cons by (simp add: signed_def somes_def)
  then show ?thesis by (simp add: sum_by_diff)
qed

lemma journal_line_sides:
  "l \<in> set (journal_lines figures chart) \<Longrightarrow> 0 \<le> jl_debitCents l \<and> 0 \<le> jl_creditCents l \<and>
    (jl_debitCents l = 0) \<noteq> (jl_creditCents l = 0)"
  unfolding journal_lines_def Let_def somes_mem by (auto dest!: line_signed [OF sym])

definition grossBilled :: "period_figures \<Rightarrow> cents" where
  "grossBilled f = (let b = pf_billedByCategory f in cs_rent b + cs_fee b + cs_protection b + cs_tax b)"

definition collectedTotal :: "period_figures \<Rightarrow> cents" where
  "collectedTotal f = (let c = pf_collectedByCategory f in cs_rent c + cs_fee c + cs_protection c + cs_tax c)"

text \<open>C30. The month-end entry balances. A month filed in the current shape always gives a journal, never
  the unbalanced error: its two totals are the sums of its lines and are equal, and every line stands
  on exactly one side with a positive amount. When the accounts of the chart are different, the
  receivable moves by what was billed less discounts, collections and write-offs, and the money account
  by everything received. A month filed in an older shape is refused.\<close>

theorem journal_correct:
  "(sn_version snapshot < 2 \<longrightarrow> buildJournal snapshot chart year month reference = Filed_too_early) \<and>
    (2 \<le> sn_version snapshot \<longrightarrow> (\<exists>j. buildJournal snapshot chart year month reference = Journal j \<and>
      jo_totalDebitCents j = sum_by jl_debitCents (jo_lines j) \<and>
      jo_totalCreditCents j = sum_by jl_creditCents (jo_lines j) \<and>
      jo_totalDebitCents j = jo_totalCreditCents j \<and>
      (\<forall>l \<in> set (jo_lines j). 0 \<le> jl_debitCents l \<and> 0 \<le> jl_creditCents l \<and>
        (jl_debitCents l = 0) \<noteq> (jl_creditCents l = 0)) \<and>
      (inj chart \<longrightarrow> (let f = sn_periodDerived snapshot in
        net_of (chart Accounts_receivable) (jo_lines j) =
          grossBilled f - pf_discountsCents f - collectedTotal f - pf_writeOffsCents f \<and>
        net_of (chart Undeposited_funds) (jo_lines j) = collectedTotal f + pf_unappliedCents f))))"
proof (intro conjI impI)
  show "buildJournal snapshot chart year month reference = Filed_too_early" if "sn_version snapshot < 2"
    using that by (simp add: buildJournal_def CLOSE_SNAPSHOT_VERSION_def)
next
  assume v: "2 \<le> sn_version snapshot"
  let ?f = "sn_periodDerived snapshot"
  let ?lines = "journal_lines ?f chart"
  let ?j = "\<lparr>jo_date = lastDayOf year month, jo_reference = reference, jo_lines = ?lines,
    jo_totalDebitCents = sum_by jl_debitCents ?lines, jo_totalCreditCents = sum_by jl_creditCents ?lines\<rparr>"
  have built: "buildJournal snapshot chart year month reference = Journal ?j"
    using v journal_balances [of ?f chart]
    by (simp add: buildJournal_def CLOSE_SNAPSHOT_VERSION_def Let_def foldl_sum)
  have nets: "net_of (chart Accounts_receivable) ?lines =
        grossBilled ?f - pf_discountsCents ?f - collectedTotal ?f - pf_writeOffsCents ?f \<and>
      net_of (chart Undeposited_funds) ?lines = collectedTotal ?f + pf_unappliedCents ?f" if "inj chart"
    unfolding journal_lines_def Let_def sum_somes_Cons
    by (simp add: inj_eq [OF that] signed_def grossBilled_def collectedTotal_def Let_def somes_def net_of_def)
  show "\<exists>j. buildJournal snapshot chart year month reference = Journal j \<and>
    jo_totalDebitCents j = sum_by jl_debitCents (jo_lines j) \<and> jo_totalCreditCents j = sum_by jl_creditCents (jo_lines j) \<and>
    jo_totalDebitCents j = jo_totalCreditCents j \<and>
    (\<forall>l \<in> set (jo_lines j). 0 \<le> jl_debitCents l \<and> 0 \<le> jl_creditCents l \<and>
      (jl_debitCents l = 0) \<noteq> (jl_creditCents l = 0)) \<and>
    (inj chart \<longrightarrow> (let f = sn_periodDerived snapshot in
      net_of (chart Accounts_receivable) (jo_lines j) =
        grossBilled f - pf_discountsCents f - collectedTotal f - pf_writeOffsCents f \<and>
      net_of (chart Undeposited_funds) (jo_lines j) = collectedTotal f + pf_unappliedCents f))"
    using journal_balances [of ?f chart] journal_line_sides [of _ ?f chart] nets
    by (intro exI [of _ ?j] conjI built) (simp_all add: Let_def)
qed

definition figures_example :: period_figures where
  "figures_example = \<lparr>pf_billedCents = 10000, pf_collectedCents = 8000,
    pf_billedByCategory = \<lparr>cs_rent = 9000, cs_fee = 500, cs_protection = 300, cs_tax = 700\<rparr>,
    pf_collectedByCategory = \<lparr>cs_rent = 8000, cs_fee = 0, cs_protection = 0, cs_tax = 0\<rparr>,
    pf_discountsCents = 500, pf_referralRewardsCents = 200, pf_writeOffsCents = 100, pf_refundsCents = 0,
    pf_unappliedCents = 50, pf_economicOccupancyRatio = 3 / 4, pf_grossPotentialCents = 20000, pf_moveIns = 2,
    pf_moveOuts = 1, pf_netMoves = 1\<rparr>"

theorem journal_correct_witness:
  "\<exists>j. buildJournal \<lparr>sn_version = 2, sn_computationVersion = Some 1, sn_periodDerived = figures_example\<rparr>
    DEFAULT_CHART_OF_ACCOUNTS 2026 7 ''JE-7'' = Journal j \<and> jo_totalDebitCents j = jo_totalCreditCents j"
  using journal_correct [of "\<lparr>sn_version = 2, sn_computationVersion = Some 1, sn_periodDerived = figures_example\<rparr>"
      DEFAULT_CHART_OF_ACCOUNTS 2026 7 "''JE-7''"] by auto

section \<open>The drift\<close>

lemma drift_rows_eq:
  "drift_rows filed current fs = map (\<lambda>field. \<lparr>dw_key = df_key field, dw_filedValue = df_read field filed,
      dw_currentValue = df_read field current, dw_deltaValue = df_read field current - df_read field filed,
      dw_kind = df_kind field\<rparr>) (filter (\<lambda>field. changed field filed current) fs)"
  by (induction fs) simp_all

lemma foldl_best:
  "\<exists>best \<in> set (x # xs). foldl (\<lambda>best row. if \<bar>dw_deltaValue row\<bar> > \<bar>dw_deltaValue best\<bar> then row else best) x xs = best \<and>
    (\<forall>row \<in> set (x # xs). \<bar>dw_deltaValue row\<bar> \<le> \<bar>dw_deltaValue best\<bar>)"
proof (induction xs arbitrary: x)
  case (Cons y ys)
  show ?case
    using Cons [of "if \<bar>dw_deltaValue y\<bar> > \<bar>dw_deltaValue x\<bar> then y else x"] by (auto split: if_splits)
qed simp

text \<open>The drift of a closed month. It is empty exactly when every figure in cents and every count still
  has its filed value and the occupancy ratio moved by no more than a billionth; each row states a
  figure that changed with its difference. The row singled out is one of them: a row in cents when any
  is, and none of its kind has a larger difference.\<close>

theorem drift_correct:
  "periodDrift filed current = [] \<longleftrightarrow>
    filed\<lparr>pf_economicOccupancyRatio := 0\<rparr> = current\<lparr>pf_economicOccupancyRatio := 0\<rparr> \<and>
    \<bar>pf_economicOccupancyRatio current - pf_economicOccupancyRatio filed\<bar> \<le> 1 / 10 ^ 9"
  "row \<in> set (periodDrift filed current) \<Longrightarrow> dw_deltaValue row = dw_currentValue row - dw_filedValue row \<and>
    dw_deltaValue row \<noteq> 0"
  "rows \<noteq> [] \<Longrightarrow> \<exists>best \<in> set rows. largestDrift rows = Some best \<and>
    ((\<exists>row \<in> set rows. dw_kind row = Cents) \<longrightarrow> dw_kind best = Cents) \<and>
    (\<forall>row \<in> set rows. dw_kind row = dw_kind best \<or> dw_kind best \<noteq> Cents \<longrightarrow>
      \<bar>dw_deltaValue row\<bar> \<le> \<bar>dw_deltaValue best\<bar>)"
proof -
  show "periodDrift filed current = [] \<longleftrightarrow>
      filed\<lparr>pf_economicOccupancyRatio := 0\<rparr> = current\<lparr>pf_economicOccupancyRatio := 0\<rparr> \<and>
      \<bar>pf_economicOccupancyRatio current - pf_economicOccupancyRatio filed\<bar> \<le> 1 / 10 ^ 9"
    by (cases filed; cases current; cases "pf_billedByCategory filed"; cases "pf_collectedByCategory filed";
        cases "pf_billedByCategory current"; cases "pf_collectedByCategory current")
      (auto simp: periodDrift_def DERIVED_FIELDS_def changed_def)
  show "row \<in> set (periodDrift filed current) \<Longrightarrow> dw_deltaValue row = dw_currentValue row - dw_filedValue row \<and>
      dw_deltaValue row \<noteq> 0"
    by (auto simp: periodDrift_def drift_rows_eq changed_def split: if_splits)
  assume rows: "rows \<noteq> []"
  let ?money = "filter (\<lambda>row. dw_kind row = Cents) rows"
  let ?pool = "if length ?money > 0 then ?money else rows"
  have pool: "?pool \<noteq> []" using rows by simp
  obtain best where best: "best \<in> set ?pool" "largestDrift rows = Some best"
    "\<forall>row \<in> set ?pool. \<bar>dw_deltaValue row\<bar> \<le> \<bar>dw_deltaValue best\<bar>"
    using foldl_best [of "hd ?pool" "tl ?pool"] rows unfolding list.collapse [OF pool]
    by (auto simp: largestDrift_def Let_def)
  show "\<exists>best \<in> set rows. largestDrift rows = Some best \<and>
    ((\<exists>row \<in> set rows. dw_kind row = Cents) \<longrightarrow> dw_kind best = Cents) \<and>
    (\<forall>row \<in> set rows. dw_kind row = dw_kind best \<or> dw_kind best \<noteq> Cents \<longrightarrow>
      \<bar>dw_deltaValue row\<bar> \<le> \<bar>dw_deltaValue best\<bar>)"
    using best by (intro bexI [of _ best]) (auto split: if_splits simp: filter_empty_conv)
qed

theorem drift_correct_witness:
  "\<exists>best. largestDrift [\<lparr>dw_key = ''moveIns'', dw_filedValue = 2, dw_currentValue = 9, dw_deltaValue = 7, dw_kind = Count\<rparr>,
      \<lparr>dw_key = ''billedCents'', dw_filedValue = 5, dw_currentValue = 4, dw_deltaValue = -1, dw_kind = Cents\<rparr>] =
    Some best \<and> dw_kind best = Cents"
  using drift_correct(3) [of "[\<lparr>dw_key = ''moveIns'', dw_filedValue = 2, dw_currentValue = 9, dw_deltaValue = 7,
      dw_kind = Count\<rparr>, \<lparr>dw_key = ''billedCents'', dw_filedValue = 5, dw_currentValue = 4, dw_deltaValue = -1,
      dw_kind = Cents\<rparr>]"] by auto

end
