(* ===== verification/Totp.thy ===== *)
theory Totp
  imports Invoice Auctions "HOL-Library.Word"
begin

unbundle bit_operations_syntax

text \<open>
  One-time passwords for staff (\<open>packages/core/auth/totp.ts\<close>): base32, codes from a counter, the check of
  a submitted code with its replay guard, and recovery codes. JavaScript's bitwise operators work on 32
  bits, so the accumulators are \<open>32 word\<close>. HMAC-SHA1 is the parameter \<open>hmac\<close>, from a secret and a message
  to a digest. Comparing in constant time is comparing; the enrolment URI is left out.
\<close>

section \<open>Base32\<close>

definition BASE32_ALPHABET :: string where
  "BASE32_ALPHABET = ''ABCDEFGHIJKLMNOPQRSTUVWXYZ234567''"

definition base32_char :: "32 word \<Rightarrow> char" where
  "base32_char value = BASE32_ALPHABET ! unat (value AND 31)"

text \<open>The inner loop: five bits at a time while there are as many.\<close>

fun encode_digits :: "nat \<Rightarrow> 32 word \<Rightarrow> string \<times> nat" where
  "encode_digits bits value =
    (if bits < 5 then ([], bits)
     else let (out, rest) = encode_digits (bits - 5) value
       in (base32_char (drop_bit (bits - 5) value) # out, rest))"

declare encode_digits.simps [simp del]

fun encode_loop :: "nat \<Rightarrow> 32 word \<Rightarrow> 8 word list \<Rightarrow> string" where
  "encode_loop bits value [] = (if bits > 0 then [base32_char (push_bit (5 - bits) value)] else [])"
| "encode_loop bits value (byte # bytes) = (
    let value = push_bit 8 value OR ucast byte;
        (out, rest) = encode_digits (bits + 8) value
    in out @ encode_loop rest value bytes)"

definition base32Encode :: "8 word list \<Rightarrow> string" where
  "base32Encode bytes = encode_loop 0 0 bytes"

definition index_of :: "char \<Rightarrow> string \<Rightarrow> nat option" where
  "index_of c s = (if c \<in> set s then Some (length (takeWhile (\<lambda>d. d \<noteq> c) s)) else None)"

definition base32_cleaned :: "string \<Rightarrow> string" where
  "base32_cleaned encoded = toUpperCase (rev (dropWhile (\<lambda>c. c = CHR ''='') (rev
    (filter (\<lambda>c. \<not> js_space c \<and> c \<noteq> CHR ''-'') encoded))))"

fun decode_loop :: "nat \<Rightarrow> 32 word \<Rightarrow> string \<Rightarrow> char + 8 word list" where
  "decode_loop bits value [] = Inr []"
| "decode_loop bits value (char # chars) = (case index_of char BASE32_ALPHABET of
      None \<Rightarrow> Inl char
    | Some index \<Rightarrow>
      let value = push_bit 5 value OR of_nat index
      in if bits + 5 \<ge> 8
         then map_sum id (Cons (ucast (drop_bit (bits + 5 - 8) value AND 255))) (decode_loop (bits + 5 - 8) value chars)
         else decode_loop (bits + 5) value chars)"

text \<open>The left value is the character the error names.\<close>

definition base32Decode :: "string \<Rightarrow> char + 8 word list" where
  "base32Decode encoded = (let cleaned = base32_cleaned encoded
    in if cleaned = [] then Inr [] else decode_loop 0 0 cleaned)"

section \<open>Codes\<close>

definition TOTP_STEP_SECONDS :: int where
  "TOTP_STEP_SECONDS = 30"

definition TOTP_DIGITS :: nat where
  "TOTP_DIGITS = 6"

text \<open>\<open>Buffer.writeUInt32BE\<close> throws outside 32 bits (None). A byte that is not there reads as undefined,
  and that is 0 to a bitwise operator.\<close>

definition uint32_be :: "int \<Rightarrow> 8 word list option" where
  "uint32_be n = (if 0 \<le> n \<and> n < 2 ^ 32
    then Some (map (\<lambda>k. word_of_int (n div 2 ^ k)) [24, 16, 8, 0]) else None)"

definition byte_at :: "8 word list \<Rightarrow> nat \<Rightarrow> 32 word" where
  "byte_at bytes i = (if i < length bytes then ucast (bytes ! i) else 0)"

definition truncated :: "8 word list \<Rightarrow> 32 word" where
  "truncated digest = (
    let offset = unat (if digest = [] then 0 else byte_at digest (length digest - 1) AND 0x0f)
    in push_bit 24 (byte_at digest offset AND 0x7f) OR push_bit 16 (byte_at digest (offset + 1))
       OR push_bit 8 (byte_at digest (offset + 2)) OR byte_at digest (offset + 3))"

definition hotp :: "(8 word list \<Rightarrow> 8 word list \<Rightarrow> 8 word list) \<Rightarrow> 8 word list \<Rightarrow> int \<Rightarrow> nat \<Rightarrow> string option" where
  "hotp hmac secret counter digits = (
    case (uint32_be (counter div 2 ^ 32), uint32_be (counter mod 2 ^ 32)) of
      (Some high, Some low) \<Rightarrow>
        let binary = sint (truncated (hmac secret (high @ low)))
        in Some (padStart digits (CHR ''0'') (show_digits (nat (binary mod 10 ^ digits))))
    | _ \<Rightarrow> None)"

definition totpStep :: "int \<Rightarrow> int \<Rightarrow> int" where
  "totpStep atMs stepSeconds = atMs div 1000 div stepSeconds"

definition totpCode :: "(8 word list \<Rightarrow> 8 word list \<Rightarrow> 8 word list) \<Rightarrow> 8 word list \<Rightarrow> int \<Rightarrow> nat \<Rightarrow> int \<Rightarrow> string option" where
  "totpCode hmac secret atMs digits stepSeconds = hotp hmac secret (totpStep atMs stepSeconds) digits"

record totp_options =
  to_window :: "int option"
  to_digits :: "nat option"
  to_stepSeconds :: "int option"
  to_lastUsedStep :: "int option"

datatype totp_verification = Totp_ok int | Malformed | No_match | Replayed

definition is_code :: "nat \<Rightarrow> string \<Rightarrow> bool" where
  "is_code digits code \<longleftrightarrow> length code = digits \<and>
    list_all (\<lambda>c. 48 \<le> (of_char c :: nat) \<and> (of_char c :: nat) \<le> 57) code"

definition typed_digits :: "string \<Rightarrow> string" where
  "typed_digits submitted = filter (\<lambda>c. \<not> js_space c \<and> c \<noteq> CHR ''-'') submitted"

text \<open>The loop over the offsets; None is the error that \<open>hotp\<close> throws.\<close>

fun verify_loop :: "(int \<Rightarrow> string option) \<Rightarrow> string \<Rightarrow> int option \<Rightarrow> int list \<Rightarrow> totp_verification option" where
  "verify_loop code_at code lastUsed [] = Some No_match"
| "verify_loop code_at code lastUsed (step # steps) =
    (if step < 0 then verify_loop code_at code lastUsed steps
     else case code_at step of
       None \<Rightarrow> None
     | Some expected \<Rightarrow>
         if expected \<noteq> code then verify_loop code_at code lastUsed steps
         else if (case lastUsed of Some used \<Rightarrow> step \<le> used | None \<Rightarrow> False) then Some Replayed
         else Some (Totp_ok step))"

definition verifyTotp :: "(8 word list \<Rightarrow> 8 word list \<Rightarrow> 8 word list) \<Rightarrow> 8 word list \<Rightarrow> string \<Rightarrow> int \<Rightarrow>
    totp_options \<Rightarrow> totp_verification option" where
  "verifyTotp hmac secret submitted atMs options = (
    let digits = or_else (to_digits options) TOTP_DIGITS;
        code = typed_digits submitted;
        window = or_else (to_window options) 1;
        current = totpStep atMs (or_else (to_stepSeconds options) TOTP_STEP_SECONDS)
    in if \<not> is_code digits code then Some Malformed
       else verify_loop (\<lambda>step. hotp hmac secret step digits) code (to_lastUsedStep options)
         (map (\<lambda>offset. current + offset) [- window..window]))"

text \<open>Groups of up to four characters, none of them a line end (\<open>/.{1,4}/g\<close>).\<close>

definition line_end :: "char \<Rightarrow> bool" where
  "line_end c \<longleftrightarrow> c = CHR 10 \<or> c = CHR 13"

function display_groups :: "string \<Rightarrow> string list" where
  "display_groups s = (let rest = dropWhile line_end s; group = takeWhile (\<lambda>c. \<not> line_end c) (take 4 rest)
    in if rest = [] then [] else group # display_groups (drop (length group) rest))"
  by pat_completeness auto
termination
proof (relation "measure length", simp)
  fix s rest group :: string
  assume "rest = dropWhile line_end s" "group = takeWhile (\<lambda>c. \<not> line_end c) (take 4 rest)" "rest \<noteq> []"
  moreover from \<open>rest \<noteq> []\<close> obtain c cs where c: "rest = c # cs" by (meson neq_Nil_conv)
  moreover have "\<not> line_end c" using hd_dropWhile [of line_end s] c calculation(1) by (metis list.distinct(1) list.sel(1))
  ultimately have "group \<noteq> []" by (metis list.distinct(1) take_Cons_numeral takeWhile.simps(2))
  then have "length (drop (length group) rest) < length rest" using c by (cases group) auto
  then show "(drop (length group) rest, s) \<in> measure length"
    using length_dropWhile_le [of line_end s] \<open>rest = dropWhile line_end s\<close> by simp
qed

declare display_groups.simps [simp del]

fun join_space :: "string list \<Rightarrow> string" where
  "join_space [] = []"
| "join_space [g] = g"
| "join_space (g # gs) = g @ '' '' @ join_space gs"

definition formatSecretForDisplay :: "string \<Rightarrow> string" where
  "formatSecretForDisplay secret = join_space (display_groups secret)"

section \<open>Recovery codes\<close>

definition RECOVERY_CODE_LENGTH :: nat where
  "RECOVERY_CODE_LENGTH = 10"

definition RECOVERY_ALPHABET :: string where
  "RECOVERY_ALPHABET = toLowerCase BASE32_ALPHABET"

definition recoveryCodeFromBytes :: "8 word list \<Rightarrow> string option" where
  "recoveryCodeFromBytes bytes = (
    if length bytes < RECOVERY_CODE_LENGTH then None
    else Some (concat (map (\<lambda>i. RECOVERY_ALPHABET ! unat (bytes ! i AND 31) # (if i = 4 then ''-'' else []))
      [0..<RECOVERY_CODE_LENGTH])))"

definition normalizeRecoveryCode :: "string \<Rightarrow> string" where
  "normalizeRecoveryCode input =
    map (\<lambda>c. if c = CHR ''1'' then CHR ''i'' else c) (map (\<lambda>c. if c = CHR ''0'' then CHR ''o'' else c)
      (filter (\<lambda>c. let n = (of_char c :: nat) in (97 \<le> n \<and> n \<le> 122) \<or> (48 \<le> n \<and> n \<le> 57)) (toLowerCase input)))"

definition looksLikeRecoveryCode :: "string \<Rightarrow> bool" where
  "looksLikeRecoveryCode input \<longleftrightarrow> length (normalizeRecoveryCode input) = RECOVERY_CODE_LENGTH"

section \<open>Base32: the round trip\<close>

text \<open>The low bits of an accumulator, the most significant first.\<close>

definition low_bits :: "nat \<Rightarrow> 'a::semiring_bits \<Rightarrow> bool list" where
  "low_bits n a = rev (map (bit a) [0..<n])"

lemma length_low_bits [simp]: "length (low_bits n a) = n"
  by (simp add: low_bits_def)

lemma low_bits_cong: "(\<And>i. i < n \<Longrightarrow> bit a i = bit b i) \<Longrightarrow> low_bits n a = low_bits n b"
  by (simp add: low_bits_def)

lemma low_bits_split: "k \<le> n \<Longrightarrow> low_bits n a = low_bits (n - k) (drop_bit k a) @ low_bits k (a :: 'a::semiring_bit_operations)"
proof -
  assume "k \<le> n"
  then obtain m where n: "n = k + m" using le_Suc_ex by blast
  have "map (bit a) [k..<k + m] = map (bit (drop_bit k a)) [0..<m]"
    by (rule nth_equalityI) (simp_all add: bit_drop_bit_eq)
  then show ?thesis
    by (simp add: low_bits_def n upt_add_eq_append [of 0 k m, simplified])
qed

lemma low_bits_append:
  fixes v :: "32 word"
  assumes "k + n \<le> 32" "\<And>i. i \<ge> n \<Longrightarrow> \<not> bit u i"
  shows "low_bits (k + n) (push_bit n v OR u) = low_bits k v @ low_bits n u"
proof -
  have "low_bits (k + n) (push_bit n v OR u) =
      low_bits k (drop_bit n (push_bit n v OR u)) @ low_bits n (push_bit n v OR u)"
    by (subst low_bits_split [of n]) simp_all
  moreover have "low_bits k (drop_bit n (push_bit n v OR u)) = low_bits k v"
    using assms by (intro low_bits_cong) (auto simp: bit_drop_bit_eq bit_or_iff bit_push_bit_iff)
  moreover have "low_bits n (push_bit n v OR u) = low_bits n u"
    using assms(1) by (intro low_bits_cong) (auto simp: bit_or_iff bit_push_bit_iff)
  ultimately show ?thesis by simp
qed

lemma low_bits_inj:
  assumes "low_bits 8 a = low_bits 8 (b :: 8 word)" shows "a = b"
proof (rule bit_word_eqI)
  fix i assume "i < LENGTH(8)"
  then have i: "i < 8" by simp
  have "map (bit a) [0..<8] = map (bit b) [0..<8]" using assms by (simp add: low_bits_def)
  from arg_cong [OF this, of "\<lambda>xs. xs ! i"] show "bit a i = bit b i" using i by simp
qed

lemma concat_low_bits_inj:
  "length as = length bs \<Longrightarrow> concat (map (low_bits 8) as) @ xs = concat (map (low_bits 8) bs) @ ys \<Longrightarrow>
    as = (bs :: 8 word list)"
  by (induction as bs rule: list_induct2) (auto dest: low_bits_inj simp: append_eq_append_conv)

lemma length_concat_low_bits: "length (concat (map (low_bits n) as)) = n * length as"
  by (induction as) simp_all

lemma bit_31: "bit (31 :: 32 word) i \<longleftrightarrow> i < 5"
proof -
  have "(31 :: 32 word) = mask 5" by (simp add: mask_eq_exp_minus_1)
  then show ?thesis by (simp only: bit_mask_iff) auto
qed

lemma bit_255: "bit (255 :: 32 word) i \<longleftrightarrow> i < 8"
proof -
  have "(255 :: 32 word) = mask 8" by (simp add: mask_eq_exp_minus_1)
  then show ?thesis by (simp only: bit_mask_iff) auto
qed

text \<open>What a digit stands for.\<close>

lemma digit_less: "unat (v AND 31 :: 32 word) < 32"
proof -
  have "v AND 31 \<le> (31 :: 32 word)" by (rule word_and_le1)
  then have "unat (v AND 31) \<le> unat (31 :: 32 word)" by (simp only: word_le_nat_alt)
  then show ?thesis by simp
qed

lemma digit_bits: "low_bits 5 (unat (v AND 31 :: 32 word)) = low_bits 5 v"
proof (rule low_bits_cong)
  fix i :: nat assume "i < 5"
  then show "bit (unat (v AND 31)) i = bit v i" by (simp only: bit_unsigned_iff bit_and_iff bit_31) simp
qed

lemma index_of_digit: "d < 32 \<Longrightarrow> index_of (BASE32_ALPHABET ! d) BASE32_ALPHABET = Some d"
proof -
  have "\<forall>d < 32. index_of (BASE32_ALPHABET ! d) BASE32_ALPHABET = Some d"
    by (simp only: All_less_Suc eval_nat_numeral BitM.simps) (simp add: BASE32_ALPHABET_def index_of_def)
  then show "d < 32 \<Longrightarrow> ?thesis" by blast
qed

abbreviation encoded_as :: "string \<Rightarrow> nat list \<Rightarrow> bool" where
  "encoded_as s ds \<equiv> s = map ((!) BASE32_ALPHABET) ds \<and> (\<forall>d \<in> set ds. d < 32)"

lemma encode_digits_bits:
  "\<exists>ds. encoded_as (fst (encode_digits n v)) ds \<and> snd (encode_digits n v) < 5 \<and>
    low_bits n v = concat (map (low_bits 5) ds) @ low_bits (snd (encode_digits n v)) v"
proof (induction n v rule: encode_digits.induct)
  case (1 n v)
  show ?case
  proof (cases "n < 5")
    case True
    then show ?thesis by (simp add: encode_digits.simps [of n])
  next
    case False
    obtain out rest where e: "encode_digits (n - 5) v = (out, rest)" by fastforce
    then obtain ds where ds: "encoded_as out ds" "rest < 5"
      "low_bits (n - 5) v = concat (map (low_bits 5) ds) @ low_bits rest v"
      using 1 False by fastforce
    let ?d = "unat (drop_bit (n - 5) v AND 31)"
    have "low_bits n v = low_bits 5 ?d @ low_bits (n - 5) v"
      using False low_bits_split [of "n - 5" n v] by (simp add: digit_bits)
    then show ?thesis using ds digit_less [of "drop_bit (n - 5) v"] False
      by (intro exI [of _ "?d # ds"])
        (simp add: encode_digits.simps [of n] base32_char_def e)
  qed
qed

lemma byte_high: "8 \<le> i \<Longrightarrow> \<not> bit (b :: 8 word) i"
  by (auto dest: bit_imp_le_length)

lemma low_byte: "low_bits 8 (ucast b :: 32 word) = low_bits 8 (b :: 8 word)"
  by (rule low_bits_cong) (simp add: bit_ucast_iff)

lemma encode_loop_bits:
  "n < 5 \<Longrightarrow> \<exists>ds p. encoded_as (encode_loop n v bytes) ds \<and> p < 5 \<and>
    concat (map (low_bits 5) ds) = low_bits n v @ concat (map (low_bits 8) bytes) @ replicate p False"
proof (induction bytes arbitrary: n v)
  case Nil
  show ?case
  proof (cases "n = 0")
    case True
    then show ?thesis by (intro exI [of _ "[]"] exI [of _ 0]) (simp add: low_bits_def)
  next
    case False
    have "low_bits 5 (push_bit (5 - n) v) = low_bits n v @ replicate (5 - n) False"
    proof -
      have "low_bits (n + (5 - n)) (push_bit (5 - n) v OR 0) = low_bits n v @ low_bits (5 - n) (0 :: 32 word)"
        using Nil by (intro low_bits_append) simp_all
      moreover have "low_bits (5 - n) (0 :: 32 word) = replicate (5 - n) False"
        by (simp add: low_bits_def bot_fun_def map_replicate_const)
      ultimately show ?thesis using Nil by simp
    qed
    then show ?thesis using False Nil digit_less [of "push_bit (5 - n) v"]
      by (intro exI [of _ "[unat (push_bit (5 - n) v AND 31)]"] exI [of _ "5 - n"])
        (simp add: base32_char_def digit_bits)
  qed
next
  case (Cons b bytes)
  let ?v = "push_bit 8 v OR ucast b"
  obtain ds where ds: "encoded_as (fst (encode_digits (n + 8) ?v)) ds" "snd (encode_digits (n + 8) ?v) < 5"
    "low_bits (n + 8) ?v = concat (map (low_bits 5) ds) @ low_bits (snd (encode_digits (n + 8) ?v)) ?v"
    using encode_digits_bits [of "n + 8" ?v] by blast
  obtain es p where es: "encoded_as (encode_loop (snd (encode_digits (n + 8) ?v)) ?v bytes) es" "p < 5"
    "concat (map (low_bits 5) es) = low_bits (snd (encode_digits (n + 8) ?v)) ?v @
      concat (map (low_bits 8) bytes) @ replicate p False"
    using Cons.IH [OF ds(2), of ?v] by blast
  have "low_bits (n + 8) ?v = low_bits n v @ low_bits 8 b"
    using low_bits_append [of n 8 "ucast b" v] Cons.prems by (simp add: low_byte bit_ucast_iff byte_high)
  then show ?case using ds es
    by (intro exI [of _ "ds @ es"] exI [of _ p]) (auto simp: Let_def split: prod.split)
qed

lemma decode_loop_bits:
  "n < 8 \<Longrightarrow> \<forall>d \<in> set ds. d < 32 \<Longrightarrow> \<exists>bytes left. decode_loop n v (map ((!) BASE32_ALPHABET) ds) = Inr bytes \<and>
    length left < 8 \<and> low_bits n v @ concat (map (low_bits 5) ds) = concat (map (low_bits 8) bytes) @ left"
proof (induction ds arbitrary: n v)
  case Nil
  then show ?case by (intro exI [of _ "[]"] exI [of _ "low_bits n v"]) simp
next
  case (Cons d ds)
  let ?v = "push_bit 5 v OR of_nat d :: 32 word"
  have d: "d < 2 ^ 5" using Cons.prems by simp
  have high: "\<not> bit (of_nat d :: 32 word) i" if "i \<ge> 5" for i
  proof -
    have "\<not> bit d i" using d that by (metis bit_take_bit_iff not_less take_bit_nat_eq_self)
    then show ?thesis by (simp add: bit_of_nat_iff)
  qed
  have low: "low_bits 5 (of_nat d :: 32 word) = low_bits 5 d"
    by (rule low_bits_cong) (simp add: bit_of_nat_iff)
  have v: "low_bits (n + 5) ?v = low_bits n v @ low_bits 5 d"
    using low_bits_append [of n 5 "of_nat d" v] high low Cons.prems(1) by simp
  show ?case
  proof (cases "n + 5 \<ge> 8")
    case True
    let ?b = "ucast (drop_bit (n + 5 - 8) ?v AND 255) :: 8 word"
    obtain bytes rest where r: "decode_loop (n + 5 - 8) ?v (map ((!) BASE32_ALPHABET) ds) = Inr bytes"
      "length rest < 8" "low_bits (n + 5 - 8) ?v @ concat (map (low_bits 5) ds) = concat (map (low_bits 8) bytes) @ rest"
    proof -
      have "n + 5 - 8 < 8" "\<forall>d \<in> set ds. d < 32" using Cons.prems by simp_all
      from Cons.IH [OF this, of ?v] show ?thesis using that by blast
    qed
    have "low_bits 8 ?b = low_bits 8 (drop_bit (n + 5 - 8) ?v)"
    proof (rule low_bits_cong)
      fix i :: nat assume "i < 8"
      then show "bit ?b i = bit (drop_bit (n + 5 - 8) ?v) i" by (simp only: bit_ucast_iff bit_and_iff bit_255) simp
    qed
    then have "low_bits (n + 5) ?v = low_bits 8 ?b @ low_bits (n + 5 - 8) ?v"
      using low_bits_split [of "n + 5 - 8" "n + 5" ?v] True by simp
    then have b: "low_bits n v @ low_bits 5 d = low_bits 8 ?b @ low_bits (n + 5 - 8) ?v" by (simp only: v)
    have "low_bits n v @ concat (map (low_bits 5) (d # ds)) =
        (low_bits n v @ low_bits 5 d) @ concat (map (low_bits 5) ds)"
      by (simp only: list.map concat.simps append_assoc)
    also have "\<dots> = low_bits 8 ?b @ (low_bits (n + 5 - 8) ?v @ concat (map (low_bits 5) ds))"
      by (simp only: b append_assoc)
    also have "\<dots> = concat (map (low_bits 8) (?b # bytes)) @ rest"
      by (simp only: r(3) list.map concat.simps append_assoc)
    finally have "low_bits n v @ concat (map (low_bits 5) (d # ds)) = concat (map (low_bits 8) (?b # bytes)) @ rest" .
    moreover have "decode_loop n v (map ((!) BASE32_ALPHABET) (d # ds)) = Inr (?b # bytes)"
      using r(1) True index_of_digit [of d] Cons.prems
      by (simp only: list.map decode_loop.simps Let_def) simp
    ultimately show ?thesis using r(2) by blast
  next
    case False
    then show ?thesis using Cons.IH [of "n + 5" ?v] Cons.prems v index_of_digit [of d] by (simp add: Let_def)
  qed
qed

lemma base32_cleaned_digits: "\<forall>d \<in> set ds. d < 32 \<Longrightarrow> base32_cleaned (map ((!) BASE32_ALPHABET) ds) = map ((!) BASE32_ALPHABET) ds"
proof -
  assume ds: "\<forall>d \<in> set ds. d < 32"
  have all: "list_all (\<lambda>c. \<not> js_space c \<and> c \<noteq> CHR ''-'' \<and> c \<noteq> CHR ''='' \<and> toUpperCase [c] = [c]) BASE32_ALPHABET"
    by (simp add: BASE32_ALPHABET_def js_space_def toUpperCase_def)
  have ok: "\<not> js_space c \<and> c \<noteq> CHR ''-'' \<and> c \<noteq> CHR ''='' \<and> toUpperCase [c] = [c]"
    if "c \<in> set (map ((!) BASE32_ALPHABET) ds)" for c
  proof -
    have "length BASE32_ALPHABET = 32" by (simp add: BASE32_ALPHABET_def)
    then have "c \<in> set BASE32_ALPHABET" using that ds by auto
    then show ?thesis using all by (simp add: list_all_iff)
  qed
  let ?s = "map ((!) BASE32_ALPHABET) ds"
  have "filter (\<lambda>c. \<not> js_space c \<and> c \<noteq> CHR ''-'') ?s = ?s" using ok by (intro filter_True) blast
  moreover have "dropWhile (\<lambda>c. c = CHR ''='') (rev ?s) = rev ?s"
  proof -
    have "?s = [] \<or> hd (rev ?s) \<noteq> CHR ''=''" by (metis hd_in_set ok rev_is_Nil_conv set_rev)
    then show ?thesis by (simp add: dropWhile_eq_self_iff)
  qed
  moreover have "toUpperCase ?s = ?s"
    unfolding toUpperCase_def using ok by (intro map_idI) (force simp: toUpperCase_def)
  ultimately show ?thesis unfolding base32_cleaned_def by (simp only: rev_rev_ident)
qed

lemma decode_loop_refuses: "decode_loop n v cs = Inl c \<Longrightarrow> c \<in> set cs \<and> c \<notin> set BASE32_ALPHABET"
proof (induction cs arbitrary: n v)
  case (Cons a cs)
  show ?case
  proof (cases "index_of a BASE32_ALPHABET")
    case None
    then show ?thesis using Cons.prems by (auto simp: index_of_def split: if_splits)
  next
    case (Some i)
    let ?v = "push_bit 5 v OR of_nat i"
    have "decode_loop (n + 5 - 8) ?v cs = Inl c \<or> decode_loop (n + 5) ?v cs = Inl c"
      using Cons.prems Some by (cases "decode_loop (n + 5 - 8) ?v cs") (auto simp: Let_def split: if_splits)
    then show ?thesis using Cons.IH by auto
  qed
qed simp

text \<open>Written in groups for a person to copy, a secret is still the same secret.\<close>

lemma filter_join_space: "\<not> P (CHR '' '') \<Longrightarrow> filter P (join_space gs) = filter P (concat gs)"
  by (induction gs rule: join_space.induct) simp_all

lemma takeWhile_take_split: "xs = takeWhile P (take n xs) @ drop (length (takeWhile P (take n xs))) xs"
  by (induction xs arbitrary: n) (simp_all add: take_Cons' drop_Cons')

lemma filter_display_groups:
  "(\<And>c. line_end c \<Longrightarrow> \<not> P c) \<Longrightarrow> filter P (concat (display_groups s)) = filter P s"
proof (induction s rule: display_groups.induct)
  case (1 s)
  let ?rest = "dropWhile line_end s" and ?group = "takeWhile (\<lambda>c. \<not> line_end c) (take 4 (dropWhile line_end s))"
  have "filter P (takeWhile line_end s) = []" using 1 by (auto simp: filter_empty_conv dest: set_takeWhileD)
  then have s: "filter P s = filter P ?rest"
    by (metis append_Nil filter_append takeWhile_dropWhile_id)
  show ?case
  proof (cases "?rest = []")
    case True
    then have "display_groups s = []" by (subst display_groups.simps) (simp only: Let_def if_True simp_thms)
    then show ?thesis using s True by (simp del: dropWhile_eq_Nil_conv)
  next
    case False
    have "?rest = ?group @ drop (length ?group) ?rest"
      by (rule takeWhile_take_split)
    then have "filter P ?rest = filter P ?group @ filter P (drop (length ?group) ?rest)"
      by (metis filter_append)
    then show ?thesis using 1 False s by (subst display_groups.simps) (simp add: Let_def del: dropWhile_eq_Nil_conv)
  qed
qed

lemma line_end_space: "line_end c \<Longrightarrow> js_space c"
  by (auto simp: line_end_def js_space_def)

lemma cleaned_display: "base32_cleaned (formatSecretForDisplay secret) = base32_cleaned secret"
proof -
  have "filter (\<lambda>c. \<not> js_space c \<and> c \<noteq> CHR ''-'') (formatSecretForDisplay secret) =
      filter (\<lambda>c. \<not> js_space c \<and> c \<noteq> CHR ''-'') secret"
    unfolding formatSecretForDisplay_def
    by (subst filter_join_space) (auto simp: filter_display_groups line_end_space, simp add: js_space_def)
  then show ?thesis by (simp only: base32_cleaned_def)
qed





section \<open>Codes: what is accepted\<close>

declare show_digits.simps [simp del]

lemma length_show_digits: "n < 10 ^ d \<Longrightarrow> 0 < d \<Longrightarrow> length (show_digits n) \<le> d"
proof (induction n arbitrary: d rule: show_digits.induct)
  case (1 n)
  show ?case
  proof (cases "n < 10")
    case True
    then show ?thesis using 1 by (simp add: show_digits.simps [of n])
  next
    case False
    then obtain k where d: "d = Suc k" "0 < k" using 1(2,3) by (cases d; cases "d - 1") auto
    then have "n div 10 < 10 ^ k" using 1(2) by (simp add: less_mult_imp_div_less mult.commute)
    then show ?thesis using 1 False d by (simp add: show_digits.simps [of n])
  qed
qed

lemma digits_show_digits: "c \<in> set (show_digits n) \<Longrightarrow> 48 \<le> (of_char c :: nat) \<and> (of_char c :: nat) \<le> 57"
proof (induction n rule: show_digits.induct)
  case (1 n)
  have "48 \<le> (of_char (digit_char d) :: nat) \<and> (of_char (digit_char d) :: nat) \<le> 57" if "d < 10" for d
    using that by (simp add: digit_char_def)
  then show ?case using 1 by (auto simp: show_digits.simps [of n] split: if_splits)
qed

lemma hotp_is_code: "hotp hmac secret counter digits = Some code \<Longrightarrow> 0 < digits \<Longrightarrow> is_code digits code"
proof -
  assume h: "hotp hmac secret counter digits = Some code" and d: "0 < digits"
  then obtain b :: int where c: "code = padStart digits (CHR ''0'') (show_digits (nat (b mod 10 ^ digits)))"
    by (auto simp: hotp_def Let_def split: option.splits)
  have "nat (b mod 10 ^ digits) < 10 ^ digits"
    by (metis nat_less_iff of_nat_numeral of_nat_power pos_mod_bound pos_mod_sign zero_less_numeral zero_less_power)
  from length_show_digits [OF this d] show ?thesis
    unfolding c by (auto simp: is_code_def padStart_def list_all_iff dest: digits_show_digits)
qed

lemma hotp_Some: "hotp hmac secret counter digits = None \<longleftrightarrow> counter < 0 \<or> 2 ^ 64 \<le> counter"
proof -
  have "0 \<le> counter mod 2 ^ 32 \<and> counter mod 2 ^ 32 < 2 ^ 32" by simp
  moreover have "(0 \<le> counter div 2 ^ 32 \<and> counter div 2 ^ 32 < 2 ^ 32) \<longleftrightarrow> 0 \<le> counter \<and> counter < 2 ^ 64"
    using div_mult_mod_eq [of counter "2 ^ 32"] pos_mod_bound [of "2 ^ 32" counter] pos_mod_sign [of "2 ^ 32" counter]
    by simp linarith
  ultimately show ?thesis by (auto simp: hotp_def uint32_be_def Let_def)
qed

lemma verify_loop_ok:
  "verify_loop f code used steps = Some (Totp_ok step) \<Longrightarrow>
    step \<in> set steps \<and> 0 \<le> step \<and> f step = Some code \<and> (\<forall>u. used = Some u \<longrightarrow> u < step)"
  by (induction steps) (auto split: if_splits option.splits)

lemma verify_loop_unused:
  "(\<And>step. step \<in> set steps \<Longrightarrow> 0 \<le> step \<Longrightarrow> f step \<noteq> None \<and> (\<forall>u. used = Some u \<longrightarrow> u < step)) \<Longrightarrow>
    good \<in> set steps \<Longrightarrow> 0 \<le> good \<Longrightarrow> f good = Some code \<Longrightarrow>
    \<exists>step. verify_loop f code used steps = Some (Totp_ok step)"
proof (induction steps)
  case (Cons a steps)
  then have tail: "good \<in> set steps \<Longrightarrow> \<exists>step. verify_loop f code used steps = Some (Totp_ok step)" by simp
  show ?case
  proof (cases "0 \<le> a")
    case True
    then obtain e where "f a = Some e" "\<forall>u. used = Some u \<longrightarrow> u < a" using Cons.prems(1) [of a] by auto
    then show ?thesis using tail Cons.prems(2-) True by (cases "e = code"; cases used) auto
  qed (use tail Cons.prems(2-) in auto)
qed simp

lemma steps_of_window: "step \<in> set (map (\<lambda>offset. current + offset) [- window..window]) \<longleftrightarrow> \<bar>step - current\<bar> \<le> (window :: int)"
proof -
  have "(\<exists>offset. step = current + offset \<and> - window \<le> offset \<and> offset \<le> window) \<longleftrightarrow> \<bar>step - current\<bar> \<le> window"
    by presburger
  then show ?thesis by auto
qed

abbreviation window_of :: "totp_options \<Rightarrow> int" where
  "window_of options \<equiv> or_else (to_window options) 1"

abbreviation digits_of :: "totp_options \<Rightarrow> nat" where
  "digits_of options \<equiv> or_else (to_digits options) TOTP_DIGITS"

abbreviation step_of :: "totp_options \<Rightarrow> int \<Rightarrow> int" where
  "step_of options atMs \<equiv> totpStep atMs (or_else (to_stepSeconds options) TOTP_STEP_SECONDS)"

lemma verify_ok:
  assumes "verifyTotp hmac secret submitted atMs options = Some (Totp_ok step)"
  shows "0 \<le> step \<and> \<bar>step - step_of options atMs\<bar> \<le> window_of options \<and>
    hotp hmac secret step (digits_of options) = Some (typed_digits submitted) \<and>
    (\<forall>used. to_lastUsedStep options = Some used \<longrightarrow> used < step)"
proof -
  have "verify_loop (\<lambda>step. hotp hmac secret step (digits_of options)) (typed_digits submitted)
      (to_lastUsedStep options) (map (\<lambda>offset. step_of options atMs + offset) [- window_of options..window_of options])
      = Some (Totp_ok step)"
    using assms by (simp add: verifyTotp_def Let_def split: if_splits)
  from verify_loop_ok [OF this] show ?thesis by (simp only: steps_of_window) blast
qed

lemma verify_unused:
  assumes "0 \<le> good" "\<bar>good - step_of options atMs\<bar> \<le> window_of options"
    "step_of options atMs + window_of options < 2 ^ 64" "0 < digits_of options"
    "hotp hmac secret good (digits_of options) = Some (typed_digits submitted)"
    "\<forall>used. to_lastUsedStep options = Some used \<longrightarrow> used < step_of options atMs - window_of options"
  shows "\<exists>step. verifyTotp hmac secret submitted atMs options = Some (Totp_ok step)"
proof -
  let ?steps = "map (\<lambda>offset. step_of options atMs + offset) [- window_of options..window_of options]"
  have "hotp hmac secret step (digits_of options) \<noteq> None \<and> (\<forall>u. to_lastUsedStep options = Some u \<longrightarrow> u < step)"
    if "step \<in> set ?steps" "0 \<le> step" for step
    using that(2) that(1) [unfolded steps_of_window] assms(3,6) by (subst hotp_Some) force
  moreover have "good \<in> set ?steps" using assms(2) by (simp only: steps_of_window)
  ultimately have "\<exists>step. verify_loop (\<lambda>step. hotp hmac secret step (digits_of options)) (typed_digits submitted)
      (to_lastUsedStep options) ?steps = Some (Totp_ok step)"
    using assms(1,5) by (intro verify_loop_unused [where good = good]) blast+
  moreover have "is_code (digits_of options) (typed_digits submitted)" using assms(4,5) hotp_is_code by blast
  ultimately show ?thesis by (simp add: verifyTotp_def Let_def)
qed


text \<open>With \<open>hmac\<close> a digest of zeros every code is the same, so the guard is all there is.\<close>

abbreviation zero_hmac :: "8 word list \<Rightarrow> 8 word list \<Rightarrow> 8 word list" where
  "zero_hmac secret message \<equiv> replicate 20 0"

abbreviation no_options :: totp_options where
  "no_options \<equiv> \<lparr>to_window = None, to_digits = None, to_stepSeconds = None, to_lastUsedStep = None\<rparr>"


section \<open>Recovery codes: told apart from codes\<close>

abbreviation recovery_char :: "8 word \<Rightarrow> char" where
  "recovery_char b \<equiv> RECOVERY_ALPHABET ! unat (b AND 31)"

lemma recovery_char: "recovery_char b \<in> set RECOVERY_ALPHABET"
proof -
  have "b AND 31 \<le> (31 :: 8 word)" by (rule word_and_le1)
  then have "unat (b AND 31) \<le> unat (31 :: 8 word)" by (simp only: word_le_nat_alt)
  moreover have "length RECOVERY_ALPHABET = 32" by (simp add: RECOVERY_ALPHABET_def BASE32_ALPHABET_def toLowerCase_def)
  ultimately show ?thesis by (intro nth_mem) simp
qed

lemma normalize_recovery_char: "normalizeRecoveryCode (recovery_char b # s) = recovery_char b # normalizeRecoveryCode s"
proof -
  have R: "RECOVERY_ALPHABET = ''abcdefghijklmnopqrstuvwxyz234567''" by code_simp
  have "list_all (\<lambda>c. normalizeRecoveryCode [c] = [c]) RECOVERY_ALPHABET"
    unfolding R by (simp only: list.pred_inject simp_thms) (simp add: normalizeRecoveryCode_def toLowerCase_def)
  then have "normalizeRecoveryCode [recovery_char b] = [recovery_char b]" using recovery_char by (simp add: list_all_iff)
  moreover have "normalizeRecoveryCode (recovery_char b # s) = normalizeRecoveryCode [recovery_char b] @ normalizeRecoveryCode s"
    by (simp only: normalizeRecoveryCode_def toLowerCase_def list.map filter.simps append.simps) simp
  ultimately show ?thesis by simp
qed

lemma normalize_dash: "normalizeRecoveryCode (CHR ''-'' # s) = normalizeRecoveryCode s"
  by (simp add: normalizeRecoveryCode_def toLowerCase_def)

lemma recovery_char_typed: "\<not> js_space (recovery_char b) \<and> recovery_char b \<noteq> CHR ''-''"
proof -
  have "list_all (\<lambda>c. \<not> js_space c \<and> c \<noteq> CHR ''-'') RECOVERY_ALPHABET" by code_simp
  then show ?thesis using recovery_char by (simp add: list_all_iff)
qed

lemma ten: "[0..<RECOVERY_CODE_LENGTH] = [0, 1, 2, 3, 4, 5, 6, 7, 8, 9]"
  by (simp add: RECOVERY_CODE_LENGTH_def upt_rec)

text \<open>A recovery code passes for one, however it is read, and never for a code of six digits; a code of six
  digits never passes for a recovery code.\<close>

theorem recovery_codes_told_apart:
  assumes "RECOVERY_CODE_LENGTH \<le> length bytes"
  shows "\<exists>code. recoveryCodeFromBytes bytes = Some code \<and> looksLikeRecoveryCode code \<and>
    verifyTotp hmac secret code atMs (options\<lparr>to_digits := None\<rparr>) = Some Malformed"
proof -
  obtain code where c: "recoveryCodeFromBytes bytes = Some code" using assms by (simp add: recoveryCodeFromBytes_def)
  then have code: "code = concat (map (\<lambda>i. recovery_char (bytes ! i) # (if i = 4 then ''-'' else [])) [0, 1, 2, 3, 4, 5, 6, 7, 8, 9])"
    using assms by (simp add: recoveryCodeFromBytes_def ten)
  have "looksLikeRecoveryCode code"
    by (simp add: looksLikeRecoveryCode_def code normalize_recovery_char normalize_dash RECOVERY_CODE_LENGTH_def)
      (simp add: normalizeRecoveryCode_def toLowerCase_def)
  moreover have "length (typed_digits code) = 10"
    by (simp add: code typed_digits_def recovery_char_typed)
  ultimately show ?thesis using c by (simp add: verifyTotp_def is_code_def TOTP_DIGITS_def Let_def)
qed

theorem codes_not_recovery:
  assumes "hotp hmac secret counter TOTP_DIGITS = Some code"
  shows "\<not> looksLikeRecoveryCode code"
proof -
  have "length code = 6" using hotp_is_code [OF assms] by (simp add: is_code_def TOTP_DIGITS_def)
  moreover have "length (normalizeRecoveryCode code) \<le> length code"
    unfolding normalizeRecoveryCode_def length_map by (rule order_trans [OF length_filter_le]) (simp add: toLowerCase_def)
  ultimately show ?thesis by (simp add: looksLikeRecoveryCode_def RECOVERY_CODE_LENGTH_def)
qed

end
