(* ===== verification/Comms.thy ===== *)
theory Comms
  imports Ledger Auctions Accounting
begin

text \<open>
  The rules of communication (\<open>packages/core/comms\<close>): the status of a message and what a provider's event
  does to it (\<open>delivery.ts\<close>), quiet hours (\<open>sms-window.ts\<close>, \<open>marketing-window.ts\<close>), the default preferences
  (\<open>preferences.ts\<close>), phone numbers (\<open>phone.ts\<close>), the keywords of a text message (\<open>sms-keywords.ts\<close>) and the
  periods of scheduled reports (\<open>report-schedule.ts\<close>).
\<close>

section \<open>delivery.ts\<close>

datatype message_status = M_queued | M_sent | M_delivered | M_bounced | M_failed | M_suppressed | M_cancelled | M_deferred

text \<open>\<open>deferred\<close> is a status of the database only: \<open>RANK\<close> has no entry for it, and a comparison with
  undefined is false (None).\<close>

fun RANK :: "message_status \<Rightarrow> int option" where
  "RANK M_queued = Some 0"
| "RANK M_sent = Some 1"
| "RANK M_delivered = Some 2"
| "RANK M_bounced = Some 2"
| "RANK M_failed = Some 2"
| "RANK M_suppressed = Some 3"
| "RANK M_cancelled = Some 3"
| "RANK M_deferred = None"

definition nextDeliveryStatus :: "message_status \<Rightarrow> message_status \<Rightarrow> message_status option" where
  "nextDeliveryStatus current incoming = (
    if current = incoming then None
    else if RANK current = Some 3 then None
    else case (RANK incoming, RANK current) of
        (Some i, Some c) \<Rightarrow> if i > c then Some incoming else None
      | _ \<Rightarrow> None)"

definition statusFromResendEvent :: "string \<Rightarrow> message_status option" where
  "statusFromResendEvent type = (
    if type = ''email.sent'' then Some M_sent
    else if type = ''email.delivered'' then Some M_delivered
    else if type = ''email.bounced'' then Some M_bounced
    else if type = ''email.complained'' then Some M_delivered
    else None)"

datatype suppression_reason = R_hard_bounce | R_complaint | R_unsubscribe | R_manual | R_stop | R_kill_switch

record delivery_consequence =
  dc_suppress :: "suppression_reason option"
  dc_flagTenant :: bool
  dc_raiseTask :: bool

definition consequencesOf :: "string \<Rightarrow> delivery_consequence" where
  "consequencesOf eventType = (
    if eventType = ''email.bounced'' then \<lparr>dc_suppress = Some R_hard_bounce, dc_flagTenant = True, dc_raiseTask = True\<rparr>
    else if eventType = ''email.complained'' then \<lparr>dc_suppress = Some R_complaint, dc_flagTenant = True, dc_raiseTask = False\<rparr>
    else \<lparr>dc_suppress = None, dc_flagTenant = False, dc_raiseTask = False\<rparr>)"

definition suppressionIsRemovable :: "suppression_reason \<Rightarrow> bool" where
  "suppressionIsRemovable reason \<longleftrightarrow> reason = R_manual \<or> reason = R_hard_bounce"

text \<open>A masked address is a list of characters and bullets (None).\<close>

definition last_at :: "string \<Rightarrow> int" where
  "last_at address = (if CHR ''@'' \<in> set address
    then int (length address) - 1 - int (length (takeWhile (\<lambda>c. c \<noteq> CHR ''@'') (rev address))) else - 1)"

definition maskAddress :: "string \<Rightarrow> char option list" where
  "maskAddress address = (
    let i = last_at address in
    if i < 1 then replicate 4 None @ (if length address \<le> 4 then [] else map Some (drop (length address - 4) address))
    else
      let name = take (nat i) address;
          slice = take (min 2 (length name - 1)) name;
          shown = (if slice = [] then take 1 name else slice)
      in map Some shown @ replicate (max 1 (length name - length shown)) None @ map Some (drop (nat i) address))"

section \<open>sms-window.ts, marketing-window.ts, preferences.ts\<close>

definition isSmsQuietHours :: "date \<Rightarrow> zone \<Rightarrow> int \<Rightarrow> int \<Rightarrow> bool" where
  "isSmsQuietHours instant timezone start ending \<longleftrightarrow> (let hour = lp_hour (localParts instant timezone) in
    hour < start \<or> ending \<le> hour)"

definition isMarketingQuietHours :: "date \<Rightarrow> zone \<Rightarrow> bool" where
  "isMarketingQuietHours instant timezone \<longleftrightarrow> (let hour = lp_hour (localParts instant timezone) in
    21 \<le> hour \<or> hour < 8)"

datatype notification_category = Payment_reminders | Receipts | Operational_notices
datatype message_channel = Email | Sms

definition defaultNotificationPreference :: "notification_category \<Rightarrow> message_channel \<Rightarrow> bool" where
  "defaultNotificationPreference category channel \<longleftrightarrow> \<not> (category = Receipts \<and> channel = Sms)"

section \<open>phone.ts\<close>

definition phone_digit :: "char \<Rightarrow> bool" where
  "phone_digit c \<longleftrightarrow> 48 \<le> (of_char c :: nat) \<and> (of_char c :: nat) \<le> 57"

definition e164 :: "string \<Rightarrow> bool" where
  "e164 s \<longleftrightarrow> (case s of
      sign # first # digits \<Rightarrow> sign = CHR ''+'' \<and> phone_digit first \<and> first \<noteq> CHR ''0''
        \<and> 9 \<le> length digits \<and> length digits \<le> 14 \<and> list_all phone_digit digits
    | _ \<Rightarrow> False)"

definition normalizePhoneE164 :: "string option \<Rightarrow> string option" where
  "normalizePhoneE164 raw = (
    if \<not> truthy raw then None
    else let trimmed = trim (the raw) in
      if e164 trimmed then Some trimmed
      else let digits = filter phone_digit trimmed in
        if length digits = 10 then Some (''+1'' @ digits)
        else if length digits = 11 \<and> take 1 digits = ''1'' then Some (''+'' @ digits)
        else None)"

section \<open>sms-keywords.ts\<close>

datatype sms_keyword = Kw_stop | Kw_start | Kw_opt_in | Kw_confirm | Kw_help

definition STOP_KEYWORDS :: "string list" where
  "STOP_KEYWORDS = [''STOP'', ''STOPALL'', ''UNSUBSCRIBE'', ''CANCEL'', ''END'', ''QUIT'']"

definition START_KEYWORDS :: "string list" where
  "START_KEYWORDS = [''START'', ''UNSTOP'']"

definition OPT_IN_KEYWORDS :: "string list" where
  "OPT_IN_KEYWORDS = [''JOIN'', ''SUBSCRIBE'']"

definition CONFIRM_KEYWORDS :: "string list" where
  "CONFIRM_KEYWORDS = [''YES'', ''Y'']"

definition HELP_KEYWORDS :: "string list" where
  "HELP_KEYWORDS = [''HELP'']"

definition classifySmsKeyword :: "string \<Rightarrow> sms_keyword option" where
  "classifySmsKeyword body = (
    let normalized = toUpperCase (trim body) in
    if normalized \<in> set STOP_KEYWORDS then Some Kw_stop
    else if normalized \<in> set START_KEYWORDS then Some Kw_start
    else if normalized \<in> set OPT_IN_KEYWORDS then Some Kw_opt_in
    else if normalized \<in> set CONFIRM_KEYWORDS then Some Kw_confirm
    else if normalized \<in> set HELP_KEYWORDS then Some Kw_help
    else None)"

section \<open>report-schedule.ts\<close>

datatype report_cadence = Daily | Weekly | Monthly

record report_period =
  rp_start :: date
  rp_end :: date
  rp_key :: string
  rp_label :: string

record local_date =
  ld_year :: int
  ld_month :: int
  ld_day :: int

definition utc_weekday :: "date \<Rightarrow> int" where
  "utc_weekday t = (day_of t + 4) mod 7"

definition sendsOn :: "report_cadence \<Rightarrow> local_date \<Rightarrow> bool" where
  "sendsOn cadence local = (case cadence of
      Daily \<Rightarrow> True
    | Weekly \<Rightarrow> utc_weekday (utc (ld_year local) (ld_month local - 1) (ld_day local)) = 1
    | Monthly \<Rightarrow> ld_day local = 1)"

definition MONTHS :: "string list" where
  "MONTHS = [''January'', ''February'', ''March'', ''April'', ''May'', ''June'', ''July'', ''August'', ''September'',
    ''October'', ''November'', ''December'']"

definition monthLabel :: "int \<Rightarrow> int \<Rightarrow> string" where
  "monthLabel year month = MONTHS ! nat (month - 1) @ '' '' @ show_digits (nat year)"

definition periodFor :: "report_cadence \<Rightarrow> local_date \<Rightarrow> zone \<Rightarrow> report_period" where
  "periodFor cadence local timezone = (
    let todayStart = zonedMidnight (ld_year local) (ld_month local) (ld_day local) timezone in
    if cadence = Monthly then
      let year = (if ld_month local = 1 then ld_year local - 1 else ld_year local);
          month = (if ld_month local = 1 then 12 else ld_month local - 1);
          bounds = monthBounds year month timezone
      in \<lparr>rp_start = sp_start bounds, rp_end = sp_end bounds,
          rp_key = show_digits (nat year) @ ''-'' @ padStart 2 (CHR ''0'') (show_digits (nat month)),
          rp_label = monthLabel year month\<rparr>
    else
      let days = (if cadence = Weekly then 7 else 1);
          start = zonedMidnight (ld_year local) (ld_month local) (ld_day local - days) timezone
      in \<lparr>rp_start = start, rp_end = todayStart, rp_key = iso_day start,
          rp_label = (if cadence = Weekly then ''the week to '' @ iso_day (todayStart - 1) else iso_day start)\<rparr>)"

definition sendIdempotencyKey :: "string \<Rightarrow> report_period \<Rightarrow> string" where
  "sendIdempotencyKey subscriptionId period = ''report:'' @ subscriptionId @ '':'' @ rp_key period"

section \<open>The status of a message\<close>

text \<open>What is stored after an event, and after several.\<close>

definition deliver :: "message_status \<Rightarrow> message_status \<Rightarrow> message_status" where
  "deliver incoming current = or_else (nextDeliveryStatus current incoming) current"

definition deliver_all :: "message_status list \<Rightarrow> message_status \<Rightarrow> message_status" where
  "deliver_all events current = fold deliver events current"

abbreviation from_provider :: "message_status \<Rightarrow> bool" where
  "from_provider s \<equiv> s = M_sent \<or> s = M_delivered \<or> s = M_bounced"

lemma resend_events: "statusFromResendEvent type = Some s \<Longrightarrow> from_provider s"
  by (auto simp: statusFromResendEvent_def split: if_splits)

lemma deliver_simps [simp]:
  "deliver s s = s"
  "deliver M_sent M_queued = M_sent" "deliver M_sent M_delivered = M_delivered" "deliver M_sent M_bounced = M_bounced"
  "deliver M_delivered M_queued = M_delivered" "deliver M_delivered M_sent = M_delivered" "deliver M_delivered M_bounced = M_bounced"
  "deliver M_bounced M_queued = M_bounced" "deliver M_bounced M_sent = M_bounced" "deliver M_bounced M_delivered = M_delivered"
  by (simp_all add: deliver_def nextDeliveryStatus_def)

lemma deliver_settled: "RANK current \<in> {None, Some 2, Some 3} \<Longrightarrow> from_provider s \<Longrightarrow> deliver s current = current"
  by (cases current; cases s) (auto simp: deliver_def nextDeliveryStatus_def)

lemma deliver_all_settled:
  "RANK current \<in> {None, Some 2, Some 3} \<Longrightarrow> list_all from_provider events \<Longrightarrow> deliver_all events current = current"
  by (induction events) (simp_all add: deliver_all_def deliver_settled)

lemma deliver_all_sent:
  "current = M_queued \<or> current = M_sent \<Longrightarrow> list_all from_provider events \<Longrightarrow>
    deliver_all events current = (case filter (\<lambda>s. s \<noteq> M_sent) events of
      s # _ \<Rightarrow> s | [] \<Rightarrow> if events = [] then current else M_sent)"
proof (induction events arbitrary: current)
  case (Cons e events)
  show ?case
  proof (cases "e = M_sent")
    case True
    then have "deliver e current = M_sent" using Cons.prems by auto
    then show ?thesis using Cons True by (auto simp: deliver_all_def split: list.split)
  next
    case False
    then have "deliver e current = e" "RANK e \<in> {None, Some 2, Some 3}" using Cons.prems by auto
    then show ?thesis using Cons.prems False deliver_all_settled [of e events]
      by (simp add: deliver_all_def)
  qed
qed (simp add: deliver_all_def)

text \<open>The status of a message only moves forward, however the provider repeats and reorders its events.
  An event seen again changes nothing; nothing revises a decision taken before sending or a terminal
  status. A message that is queued or sent ends with the first terminal event that arrives, so
  whenever the events agree on the outcome their order and repetitions make no difference: the
  outcome is that one, and it is just sent when there is none.\<close>

theorem status_forward:
  assumes "list_all from_provider events" "current = M_queued \<or> current = M_sent"
  shows "(list_all (\<lambda>s. s = M_sent \<or> s = outcome) events \<and> outcome \<noteq> M_queued \<longrightarrow>
      deliver_all events current = (if outcome \<in> set events then outcome else if events = [] then current else M_sent)) \<and>
    (\<forall>s \<in> set events. deliver s (deliver_all events current) = deliver_all events current) \<and>
    (from_provider s \<and> RANK stored \<in> {None, Some 2, Some 3} \<longrightarrow> deliver_all (events @ [s]) stored = stored)"
proof (intro conjI impI ballI)
  let ?rest = "filter (\<lambda>s. s \<noteq> M_sent) events"
  note fate = deliver_all_sent [OF assms(2,1)]
  show "deliver_all events current = (if outcome \<in> set events then outcome else if events = [] then current else M_sent)"
    if "list_all (\<lambda>s. s = M_sent \<or> s = outcome) events \<and> outcome \<noteq> M_queued"
  proof (cases ?rest)
    case Nil
    then show ?thesis using fate that by (cases "events = []") (auto simp: filter_empty_conv)
  next
    case (Cons e rest)
    then have "e \<in> set events" "e \<noteq> M_sent" using filter_eq_ConsD [OF Cons] by auto
    then have "e = outcome" using that by (auto simp: list_all_iff)
    then show ?thesis using fate Cons \<open>e \<in> set events\<close> by simp
  qed
  show "deliver s (deliver_all events current) = deliver_all events current" if "s \<in> set events" for s
  proof (cases ?rest)
    case Nil
    then have "s = M_sent" "deliver_all events current = M_sent" using fate that by (auto simp: filter_empty_conv)
    then show ?thesis by simp
  next
    case (Cons e rest)
    then have "e \<in> set events" "e \<noteq> M_sent" using filter_eq_ConsD [OF Cons] by auto
    then have "RANK e \<in> {None, Some 2, Some 3}" "from_provider s" using assms(1) that by (auto simp: list_all_iff)
    then show ?thesis using fate Cons deliver_settled by simp
  qed
  show "deliver_all (events @ [s]) stored = stored" if "from_provider s \<and> RANK stored \<in> {None, Some 2, Some 3}"
    using deliver_all_settled [of stored "events @ [s]"] that assms(1) by simp
qed

theorem status_forward_witness:
  "deliver_all [M_delivered, M_sent, M_delivered] M_queued = M_delivered"
proof -
  have "list_all from_provider [M_delivered, M_sent, M_delivered]" by simp
  from status_forward [OF this disjI1 [OF refl], where outcome = M_delivered, THEN conjunct1, rule_format]
  show ?thesis by simp
qed

section \<open>Phone numbers\<close>

lemma phone_digit_facts: "\<not> phone_digit (CHR ''+'')" "phone_digit (CHR ''1'')" "CHR ''1'' \<noteq> CHR ''0''"
  by (simp_all add: phone_digit_def)

lemma phone_digit_not_space: "phone_digit c \<Longrightarrow> \<not> js_space c"
  by (auto simp: phone_digit_def js_space_def Let_def)

lemma trim_id: "(\<And>c. c \<in> set s \<Longrightarrow> \<not> js_space c) \<Longrightarrow> trim s = s"
proof -
  assume a: "\<And>c. c \<in> set s \<Longrightarrow> \<not> js_space c"
  have "dropWhile js_space t = t" if "set t = set s" for t
    using that a by (cases t) auto
  then show ?thesis by (simp add: trim_def)
qed

lemma e164_cases:
  assumes "e164 s" obtains d ds where "s = CHR ''+'' # d # ds" "phone_digit d" "d \<noteq> CHR ''0''" "list_all phone_digit ds"
    "9 \<le> length ds" "length ds \<le> 14"
  using assms by (auto simp: e164_def split: list.splits)

lemma e164_trim: "e164 s \<Longrightarrow> trim s = s"
proof (rule trim_id)
  fix c assume "e164 s" "c \<in> set s"
  moreover have "\<not> js_space (CHR ''+'')" by (simp add: js_space_def)
  ultimately show "\<not> js_space c" by (elim e164_cases) (auto simp: list_all_iff phone_digit_not_space)
qed

text \<open>C40. A normalised number is a number the provider takes. Whatever is typed, the result is in E.164 form,
  at most 15 digits after the sign, and normalising it again changes nothing; ten digits written with
  any other characters between them, with or without the country code, give the same number.\<close>

theorem normalizePhone_e164:
  "(normalizePhoneE164 raw = Some phone \<longrightarrow> e164 phone \<and> length phone \<le> 16 \<and> normalizePhoneE164 (Some phone) = Some phone) \<and>
    (length digits = 10 \<and> list_all phone_digit digits \<and> truthy (Some typed) \<and> \<not> e164 (trim typed) \<and>
      (filter phone_digit (trim typed) = digits \<or> filter phone_digit (trim typed) = ''1'' @ digits) \<longrightarrow>
      normalizePhoneE164 (Some typed) = Some (''+1'' @ digits))"
proof (intro conjI impI)
  assume n: "normalizePhoneE164 raw = Some phone"
  have one: "e164 (''+1'' @ ds)" if "list_all phone_digit ds" "length ds = 10" for ds
    using that phone_digit_facts by (simp add: e164_def)
  have "e164 phone"
  proof -
    let ?t = "trim (the raw)"
    have digits: "list_all phone_digit (filter phone_digit ?t)" by (simp add: list_all_iff)
    consider "e164 ?t" "phone = ?t"
      | "length (filter phone_digit ?t) = 10" "phone = ''+1'' @ filter phone_digit ?t"
      | "length (filter phone_digit ?t) = 11" "take 1 (filter phone_digit ?t) = ''1''" "phone = ''+'' @ filter phone_digit ?t"
      using n unfolding normalizePhoneE164_def Let_def by (metis option.distinct(1) option.inject)
    then show ?thesis
    proof cases
      case 3
      then obtain ds where "filter phone_digit ?t = CHR ''1'' # ds" by (cases "filter phone_digit ?t") auto
      then show ?thesis using 3 digits one [of ds] by simp
    qed (use digits one in auto)
  qed
  then show "e164 phone" "length phone \<le> 16" "normalizePhoneE164 (Some phone) = Some phone"
    by (auto simp: normalizePhoneE164_def truthy_def e164_trim elim: e164_cases)
qed (auto simp: normalizePhoneE164_def Let_def)

theorem normalizePhone_e164_witness:
  "e164 ''+15125550100'' \<and> normalizePhoneE164 (Some ''(512) 555-0100'') = Some ''+15125550100''"
proof -
  have n: "normalizePhoneE164 (Some ''512.555.0100'') = Some ''+15125550100''" by code_simp
  have "length ''5125550100'' = 10 \<and> list_all phone_digit ''5125550100'' \<and> truthy (Some ''(512) 555-0100'') \<and>
      \<not> e164 (trim ''(512) 555-0100'') \<and> (filter phone_digit (trim ''(512) 555-0100'') = ''5125550100'' \<or>
        filter phone_digit (trim ''(512) 555-0100'') = ''1'' @ ''5125550100'')" by code_simp
  from normalizePhone_e164 [THEN conjunct2, rule_format, OF this]
    normalizePhone_e164 [THEN conjunct1, rule_format, OF n] show ?thesis by simp
qed

section \<open>Scheduled reports\<close>

lemma zonedMidnight_utc:
  "utc y (m - 1) d = utc y' (m' - 1) d' \<Longrightarrow> zonedMidnight y m d z = zonedMidnight y' m' d' z"
  by (simp add: zonedMidnight_def)

abbreviation on_day :: "date \<Rightarrow> local_date" where
  "on_day t \<equiv> \<lparr>ld_year = utc_full_year t, ld_month = utc_month t + 1, ld_day = utc_date t\<rparr>"

lemma utc_on_day: "utc (utc_full_year t) (utc_month t) (utc_date t + k) = utc_day t + k * day_ms"
  by (simp add: utc_day_def utc_def algebra_simps)

definition cadence_days :: "report_cadence \<Rightarrow> int" where
  "cadence_days cadence = (if cadence = Weekly then 7 else 1)"

lemma zonedMidnight_offset:
  assumes minutes: "\<And>t. z t mod minute_ms = 0"
  shows "\<exists>t. zonedMidnight y m d z = utc y (m - 1) d - z t"
proof -
  have "zoneOffsetMinutes t z * minute_ms = z t" for t
    using zoneOffsetMinutes_exact [of z t "z t div minute_ms"] minutes [of t] by (simp add: mod_0_imp_dvd)
  then show ?thesis by (simp add: zonedMidnight_def Let_def) metis
qed

lemma zonedMidnight_west:
  assumes "\<And>t. z t mod minute_ms = 0" "\<And>t. - day_ms < z t \<and> z t \<le> 0"
  shows "utc_day (zonedMidnight y m d z) = utc y (m - 1) d"
proof -
  obtain t where t: "zonedMidnight y m d z = utc y (m - 1) d - z t" using zonedMidnight_offset [of z y m d, OF assms(1)] by blast
  have "(day_of (utc y (m - 1) d) * day_ms - z t) div day_ms = day_of (utc y (m - 1) d)"
    using assms(2) [of t] by (intro div_unique_int) auto
  moreover have "utc y (m - 1) d = day_of (utc y (m - 1) d) * day_ms" by (metis utc_day_eq utc_day_of_utc)
  ultimately show ?thesis by (simp add: t utc_day_eq day_of_def)
qed

text \<open>Dates are written so that they can be told apart: the digits can be read back.\<close>

definition written_value :: "string \<Rightarrow> nat" where
  "written_value s = foldl (\<lambda>n c. 10 * n + (of_char c - 48)) 0 s"

lemma written_value_show [simp]: "written_value (show_digits n) = n"
proof (induction n rule: show_digits.induct)
  case (1 n)
  have d: "of_char (digit_char k) - 48 = k" if "k < 10" for k using that by (simp add: digit_char_def)
  show ?case
  proof (cases "n < 10")
    case True
    then show ?thesis using d by (subst show_digits.simps) (simp add: written_value_def)
  next
    case False
    then have "written_value (show_digits n) = 10 * written_value (show_digits (n div 10)) + n mod 10"
      using d by (subst show_digits.simps) (simp add: written_value_def)
    then show ?thesis using 1 False by simp
  qed
qed

lemma written_value_pad [simp]: "written_value (padStart w (CHR ''0'') s) = written_value s"
proof -
  have "foldl (\<lambda>n c. 10 * n + (of_char c - 48)) 0 (replicate k (CHR ''0'')) = (0 :: nat)" for k
    by (induction k) simp_all
  then show ?thesis by (simp add: written_value_def padStart_def)
qed

declare show_digits.simps [simp del]

lemma length_padded: "n < 10 ^ w \<Longrightarrow> 0 < w \<Longrightarrow> length (padStart w (CHR ''0'') (show_digits n)) = w"
proof -
  have "n < 10 ^ w \<Longrightarrow> 0 < w \<Longrightarrow> length (show_digits n) \<le> w" for n
  proof (induction n arbitrary: w rule: show_digits.induct)
    case (1 n)
    show ?case
    proof (cases "n < 10")
      case True
      then show ?thesis using 1 by (simp add: show_digits.simps [of n])
    next
      case False
      then obtain k where d: "w = Suc k" "0 < k" using 1(2,3) by (cases w; cases "w - 1") auto
      then have "n div 10 < 10 ^ k" using 1(2) by (simp add: less_mult_imp_div_less mult.commute)
      then show ?thesis using 1 False d by (simp add: show_digits.simps [of n])
    qed
  qed
  then show "n < 10 ^ w \<Longrightarrow> 0 < w \<Longrightarrow> length (padStart w (CHR ''0'') (show_digits n)) = w"
    by (simp add: padStart_def)
qed

abbreviation four_digit_year :: "date \<Rightarrow> bool" where
  "four_digit_year t \<equiv> 0 \<le> utc_full_year t \<and> utc_full_year t \<le> 9999"

lemma iso_day_inj:
  assumes "iso_day s = iso_day t" "four_digit_year s" "four_digit_year t"
  shows "day_of s = day_of t"
proof -
  have year: "length (padStart 4 (CHR ''0'') (show_digits (nat (utc_full_year u)))) = 4" if "four_digit_year u" for u
    using that by (intro length_padded) auto
  have month: "length (padStart 2 (CHR ''0'') (show_digits (nat (utc_month u + 1)))) = 2" for u
    using utc_month_range [of u] by (intro length_padded) auto
  have "padStart 4 (CHR ''0'') (show_digits (nat (utc_full_year s))) = padStart 4 (CHR ''0'') (show_digits (nat (utc_full_year t))) \<and>
      padStart 2 (CHR ''0'') (show_digits (nat (utc_month s + 1))) = padStart 2 (CHR ''0'') (show_digits (nat (utc_month t + 1))) \<and>
      padStart 2 (CHR ''0'') (show_digits (nat (utc_date s))) = padStart 2 (CHR ''0'') (show_digits (nat (utc_date t)))"
    using assms(1) year [OF assms(2)] year [OF assms(3)] month [of s] month [of t]
    by (simp add: iso_day_def append_eq_append_conv)
  then have "nat (utc_full_year s) = nat (utc_full_year t) \<and> nat (utc_month s + 1) = nat (utc_month t + 1) \<and>
      nat (utc_date s) = nat (utc_date t)"
    by (metis written_value_pad written_value_show)
  then have "utc_full_year s = utc_full_year t \<and> utc_month s = utc_month t \<and> utc_date s = utc_date t"
    using assms(2,3) utc_month_range [of s] utc_month_range [of t] utc_date_range [of s] utc_date_range [of t] by auto
  then have "utc_day s = utc_day t" by (simp add: utc_day_def)
  then show ?thesis by (simp add: utc_day_eq)
qed

lemma period_days:
  assumes "cadence \<noteq> Monthly"
  shows "rp_start (periodFor cadence (on_day t) z) =
      zonedMidnight (utc_full_year t) (utc_month t + 1) (utc_date t - cadence_days cadence) z"
    and "rp_end (periodFor cadence (on_day t) z) = zonedMidnight (utc_full_year t) (utc_month t + 1) (utc_date t) z"
    and "rp_key (periodFor cadence (on_day t) z) = iso_day (rp_start (periodFor cadence (on_day t) z))"
  using assms by (simp_all add: periodFor_def cadence_days_def Let_def)

abbreviation west_of_utc :: "zone \<Rightarrow> bool" where
  "west_of_utc z \<equiv> \<forall>t. z t mod minute_ms = 0 \<and> - day_ms < z t \<and> z t \<le> 0"

text \<open>Reports leave no day out and count none twice. The period of a daily or weekly report ends at
  the instant the next one starts, also over a change of the clocks, and a month ends where the next
  begins. For a facility west of UTC, daily reports of different days and weekly reports of different weeks have
  different keys, so no report is taken for one that was sent.\<close>

theorem report_periods_tile:
  "(cadence \<noteq> Monthly \<longrightarrow> rp_end (periodFor cadence (on_day t) z) =
      rp_start (periodFor cadence (on_day (t + cadence_days cadence * day_ms)) z)) \<and>
    (1 \<le> m \<and> m \<le> 12 \<longrightarrow> rp_end (periodFor Monthly \<lparr>ld_year = y, ld_month = m, ld_day = d\<rparr> z) =
      rp_start (periodFor Monthly (if m = 12 then \<lparr>ld_year = y + 1, ld_month = 1, ld_day = e\<rparr>
        else \<lparr>ld_year = y, ld_month = m + 1, ld_day = e\<rparr>) z)) \<and>
    (cadence \<noteq> Monthly \<and> west_of_utc z \<and> day_of s \<noteq> day_of t \<and>
      four_digit_year (rp_start (periodFor cadence (on_day s) z)) \<and>
      four_digit_year (rp_start (periodFor cadence (on_day t) z)) \<longrightarrow>
      sendIdempotencyKey subscription (periodFor cadence (on_day s) z) \<noteq>
      sendIdempotencyKey subscription (periodFor cadence (on_day t) z))"
proof (intro conjI impI)
  assume c: "cadence \<noteq> Monthly"
  let ?u = "t + cadence_days cadence * day_ms"
  have "utc_day ?u = utc_day t + cadence_days cadence * day_ms" by (simp add: utc_day_eq day_of_def distrib_right)
  then have "utc (utc_full_year ?u) (utc_month ?u) (utc_date ?u - cadence_days cadence) = utc_day t"
    using utc_on_day [of ?u "- cadence_days cadence"] by simp
  then have "zonedMidnight (utc_full_year ?u) (utc_month ?u + 1) (utc_date ?u - cadence_days cadence) z =
      zonedMidnight (utc_full_year t) (utc_month t + 1) (utc_date t) z"
    by (intro zonedMidnight_utc) (simp add: utc_day_def)
  then show "rp_end (periodFor cadence (on_day t) z) = rp_start (periodFor cadence (on_day ?u) z)"
    by (simp only: period_days [OF c])
next
  assume "1 \<le> m \<and> m \<le> 12"
  then show "rp_end (periodFor Monthly \<lparr>ld_year = y, ld_month = m, ld_day = d\<rparr> z) =
      rp_start (periodFor Monthly (if m = 12 then \<lparr>ld_year = y + 1, ld_month = 1, ld_day = e\<rparr>
        else \<lparr>ld_year = y, ld_month = m + 1, ld_day = e\<rparr>) z)"
    by (auto simp: periodFor_def monthBounds_def Let_def)
next
  assume a: "cadence \<noteq> Monthly \<and> west_of_utc z \<and> day_of s \<noteq> day_of t \<and>
      four_digit_year (rp_start (periodFor cadence (on_day s) z)) \<and>
      four_digit_year (rp_start (periodFor cadence (on_day t) z))"
  have start: "utc_day (rp_start (periodFor cadence (on_day u) z)) = (day_of u - cadence_days cadence) * day_ms" for u
  proof -
    have c: "cadence \<noteq> Monthly" and w: "\<And>t. z t mod minute_ms = 0" "\<And>t. - day_ms < z t \<and> z t \<le> 0" using a by auto
    have "utc (utc_full_year u) (utc_month u + 1 - 1) (utc_date u - cadence_days cadence) = (day_of u - cadence_days cadence) * day_ms"
      using utc_on_day [of u "- cadence_days cadence"] by (simp add: utc_day_eq left_diff_distrib)
    then show ?thesis by (simp only: period_days(1) [OF c] zonedMidnight_west [of z, OF w])
  qed
  have "iso_day (rp_start (periodFor cadence (on_day s) z)) \<noteq> iso_day (rp_start (periodFor cadence (on_day t) z))"
  proof
    assume "iso_day (rp_start (periodFor cadence (on_day s) z)) = iso_day (rp_start (periodFor cadence (on_day t) z))"
    then have "day_of (rp_start (periodFor cadence (on_day s) z)) = day_of (rp_start (periodFor cadence (on_day t) z))"
      using a iso_day_inj by blast
    then show False using start [of s] start [of t] a by (simp add: utc_day_eq)
  qed
  moreover have "rp_key (periodFor cadence (on_day u) z) = iso_day (rp_start (periodFor cadence (on_day u) z))" for u
    using a by (simp add: period_days)
  ultimately show "sendIdempotencyKey subscription (periodFor cadence (on_day s) z) \<noteq>
      sendIdempotencyKey subscription (periodFor cadence (on_day t) z)" by (simp add: sendIdempotencyKey_def)
qed

lemma daily_start:
  assumes "0 \<le> m" "m \<le> 11" "1 \<le> d" "d \<le> days_in_month (12 * y + m)"
  shows "rp_start (periodFor Daily (on_day (utc y m d)) z) = zonedMidnight y (m + 1) (d - 1) z"
    and "rp_key (periodFor Daily (on_day (utc y m d)) z) = iso_day (zonedMidnight y (m + 1) (d - 1) z)"
  using period_days(1,3) [of Daily "utc y m d" z] utc_roundtrip [OF assms] by (simp_all add: cadence_days_def)

theorem report_periods_tile_witness:
  "sendIdempotencyKey ''s'' (periodFor Daily (on_day (utc 2026 2 8)) spring_zone) \<noteq>
    sendIdempotencyKey ''s'' (periodFor Daily (on_day (utc 2026 2 9)) spring_zone)"
proof -
  have "Daily \<noteq> Monthly \<and> west_of_utc spring_zone \<and> day_of (utc 2026 2 8) \<noteq> day_of (utc 2026 2 9) \<and>
      four_digit_year (rp_start (periodFor Daily (on_day (utc 2026 2 8)) spring_zone)) \<and>
      four_digit_year (rp_start (periodFor Daily (on_day (utc 2026 2 9)) spring_zone))"
  proof -
    have "1 \<le> (8::int) \<and> 8 \<le> days_in_month (12 * 2026 + 2) \<and> 9 \<le> days_in_month (12 * 2026 + 2)" by code_simp
    moreover have "four_digit_year (zonedMidnight 2026 3 7 spring_zone)" "four_digit_year (zonedMidnight 2026 3 8 spring_zone)"
      "day_of (utc 2026 2 8) \<noteq> day_of (utc 2026 2 9)"
      by code_simp+
    ultimately show ?thesis using daily_start(1) [of 2 8 2026] daily_start(1) [of 2 9 2026]
      by (simp add: spring_zone_def)
  qed
  from report_periods_tile [THEN conjunct2, THEN conjunct2, rule_format, OF this] show ?thesis .
qed

text \<open>A zone like London's, whose midnight is at or before midnight UTC: when its clocks go forward on
  29 March 2026 the reports of that day and of the day after have the same key.\<close>

definition london :: zone where
  "london t = (if t < utc 2026 2 29 + hour_ms then 0 else hour_ms)"

theorem report_key_collides:
  "rp_key (periodFor Daily (on_day (utc 2026 2 30)) london) = ''2026-03-29'' \<and>
    rp_key (periodFor Daily (on_day (utc 2026 2 31)) london) = ''2026-03-29'' \<and>
    rp_start (periodFor Daily (on_day (utc 2026 2 30)) london) \<noteq> rp_start (periodFor Daily (on_day (utc 2026 2 31)) london)"
proof -
  have "30 \<le> days_in_month (12 * 2026 + 2) \<and> 31 \<le> days_in_month (12 * 2026 + 2)" by code_simp
  moreover have "iso_day (zonedMidnight 2026 3 29 london) = ''2026-03-29''" "iso_day (zonedMidnight 2026 3 30 london) = ''2026-03-29''"
    "zonedMidnight 2026 3 29 london \<noteq> zonedMidnight 2026 3 30 london"
    by code_simp+
  ultimately show ?thesis using daily_start [of 2 30 2026] daily_start [of 2 31 2026] by simp
qed

end
