(* ===== verification/Consent.thy ===== *)
theory Consent
  imports Comms
begin

text \<open>
  Who may be written to: the suppression list (\<open>suppress\<close> of \<open>apps/web/lib/comms/service.ts\<close>,
  \<open>apps/web/lib/admin/suppressions.ts\<close>), the record of consent (\<open>packages/core/consent/record.ts\<close>), what a text
  message from a tenant does to both (\<open>apps/web/lib/comms/sms-consent.ts\<close>, \<open>sms-inbound.ts\<close> and the webhook
  \<open>apps/web/app/api/comms/sms-webhook/route.ts\<close>), and the switches of the portal (\<open>lib/portal/notifications.ts\<close>).

  The tables are lists in the order of insertion, read by the conditions of the queries. Ids are numbers
  that grow, which is what the code asks of them; audit entries and texts are left out, and a staff
  action starts after its permission check.
\<close>

section \<open>Tables\<close>

datatype consent_channel = C_marketing_email | C_marketing_sms | C_account_email | C_account_sms | C_notice_email
datatype consent_state = C_granted | C_revoked | C_pending
datatype message_class = Transactional | Operational | Marketing

text \<open>The owner of a consent: a tenant, a lead, both or neither.\<close>

record consent_row =
  co_id :: nat
  co_tenantId :: "string option"
  co_leadId :: "string option"
  co_channel :: consent_channel
  co_state :: consent_state
  co_source :: string
  co_capturedAt :: date

record suppression_row =
  su_id :: nat
  su_channel :: message_channel
  su_address :: string
  su_reason :: suppression_reason

record tenant_row =
  tr_id :: string
  tr_phone :: "string option"
  tr_email :: "string option"
  tr_emailUndeliverableAt :: "date option"

record lease_row =
  lr_tenantId :: string
  lr_ended :: bool
  lr_startDate :: date
  lr_facilityId :: string

text \<open>An inbound text: the event that keeps the words, and whether a task was raised for it.\<close>

record inbound_row =
  ib_phone :: string
  ib_body :: string
  ib_tenantId :: "string option"
  ib_taskFacility :: "string option"

record contact_db =
  cb_tenants :: "tenant_row list"
  cb_leases :: "lease_row list"
  cb_suppressions :: "suppression_row list"
  cb_consents :: "consent_row list"
  cb_inbound :: "inbound_row list"
  cb_preferences :: "((string \<times> notification_category \<times> message_channel) \<times> bool) list"
  cb_nextId :: nat

section \<open>The suppression list\<close>

definition address_key :: "message_channel \<Rightarrow> string \<Rightarrow> string" where
  "address_key channel address = (if channel = Email then toLowerCase address else address)"

definition find_suppression :: "message_channel \<Rightarrow> string \<Rightarrow> contact_db \<Rightarrow> suppression_row option" where
  "find_suppression channel address db =
    find (\<lambda>s. su_channel s = channel \<and> su_address s = address) (cb_suppressions db)"

text \<open>The upsert: an entry that is there stays as it is.\<close>

definition suppress :: "message_channel \<Rightarrow> string \<Rightarrow> suppression_reason \<Rightarrow> contact_db \<Rightarrow> contact_db" where
  "suppress channel address reason db = (case find_suppression channel (address_key channel address) db of
      Some _ \<Rightarrow> db
    | None \<Rightarrow> db\<lparr>cb_suppressions := cb_suppressions db @
          [\<lparr>su_id = cb_nextId db, su_channel = channel, su_address = address_key channel address, su_reason = reason\<rparr>],
        cb_nextId := cb_nextId db + 1\<rparr>)"

definition suppressionFor :: "string \<Rightarrow> message_class \<Rightarrow> message_channel \<Rightarrow> contact_db \<Rightarrow> suppression_reason option" where
  "suppressionFor address classification channel db = (case find_suppression channel (address_key channel address) db of
      None \<Rightarrow> None
    | Some entry \<Rightarrow> (case su_reason entry of
        R_hard_bounce \<Rightarrow> Some R_hard_bounce
      | R_complaint \<Rightarrow> Some R_complaint
      | R_unsubscribe \<Rightarrow> if classification = Marketing then Some R_unsubscribe else None
      | R_manual \<Rightarrow> if classification = Marketing then Some R_manual else None
      | R_stop \<Rightarrow> if channel = Sms then Some R_stop else None
      | R_kill_switch \<Rightarrow> None))"

datatype suppression_problem =
  Enter_address | Not_an_email | Say_why | Already_suppressed suppression_reason
| No_longer_exists | Reported_spam | Asked_to_stop

definition addSuppression :: "message_channel \<Rightarrow> string \<Rightarrow> string \<Rightarrow> contact_db \<Rightarrow> suppression_problem option \<times> contact_db" where
  "addSuppression channel typed note db = (
    let address = trim typed in
    if address = [] then (Some Enter_address, db)
    else if channel = Email \<and> CHR ''@'' \<notin> set address then (Some Not_an_email, db)
    else if trim note = [] then (Some Say_why, db)
    else case find_suppression channel (address_key channel address) db of
        Some existing \<Rightarrow> (Some (Already_suppressed (su_reason existing)), db)
      | None \<Rightarrow> (None, suppress channel address R_manual db))"

definition removeSuppression :: "nat \<Rightarrow> string \<Rightarrow> contact_db \<Rightarrow> suppression_problem option \<times> contact_db" where
  "removeSuppression rowId reason db = (
    if trim reason = [] then (Some Say_why, db)
    else case find (\<lambda>s. su_id s = rowId) (cb_suppressions db) of
        None \<Rightarrow> (Some No_longer_exists, db)
      | Some row \<Rightarrow>
          if \<not> suppressionIsRemovable (su_reason row)
          then (Some (if su_reason row = R_complaint then Reported_spam else Asked_to_stop), db)
          else (None, db\<lparr>cb_suppressions := filter (\<lambda>s. su_id s \<noteq> rowId) (cb_suppressions db),
            cb_tenants := map (\<lambda>t. if su_reason row = R_hard_bounce \<and> tr_email t = Some (su_address row)
              then t\<lparr>tr_emailUndeliverableAt := None\<rparr> else t) (cb_tenants db)\<rparr>))"

section \<open>Consent\<close>

text \<open>None is the error thrown for a consent without an owner.\<close>

definition recordConsent :: "string option \<Rightarrow> string option \<Rightarrow> consent_channel \<Rightarrow> consent_state \<Rightarrow> string \<Rightarrow> date \<Rightarrow>
    contact_db \<Rightarrow> contact_db option" where
  "recordConsent tenantId leadId channel state source now db = (
    if \<not> truthy tenantId \<and> \<not> truthy leadId then None
    else Some (db\<lparr>cb_consents := cb_consents db @
        [\<lparr>co_id = cb_nextId db, co_tenantId = tenantId, co_leadId = leadId, co_channel = channel, co_state = state,
          co_source = source, co_capturedAt = now\<rparr>],
      cb_nextId := cb_nextId db + 1\<rparr>))"

text \<open>Newest first: by \<open>capturedAt\<close>, then by id. \<open>createdAt\<close> has the same default, so it never decides.\<close>

definition newest_first :: "consent_row list \<Rightarrow> consent_row list" where
  "newest_first rows = sort_by (then_by (by_key (\<lambda>r. - co_capturedAt r)) (by_key (\<lambda>r. - int (co_id r)))) rows"

definition currentConsent :: "string \<Rightarrow> consent_channel \<Rightarrow> contact_db \<Rightarrow> consent_state option" where
  "currentConsent tenantId channel db =
    (case newest_first (filter (\<lambda>r. co_tenantId r = Some tenantId \<and> co_channel r = channel) (cb_consents db)) of
      [] \<Rightarrow> None | latest # _ \<Rightarrow> Some (co_state latest))"

definition smsConsentGranted :: "string option \<Rightarrow> message_class \<Rightarrow> contact_db \<Rightarrow> bool" where
  "smsConsentGranted tenantId classification db = (case tenantId of
      None \<Rightarrow> False
    | Some t \<Rightarrow> currentConsent t (if classification = Marketing then C_marketing_sms else C_account_sms) db = Some C_granted)"

section \<open>Texts from a tenant\<close>

definition last10 :: "string \<Rightarrow> string" where
  "last10 s = drop (length s - 10) s"

definition ends_with :: "string \<Rightarrow> string \<Rightarrow> bool" where
  "ends_with suffix s \<longleftrightarrow> drop (length s - length suffix) s = suffix"

definition findTenantByPhone :: "string \<Rightarrow> contact_db \<Rightarrow> tenant_row option" where
  "findTenantByPhone phone db =
    find (\<lambda>t. case tr_phone t of Some p \<Rightarrow> ends_with (last10 phone) p | None \<Rightarrow> False) (cb_tenants db)"

definition latest_lease :: "string \<Rightarrow> contact_db \<Rightarrow> lease_row option" where
  "latest_lease tenantId db =
    (case sort_by (by_key (\<lambda>l. - lr_startDate l)) (filter (\<lambda>l. lr_tenantId l = tenantId \<and> \<not> lr_ended l) (cb_leases db)) of
      [] \<Rightarrow> None | l # _ \<Rightarrow> Some l)"

text \<open>\<open>recordConsent\<close> with a tenant that has an id cannot throw; \<open>record_for\<close> is its result there.\<close>

definition record_for :: "string \<Rightarrow> consent_state \<Rightarrow> string \<Rightarrow> date \<Rightarrow> contact_db \<Rightarrow> contact_db" where
  "record_for tenantId state source now db =
    (case recordConsent (Some tenantId) None C_account_sms state source now db of Some db' \<Rightarrow> db' | None \<Rightarrow> db)"

definition applySmsStop :: "string option \<Rightarrow> string \<Rightarrow> string option \<Rightarrow> date \<Rightarrow> contact_db \<Rightarrow> (bool \<times> bool) \<times> contact_db" where
  "applySmsStop rawPhone source tenantId now db = (case normalizePhoneE164 rawPhone of
      None \<Rightarrow> ((False, False), db)
    | Some phone \<Rightarrow>
        let tenant = (if truthy tenantId then tenantId else map_option tr_id (findTenantByPhone phone db));
            stopped = suppress Sms phone R_stop db
        in ((True, tenant \<noteq> None),
            (case tenant of Some t \<Rightarrow> record_for t C_revoked source now stopped | None \<Rightarrow> stopped)))"

text \<open>\<open>lifted\<close>, \<open>tenantMatched\<close>, \<open>optedIn\<close>.\<close>

definition applySmsStart :: "string option \<Rightarrow> date \<Rightarrow> contact_db \<Rightarrow> (bool \<times> bool \<times> bool) \<times> contact_db" where
  "applySmsStart rawPhone now db = (case normalizePhoneE164 rawPhone of
      None \<Rightarrow> ((False, False, False), db)
    | Some phone \<Rightarrow>
        let liftable = (case find_suppression Sms phone db of
              Some s \<Rightarrow> if su_reason s = R_stop then Some s else None | None \<Rightarrow> None);
            tenant = findTenantByPhone phone db
        in if liftable = None \<and> tenant = None then ((False, False, False), db)
           else let lifted = (case liftable of
                  Some s \<Rightarrow> db\<lparr>cb_suppressions := filter (\<lambda>r. su_id r \<noteq> su_id s) (cb_suppressions db)\<rparr> | None \<Rightarrow> db)
             in ((liftable \<noteq> None, tenant \<noteq> None, tenant \<noteq> None),
                 (case tenant of Some t \<Rightarrow> record_for (tr_id t) C_granted ''sms_start_keyword'' now lifted | None \<Rightarrow> lifted)))"

datatype opt_in_result = Awaiting_confirmation | Opt_in_confirmed | Unknown_number | Nothing_pending

definition beginSmsOptIn :: "string option \<Rightarrow> date \<Rightarrow> contact_db \<Rightarrow> opt_in_result \<times> contact_db" where
  "beginSmsOptIn rawPhone now db = (case normalizePhoneE164 rawPhone of
      None \<Rightarrow> (Unknown_number, db)
    | Some phone \<Rightarrow> (case findTenantByPhone phone db of
        None \<Rightarrow> (Unknown_number, db)
      | Some t \<Rightarrow> (Awaiting_confirmation, record_for (tr_id t) C_pending ''sms_opt_in_keyword'' now db)))"

definition confirmSmsOptIn :: "string option \<Rightarrow> date \<Rightarrow> contact_db \<Rightarrow> opt_in_result \<times> contact_db" where
  "confirmSmsOptIn rawPhone now db = (case normalizePhoneE164 rawPhone of
      None \<Rightarrow> (Unknown_number, db)
    | Some phone \<Rightarrow> (case findTenantByPhone phone db of
        None \<Rightarrow> (Unknown_number, db)
      | Some t \<Rightarrow>
          if currentConsent (tr_id t) C_account_sms db \<noteq> Some C_pending then (Nothing_pending, db)
          else (Opt_in_confirmed, record_for (tr_id t) C_granted ''sms_double_opt_in'' now db)))"

datatype inbound_result = Routed string | Unmatched | Empty_text

definition routeInboundSms :: "string \<Rightarrow> string \<Rightarrow> contact_db \<Rightarrow> inbound_result \<times> contact_db" where
  "routeInboundSms rawPhone text db = (
    let words = trim text in
    if words = [] then (Empty_text, db)
    else
      let phone = or_else (normalizePhoneE164 (Some rawPhone)) rawPhone;
          tenant = findTenantByPhone phone db;
          sender = (case tenant of None \<Rightarrow> None
            | Some t \<Rightarrow> map_option (\<lambda>l. (tr_id t, lr_facilityId l)) (latest_lease (tr_id t) db));
          kept = db\<lparr>cb_inbound := cb_inbound db @ [\<lparr>ib_phone = phone, ib_body = words,
            ib_tenantId = map_option fst sender, ib_taskFacility = map_option snd sender\<rparr>]\<rparr>
      in (case sender of None \<Rightarrow> (Unmatched, kept) | Some (_, facility) \<Rightarrow> (Routed facility, kept)))"

text \<open>The answer to a text, by what it says.\<close>

datatype sms_reply = No_reply | Unsubscribed | Not_recognised | Reply_to_confirm | Nothing_to_confirm | Subscribed
| Help "string option" | Passed_on string | Cannot_match

definition sms_webhook :: "string option \<Rightarrow> string \<Rightarrow> date \<Rightarrow> contact_db \<Rightarrow> sms_reply \<times> contact_db" where
  "sms_webhook sender text now db = (
    if \<not> truthy sender then (No_reply, db)
    else case classifySmsKeyword text of
        Some Kw_stop \<Rightarrow> (Unsubscribed, snd (applySmsStop sender ''sms_stop_keyword'' None now db))
      | Some Kw_opt_in \<Rightarrow> (case beginSmsOptIn sender now db of
          (Unknown_number, db') \<Rightarrow> (Not_recognised, db') | (_, db') \<Rightarrow> (Reply_to_confirm, db'))
      | Some Kw_confirm \<Rightarrow> (case confirmSmsOptIn sender now db of
          (Opt_in_confirmed, db') \<Rightarrow> (Subscribed, db') | (_, db') \<Rightarrow> (Nothing_to_confirm, db'))
      | Some Kw_start \<Rightarrow> (case applySmsStart sender now db of
          ((_, _, optedIn), db') \<Rightarrow> (if optedIn then Subscribed else Not_recognised, db'))
      | Some Kw_help \<Rightarrow> (Help (case normalizePhoneE164 sender of None \<Rightarrow> None
          | Some phone \<Rightarrow> (case findTenantByPhone phone db of None \<Rightarrow> None
            | Some t \<Rightarrow> map_option lr_facilityId (latest_lease (tr_id t) db))), db)
      | None \<Rightarrow> (case routeInboundSms (the sender) text db of
          (Routed facility, db') \<Rightarrow> (Passed_on facility, db')
        | (Empty_text, db') \<Rightarrow> (No_reply, db')
        | (Unmatched, db') \<Rightarrow> (Cannot_match, db')))"

section \<open>The portal\<close>

definition notificationAllowed :: "string option \<Rightarrow> notification_category option \<Rightarrow> message_channel \<Rightarrow> contact_db \<Rightarrow> bool" where
  "notificationAllowed tenantId category channel db = (case (category, tenantId) of
      (Some c, Some t) \<Rightarrow> or_else (map_of (cb_preferences db) (t, c, channel)) (defaultNotificationPreference c channel)
    | _ \<Rightarrow> True)"

definition setPreference :: "string \<Rightarrow> notification_category \<Rightarrow> message_channel \<Rightarrow> bool \<Rightarrow> contact_db \<Rightarrow> contact_db" where
  "setPreference tenantId category channel enabled db =
    db\<lparr>cb_preferences := AList.update (tenantId, category, channel) enabled (cb_preferences db)\<rparr>"

definition currentPreferences :: "string \<Rightarrow> contact_db \<Rightarrow> notification_category \<Rightarrow> message_channel \<Rightarrow> bool" where
  "currentPreferences tenantId db = (\<lambda>category channel.
    or_else (map_of (cb_preferences db) (tenantId, category, channel)) (defaultNotificationPreference category channel))"

definition setMarketingSmsConsent :: "string \<Rightarrow> bool \<Rightarrow> date \<Rightarrow> contact_db \<Rightarrow> contact_db option" where
  "setMarketingSmsConsent tenantId granted now db =
    recordConsent (Some tenantId) None C_marketing_sms (if granted then C_granted else C_revoked) ''portal_preferences'' now db"

definition revokeSmsFromPortal :: "string \<Rightarrow> date \<Rightarrow> contact_db \<Rightarrow> bool \<times> contact_db" where
  "revokeSmsFromPortal tenantId now db = (case find (\<lambda>t. tr_id t = tenantId) (cb_tenants db) of
      None \<Rightarrow> (False, db)
    | Some t \<Rightarrow>
        if \<not> truthy (tr_phone t) then (False, db)
        else let ((suppressed, _), db') = applySmsStop (tr_phone t) ''portal_revoke'' (Some tenantId) now db
          in (suppressed, db'))"

section \<open>Consent as an automaton\<close>

text \<open>What a text does to the consent of the tenant it comes from.\<close>

fun opt_step :: "consent_state option \<Rightarrow> sms_keyword option \<Rightarrow> consent_state option" where
  "opt_step s (Some Kw_stop) = Some C_revoked"
| "opt_step s (Some Kw_start) = Some C_granted"
| "opt_step s (Some Kw_opt_in) = Some C_pending"
| "opt_step s (Some Kw_confirm) = (if s = Some C_pending then Some C_granted else s)"
| "opt_step s (Some Kw_help) = s"
| "opt_step s None = s"

text \<open>The clock has not gone back, and ids are handed out in order.\<close>

definition clocked :: "date \<Rightarrow> contact_db \<Rightarrow> bool" where
  "clocked now db \<longleftrightarrow> (\<forall>r \<in> set (cb_consents db). co_capturedAt r \<le> now \<and> co_id r < cb_nextId db)"

lemma newest_first_latest:
  "(\<And>x. x \<in> set xs \<Longrightarrow> co_capturedAt x \<le> co_capturedAt r \<and> co_id x < co_id r) \<Longrightarrow>
    newest_first (xs @ [r]) = r # newest_first xs"
  unfolding newest_first_def
proof (induction xs)
  case (Cons x xs)
  moreover have "0 < then_by (by_key (\<lambda>r. - co_capturedAt r)) (by_key (\<lambda>r. - int (co_id r))) x r"
    using Cons.prems [of x] by (auto simp: then_by_def by_key_def)
  ultimately show ?case by simp
qed simp

lemma currentConsent_record:
  assumes "clocked now db" "recordConsent (Some t) lead channel state source now db = Some db'"
  shows "currentConsent u ch db' = (if u = t \<and> ch = channel then Some state else currentConsent u ch db)"
proof -
  let ?P = "\<lambda>r. co_tenantId r = Some u \<and> co_channel r = ch"
  let ?r = "\<lparr>co_id = cb_nextId db, co_tenantId = Some t, co_leadId = lead, co_channel = channel, co_state = state,
    co_source = source, co_capturedAt = now\<rparr>"
  have "newest_first (filter ?P (cb_consents db) @ [?r]) = ?r # newest_first (filter ?P (cb_consents db))"
    using assms(1) by (intro newest_first_latest) (auto simp: clocked_def)
  then show ?thesis using assms(2) by (auto simp: recordConsent_def currentConsent_def split: if_splits)
qed

lemma currentConsent_record_for:
  "clocked now db \<Longrightarrow> t \<noteq> [] \<Longrightarrow> currentConsent u ch (record_for t state source now db) =
    (if u = t \<and> ch = C_account_sms then Some state else currentConsent u ch db)"
  using currentConsent_record [of now db t None C_account_sms state source]
  by (auto simp: record_for_def recordConsent_def truthy_def split: option.split)

lemma clocked_suppress: "clocked now db \<Longrightarrow> clocked now (suppress channel address reason db)"
  by (force simp: clocked_def suppress_def split: option.split)

lemma suppress_kept [simp]:
  "cb_consents (suppress channel address reason db) = cb_consents db"
  "cb_tenants (suppress channel address reason db) = cb_tenants db"
  by (simp_all add: suppress_def split: option.split)

lemma currentConsent_cong: "cb_consents db = cb_consents db' \<Longrightarrow> currentConsent t ch db = currentConsent t ch db'"
  by (simp add: currentConsent_def)

lemma currentConsent_kept [simp]:
  "currentConsent t ch (suppress channel address reason db) = currentConsent t ch db"
  "currentConsent t ch (db\<lparr>cb_suppressions := ss\<rparr>) = currentConsent t ch db"
  "currentConsent t ch (db\<lparr>cb_inbound := ii\<rparr>) = currentConsent t ch db"
  by (simp_all add: currentConsent_def)

lemma record_for_kept [simp]:
  "cb_tenants (record_for t state source now db) = cb_tenants db"
  "cb_suppressions (record_for t state source now db) = cb_suppressions db"
  by (simp_all add: record_for_def recordConsent_def)

lemma clocked_record_for: "clocked now db \<Longrightarrow> now \<le> later \<Longrightarrow> clocked later (record_for t state source now db)"
  by (force simp: clocked_def record_for_def recordConsent_def)

lemma findTenant_cong: "cb_tenants db = cb_tenants db' \<Longrightarrow> findTenantByPhone phone db = findTenantByPhone phone db'"
  by (simp add: findTenantByPhone_def)

lemma webhook_step:
  assumes "normalizePhoneE164 (Some raw) = Some phone" "findTenantByPhone phone db = Some t" "tr_id t \<noteq> []" "clocked now db"
  shows "currentConsent u ch (snd (sms_webhook (Some raw) text now db)) =
    (if u = tr_id t \<and> ch = C_account_sms then opt_step (currentConsent (tr_id t) C_account_sms db) (classifySmsKeyword text)
     else currentConsent u ch db)"
proof -
  have raw: "truthy (Some raw)" using assms(1) by (metis normalizePhoneE164_def option.distinct(1))
  note rec = currentConsent_record_for [OF _ assms(3)]
  have lifted: "clocked now (db\<lparr>cb_suppressions := ss\<rparr>)" for ss using assms(4) by (simp add: clocked_def)
  show ?thesis
    using assms raw rec [OF assms(4)] rec [OF lifted] rec [OF clocked_suppress [OF assms(4)]]
    by (auto simp: sms_webhook_def applySmsStop_def applySmsStart_def beginSmsOptIn_def confirmSmsOptIn_def
        routeInboundSms_def Let_def truthy_def split: option.split sms_keyword.split)
qed

lemma webhook_keeps:
  "cb_tenants (snd (sms_webhook sender text now db)) = cb_tenants db"
  "clocked now db \<Longrightarrow> now \<le> later \<Longrightarrow> clocked later (snd (sms_webhook sender text now db))"
proof -
  show "cb_tenants (snd (sms_webhook sender text now db)) = cb_tenants db"
    by (auto simp: sms_webhook_def applySmsStop_def applySmsStart_def beginSmsOptIn_def confirmSmsOptIn_def
        routeInboundSms_def Let_def split: option.split sms_keyword.split)
  assume c: "clocked now db" "now \<le> later"
  have lifted: "clocked now (db\<lparr>cb_suppressions := ss\<rparr>)" "clocked now (db\<lparr>cb_inbound := ii\<rparr>)" for ss ii
    using c(1) by (simp_all add: clocked_def)
  have later: "clocked later db'" if "clocked now db'" for db' using that c(2) by (force simp: clocked_def)
  note rec = clocked_record_for [OF _ c(2)]
  show "clocked later (snd (sms_webhook sender text now db))"
    using c lifted later rec [OF c(1)] rec [OF lifted(1)] rec [OF clocked_suppress [OF c(1)]] clocked_suppress [OF c(1)]
    by (auto simp: sms_webhook_def applySmsStop_def applySmsStart_def beginSmsOptIn_def confirmSmsOptIn_def
        routeInboundSms_def Let_def split: option.split sms_keyword.split)
qed

text \<open>A conversation: texts from one number, each with the time it arrives.\<close>

definition conversation :: "string \<Rightarrow> (string \<times> date) list \<Rightarrow> contact_db \<Rightarrow> contact_db" where
  "conversation raw texts db = foldl (\<lambda>db (text, now). snd (sms_webhook (Some raw) text now db)) db texts"

lemma conversation_automaton:
  assumes "normalizePhoneE164 (Some raw) = Some phone" "findTenantByPhone phone db = Some t" "tr_id t \<noteq> []"
    "clocked start db" "sorted_wrt (\<le>) (start # map snd texts)"
  shows "currentConsent u ch (conversation raw texts db) =
    (if u = tr_id t \<and> ch = C_account_sms
     then foldl opt_step (currentConsent (tr_id t) C_account_sms db) (map (classifySmsKeyword \<circ> fst) texts)
     else currentConsent u ch db)"
  using assms(2,4,5)
proof (induction texts arbitrary: db start)
  case (Cons x texts)
  obtain words now where x: "x = (words, now)" by fastforce
  let ?db = "snd (sms_webhook (Some raw) words now db)"
  have now: "clocked now db" using Cons.prems(2,3) x by (force simp: clocked_def)
  have found: "findTenantByPhone phone ?db = Some t"
    using Cons.prems(1) findTenant_cong [OF webhook_keeps(1)] by metis
  have "currentConsent u ch (conversation raw texts ?db) =
    (if u = tr_id t \<and> ch = C_account_sms
     then foldl opt_step (currentConsent (tr_id t) C_account_sms ?db) (map (classifySmsKeyword \<circ> fst) texts)
     else currentConsent u ch ?db)"
    using Cons.prems(3) x by (intro Cons.IH [OF found webhook_keeps(2) [OF now order_refl]]) auto
  then show ?case
    using webhook_step [OF assms(1) Cons.prems(1) assms(3) now] x
    by (cases "u = tr_id t \<and> ch = C_account_sms") (auto simp: conversation_def)
qed (simp add: conversation_def)

text \<open>What the automaton grants.\<close>

lemma opt_pending:
  "foldl opt_step s ks = Some C_pending \<Longrightarrow> s \<noteq> Some C_pending \<Longrightarrow>
    \<exists>before between. ks = before @ [Some Kw_opt_in] @ between \<and> Some Kw_stop \<notin> set between"
proof (induction ks rule: rev_induct)
  case (snoc k ks)
  consider "k = Some Kw_opt_in" | "k \<noteq> Some Kw_stop" "foldl opt_step s ks = Some C_pending"
    using snoc.prems(1) by (cases "(foldl opt_step s ks, k)" rule: opt_step.cases) (auto split: if_splits)
  then show ?case
  proof cases
    case 1
    then show ?thesis by (intro exI [of _ ks] exI [of _ "[]"]) simp
  next
    case 2
    then obtain before between where "ks = before @ [Some Kw_opt_in] @ between" "Some Kw_stop \<notin> set between"
      using snoc by blast
    then show ?thesis using 2 by (intro exI [of _ before] exI [of _ "between @ [k]"]) simp
  qed
qed simp

lemma opt_granted:
  "foldl opt_step s ks = Some C_granted \<Longrightarrow> s \<noteq> Some C_granted \<Longrightarrow> s \<noteq> Some C_pending \<Longrightarrow> Some Kw_start \<notin> set ks \<Longrightarrow>
    \<exists>before between after. ks = before @ [Some Kw_opt_in] @ between @ [Some Kw_confirm] @ after \<and>
      Some Kw_stop \<notin> set between \<and> Some Kw_stop \<notin> set after"
proof (induction ks rule: rev_induct)
  case (snoc k ks)
  consider "k = Some Kw_confirm" "foldl opt_step s ks = Some C_pending" | "k \<noteq> Some Kw_stop" "foldl opt_step s ks = Some C_granted"
    using snoc.prems(1,4) by (cases "(foldl opt_step s ks, k)" rule: opt_step.cases) (auto split: if_splits)
  then show ?case
  proof cases
    case 1
    then obtain before between where "ks = before @ [Some Kw_opt_in] @ between" "Some Kw_stop \<notin> set between"
      using opt_pending snoc.prems(3) by blast
    then show ?thesis using 1 by (intro exI [of _ before] exI [of _ between] exI [of _ "[]"]) simp
  next
    case 2
    then obtain before between after where "ks = before @ [Some Kw_opt_in] @ between @ [Some Kw_confirm] @ after"
      "Some Kw_stop \<notin> set between" "Some Kw_stop \<notin> set after"
      using snoc by auto
    then show ?thesis using 2 by (intro exI [of _ before] exI [of _ between] exI [of _ "after @ [k]"]) simp
  qed
qed simp

text \<open>C36. Consent by text is a double opt-in. Over any conversation, the consent of the tenant whose number it is
  is the one the automaton reaches on the keywords: STOP revokes, START grants, JOIN only asks, and YES
  grants exactly when a JOIN is waiting for it; every other text leaves it. So a tenant who ends
  granted without texting START, and was not granted before, has texted JOIN and then YES with no STOP between them, and the
  consents of other tenants and of other kinds stay as they were.\<close>

theorem consent_automaton:
  assumes "normalizePhoneE164 (Some raw) = Some phone" "findTenantByPhone phone db = Some t" "tr_id t \<noteq> []"
    "clocked start db" "sorted_wrt (\<le>) (start # map snd texts)"
  shows "currentConsent u ch (conversation raw texts db) =
      (if u = tr_id t \<and> ch = C_account_sms
       then foldl opt_step (currentConsent (tr_id t) C_account_sms db) (map (classifySmsKeyword \<circ> fst) texts)
       else currentConsent u ch db) \<and>
    (currentConsent (tr_id t) C_account_sms (conversation raw texts db) = Some C_granted \<and>
      currentConsent (tr_id t) C_account_sms db \<notin> {Some C_granted, Some C_pending} \<and>
      Some Kw_start \<notin> set (map (classifySmsKeyword \<circ> fst) texts) \<longrightarrow>
      (\<exists>before between after. map (classifySmsKeyword \<circ> fst) texts =
          before @ [Some Kw_opt_in] @ between @ [Some Kw_confirm] @ after \<and>
        Some Kw_stop \<notin> set between \<and> Some Kw_stop \<notin> set after))"
  using conversation_automaton [OF assms] conversation_automaton [OF assms, of "tr_id t" C_account_sms] opt_granted by auto

definition sms_example :: contact_db where
  "sms_example = \<lparr>cb_tenants = [\<lparr>tr_id = ''t1'', tr_phone = Some ''5125550100'', tr_email = None, tr_emailUndeliverableAt = None\<rparr>],
    cb_leases = [], cb_suppressions = [], cb_consents = [], cb_inbound = [], cb_preferences = [], cb_nextId = 0\<rparr>"

theorem consent_automaton_witness:
  "currentConsent ''t1'' C_account_sms (conversation ''+15125550100'' [(''join'', 1), ('' Yes '', 2)] sms_example) = Some C_granted"
proof -
  have found: "findTenantByPhone ''+15125550100'' sms_example = Some (hd (cb_tenants sms_example))" by code_simp
  have p: "normalizePhoneE164 (Some ''+15125550100'') = Some ''+15125550100''" by code_simp
  have c: "clocked 0 sms_example" "tr_id (hd (cb_tenants sms_example)) = ''t1''" by (simp_all add: clocked_def sms_example_def)
  have k: "map (classifySmsKeyword \<circ> fst) [(''join'', 1 :: int), ('' Yes '', 2)] = [Some Kw_opt_in, Some Kw_confirm]" by code_simp
  show ?thesis
    using consent_automaton [OF p found _ c(1), of "[(''join'', 1), ('' Yes '', 2)]" "''t1''" C_account_sms, THEN conjunct1]
    unfolding k c(2) by simp
qed

section \<open>STOP lasts\<close>

text \<open>Everything that writes to the list, or to what it is read with.\<close>

datatype contact_op =
  Op_text string string date
| Op_add message_channel string string
| Op_remove nat string
| Op_suppress message_channel string suppression_reason
| Op_portal_revoke string date
| Op_preference string notification_category message_channel bool

fun contact_step :: "contact_op \<Rightarrow> contact_db \<Rightarrow> contact_db" where
  "contact_step (Op_text raw words now) db = snd (sms_webhook (Some raw) words now db)"
| "contact_step (Op_add channel address note) db = snd (addSuppression channel address note db)"
| "contact_step (Op_remove rowId reason) db = snd (removeSuppression rowId reason db)"
| "contact_step (Op_suppress channel address reason) db = suppress channel address reason db"
| "contact_step (Op_portal_revoke tenantId now) db = snd (revokeSmsFromPortal tenantId now db)"
| "contact_step (Op_preference tenantId category channel enabled) db = setPreference tenantId category channel enabled db"

text \<open>The keys of the table: ids, and the pair of channel and address.\<close>

definition list_keys :: "contact_db \<Rightarrow> bool" where
  "list_keys db \<longleftrightarrow> distinct (map su_id (cb_suppressions db)) \<and>
    distinct (map (\<lambda>s. (su_channel s, su_address s)) (cb_suppressions db)) \<and>
    (\<forall>s \<in> set (cb_suppressions db). su_id s < cb_nextId db)"

lemma list_keys_suppress: "list_keys db \<Longrightarrow> list_keys (suppress channel address reason db)"
  by (force simp: list_keys_def suppress_def find_suppression_def find_None_iff split: option.split)

lemma list_keys_filter: "list_keys db \<Longrightarrow> list_keys (db\<lparr>cb_suppressions := filter P (cb_suppressions db)\<rparr>)"
  by (auto simp: list_keys_def distinct_map_filter)

lemma list_keys_record: "list_keys db \<Longrightarrow> list_keys (record_for t state source now db)"
  by (force simp: list_keys_def record_for_def recordConsent_def)

lemma list_keys_other:
  "list_keys (db\<lparr>cb_inbound := ii\<rparr>) = list_keys db" "list_keys (db\<lparr>cb_preferences := pp\<rparr>) = list_keys db"
  "list_keys (db\<lparr>cb_tenants := tt\<rparr>) = list_keys db"
  by (simp_all add: list_keys_def)

lemma find_suppression_iff:
  "list_keys db \<Longrightarrow> find_suppression channel address db = Some s \<longleftrightarrow>
    s \<in> set (cb_suppressions db) \<and> su_channel s = channel \<and> su_address s = address"
proof -
  assume k: "list_keys db"
  let ?P = "\<lambda>s. su_channel s = channel \<and> su_address s = address"
  have one: "s = s'" if "s \<in> set (cb_suppressions db)" "s' \<in> set (cb_suppressions db)" "?P s" "?P s'" for s s'
  proof -
    have "inj_on (\<lambda>s. (su_channel s, su_address s)) (set (cb_suppressions db))" using k by (simp add: list_keys_def distinct_map)
    then show ?thesis using that by (auto dest: inj_onD)
  qed
  show ?thesis
  proof
    assume "find_suppression channel address db = Some s"
    then show "s \<in> set (cb_suppressions db) \<and> ?P s" unfolding find_suppression_def by (auto simp: find_Some_iff)
  next
    assume s: "s \<in> set (cb_suppressions db) \<and> ?P s"
    then obtain s' where "find ?P (cb_suppressions db) = Some s'" by (cases "find ?P (cb_suppressions db)") (auto simp: find_None_iff)
    then show "find_suppression channel address db = Some s"
      using s one unfolding find_suppression_def by (auto simp: find_Some_iff)
  qed
qed

lemma suppress_mem: "s \<in> set (cb_suppressions db) \<Longrightarrow> s \<in> set (cb_suppressions (suppress channel address reason db))"
  by (simp add: suppress_def split: option.split)

text \<open>The texts that lift a STOP.\<close>

definition lifts :: "string \<Rightarrow> contact_op \<Rightarrow> bool" where
  "lifts phone op \<longleftrightarrow> (case op of
      Op_text raw words now \<Rightarrow> normalizePhoneE164 (Some raw) = Some phone \<and> classifySmsKeyword words = Some Kw_start
    | _ \<Rightarrow> False)"

lemma list_keys_step: "list_keys db \<Longrightarrow> list_keys (contact_step op db)"
proof (cases op)
  case (Op_remove rowId reason)
  assume k: "list_keys db"
  show ?thesis using list_keys_filter [OF k] k
    by (auto simp: Op_remove removeSuppression_def list_keys_other split: option.split)
next
  case (Op_text raw words now)
  assume k: "list_keys db"
  note lifted = list_keys_filter [OF k] and stop = list_keys_suppress [OF k]
  show ?thesis using k lifted stop list_keys_record [OF k] list_keys_record [OF lifted] list_keys_record [OF stop]
    by (auto simp: Op_text sms_webhook_def applySmsStop_def applySmsStart_def beginSmsOptIn_def confirmSmsOptIn_def
        routeInboundSms_def Let_def list_keys_other split: option.split sms_keyword.split)
next
  case (Op_portal_revoke t now)
  assume k: "list_keys db"
  show ?thesis using k list_keys_suppress [OF k] list_keys_record [OF list_keys_suppress [OF k]]
    by (auto simp: Op_portal_revoke revokeSmsFromPortal_def applySmsStop_def Let_def split: option.split prod.split)
qed (auto simp: addSuppression_def Let_def setPreference_def list_keys_other list_keys_suppress split: option.split)

lemma stop_step:
  assumes "list_keys db" "s \<in> set (cb_suppressions db)" "su_reason s = R_stop" "su_channel s = Sms"
    "\<not> lifts (su_address s) op"
  shows "s \<in> set (cb_suppressions (contact_step op db))"
proof (cases op)
  case (Op_text raw words now)
  have other: "su_id s \<noteq> su_id l"
    if "find_suppression Sms phone db = Some l" "phone \<noteq> su_address s" for l phone
  proof -
    have l: "l \<in> set (cb_suppressions db)" "su_address l = phone" using that(1) find_suppression_iff [OF assms(1)] by auto
    have "inj_on su_id (set (cb_suppressions db))" using assms(1) by (simp add: list_keys_def distinct_map)
    then show ?thesis using l assms(2) that(2) by (metis inj_onD)
  qed
  show ?thesis
    using assms(2,5) suppress_mem [OF assms(2)]
    by (auto simp: other Op_text lifts_def sms_webhook_def applySmsStop_def applySmsStart_def beginSmsOptIn_def confirmSmsOptIn_def
        routeInboundSms_def Let_def split: option.split sms_keyword.split)
next
  case (Op_remove rowId reason)
  have "s \<in> set (filter (\<lambda>r. su_id r \<noteq> rowId) (cb_suppressions db))"
    if "find (\<lambda>r. su_id r = rowId) (cb_suppressions db) = Some l" "suppressionIsRemovable (su_reason l)" for l
  proof -
    have l: "l \<in> set (cb_suppressions db)" "su_id l = rowId" using that(1) by (auto simp: find_Some_iff)
    have "inj_on su_id (set (cb_suppressions db))" using assms(1) by (simp add: list_keys_def distinct_map)
    moreover have "s \<noteq> l" using that(2) assms(3) by (auto simp: suppressionIsRemovable_def)
    ultimately have "su_id s \<noteq> rowId" using l assms(2) by (metis inj_onD)
    then show ?thesis using assms(2) by simp
  qed
  then show ?thesis using assms(2) by (auto simp: Op_remove removeSuppression_def split: option.split)
next
  case (Op_portal_revoke t now)
  show ?thesis using assms(2) suppress_mem [OF assms(2)]
    by (auto simp: Op_portal_revoke revokeSmsFromPortal_def applySmsStop_def Let_def split: option.split prod.split)
qed (use assms(2) suppress_mem [OF assms(2)] in
  \<open>auto simp: addSuppression_def Let_def setPreference_def split: option.split\<close>)

lemma stop_run:
  "list_keys db \<Longrightarrow> s \<in> set (cb_suppressions db) \<Longrightarrow> su_reason s = R_stop \<Longrightarrow> su_channel s = Sms \<Longrightarrow>
    \<forall>op \<in> set ops. \<not> lifts (su_address s) op \<Longrightarrow>
    s \<in> set (cb_suppressions (fold contact_step ops db)) \<and> list_keys (fold contact_step ops db)"
proof (induction ops arbitrary: db)
  case (Cons op ops)
  then show ?case using Cons.IH [OF list_keys_step [OF Cons.prems(1)] stop_step [OF Cons.prems(1,2,3,4)]] by simp
qed simp

text \<open>C37. A STOP lasts. When a number that has no entry texts STOP, no message of any class may be
  texted to it from then on, whatever staff add or remove, whichever addresses bounce or complain and
  whoever texts in, until that number itself texts START; and a staff member who tries to lift the entry is
  refused.\<close>

theorem stop_lasts:
  assumes "list_keys db" "normalizePhoneE164 (Some raw) = Some phone" "classifySmsKeyword words = Some Kw_stop"
    "find_suppression Sms phone db = None" "\<forall>op \<in> set ops. \<not> lifts phone op"
  shows "suppressionFor phone classification Sms (fold contact_step (Op_text raw words now # ops) db) = Some R_stop \<and>
    (\<exists>s. find_suppression Sms phone (fold contact_step (Op_text raw words now # ops) db) = Some s \<and>
      (trim reason \<noteq> [] \<longrightarrow>
        fst (removeSuppression (su_id s) reason (fold contact_step (Op_text raw words now # ops) db)) = Some Asked_to_stop))"
proof -
  define db1 where "db1 = contact_step (Op_text raw words now) db"
  define s where "s = \<lparr>su_id = cb_nextId db, su_channel = Sms, su_address = phone, su_reason = R_stop\<rparr>"
  have k1: "list_keys db1" unfolding db1_def by (rule list_keys_step [OF assms(1)])
  have "truthy (Some raw)" using assms(2) by (metis normalizePhoneE164_def option.distinct(1))
  then have "s \<in> set (cb_suppressions db1)"
    using assms(2,3,4) by (auto simp: db1_def s_def sms_webhook_def applySmsStop_def suppress_def address_key_def Let_def
        split: option.split)
  then have run: "s \<in> set (cb_suppressions (fold contact_step ops db1))" "list_keys (fold contact_step ops db1)"
    using stop_run [of db1 s ops] k1 assms(5) by (simp_all add: s_def)
  have found: "find_suppression Sms phone (fold contact_step ops db1) = Some s"
    using run(1) by (simp add: find_suppression_iff [OF run(2)] s_def)
  have "find (\<lambda>r. su_id r = su_id s) (cb_suppressions (fold contact_step ops db1)) = Some s"
  proof -
    obtain r where r: "find (\<lambda>r. su_id r = su_id s) (cb_suppressions (fold contact_step ops db1)) = Some r"
      using run(1) by (cases "find (\<lambda>r. su_id r = su_id s) (cb_suppressions (fold contact_step ops db1))") (auto simp: find_None_iff)
    then have "r \<in> set (cb_suppressions (fold contact_step ops db1))" "su_id r = su_id s" by (auto simp: find_Some_iff)
    moreover have "inj_on su_id (set (cb_suppressions (fold contact_step ops db1)))"
      using run(2) by (simp add: list_keys_def distinct_map)
    ultimately have "r = s" using run(1) by (blast dest: inj_onD)
    then show ?thesis using r by simp
  qed
  moreover have "fold contact_step (Op_text raw words now # ops) db = fold contact_step ops db1"
    by (simp only: fold_simps db1_def)
  ultimately show ?thesis
    using found by (simp only:) (auto simp: suppressionFor_def address_key_def s_def removeSuppression_def suppressionIsRemovable_def)
qed

theorem stop_lasts_witness:
  "suppressionFor ''+15125550100'' Transactional Sms
    (fold contact_step [Op_text ''5125550100'' ''Stop'' 1, Op_add Sms ''+15125550100'' ''again'', Op_remove 0 ''asked''] sms_example) = Some R_stop"
proof -
  have f: "list_keys sms_example" "find_suppression Sms ''+15125550100'' sms_example = None"
    by (simp_all add: list_keys_def sms_example_def find_suppression_def)
  have n: "normalizePhoneE164 (Some ''5125550100'') = Some ''+15125550100''" "classifySmsKeyword ''Stop'' = Some Kw_stop" by code_simp+
  show ?thesis
    using stop_lasts [OF f(1) n f(2), of "[Op_add Sms ''+15125550100'' ''again'', Op_remove 0 ''asked'']"]
    by (simp add: lifts_def)
qed

text \<open>The first reason wins, also when the later one asks for more. A number that staff had suppressed
  by hand, and that then texts STOP, keeps the entry of the staff: it only stops marketing, staff may
  remove it, and when the tenant's number is stored with dashes the consent is not revoked
  either, so the next reminder is texted.\<close>

definition dashed_example :: contact_db where
  "dashed_example = \<lparr>cb_tenants = [\<lparr>tr_id = ''t1'', tr_phone = Some ''512-555-0100'', tr_email = None, tr_emailUndeliverableAt = None\<rparr>],
    cb_leases = [], cb_suppressions = [\<lparr>su_id = 0, su_channel = Sms, su_address = ''+15125550100'', su_reason = R_manual\<rparr>],
    cb_consents = [\<lparr>co_id = 1, co_tenantId = Some ''t1'', co_leadId = None, co_channel = C_account_sms, co_state = C_granted,
      co_source = ''checkout_step_1'', co_capturedAt = 0\<rparr>], cb_inbound = [], cb_preferences = [], cb_nextId = 2\<rparr>"

theorem stop_lost_after_manual:
  "let (reply, db) = sms_webhook (Some ''+15125550100'') ''STOP'' 1 dashed_example in
    reply = Unsubscribed \<and> suppressionFor ''+15125550100'' Transactional Sms db = None \<and>
    smsConsentGranted (Some ''t1'') Transactional db \<and>
    fst (removeSuppression 0 ''asked'' db) = None"
  by code_simp

text \<open>A number stored as it was typed, with dashes, is nobody's: the last ten characters are compared,
  not the last ten digits.\<close>

theorem dashed_number_unmatched:
  "findTenantByPhone ''+15125550100'' dashed_example = None \<and>
    normalizePhoneE164 (tr_phone (hd (cb_tenants dashed_example))) = Some ''+15125550100'' \<and>
    fst (sms_webhook (Some ''+15125550100'') ''JOIN'' 1 dashed_example) = Not_recognised"
  by code_simp

end
