(* ===== verification/Messaging.thy ===== *)
theory Messaging
  imports Consent
begin

text \<open>
  The sending of messages (\<open>apps/web/lib/comms/service.ts\<close>, with the choice of transport in
  \<open>provider.ts\<close> and the provider's events in \<open>delivery.ts\<close>): which rules apply to an event and to whom it
  goes, the email path, the SMS path with its fallback, what is deferred over the quiet hours and sent
  by the hourly sweep, direct sends, and the log of messages, one row per idempotency key.

  Parameters, in \<open>comms_env\<close>: the answers of the providers, the rows of rules and templates, the recipient
  of an event and the facts the skip predicates read, the rendering of a template (Inl is a
  \<open>RenderError\<close>). SHA-256 of the parts of a key is taken for the parts. A call of the clock
  is the time \<open>now\<close> of the operation. A text is the list of its parts.
\<close>

section \<open>Tables and environment\<close>

datatype message_key = Rule_key string string string string | Direct_key string

datatype text_part = T_body string | T_opt_out string | T_postal string | T_unsubscribe string string | T_payer string

record comms_event =
  ce_id :: string
  ce_name :: string
  ce_entityType :: string
  ce_entityId :: string
  ce_facilityId :: "string option"
  ce_occurredAt :: date
  ce_counter :: bool

record recipient_facility =
  rf_id :: string
  rf_timezone :: zone
  rf_smsSid :: "string option"
  rf_smsStart :: int
  rf_smsEnd :: int

record recipient =
  rc_key :: string
  rc_tenantId :: "string option"
  rc_email :: "string option"
  rc_phone :: "string option"
  rc_locale :: string
  rc_facility :: "recipient_facility option"
  rc_leaseId :: "string option"
  rc_payerAccount :: "string option"
  rc_nominated :: "string option"

datatype channel_policy = Email_only | Sms_only | Both_channels | Sms_preferred

record comms_rule =
  cr_id :: string
  cr_facilityId :: "string option"
  cr_templateKey :: string
  cr_class :: message_class
  cr_skipConditions :: "string list"
  cr_channel :: message_channel
  cr_policy :: channel_policy
  cr_category :: "notification_category option"

record message_template =
  mt_key :: string
  mt_channel :: message_channel
  mt_active :: bool
  mt_locale :: string
  mt_facilityId :: "string option"
  mt_version :: int

record message_row =
  mr_key :: message_key
  mr_eventId :: string
  mr_ruleId :: string
  mr_templateVersion :: int
  mr_class :: message_class
  mr_channel :: message_channel
  mr_tenantId :: "string option"
  mr_facilityId :: "string option"
  mr_toAddress :: string
  mr_body :: "text_part list"
  mr_status :: message_status
  mr_suppression :: "suppression_reason option"
  mr_providerId :: "string option"
  mr_error :: "string option"
  mr_sentAt :: "date option"
  mr_consentId :: "nat option"

text \<open>What was handed to a real provider.\<close>

record wire_message =
  wi_channel :: message_channel
  wi_key :: message_key
  wi_to :: string
  wi_text :: "text_part list"
  wi_class :: message_class
  wi_at :: date
  wi_accepted :: bool

record comms_state =
  cs_contact :: contact_db
  cs_messages :: "message_row list"
  cs_wire :: "wire_message list"
  cs_tasks :: "(string \<times> string \<times> date) list"

datatype send_result = Taken "string option" | Turned_away bool string

record payer_row =
  py_account :: string
  py_tenant :: recipient

record comms_env =
  en_enabled :: bool
  en_production :: bool
  en_sandboxInbox :: "string option"
  en_sandboxSms :: "string option"
  en_resendKey :: bool
  en_twilio :: bool
  en_answer :: "nat \<Rightarrow> send_result"
  en_rules :: "comms_event \<Rightarrow> comms_rule list"
  en_templates :: "message_template list"
  en_predicate :: "string \<Rightarrow> (recipient \<Rightarrow> comms_event \<Rightarrow> bool) option"
  en_accountBalance :: "string \<Rightarrow> cents"
  en_resolve :: "comms_event \<Rightarrow> recipient option"
  en_payer :: "string \<Rightarrow> payer_row option"
  en_nominated :: "string \<Rightarrow> (string \<times> string) option"
  en_renderEmail :: "message_template \<Rightarrow> recipient \<Rightarrow> comms_event \<Rightarrow> string + string"
  en_renderSms :: "message_template \<Rightarrow> recipient \<Rightarrow> comms_event \<Rightarrow> string + string"
  en_receiptNumber :: "string \<Rightarrow> bool"
  en_facility :: "string \<Rightarrow> recipient_facility option"
  en_event :: "string \<Rightarrow> comms_event option"
  en_rule :: "string \<Rightarrow> comms_rule option"
  en_chicago :: zone

section \<open>provider.ts\<close>

definition effectiveRecipient :: "comms_env \<Rightarrow> string \<Rightarrow> string" where
  "effectiveRecipient env realAddress = (if en_production env then realAddress else or_else (en_sandboxInbox env) realAddress)"

definition effectiveSmsRecipient :: "comms_env \<Rightarrow> string \<Rightarrow> string" where
  "effectiveSmsRecipient env realPhone = (if en_production env then realPhone else or_else (en_sandboxSms env) realPhone)"

text \<open>A real provider, or the one that only logs and accepts everything.\<close>

definition real_provider :: "comms_env \<Rightarrow> message_channel \<Rightarrow> bool" where
  "real_provider env channel \<longleftrightarrow> (case channel of
      Email \<Rightarrow> en_resendKey env \<and> (en_production env \<or> truthy (en_sandboxInbox env))
    | Sms \<Rightarrow> en_twilio env \<and> (en_production env \<or> truthy (en_sandboxSms env)))"

definition provider_send :: "comms_env \<Rightarrow> message_channel \<Rightarrow> message_key \<Rightarrow> string \<Rightarrow> text_part list \<Rightarrow> message_class \<Rightarrow> date \<Rightarrow>
    comms_state \<Rightarrow> send_result \<times> comms_state" where
  "provider_send env channel key to text cls now st = (
    if \<not> real_provider env channel then (Taken None, st)
    else let result = en_answer env (length (cs_wire st))
      in (result, st\<lparr>cs_wire := cs_wire st @ [\<lparr>wi_channel = channel, wi_key = key, wi_to = to, wi_text = text,
        wi_class = cls, wi_at = now, wi_accepted = (case result of Taken _ \<Rightarrow> True | Turned_away _ _ \<Rightarrow> False)\<rparr>]\<rparr>))"

section \<open>Rules, recipients, templates\<close>

text \<open>The rows are those the query returns; a facility's rule takes the place of the default for its key.\<close>

definition applicableRules :: "comms_env \<Rightarrow> comms_event \<Rightarrow> comms_rule list" where
  "applicableRules env e = map snd (foldl (\<lambda>byKey row.
      (case map_of byKey (cr_templateKey row) of
        None \<Rightarrow> AList.update (cr_templateKey row) row byKey
      | Some current \<Rightarrow> if truthy (cr_facilityId row) \<and> \<not> truthy (cr_facilityId current)
          then AList.update (cr_templateKey row) row byKey else byKey)) [] (en_rules env e))"

definition PAYER_EVENTS :: "string list" where
  "PAYER_EVENTS = [''invoice.due_soon'', ''invoice.due_today'', ''delinquency.day_reached'']"

definition resolveRecipients :: "comms_env \<Rightarrow> comms_event \<Rightarrow> recipient list" where
  "resolveRecipients env e = (case en_resolve env e of
      None \<Rightarrow> []
    | Some recipient \<Rightarrow> (case rc_leaseId recipient of
        None \<Rightarrow> [recipient]
      | Some lease \<Rightarrow>
          if ce_name e \<notin> set PAYER_EVENTS then [recipient]
          else [recipient]
            @ (case en_payer env lease of
                Some payer \<Rightarrow> if rc_tenantId (py_tenant payer) \<noteq> rc_tenantId recipient
                  then [recipient\<lparr>rc_locale := rc_locale (py_tenant payer), rc_key := rc_key (py_tenant payer),
                    rc_tenantId := rc_tenantId (py_tenant payer), rc_email := rc_email (py_tenant payer),
                    rc_phone := rc_phone (py_tenant payer), rc_payerAccount := Some (py_account payer)\<rparr>] else []
              | None \<Rightarrow> [])
            @ (case Option.bind (rc_tenantId recipient) (en_nominated env) of
                Some (nominated, address) \<Rightarrow> [recipient\<lparr>rc_key := ''nominated-payer:'' @ nominated, rc_tenantId := None,
                  rc_email := Some address, rc_phone := None, rc_nominated := Some nominated\<rparr>]
              | None \<Rightarrow> [])))"

definition ACCOUNT_KEY_SUFFIX :: string where
  "ACCOUNT_KEY_SUFFIX = ''_account''"

definition templateKeyFor :: "comms_rule \<Rightarrow> recipient \<Rightarrow> string" where
  "templateKeyFor rule recipient = (if rc_payerAccount recipient \<noteq> None
    then cr_templateKey rule @ ACCOUNT_KEY_SUFFIX else cr_templateKey rule)"

definition consolidationKey :: "comms_env \<Rightarrow> comms_event \<Rightarrow> recipient \<Rightarrow> string" where
  "consolidationKey env e recipient = (case rc_payerAccount recipient of
      None \<Rightarrow> ce_id e
    | Some account \<Rightarrow> ''account:'' @ account @ '':'' @
        iso_day (businessDateFor (ce_occurredAt e)
          (case rc_facility recipient of Some f \<Rightarrow> rf_timezone f | None \<Rightarrow> en_chicago env)))"

definition DEFAULT_LOCALE :: string where
  "DEFAULT_LOCALE = ''en''"

definition highest_version :: "message_template list \<Rightarrow> message_template option" where
  "highest_version pool = (case pool of [] \<Rightarrow> None
    | t # ts \<Rightarrow> Some (foldl (\<lambda>best r. if mt_version r > mt_version best then r else best) t ts))"

definition effectiveTemplate :: "comms_env \<Rightarrow> string \<Rightarrow> message_channel \<Rightarrow> string option \<Rightarrow> string \<Rightarrow> message_template option" where
  "effectiveTemplate env key channel facilityId locale = (
    let rows = filter (\<lambda>t. mt_key t = key \<and> mt_channel t = channel \<and> mt_active t
          \<and> (mt_locale t = locale \<or> mt_locale t = DEFAULT_LOCALE)
          \<and> (mt_facilityId t = None \<or> facilityId = None \<or> mt_facilityId t = facilityId)) (en_templates env);
        inLocale = filter (\<lambda>t. mt_locale t = locale) rows;
        byLocale = (if inLocale \<noteq> [] then inLocale else filter (\<lambda>t. mt_locale t = DEFAULT_LOCALE) rows);
        scoped = filter (\<lambda>t. mt_facilityId t = facilityId) byLocale;
        pool = (if scoped \<noteq> [] then scoped else filter (\<lambda>t. mt_facilityId t = None) byLocale)
    in highest_version pool)"

definition firstFiringSkip :: "comms_env \<Rightarrow> comms_rule \<Rightarrow> recipient \<Rightarrow> comms_event \<Rightarrow> string option" where
  "firstFiringSkip env rule recipient e = find (\<lambda>key. case en_predicate env key of
      Some predicate \<Rightarrow> predicate recipient e | None \<Rightarrow> False) (cr_skipConditions rule)"

definition accountSkip :: "comms_env \<Rightarrow> recipient \<Rightarrow> string option" where
  "accountSkip env recipient = (case rc_payerAccount recipient of None \<Rightarrow> None
    | Some account \<Rightarrow> if en_accountBalance env account > 0 then None else Some ''account_settled'')"

definition skip_for :: "comms_env \<Rightarrow> comms_rule \<Rightarrow> recipient \<Rightarrow> comms_event \<Rightarrow> string option" where
  "skip_for env rule recipient e = (if rc_payerAccount recipient \<noteq> None then accountSkip env recipient
    else firstFiringSkip env rule recipient e)"

section \<open>The log\<close>

definition find_message :: "message_key \<Rightarrow> comms_state \<Rightarrow> message_row option" where
  "find_message key st = find (\<lambda>m. mr_key m = key) (cs_messages st)"

text \<open>The upsert; an update keeps the event and the rule of the row.\<close>

definition writeMessage :: "message_row \<Rightarrow> comms_state \<Rightarrow> comms_state" where
  "writeMessage row st = (case find_message (mr_key row) st of
      None \<Rightarrow> st\<lparr>cs_messages := cs_messages st @ [row]\<rparr>
    | Some _ \<Rightarrow> st\<lparr>cs_messages := map (\<lambda>m. if mr_key m = mr_key row
        then row\<lparr>mr_eventId := mr_eventId m, mr_ruleId := mr_ruleId m\<rparr> else m) (cs_messages st)\<rparr>)"

definition message_base :: "message_key \<Rightarrow> comms_event \<Rightarrow> comms_rule \<Rightarrow> recipient \<Rightarrow> message_row" where
  "message_base key e rule recipient = \<lparr>mr_key = key, mr_eventId = ce_id e, mr_ruleId = cr_id rule, mr_templateVersion = 0,
    mr_class = cr_class rule, mr_channel = Email, mr_tenantId = rc_tenantId recipient,
    mr_facilityId = (case rc_facility recipient of Some f \<Rightarrow> Some (rf_id f) | None \<Rightarrow> ce_facilityId e),
    mr_toAddress = [], mr_body = [], mr_status = M_queued, mr_suppression = None, mr_providerId = None,
    mr_error = None, mr_sentAt = None, mr_consentId = None\<rparr>"

datatype message_outcome = O_sent | O_suppressed | O_cancelled | O_failed | O_skipped | O_deferred

text \<open>A row at the end of an attempt, and the outcome that goes with it.\<close>

definition end_as :: "message_row \<Rightarrow> message_status \<Rightarrow> string \<Rightarrow> message_outcome \<Rightarrow> comms_state \<Rightarrow> message_outcome option \<times> comms_state" where
  "end_as row status error outcome st =
    (Some outcome, writeMessage (row\<lparr>mr_status := status, mr_error := Some error\<rparr>) st)"

definition suppression_text :: "suppression_reason \<Rightarrow> string" where
  "suppression_text reason = (case reason of R_hard_bounce \<Rightarrow> ''hard_bounce'' | R_complaint \<Rightarrow> ''complaint''
    | R_unsubscribe \<Rightarrow> ''unsubscribe'' | R_manual \<Rightarrow> ''manual'' | R_stop \<Rightarrow> ''stop'' | R_kill_switch \<Rightarrow> ''kill_switch'')"

definition create_task :: "string \<Rightarrow> string \<Rightarrow> zone \<Rightarrow> date \<Rightarrow> comms_state \<Rightarrow> comms_state" where
  "create_task type entity timezone now st = (let task = (type, entity, businessDateFor now timezone) in
    if task \<in> set (cs_tasks st) then st else st\<lparr>cs_tasks := cs_tasks st @ [task]\<rparr>)"

definition receiptHandedOver :: "comms_env \<Rightarrow> comms_event \<Rightarrow> string \<Rightarrow> bool" where
  "receiptHandedOver env e templateKey \<longleftrightarrow> templateKey = ''payment_receipt'' \<and> ce_entityType e = ''Payment''
    \<and> (ce_counter e \<or> en_receiptNumber env (ce_entityId e))"

definition noReachableEmail :: "comms_env \<Rightarrow> message_key \<Rightarrow> comms_event \<Rightarrow> comms_rule \<Rightarrow> recipient \<Rightarrow> string \<Rightarrow> date \<Rightarrow>
    comms_state \<Rightarrow> message_outcome option \<times> comms_state" where
  "noReachableEmail env key e rule recipient error now st = (
    let templateKey = templateKeyFor rule recipient;
        template = effectiveTemplate env templateKey Email (map_option rf_id (rc_facility recipient)) (rc_locale recipient);
        rendered = map_option (\<lambda>t. (t, en_renderEmail env t recipient e)) template;
        base = message_base key e rule recipient;
        row = (case rendered of
            Some (t, Inr text) \<Rightarrow> base\<lparr>mr_templateVersion := mt_version t, mr_body := [T_body text], mr_error := Some error\<rparr>
          | Some (_, Inl problem) \<Rightarrow> base\<lparr>mr_error := Some (error @ ''; '' @ problem)\<rparr>
          | None \<Rightarrow> base\<lparr>mr_error := Some error\<rparr>);
        st1 = writeMessage (row\<lparr>mr_status := M_failed\<rparr>) st
    in (Some O_failed, (case (rc_tenantId recipient, rc_facility recipient) of
        (Some tenant, Some f) \<Rightarrow> if receiptHandedOver env e templateKey then st1
          else create_task ''no_reachable_channel'' tenant (rf_timezone f) now st1
      | _ \<Rightarrow> st1)))"

text \<open>The texts that are put on the wire: the postal footer, the link to unsubscribe, the payer's footer.\<close>

definition email_text :: "recipient \<Rightarrow> string \<Rightarrow> bool \<Rightarrow> string \<Rightarrow> text_part list" where
  "email_text recipient address isMarketing text = [T_body text]
    @ (case rc_facility recipient of Some f \<Rightarrow> [T_postal (rf_id f)] | None \<Rightarrow> [])
    @ (if isMarketing then [T_unsubscribe address (rc_locale recipient)] else [])
    @ (case rc_nominated recipient of Some n \<Rightarrow> [T_payer n] | None \<Rightarrow> [])"

text \<open>The queued row, the call of the provider and the row it ends with.\<close>

definition transmit :: "comms_env \<Rightarrow> message_row \<Rightarrow> string \<Rightarrow> text_part list \<Rightarrow> date \<Rightarrow> comms_state \<Rightarrow>
    send_result \<times> comms_state" where
  "transmit env row to text now st = (
    let queued = writeMessage (row\<lparr>mr_status := M_queued\<rparr>) st;
        (result, st1) = provider_send env (mr_channel row) (mr_key row) to text (mr_class row) now queued
    in (result, (case result of
        Taken providerId \<Rightarrow> writeMessage (row\<lparr>mr_status := M_sent, mr_providerId := providerId, mr_sentAt := Some now\<rparr>) st1
      | Turned_away _ message \<Rightarrow> writeMessage (row\<lparr>mr_status := M_failed, mr_error := Some message\<rparr>) st1)))"

text \<open>A retryable refusal throws (None), so the event is dispatched again.\<close>

definition outcome_of :: "send_result \<Rightarrow> message_outcome option" where
  "outcome_of result = (case result of Taken _ \<Rightarrow> Some O_sent
    | Turned_away retryable _ \<Rightarrow> if retryable then None else Some O_failed)"

section \<open>The email path\<close>

definition marketing_sent_since :: "string \<Rightarrow> date \<Rightarrow> comms_state \<Rightarrow> bool" where
  "marketing_sent_since address since st \<longleftrightarrow> list_ex (\<lambda>m. mr_toAddress m = address \<and> mr_class m = Marketing
    \<and> (mr_status m = M_sent \<or> mr_status m = M_delivered)
    \<and> (case mr_sentAt m of Some t \<Rightarrow> since \<le> t | None \<Rightarrow> False)) (cs_messages st)"

definition facility_zone :: "comms_env \<Rightarrow> recipient \<Rightarrow> zone" where
  "facility_zone env recipient = (case rc_facility recipient of Some f \<Rightarrow> rf_timezone f | None \<Rightarrow> en_chicago env)"

definition settled :: "message_status \<Rightarrow> bool" where
  "settled status \<longleftrightarrow> status \<in> {M_sent, M_delivered, M_suppressed, M_cancelled}"

definition already_settled :: "message_key \<Rightarrow> comms_state \<Rightarrow> bool" where
  "already_settled key st \<longleftrightarrow> (case find_message key st of Some m \<Rightarrow> settled (mr_status m) | None \<Rightarrow> False)"

definition sendEmailFallback :: "comms_env \<Rightarrow> message_key \<Rightarrow> comms_event \<Rightarrow> comms_rule \<Rightarrow> recipient \<Rightarrow> date \<Rightarrow>
    comms_state \<Rightarrow> message_outcome option \<times> comms_state" where
  "sendEmailFallback env key e rule recipient now st = (
    if \<not> truthy (rc_email recipient)
    then noReachableEmail env key e rule recipient ''no reachable email address (sms fallback)'' now st
    else
      let address = toLowerCase (the (rc_email recipient));
          base = (message_base key e rule recipient)\<lparr>mr_toAddress := address\<rparr>;
          templateKey = templateKeyFor rule recipient
      in if \<not> notificationAllowed (rc_tenantId recipient) (cr_category rule) Email (cs_contact st)
         then end_as base M_cancelled ''skipped: notification_preference_off'' O_cancelled st
         else case suppressionFor address (cr_class rule) Email (cs_contact st) of
           Some reason \<Rightarrow> end_as (base\<lparr>mr_suppression := Some reason\<rparr>) M_suppressed
             (''suppressed: '' @ suppression_text reason) O_suppressed st
         | None \<Rightarrow> (case effectiveTemplate env templateKey Email (map_option rf_id (rc_facility recipient)) (rc_locale recipient) of
             None \<Rightarrow> end_as base M_failed (''no active email template for '' @ templateKey @ '' (sms fallback)'') O_failed st
           | Some template \<Rightarrow> (case en_renderEmail env template recipient e of
               Inl problem \<Rightarrow> end_as (base\<lparr>mr_templateVersion := mt_version template\<rparr>) M_failed problem O_failed st
             | Inr text \<Rightarrow>
                 let row = base\<lparr>mr_templateVersion := mt_version template, mr_toAddress := effectiveRecipient env address,
                       mr_body := [T_body text]\<rparr>;
                     (result, st1) = transmit env row (effectiveRecipient env address)
                       (email_text recipient address False text) now st
                 in (outcome_of result, st1))))"

definition deliverForRule :: "comms_env \<Rightarrow> comms_event \<Rightarrow> comms_rule \<Rightarrow> recipient \<Rightarrow> date \<Rightarrow> comms_state \<Rightarrow>
    message_outcome option \<times> comms_state" where
  "deliverForRule env e rule recipient now st = (
    let templateKey = templateKeyFor rule recipient;
        key = Rule_key (consolidationKey env e recipient) (cr_id rule) (rc_key recipient) ''email'';
        base = message_base key e rule recipient
    in if already_settled key st then (Some O_skipped, st)
       else case skip_for env rule recipient e of
         Some skip \<Rightarrow> end_as (base\<lparr>mr_toAddress := or_else (rc_email recipient) []\<rparr>) M_cancelled (''skipped: '' @ skip) O_cancelled st
       | None \<Rightarrow>
         if \<not> truthy (rc_email recipient) then noReachableEmail env key e rule recipient ''no reachable email address'' now st
         else
           let address = toLowerCase (the (rc_email recipient)); to_row = base\<lparr>mr_toAddress := address\<rparr> in
           if \<not> notificationAllowed (rc_tenantId recipient) (cr_category rule) Email (cs_contact st)
           then end_as to_row M_cancelled ''skipped: notification_preference_off'' O_cancelled st
           else case suppressionFor address (cr_class rule) Email (cs_contact st) of
             Some reason \<Rightarrow> end_as (to_row\<lparr>mr_suppression := Some reason\<rparr>) M_suppressed
               (''suppressed: '' @ suppression_text reason) O_suppressed st
           | None \<Rightarrow>
             if cr_class rule = Marketing \<and> isMarketingQuietHours now (facility_zone env recipient)
             then end_as to_row M_cancelled ''skipped: marketing_quiet_hours'' O_cancelled st
             else if cr_class rule = Marketing \<and> marketing_sent_since address (now - 24 * 3600000) st
             then end_as to_row M_cancelled ''skipped: marketing_daily_cap'' O_cancelled st
             else case effectiveTemplate env templateKey Email (map_option rf_id (rc_facility recipient)) (rc_locale recipient) of
               None \<Rightarrow> end_as to_row M_failed (''no active template for '' @ templateKey) O_failed st
             | Some template \<Rightarrow> (case en_renderEmail env template recipient e of
                 Inl problem \<Rightarrow> end_as (to_row\<lparr>mr_templateVersion := mt_version template\<rparr>) M_failed problem O_failed st
               | Inr text \<Rightarrow>
                   let row = to_row\<lparr>mr_templateVersion := mt_version template, mr_toAddress := effectiveRecipient env address,
                         mr_body := [T_body text]\<rparr>;
                       (result, st1) = transmit env row (effectiveRecipient env address)
                         (email_text recipient address (cr_class rule = Marketing) text) now st
                   in (outcome_of result, st1)))"

section \<open>The SMS path\<close>

text \<open>The evidence kept with a text: the newest granted consent of the account lane, whatever the class.\<close>

definition consent_evidence :: "string option \<Rightarrow> contact_db \<Rightarrow> nat option" where
  "consent_evidence tenantId db = (case sort_by (by_key (\<lambda>r. - co_capturedAt r)) (filter (\<lambda>r. co_tenantId r = tenantId
      \<and> co_channel r = C_account_sms \<and> co_state r = C_granted) (cb_consents db)) of
    [] \<Rightarrow> None | r # _ \<Rightarrow> Some (co_id r))"

definition sms_refusal :: "comms_rule \<Rightarrow> recipient \<Rightarrow> contact_db \<Rightarrow> string option" where
  "sms_refusal rule recipient db = (
    let phone = normalizePhoneE164 (rc_phone recipient);
        suppression = (case phone of Some p \<Rightarrow> suppressionFor p (cr_class rule) Sms db | None \<Rightarrow> None)
    in if \<not> truthy (Option.bind (rc_facility recipient) rf_smsSid) then Some ''sms_not_configured''
       else if phone = None then Some ''no reachable phone number''
       else if \<not> notificationAllowed (rc_tenantId recipient) (cr_category rule) Sms db then Some ''skipped: notification_preference_off''
       else if \<not> smsConsentGranted (rc_tenantId recipient) (cr_class rule) db then Some ''no sms consent''
       else case suppression of Some reason \<Rightarrow> Some (''suppressed: '' @ suppression_text reason) | None \<Rightarrow> None)"

definition sms_quiet :: "comms_env \<Rightarrow> recipient_facility option \<Rightarrow> date \<Rightarrow> bool" where
  "sms_quiet env facility now = (case facility of
      Some f \<Rightarrow> isSmsQuietHours now (rf_timezone f) (rf_smsStart f) (rf_smsEnd f)
    | None \<Rightarrow> isSmsQuietHours now (en_chicago env) 8 21)"

definition deliverSmsForRule :: "comms_env \<Rightarrow> comms_event \<Rightarrow> comms_rule \<Rightarrow> recipient \<Rightarrow> date \<Rightarrow> comms_state \<Rightarrow>
    message_outcome option \<times> comms_state" where
  "deliverSmsForRule env e rule recipient now st = (
    let fallbackEligible = (cr_policy rule = Sms_preferred);
        templateKey = templateKeyFor rule recipient;
        key = Rule_key (consolidationKey env e recipient) (cr_id rule) (rc_key recipient) (if fallbackEligible then ''pair'' else ''sms'');
        base = (message_base key e rule recipient)\<lparr>mr_channel := Sms\<rparr>
    in if already_settled key st then (Some O_skipped, st)
       else if map_option mr_status (find_message key st) = Some M_deferred then (Some O_skipped, st)
       else case skip_for env rule recipient e of
         Some skip \<Rightarrow> end_as (base\<lparr>mr_toAddress := or_else (rc_phone recipient) []\<rparr>) M_cancelled (''skipped: '' @ skip) O_cancelled st
       | None \<Rightarrow>
         let phone = normalizePhoneE164 (rc_phone recipient);
             suppression = (case phone of Some p \<Rightarrow> suppressionFor p (cr_class rule) Sms (cs_contact st) | None \<Rightarrow> None)
         in case sms_refusal rule recipient (cs_contact st) of
           Some reason \<Rightarrow>
             if fallbackEligible \<and> cr_class rule \<noteq> Marketing then sendEmailFallback env key e rule recipient now st
             else if suppression \<noteq> None
               then end_as (base\<lparr>mr_toAddress := or_else phone [], mr_suppression := suppression\<rparr>) M_suppressed reason O_suppressed st
               else end_as (base\<lparr>mr_toAddress := or_else phone []\<rparr>) M_failed reason O_failed st
         | None \<Rightarrow>
           let to_row = base\<lparr>mr_toAddress := the phone\<rparr> in
           if sms_quiet env (rc_facility recipient) now
           then end_as to_row M_deferred ''deferred: sms_quiet_hours'' O_deferred st
           else if cr_class rule = Marketing \<and> marketing_sent_since (the phone) (now - 24 * 3600000) st
           then end_as to_row M_cancelled ''skipped: marketing_daily_cap'' O_cancelled st
           else case effectiveTemplate env templateKey Sms (map_option rf_id (rc_facility recipient)) (rc_locale recipient) of
             None \<Rightarrow>
               if fallbackEligible then sendEmailFallback env key e rule recipient now st
               else end_as to_row M_failed (''no active sms template for '' @ templateKey) O_failed st
           | Some template \<Rightarrow> (case en_renderSms env template recipient e of
               Inl problem \<Rightarrow> end_as (to_row\<lparr>mr_templateVersion := mt_version template\<rparr>) M_failed problem O_failed st
             | Inr text \<Rightarrow>
                 let body = [T_body text, T_opt_out (rc_locale recipient)];
                     row = to_row\<lparr>mr_templateVersion := mt_version template, mr_toAddress := effectiveSmsRecipient env (the phone),
                       mr_body := body, mr_consentId := consent_evidence (rc_tenantId recipient) (cs_contact st)\<rparr>;
                     (result, st1) = transmit env row (effectiveSmsRecipient env (the phone)) body now st
                 in (case result of
                     Taken _ \<Rightarrow> (Some O_sent, st1)
                   | Turned_away retryable _ \<Rightarrow>
                       if fallbackEligible then sendEmailFallback env key e rule recipient now st1
                       else (outcome_of result, st1))))"

section \<open>An event through every rule\<close>

text \<open>The loop over recipients and rules; an error thrown ends it (None in place of the counts).\<close>

definition deliver_one :: "comms_env \<Rightarrow> comms_event \<Rightarrow> date \<Rightarrow> recipient \<times> comms_rule \<Rightarrow> comms_state \<Rightarrow>
    message_outcome option \<times> comms_state" where
  "deliver_one env e now = (\<lambda>(recipient, rule) st.
    if cr_channel rule = Sms then deliverSmsForRule env e rule recipient now st
    else deliverForRule env e rule recipient now st)"

fun deliver_each :: "comms_env \<Rightarrow> comms_event \<Rightarrow> date \<Rightarrow> (recipient \<times> comms_rule) list \<Rightarrow> (message_outcome \<Rightarrow> nat) \<Rightarrow> comms_state \<Rightarrow>
    (message_outcome \<Rightarrow> nat) option \<times> comms_state" where
  "deliver_each env e now [] counts st = (Some counts, st)"
| "deliver_each env e now (job # jobs) counts st = (case deliver_one env e now job st of
      (None, st') \<Rightarrow> (None, st')
    | (Some outcome, st') \<Rightarrow> deliver_each env e now jobs (counts(outcome := counts outcome + 1)) st')"

definition processCommsEvent :: "comms_env \<Rightarrow> comms_event \<Rightarrow> date \<Rightarrow> comms_state \<Rightarrow> (message_outcome \<Rightarrow> nat) option \<times> comms_state" where
  "processCommsEvent env e now st = (
    if \<not> en_enabled env then (Some (\<lambda>_. 0), st)
    else let rules = applicableRules env e in
      if rules = [] then (Some (\<lambda>_. 0), st)
      else deliver_each env e now (concat (map (\<lambda>recipient. map (\<lambda>rule. (recipient, rule)) rules) (resolveRecipients env e)))
        (\<lambda>_. 0) st)"

section \<open>The hourly sweep\<close>

definition update_message :: "message_key \<Rightarrow> (message_row \<Rightarrow> message_row) \<Rightarrow> comms_state \<Rightarrow> comms_state" where
  "update_message key f st = st\<lparr>cs_messages := map (\<lambda>m. if mr_key m = key then f m else m) (cs_messages st)\<rparr>"

datatype sweep_result = Still_quiet | Sweep_cancelled | Retried

definition sweep_skip :: "comms_env \<Rightarrow> message_row \<Rightarrow> string option" where
  "sweep_skip env message = (case (en_event env (mr_eventId message), en_rule env (mr_ruleId message)) of
      (Some e, Some rule) \<Rightarrow> (case en_resolve env e of
          Some recipient \<Rightarrow> if rc_tenantId recipient = mr_tenantId message then firstFiringSkip env rule recipient e else None
        | None \<Rightarrow> None)
    | _ \<Rightarrow> None)"

definition retry_one :: "comms_env \<Rightarrow> date \<Rightarrow> message_row \<Rightarrow> comms_state \<Rightarrow> sweep_result \<times> comms_state" where
  "retry_one env now message st = (
    let facility = Option.bind (mr_facilityId message) (en_facility env) in
    if sms_quiet env facility now then (Still_quiet, st)
    else case sweep_skip env message of
      Some skip \<Rightarrow> (Sweep_cancelled, update_message (mr_key message)
        (\<lambda>m. m\<lparr>mr_status := M_cancelled, mr_error := Some (''skipped: '' @ skip)\<rparr>) st)
    | None \<Rightarrow>
      if \<not> truthy (Option.bind facility rf_smsSid) then (Still_quiet, st)
      else let (result, st1) = provider_send env Sms (mr_key message) (mr_toAddress message) (mr_body message) (mr_class message) now st
        in (Retried, update_message (mr_key message) (\<lambda>m. case result of
            Taken providerId \<Rightarrow> m\<lparr>mr_status := M_sent, mr_providerId := providerId, mr_sentAt := Some now\<rparr>
          | Turned_away _ error \<Rightarrow> m\<lparr>mr_status := M_failed, mr_error := Some error\<rparr>) st1))"

definition retryDeferredSmsMessages :: "comms_env \<Rightarrow> date \<Rightarrow> comms_state \<Rightarrow> sweep_result list \<times> comms_state" where
  "retryDeferredSmsMessages env now st = foldl (\<lambda>(results, st) message.
      let (result, st') = retry_one env now message st in (results @ [result], st'))
    ([], st) (filter (\<lambda>m. mr_status m = M_deferred \<and> mr_channel m = Sms) (cs_messages st))"

section \<open>Direct sends\<close>

record direct_email =
  de_key :: string
  de_eventId :: string
  de_class :: message_class
  de_locale :: string
  de_to :: string
  de_text :: string
  de_facilityId :: "string option"
  de_tenantId :: "string option"
  de_category :: "notification_category option"

text \<open>Whether it was sent, and the suppression that stopped it. The rows are created, not upserted.\<close>

definition sendDirectEmail :: "comms_env \<Rightarrow> direct_email \<Rightarrow> date \<Rightarrow> comms_state \<Rightarrow> (bool \<times> suppression_reason option) \<times> comms_state" where
  "sendDirectEmail env d now st = (
    let key = Direct_key (de_key d); address = toLowerCase (de_to d);
        row = \<lparr>mr_key = key, mr_eventId = de_eventId d, mr_ruleId = ''direct'', mr_templateVersion = 1,
          mr_class = de_class d, mr_channel = Email, mr_tenantId = de_tenantId d, mr_facilityId = de_facilityId d,
          mr_toAddress = address, mr_body = [T_body (de_text d)], mr_status = M_queued, mr_suppression = None,
          mr_providerId = None, mr_error = None, mr_sentAt = None, mr_consentId = None\<rparr>;
        facility = Option.bind (de_facilityId d) (en_facility env);
        stop = (\<lambda>status error reason. ((False, reason), writeMessage (row\<lparr>mr_status := status, mr_error := error, mr_suppression := reason\<rparr>) st))
    in if \<not> en_enabled env then ((False, None), st)
       else case find_message key st of
         Some existing \<Rightarrow> ((mr_status existing = M_sent \<or> mr_status existing = M_delivered, None), st)
       | None \<Rightarrow>
         if \<not> notificationAllowed (de_tenantId d) (de_category d) Email (cs_contact st)
         then stop M_cancelled (Some ''skipped: notification_preference_off'') None
         else case suppressionFor address (de_class d) Email (cs_contact st) of
           Some reason \<Rightarrow> stop M_suppressed None (Some reason)
         | None \<Rightarrow>
           if de_class d = Marketing \<and> isMarketingQuietHours now (case facility of Some f \<Rightarrow> rf_timezone f | None \<Rightarrow> en_chicago env)
           then stop M_cancelled (Some ''skipped: marketing_quiet_hours'') None
           else if de_class d = Marketing \<and> marketing_sent_since address (now - 24 * 3600000) st
           then stop M_cancelled (Some ''skipped: marketing_daily_cap'') None
           else let text = [T_body (de_text d)]
                  @ (if de_class d = Marketing then (case facility of Some f \<Rightarrow> [T_postal (rf_id f)] | None \<Rightarrow> [])
                      @ [T_unsubscribe address (de_locale d)] else []);
                (result, st1) = transmit env (row\<lparr>mr_toAddress := effectiveRecipient env address\<rparr>)
                  (effectiveRecipient env address) text now st
             in ((case result of Taken _ \<Rightarrow> True | Turned_away _ _ \<Rightarrow> False, None), st1))"

section \<open>delivery.ts: what the provider reports\<close>

datatype delivery_outcome = Ignored_event | Unknown_message | No_change | Report_applied message_status bool

definition applyDeliveryEvent :: "comms_env \<Rightarrow> string \<Rightarrow> string \<Rightarrow> date \<Rightarrow> comms_state \<Rightarrow> delivery_outcome \<times> comms_state" where
  "applyDeliveryEvent env type providerMessageId now st = (
    let incoming = statusFromResendEvent type; consequence = consequencesOf type in
    if incoming = None \<and> dc_suppress consequence = None then (Ignored_event, st)
    else case find (\<lambda>m. mr_providerId m = Some providerMessageId) (cs_messages st) of
      None \<Rightarrow> (Unknown_message, st)
    | Some message \<Rightarrow>
        let nxt = Option.bind incoming (nextDeliveryStatus (mr_status message)) in
        if nxt = None \<and> dc_suppress consequence = None then (No_change, st)
        else
          let st1 = (case nxt of None \<Rightarrow> st
                | Some status \<Rightarrow> update_message (mr_key message) (\<lambda>m. m\<lparr>mr_status := status,
                    mr_error := (if status = M_bounced then Some (''provider: '' @ type) else mr_error m)\<rparr>) st);
              st2 = (case dc_suppress consequence of None \<Rightarrow> st1
                | Some reason \<Rightarrow> st1\<lparr>cs_contact := suppress (mr_channel message) (mr_toAddress message) reason (cs_contact st1)\<rparr>);
              st3 = (if dc_flagTenant consequence \<and> mr_tenantId message \<noteq> None
                then st2\<lparr>cs_contact := (cs_contact st2)\<lparr>cb_tenants := map (\<lambda>t. if Some (tr_id t) = mr_tenantId message
                    \<and> tr_emailUndeliverableAt t = None then t\<lparr>tr_emailUndeliverableAt := Some now\<rparr> else t)
                  (cb_tenants (cs_contact st2))\<rparr>\<rparr> else st2);
              st4 = (case (mr_tenantId message, mr_facilityId message) of
                  (Some tenant, Some facility) \<Rightarrow> if dc_raiseTask consequence
                    then create_task ''no_reachable_channel'' tenant
                      (case en_facility env facility of Some f \<Rightarrow> rf_timezone f | None \<Rightarrow> en_chicago env) now st3 else st3
                | _ \<Rightarrow> st3)
          in (Report_applied (or_else nxt (mr_status message)) (dc_suppress consequence \<noteq> None), st4))"

section \<open>Taken once\<close>

definition accepted :: "message_key \<Rightarrow> comms_state \<Rightarrow> nat" where
  "accepted key st = length (filter (\<lambda>w. wi_key w = key \<and> wi_accepted w) (cs_wire st))"

text \<open>What holds of the log: keys are unique, and a message a provider accepted was accepted once and
  its row says so.\<close>

definition log_ok :: "comms_state \<Rightarrow> bool" where
  "log_ok st \<longleftrightarrow> distinct (map mr_key (cs_messages st)) \<and>
    (\<forall>key. accepted key st = 0 \<or> accepted key st = 1 \<and>
      (\<exists>m. find_message key st = Some m \<and> (mr_status m = M_sent \<or> mr_status m = M_delivered)))"

named_theorems log_simps "reading the log after a write"

lemma find_map_key:
  "(\<And>m. mr_key (f m) = mr_key m) \<Longrightarrow>
    find (\<lambda>m. mr_key m = key) (map f ms) = map_option f (find (\<lambda>m. mr_key m = key) ms)"
  by (induction ms) auto

lemma find_key: "find (\<lambda>m. mr_key m = key) ms = Some m \<Longrightarrow> mr_key m = key"
  by (induction ms) (auto split: if_splits)

lemma find_in_append: "find P (xs @ ys) = (case find P xs of None \<Rightarrow> find P ys | Some x \<Rightarrow> Some x)"
  by (induction xs) auto

lemma writeMessage_find:
  "\<exists>m. find_message (mr_key row) (writeMessage row st) = Some m \<and> mr_status m = mr_status row"
  "key \<noteq> mr_key row \<Longrightarrow> find_message key (writeMessage row st) = find_message key st"
proof -
  have f: "find_message key (writeMessage row st) = (case find_message (mr_key row) st of
      None \<Rightarrow> (case find_message key st of None \<Rightarrow> (if mr_key row = key then Some row else None) | Some m \<Rightarrow> Some m)
    | Some _ \<Rightarrow> map_option (\<lambda>m. if mr_key m = mr_key row then row\<lparr>mr_eventId := mr_eventId m, mr_ruleId := mr_ruleId m\<rparr> else m)
        (find_message key st))" for key
    by (auto simp: writeMessage_def find_message_def find_in_append find_map_key split: option.split)
  show "\<exists>m. find_message (mr_key row) (writeMessage row st) = Some m \<and> mr_status m = mr_status row"
    unfolding f by (auto simp: find_message_def dest: find_key split: option.split)
  show "key \<noteq> mr_key row \<Longrightarrow> find_message key (writeMessage row st) = find_message key st"
    unfolding f by (auto simp: find_message_def dest: find_key split: option.split)
qed

lemma writeMessage_wire [log_simps]:
  "cs_wire (writeMessage row st) = cs_wire st" "cs_contact (writeMessage row st) = cs_contact st"
  "accepted key (writeMessage row st) = accepted key st"
  by (simp_all add: writeMessage_def accepted_def split: option.split)

lemma writeMessage_distinct: "distinct (map mr_key (cs_messages st)) \<Longrightarrow> distinct (map mr_key (cs_messages (writeMessage row st)))"
proof -
  assume d: "distinct (map mr_key (cs_messages st))"
  have same: "mr_key (if mr_key m = mr_key row then row\<lparr>mr_eventId := mr_eventId m, mr_ruleId := mr_ruleId m\<rparr> else m) = mr_key m"
    for m by simp
  show ?thesis using d
    by (auto simp: writeMessage_def find_message_def find_None_iff o_def same split: option.split)
qed

lemma log_ok_write:
  assumes "log_ok st" "accepted (mr_key row) st = 0 \<or> accepted (mr_key row) st = 1 \<and> mr_status row = M_sent"
  shows "log_ok (writeMessage row st)"
  unfolding log_ok_def
proof (intro conjI allI)
  show "distinct (map mr_key (cs_messages (writeMessage row st)))"
    using assms(1) by (simp add: log_ok_def writeMessage_distinct)
  fix key
  show "accepted key (writeMessage row st) = 0 \<or> accepted key (writeMessage row st) = 1 \<and>
      (\<exists>m. find_message key (writeMessage row st) = Some m \<and> (mr_status m = M_sent \<or> mr_status m = M_delivered))"
  proof (cases "key = mr_key row")
    case True
    then show ?thesis using assms(2) writeMessage_find(1) [of row st] by (auto simp: log_simps)
  next
    case False
    then show ?thesis using assms(1) writeMessage_find(2) [OF False, of st] by (auto simp: log_ok_def log_simps)
  qed
qed

lemma provider_send_log:
  "cs_messages (snd (provider_send env channel key t body cls now st)) = cs_messages st"
  "cs_contact (snd (provider_send env channel key t body cls now st)) = cs_contact st"
  "accepted k (snd (provider_send env channel key t body cls now st)) \<le> accepted k st + (if k = key then 1 else 0)"
  "fst (provider_send env channel key t body cls now st) = Turned_away retryable error \<Longrightarrow>
    accepted k (snd (provider_send env channel key t body cls now st)) = accepted k st"
  by (auto simp: provider_send_def Let_def accepted_def split: send_result.split)

text \<open>The log is only ever wrong about a key whose row is about to be written.\<close>

lemma transmit_log:
  assumes "log_ok st" "accepted (mr_key row) st = 0"
  shows "log_ok (snd (transmit env row to text now st))"
    and "fst (transmit env row to text now st) = Turned_away retryable error \<Longrightarrow>
      accepted (mr_key row) (snd (transmit env row to text now st)) = 0"
    and "cs_contact (snd (transmit env row to text now st)) = cs_contact st"
proof -
  define queued where "queued = writeMessage (row\<lparr>mr_status := M_queued\<rparr>) st"
  obtain result st1 where p: "provider_send env (mr_channel row) (mr_key row) to text (mr_class row) now queued = (result, st1)"
    by fastforce
  have q: "log_ok queued" "accepted k queued = accepted k st" "cs_contact queued = cs_contact st" for k
    using log_ok_write [OF assms(1), of "row\<lparr>mr_status := M_queued\<rparr>"] assms(2) by (simp_all add: queued_def log_simps)
  note pl = provider_send_log [where env = env and channel = "mr_channel row"
      and key = "mr_key row" and t = "to" and body = "text" and cls = "mr_class row" and now = now and st = queued, unfolded p snd_conv fst_conv]
  have others: "accepted k st1 = accepted k queued" if "k \<noteq> mr_key row" for k
    using p that by (auto simp: provider_send_def Let_def accepted_def split: if_splits)
  have written: "log_ok (writeMessage r st1)" if r: "mr_key r = mr_key row"
    "accepted (mr_key row) st1 = 0 \<or> accepted (mr_key row) st1 = 1 \<and> mr_status r = M_sent" for r
    unfolding log_ok_def
  proof (intro conjI allI)
    show "distinct (map mr_key (cs_messages (writeMessage r st1)))"
      using q(1) pl(1) by (simp add: log_ok_def writeMessage_distinct)
    fix key
    have same: "find_message key st1 = find_message key queued" using pl(1) by (simp add: find_message_def)
    show "accepted key (writeMessage r st1) = 0 \<or> accepted key (writeMessage r st1) = 1 \<and>
      (\<exists>m. find_message key (writeMessage r st1) = Some m \<and> (mr_status m = M_sent \<or> mr_status m = M_delivered))"
    proof (cases "key = mr_key row")
      case True
      then show ?thesis using r writeMessage_find(1) [of r st1] by (auto simp: log_simps)
    next
      case False
      then show ?thesis using q(1) others [OF False] same writeMessage_find(2) [of key r st1] r(1)
        by (auto simp: log_ok_def log_simps)
    qed
  qed
  have t: "transmit env row to text now st = (result, (case result of
        Taken providerId \<Rightarrow> writeMessage (row\<lparr>mr_status := M_sent, mr_providerId := providerId, mr_sentAt := Some now\<rparr>) st1
      | Turned_away _ message \<Rightarrow> writeMessage (row\<lparr>mr_status := M_failed, mr_error := Some message\<rparr>) st1))"
    by (simp add: transmit_def queued_def [symmetric] p)
  have le: "accepted (mr_key row) st1 \<le> 1" using pl(3) [of "mr_key row"] q(2) assms(2) by simp
  then have zero_one: "accepted (mr_key row) st1 = 0 \<or> accepted (mr_key row) st1 = 1" by linarith
  show "log_ok (snd (transmit env row to text now st))"
  proof (cases result)
    case (Taken providerId)
    then show ?thesis using written zero_one by (simp add: t)
  next
    case (Turned_away retryable error)
    then have "accepted (mr_key row) st1 = 0" using pl(4) q(2) assms(2) by simp
    then show ?thesis using written Turned_away by (simp add: t)
  qed
  show "accepted (mr_key row) (snd (transmit env row to text now st)) = 0"
    if "fst (transmit env row to text now st) = Turned_away retryable error"
    using that pl(4) q(2) assms(2) by (simp add: t log_simps)
  show "cs_contact (snd (transmit env row to text now st)) = cs_contact st"
    using pl(2) q(3) by (simp add: t log_simps split: send_result.split)
qed

text \<open>An attempt on a key that is open keeps the log.\<close>

definition keeps :: "comms_state \<Rightarrow> 'a \<times> comms_state \<Rightarrow> bool" where
  "keeps st r \<longleftrightarrow> log_ok (snd r) \<and> cs_contact (snd r) = cs_contact st"

lemma keeps_cases:
  "\<lbrakk>c \<Longrightarrow> keeps st a; \<not> c \<Longrightarrow> keeps st b\<rbrakk> \<Longrightarrow> keeps st (if c then a else b)"
  "\<lbrakk>x = None \<Longrightarrow> keeps st a; \<And>y. x = Some y \<Longrightarrow> keeps st (f y)\<rbrakk> \<Longrightarrow> keeps st (case x of None \<Rightarrow> a | Some y \<Rightarrow> f y)"
  "\<lbrakk>\<And>y. r = Inl y \<Longrightarrow> keeps st (g y); \<And>y. r = Inr y \<Longrightarrow> keeps st (h y)\<rbrakk> \<Longrightarrow> keeps st (case r of Inl y \<Rightarrow> g y | Inr y \<Rightarrow> h y)"
  by (auto split: option.split sum.split)

lemma open_key: "log_ok st \<Longrightarrow> \<not> already_settled key st \<Longrightarrow> accepted key st = 0"
  by (auto simp: log_ok_def already_settled_def settled_def split: option.splits)

lemma end_as_keeps:
  "log_ok st \<Longrightarrow> accepted (mr_key row) st = 0 \<Longrightarrow> keeps st (end_as row status error outcome st)"
  by (simp add: keeps_def end_as_def log_ok_write log_simps)

lemma create_task_log [log_simps]:
  "log_ok (create_task type entity z now st) = log_ok st" "cs_contact (create_task type entity z now st) = cs_contact st"
  "cs_wire (create_task type entity z now st) = cs_wire st"
  by (simp_all add: create_task_def Let_def log_ok_def accepted_def find_message_def)

lemma message_base_key [simp]: "mr_key (message_base key e rule recipient) = key" "mr_channel (message_base key e rule recipient) = Email"
  "mr_class (message_base key e rule recipient) = cr_class rule"
  by (simp_all add: message_base_def)

lemma noReachable_keeps:
  assumes "log_ok st" "accepted key st = 0"
  shows "keeps st (noReachableEmail env key e rule recipient error now st)"
proof -
  have w: "log_ok (writeMessage (row\<lparr>mr_status := M_failed\<rparr>) st)" if "mr_key row = key" for row
    using log_ok_write [OF assms(1), of "row\<lparr>mr_status := M_failed\<rparr>"] that assms(2) by simp
  show ?thesis
    unfolding keeps_def noReachableEmail_def Let_def snd_conv
    by (auto simp: log_simps intro!: w split: option.split sum.split)
qed

lemma transmit_keeps:
  assumes "log_ok st" "accepted (mr_key row) st = 0"
  shows "keeps st (outcome_of (fst (transmit env row t body now st)), snd (transmit env row t body now st))"
  using transmit_log [OF assms] by (simp add: keeps_def)

lemma fallback_keeps:
  assumes "log_ok st" "accepted key st = 0"
  shows "keeps st (sendEmailFallback env key e rule recipient now st)"
  unfolding sendEmailFallback_def Let_def
  using assms by (auto simp: case_prod_beta intro!: noReachable_keeps end_as_keeps transmit_keeps split: option.split sum.split)

lemma deliver_keeps:
  assumes "log_ok st"
  shows "keeps st (deliverForRule env e rule recipient now st)"
proof (cases "already_settled (Rule_key (consolidationKey env e recipient) (cr_id rule) (rc_key recipient) ''email'') st")
  case True
  then show ?thesis using assms by (simp add: deliverForRule_def Let_def keeps_def)
next
  case False
  note zero = open_key [OF assms False]
  show ?thesis
    unfolding deliverForRule_def Let_def if_not_P [OF False]
    using assms zero by (auto simp: case_prod_beta intro!: noReachable_keeps end_as_keeps transmit_keeps split: option.split sum.split)
qed

lemma sms_keeps:
  assumes "log_ok st"
  shows "keeps st (deliverSmsForRule env e rule recipient now st)"
proof (cases "already_settled (Rule_key (consolidationKey env e recipient) (cr_id rule) (rc_key recipient)
    (if cr_policy rule = Sms_preferred then ''pair'' else ''sms'')) st")
  case True
  then show ?thesis using assms by (simp add: deliverSmsForRule_def Let_def keeps_def)
next
  case False
  let ?key = "Rule_key (consolidationKey env e recipient) (cr_id rule) (rc_key recipient)
    (if cr_policy rule = Sms_preferred then ''pair'' else ''sms'')"
  note zero = open_key [OF assms False]
  have attempt: "keeps st (let (result, st1) = transmit env row t body now st
      in case result of Taken p \<Rightarrow> (Some O_sent, st1)
         | Turned_away retryable m \<Rightarrow> if cr_policy rule = Sms_preferred then sendEmailFallback env ?key e rule recipient now st1
           else (outcome_of result, st1))" if "mr_key row = ?key" for row t body
  proof -
    obtain result st1 where t: "transmit env row t body now st = (result, st1)" by fastforce
    have l: "log_ok st1" "cs_contact st1 = cs_contact st" "\<And>retryable m. result = Turned_away retryable m \<Longrightarrow> accepted ?key st1 = 0"
      using transmit_log [of st row env t body now] assms zero that t by auto
    then show ?thesis
      using fallback_keeps [of st1 ?key env e rule recipient now] by (auto simp: t keeps_def split: send_result.split)
  qed
  show ?thesis
    unfolding deliverSmsForRule_def Let_def
    by (intro keeps_cases fallback_keeps end_as_keeps attempt [unfolded Let_def]; use assms zero False in \<open>simp add: keeps_def\<close>)
qed

lemma deliver_each_keeps: "log_ok st \<Longrightarrow> keeps st (deliver_each env e now jobs counts st)"
proof (induction jobs arbitrary: counts st)
  case (Cons job jobs)
  obtain recipient rule where job: "job = (recipient, rule)" by fastforce
  obtain outcome st' where d: "deliver_one env e now job st = (outcome, st')" by fastforce
  have k: "log_ok st'" "cs_contact st' = cs_contact st"
    using d deliver_keeps [OF Cons.prems] sms_keeps [OF Cons.prems]
    by (auto simp: deliver_one_def job keeps_def split: if_splits) (metis snd_conv)+
  then show ?case using Cons.IH [OF k(1)] d by (cases outcome) (simp_all add: keeps_def)
qed (simp add: keeps_def)

lemma process_keeps: "log_ok st \<Longrightarrow> keeps st (processCommsEvent env e now st)"
  by (simp add: processCommsEvent_def Let_def deliver_each_keeps) (simp add: keeps_def)

lemma update_message_find:
  assumes "\<And>m. mr_key (f m) = mr_key m"
  shows "find_message key (update_message k f st) =
    (if key = k then map_option f (find_message key st) else find_message key st)"
proof -
  have "find_message key (update_message k f st) = map_option (\<lambda>m. if mr_key m = k then f m else m) (find_message key st)"
    unfolding find_message_def update_message_def by (simp add: find_map_key assms)
  then show ?thesis by (cases "find_message key st") (auto simp: find_message_def dest: find_key)
qed

lemma update_message_simps [log_simps]:
  "cs_wire (update_message k f st) = cs_wire st" "cs_contact (update_message k f st) = cs_contact st"
  "accepted key (update_message k f st) = accepted key st"
  by (simp_all add: update_message_def accepted_def)

lemma update_message_keys:
  "(\<And>m. mr_key (f m) = mr_key m) \<Longrightarrow> map mr_key (cs_messages (update_message k f st)) = map mr_key (cs_messages st)"
  by (simp add: update_message_def o_def)

lemma log_ok_update:
  assumes "distinct (map mr_key (cs_messages st))" "\<And>m. mr_key (f m) = mr_key m"
    "\<And>key. key \<noteq> k \<Longrightarrow> accepted key st = 0 \<or> accepted key st = 1 \<and>
      (\<exists>m. find_message key st = Some m \<and> (mr_status m = M_sent \<or> mr_status m = M_delivered))"
    "accepted k st = 0 \<or> accepted k st = 1 \<and> (\<exists>m. find_message k st = Some m \<and> (mr_status (f m) = M_sent \<or> mr_status (f m) = M_delivered))"
  shows "log_ok (update_message k f st)"
  unfolding log_ok_def
proof (intro conjI allI)
  show "distinct (map mr_key (cs_messages (update_message k f st)))"
    using assms(1) by (simp only: update_message_keys [OF assms(2)])
  fix key
  show "accepted key (update_message k f st) = 0 \<or> accepted key (update_message k f st) = 1 \<and>
      (\<exists>m. find_message key (update_message k f st) = Some m \<and> (mr_status m = M_sent \<or> mr_status m = M_delivered))"
  proof (cases "key = k")
    case True
    then show ?thesis using assms(4) unfolding log_simps update_message_find [OF assms(2)] by auto
  next
    case False
    then show ?thesis using assms(3) [OF False] unfolding log_simps update_message_find [OF assms(2)] by simp
  qed
qed

lemma find_message_key: "k \<in> set (map mr_key (cs_messages st)) \<Longrightarrow> \<exists>m. find_message k st = Some m"
  by (cases "find_message k st") (auto simp: find_message_def find_None_iff)

lemma retry_one_log:
  assumes "log_ok st" "accepted (mr_key m) st = 0" "mr_key m \<in> set (map mr_key (cs_messages st))"
  shows "log_ok (snd (retry_one env now m st)) \<and> cs_contact (snd (retry_one env now m st)) = cs_contact st \<and>
    map mr_key (cs_messages (snd (retry_one env now m st))) = map mr_key (cs_messages st) \<and>
    (\<forall>k. k \<noteq> mr_key m \<longrightarrow> accepted k (snd (retry_one env now m st)) = accepted k st)"
proof -
  note ok = assms(1) [unfolded log_ok_def]
  obtain row where row: "find_message (mr_key m) st = Some row" using find_message_key [OF assms(3)] by blast
  obtain result st1 where p: "provider_send env Sms (mr_key m) (mr_toAddress m) (mr_body m) (mr_class m) now st = (result, st1)"
    by fastforce
  note pl = provider_send_log [where env = env and channel = Sms and key = "mr_key m" and t = "mr_toAddress m" and
      body = "mr_body m" and cls = "mr_class m" and now = now and st = st, unfolded p snd_conv fst_conv]
  have others: "accepted k st1 = accepted k st" if "k \<noteq> mr_key m" for k
    using p that by (auto simp: provider_send_def Let_def accepted_def split: if_splits)
  have same: "find_message k st1 = find_message k st" for k using pl(1) by (simp add: find_message_def)
  have one: "accepted (mr_key m) st1 = 0 \<or> accepted (mr_key m) st1 = 1" using pl(3) [of "mr_key m"] assms(2) by simp linarith
  have zero: "accepted (mr_key m) st1 = 0" if "result = Turned_away retryable error" for retryable error
    using pl(4) that assms(2) by simp
  let ?f = "\<lambda>m. case result of Taken providerId \<Rightarrow> m\<lparr>mr_status := M_sent, mr_providerId := providerId, mr_sentAt := Some now\<rparr>
    | Turned_away _ error \<Rightarrow> m\<lparr>mr_status := M_failed, mr_error := Some error\<rparr>"
  have key: "mr_key (?f r) = mr_key r" for r by (simp split: send_result.split)
  have sent: "log_ok (update_message (mr_key m) ?f st1)"
  proof (rule log_ok_update [OF _ key])
    show "distinct (map mr_key (cs_messages st1))" using ok pl(1) by simp
    show "accepted k st1 = 0 \<or> accepted k st1 = 1 \<and>
      (\<exists>m. find_message k st1 = Some m \<and> (mr_status m = M_sent \<or> mr_status m = M_delivered))" if "k \<noteq> mr_key m" for k
      using ok others [OF that] same by simp
    show "accepted (mr_key m) st1 = 0 \<or> accepted (mr_key m) st1 = 1 \<and>
      (\<exists>r. find_message (mr_key m) st1 = Some r \<and> (mr_status (?f r) = M_sent \<or> mr_status (?f r) = M_delivered))"
      using one zero row same by (cases result) simp_all
  qed
  have cancelled: "log_ok (update_message (mr_key m) (\<lambda>m. m\<lparr>mr_status := M_cancelled, mr_error := error\<rparr>) st)" for error
    using assms(2) ok by (intro log_ok_update) auto
  have "retry_one env now m st \<in> {(Still_quiet, st)} \<union>
      range (\<lambda>error. (Sweep_cancelled, update_message (mr_key m) (\<lambda>m. m\<lparr>mr_status := M_cancelled, mr_error := error\<rparr>) st)) \<union>
      {(Retried, update_message (mr_key m) ?f st1)}"
    by (auto simp: retry_one_def Let_def p split: option.split)
  then show ?thesis
    using assms(1) sent cancelled others update_message_keys [of ?f, OF key] pl(1,2)
    by (auto simp: log_simps update_message_keys simp del: map_eq_conv)
qed

lemma sweep_log:
  "log_ok st \<Longrightarrow> distinct (map mr_key ms) \<Longrightarrow> (\<And>m. m \<in> set ms \<Longrightarrow> accepted (mr_key m) st = 0 \<and> mr_key m \<in> set (map mr_key (cs_messages st))) \<Longrightarrow>
    keeps st (foldl (\<lambda>(results, st) message.
      let (result, st') = retry_one env now message st in (results @ [result], st')) (results, st) ms)"
proof (induction ms arbitrary: results st)
  case (Cons m ms)
  obtain result st' where r: "retry_one env now m st = (result, st')" by fastforce
  have l: "log_ok st'" "cs_contact st' = cs_contact st" "map mr_key (cs_messages st') = map mr_key (cs_messages st)"
    "\<And>k. k \<noteq> mr_key m \<Longrightarrow> accepted k st' = accepted k st"
    using retry_one_log [of st m env now] Cons.prems(1) Cons.prems(3) [of m] r by auto
  have "keeps st' (foldl (\<lambda>(results, st) message.
      let (result, st') = retry_one env now message st in (results @ [result], st')) (results @ [result], st') ms)"
  proof (rule Cons.IH [OF l(1)])
    show "distinct (map mr_key ms)" using Cons.prems(2) by simp
    fix x assume x: "x \<in> set ms"
    then have "mr_key x \<noteq> mr_key m" using Cons.prems(2) by (metis distinct.simps(2) image_eqI list.simps(9) set_map)
    then show "accepted (mr_key x) st' = 0 \<and> mr_key x \<in> set (map mr_key (cs_messages st'))"
      using l(3,4) Cons.prems(3) [of x] x by simp
  qed
  then show ?case using l(2) by (simp add: keeps_def r)
qed (simp add: keeps_def)

lemma find_message_distinct:
  "distinct (map mr_key (cs_messages st)) \<Longrightarrow> m \<in> set (cs_messages st) \<Longrightarrow> find_message (mr_key m) st = Some m"
proof -
  assume d: "distinct (map mr_key (cs_messages st))" "m \<in> set (cs_messages st)"
  then obtain r where r: "find_message (mr_key m) st = Some r" using find_message_key [of "mr_key m" st] by auto
  then have "r \<in> set (cs_messages st)" "mr_key r = mr_key m" unfolding find_message_def by (auto simp: find_Some_iff)
  then show ?thesis using d r by (metis distinct_map inj_onD)
qed

lemma sweep_keeps: "log_ok st \<Longrightarrow> keeps st (retryDeferredSmsMessages env now st)"
proof -
  assume l: "log_ok st"
  show ?thesis unfolding retryDeferredSmsMessages_def
  proof (rule sweep_log [OF l])
    have d: "distinct (map mr_key (cs_messages st))" using l by (simp add: log_ok_def)
    then show "distinct (map mr_key (filter (\<lambda>m. mr_status m = M_deferred \<and> mr_channel m = Sms) (cs_messages st)))"
      by (simp add: distinct_map_filter)
    fix m assume m: "m \<in> set (filter (\<lambda>m. mr_status m = M_deferred \<and> mr_channel m = Sms) (cs_messages st))"
    then have "find_message (mr_key m) st = Some m" "mr_status m = M_deferred" using find_message_distinct [OF d] by auto
    then have "accepted (mr_key m) st = 0" using l by (auto simp: log_ok_def)
    then show "accepted (mr_key m) st = 0 \<and> mr_key m \<in> set (map mr_key (cs_messages st))" using m by auto
  qed
qed

lemma direct_keeps: "log_ok st \<Longrightarrow> keeps st (sendDirectEmail env d now st)"
proof (cases "find_message (Direct_key (de_key d)) st")
  case None
  assume l: "log_ok st"
  then have zero: "accepted (Direct_key (de_key d)) st = 0" using None by (auto simp: log_ok_def)
  have t: "keeps st (outcome, snd (transmit env row to body now st))" if "mr_key row = Direct_key (de_key d)" for row to body and outcome :: 'x
    using transmit_log [OF l, of row] zero that by (simp add: keeps_def)
  have w: "keeps st (outcome, writeMessage row st)" if "mr_key row = Direct_key (de_key d)" for row and outcome :: 'y
    using log_ok_write [OF l, of row] zero that by (simp add: keeps_def log_simps)
  show ?thesis
    unfolding sendDirectEmail_def Let_def None option.case
    by (auto simp: case_prod_beta intro!: t w split: option.split) (use l in \<open>simp_all add: keeps_def\<close>)
next
  case (Some m)
  assume "log_ok st"
  then show ?thesis unfolding sendDirectEmail_def Let_def Some option.case by (simp add: keeps_def)
qed

lemma report_log:
  assumes "log_ok st" "type \<noteq> ''email.bounced''"
  shows "log_ok (snd (applyDeliveryEvent env type i now st))"
proof -
  have status: "s = M_sent \<or> s = M_delivered" if "nextDeliveryStatus c incoming = Some s" "statusFromResendEvent type = Some incoming" for c incoming s
    using that assms(2) by (auto simp: nextDeliveryStatus_def statusFromResendEvent_def split: if_splits option.splits)
  have step: "log_ok (update_message k (\<lambda>m. m\<lparr>mr_status := s, mr_error := g m\<rparr>) st)" if "s = M_sent \<or> s = M_delivered" for k s g
  proof -
    note ok = assms(1) [unfolded log_ok_def, THEN conjunct2, rule_format]
    have d: "distinct (map mr_key (cs_messages st))" using assms(1) by (simp add: log_ok_def)
    show ?thesis by (rule log_ok_update [OF d _ ok]) (use ok [of k] that in auto)
  qed
  have contact: "log_ok (st\<lparr>cs_contact := c\<rparr>) = log_ok st" for st c
    by (simp add: log_ok_def accepted_def find_message_def)
  show ?thesis
    unfolding applyDeliveryEvent_def Let_def
    using assms(1) status step
    by (auto simp: contact log_simps split: option.split) (auto simp: bind_eq_Some_conv)
qed

text \<open>Everything that touches the log, each with the facts it finds.\<close>

datatype message_op =
  Do_event comms_env comms_event date
| Do_sweep comms_env date
| Do_direct comms_env direct_email date
| Do_report comms_env string string date
| Do_contact contact_op

fun message_step :: "message_op \<Rightarrow> comms_state \<Rightarrow> comms_state" where
  "message_step (Do_event env e now) st = snd (processCommsEvent env e now st)"
| "message_step (Do_sweep env now) st = snd (retryDeferredSmsMessages env now st)"
| "message_step (Do_direct env d now) st = snd (sendDirectEmail env d now st)"
| "message_step (Do_report env type i now) st = snd (applyDeliveryEvent env type i now st)"
| "message_step (Do_contact op) st = st\<lparr>cs_contact := contact_step op (cs_contact st)\<rparr>"

definition bounce :: "message_op \<Rightarrow> bool" where
  "bounce op \<longleftrightarrow> (case op of Do_report env type i now \<Rightarrow> type = ''email.bounced'' | _ \<Rightarrow> False)"


section \<open>What may be sent\<close>

text \<open>The conditions of the rules of communication on a message handed to a provider for an event.\<close>

definition may_text :: "comms_env \<Rightarrow> date \<Rightarrow> contact_db \<Rightarrow> recipient \<Rightarrow> comms_rule \<Rightarrow> wire_message \<Rightarrow> bool" where
  "may_text env now db recipient rule w \<longleftrightarrow> cr_channel rule = Sms \<and> (\<exists>phone text.
    normalizePhoneE164 (rc_phone recipient) = Some phone \<and> wi_to w = effectiveSmsRecipient env phone \<and>
    smsConsentGranted (rc_tenantId recipient) (cr_class rule) db \<and>
    suppressionFor phone (cr_class rule) Sms db = None \<and>
    notificationAllowed (rc_tenantId recipient) (cr_category rule) Sms db \<and>
    \<not> sms_quiet env (rc_facility recipient) now \<and>
    wi_text w = [T_body text, T_opt_out (rc_locale recipient)])"

definition may_email :: "comms_env \<Rightarrow> date \<Rightarrow> contact_db \<Rightarrow> recipient \<Rightarrow> comms_rule \<Rightarrow> wire_message \<Rightarrow> bool" where
  "may_email env now db recipient rule w \<longleftrightarrow> truthy (rc_email recipient) \<and>
    wi_to w = effectiveRecipient env (toLowerCase (the (rc_email recipient))) \<and>
    suppressionFor (toLowerCase (the (rc_email recipient))) (cr_class rule) Email db = None \<and>
    notificationAllowed (rc_tenantId recipient) (cr_category rule) Email db \<and>
    (\<forall>f. rc_facility recipient = Some f \<longrightarrow> T_postal (rf_id f) \<in> set (wi_text w)) \<and>
    (\<forall>n. rc_nominated recipient = Some n \<longrightarrow> T_payer n \<in> set (wi_text w)) \<and>
    (cr_channel rule = Email \<and> cr_class rule = Marketing \<longrightarrow>
      \<not> isMarketingQuietHours now (facility_zone env recipient) \<and>
      T_unsubscribe (toLowerCase (the (rc_email recipient))) (rc_locale recipient) \<in> set (wi_text w))"

definition may_send :: "comms_env \<Rightarrow> comms_event \<Rightarrow> date \<Rightarrow> contact_db \<Rightarrow> recipient \<Rightarrow> comms_rule \<Rightarrow> wire_message \<Rightarrow> bool" where
  "may_send env e now db recipient rule w \<longleftrightarrow> skip_for env rule recipient e = None \<and> wi_class w = cr_class rule \<and>
    (if wi_channel w = Sms then may_text env now db recipient rule w else may_email env now db recipient rule w)"

text \<open>An attempt only adds to the wire what may be sent.\<close>

definition grows :: "(wire_message \<Rightarrow> bool) \<Rightarrow> comms_state \<Rightarrow> 'a \<times> comms_state \<Rightarrow> bool" where
  "grows P st r \<longleftrightarrow> cs_contact (snd r) = cs_contact st \<and> (\<exists>ws. cs_wire (snd r) = cs_wire st @ ws \<and> (\<forall>w \<in> set ws. P w))"

lemma grows_cases:
  "\<lbrakk>c \<Longrightarrow> grows P st a; \<not> c \<Longrightarrow> grows P st b\<rbrakk> \<Longrightarrow> grows P st (if c then a else b)"
  "\<lbrakk>x = None \<Longrightarrow> grows P st a; \<And>y. x = Some y \<Longrightarrow> grows P st (f y)\<rbrakk> \<Longrightarrow> grows P st (case x of None \<Rightarrow> a | Some y \<Rightarrow> f y)"
  "\<lbrakk>\<And>y. r = Inl y \<Longrightarrow> grows P st (g y); \<And>y. r = Inr y \<Longrightarrow> grows P st (h y)\<rbrakk> \<Longrightarrow> grows P st (case r of Inl y \<Rightarrow> g y | Inr y \<Rightarrow> h y)"
  by (auto split: option.split sum.split)

lemma grows_same: "grows P st (x, st)"
  by (simp add: grows_def)

lemma grows_write: "grows P st (x, writeMessage row st)" "grows P st (end_as row status error outcome st)"
  by (simp_all add: grows_def end_as_def log_simps)

lemma grows_noReachable: "grows P st (noReachableEmail env key e rule recipient error now st)"
  by (simp add: grows_def noReachableEmail_def Let_def log_simps split: option.split)

lemma grows_trans: "grows P st (x, st1) \<Longrightarrow> grows P st1 r \<Longrightarrow> grows P st r"
  by (fastforce simp: grows_def)

lemma grows_transmit:
  assumes "\<And>ok. P \<lparr>wi_channel = mr_channel row, wi_key = mr_key row, wi_to = t, wi_text = body, wi_class = mr_class row,
    wi_at = now, wi_accepted = ok\<rparr>"
  shows "grows P st (x, snd (transmit env row t body now st))"
  using assms by (auto simp: grows_def transmit_def provider_send_def Let_def log_simps split: send_result.split)

lemma fallback_grows:
  assumes "skip_for env rule recipient e = None" "cr_channel rule = Sms"
  shows "grows (may_send env e now (cs_contact st) recipient rule) st (sendEmailFallback env key e rule recipient now st)"
  unfolding sendEmailFallback_def Let_def case_prod_beta
  by (intro grows_cases grows_write grows_noReachable grows_transmit)
    (use assms in \<open>auto simp: may_send_def may_email_def email_text_def\<close>)

lemma deliver_grows:
  assumes "cr_channel rule = Email"
  shows "grows (may_send env e now (cs_contact st) recipient rule) st (deliverForRule env e rule recipient now st)"
  unfolding deliverForRule_def Let_def case_prod_beta
  by (intro grows_cases grows_same grows_write grows_noReachable grows_transmit)
    (use assms in \<open>auto simp: may_send_def may_email_def email_text_def\<close>)

lemma sms_grows:
  assumes "cr_channel rule = Sms"
  shows "grows (may_send env e now (cs_contact st) recipient rule) st (deliverSmsForRule env e rule recipient now st)"
proof -
  have attempt: "grows (may_send env e now (cs_contact st) recipient rule) st
      (let (result, st1) = transmit env row (effectiveSmsRecipient env phone) [T_body t, T_opt_out (rc_locale recipient)] now st
       in case result of Taken p \<Rightarrow> (Some O_sent, st1)
         | Turned_away retryable m \<Rightarrow> if fallback then sendEmailFallback env key e rule recipient now st1 else (outcome_of result, st1))"
    if "skip_for env rule recipient e = None" "sms_refusal rule recipient (cs_contact st) = None"
      "\<not> sms_quiet env (rc_facility recipient) now" "phone = the (normalizePhoneE164 (rc_phone recipient))"
      "mr_channel row = Sms" "mr_class row = cr_class rule" for row phone t key fallback
  proof -
    note prem = that
    obtain p where p: "normalizePhoneE164 (rc_phone recipient) = Some p" and ok: "smsConsentGranted (rc_tenantId recipient) (cr_class rule) (cs_contact st)"
      "suppressionFor p (cr_class rule) Sms (cs_contact st) = None" "notificationAllowed (rc_tenantId recipient) (cr_category rule) Sms (cs_contact st)"
      using prem(2) by (auto simp: sms_refusal_def Let_def split: if_splits option.splits)
    obtain result st1 where t: "transmit env row (effectiveSmsRecipient env phone) [T_body t, T_opt_out (rc_locale recipient)] now st = (result, st1)"
      by fastforce
    have ph: "phone = p" using prem(4) p by simp
    have g: "grows (may_send env e now (cs_contact st) recipient rule) st (x, st1)" for x :: "message_outcome option"
      using grows_transmit [of "may_send env e now (cs_contact st) recipient rule" row "effectiveSmsRecipient env phone"
          "[T_body t, T_opt_out (rc_locale recipient)]" now st x env] prem assms p ok
      by (simp add: t [unfolded ph] ph may_send_def may_text_def)
    have c: "cs_contact st1 = cs_contact st" using g [of None] by (simp add: grows_def)
    show ?thesis
      using g grows_trans [OF g fallback_grows [OF prem(1) assms, of now st1 key, unfolded c]]
      by (simp add: t split: send_result.split)
  qed
  show ?thesis
    unfolding deliverSmsForRule_def Let_def
    by (intro grows_cases grows_same grows_write fallback_grows attempt [unfolded Let_def]) (use assms in simp_all)
qed


section \<open>Where the code falls short of its rules\<close>

text \<open>One tenant with a granted account consent and a granted marketing consent, one facility on UTC whose
  texts go out from 8 to 21, one rule for texts.\<close>

abbreviation example_phone :: string where "example_phone \<equiv> ''+15125550100''"

definition example_db :: contact_db where
  "example_db = \<lparr>cb_tenants = [\<lparr>tr_id = ''t1'', tr_phone = Some ''5125550100'', tr_email = Some ''a@b.c'', tr_emailUndeliverableAt = None\<rparr>],
    cb_leases = [], cb_suppressions = [],
    cb_consents = [\<lparr>co_id = 1, co_tenantId = Some ''t1'', co_leadId = None, co_channel = C_account_sms, co_state = C_granted,
        co_source = ''checkout_step_1'', co_capturedAt = 0\<rparr>,
      \<lparr>co_id = 2, co_tenantId = Some ''t1'', co_leadId = None, co_channel = C_marketing_sms, co_state = C_granted,
        co_source = ''portal_preferences'', co_capturedAt = 0\<rparr>],
    cb_inbound = [], cb_preferences = [], cb_nextId = 3\<rparr>"

definition example_event :: comms_event where
  "example_event = \<lparr>ce_id = ''e1'', ce_name = ''invoice.due_soon'', ce_entityType = ''Invoice'', ce_entityId = ''i1'',
    ce_facilityId = Some ''f1'', ce_occurredAt = 0, ce_counter = False\<rparr>"

definition example_facility :: recipient_facility where
  "example_facility = \<lparr>rf_id = ''f1'', rf_timezone = (\<lambda>_. 0), rf_smsSid = Some ''MG1'', rf_smsStart = 8, rf_smsEnd = 21\<rparr>"

definition example_recipient :: recipient where
  "example_recipient = \<lparr>rc_key = ''t1'', rc_tenantId = Some ''t1'', rc_email = Some ''a@b.c'', rc_phone = Some ''5125550100'',
    rc_locale = ''en'', rc_facility = Some example_facility, rc_leaseId = None, rc_payerAccount = None, rc_nominated = None\<rparr>"

definition example_env :: "message_class \<Rightarrow> bool \<Rightarrow> (nat \<Rightarrow> send_result) \<Rightarrow> comms_env" where
  "example_env cls production answer = \<lparr>en_enabled = True, en_production = production, en_sandboxInbox = Some ''dev@x.y'',
    en_sandboxSms = Some ''+15550000000'', en_resendKey = True, en_twilio = True, en_answer = answer,
    en_rules = (\<lambda>_. [\<lparr>cr_id = ''r1'', cr_facilityId = None, cr_templateKey = ''due'', cr_class = cls, cr_skipConditions = [],
      cr_channel = Sms, cr_policy = Sms_preferred, cr_category = None\<rparr>]),
    en_templates = [\<lparr>mt_key = ''due'', mt_channel = Sms, mt_active = True, mt_locale = ''en'', mt_facilityId = None, mt_version = 1\<rparr>,
      \<lparr>mt_key = ''due'', mt_channel = Email, mt_active = True, mt_locale = ''en'', mt_facilityId = None, mt_version = 1\<rparr>],
    en_predicate = (\<lambda>_. None), en_accountBalance = (\<lambda>_. 0), en_resolve = (\<lambda>_. Some example_recipient),
    en_payer = (\<lambda>_. None), en_nominated = (\<lambda>_. None), en_renderEmail = (\<lambda>_ _ _. Inr ''rent is due''),
    en_renderSms = (\<lambda>_ _ _. Inr ''rent is due''), en_receiptNumber = (\<lambda>_. False),
    en_facility = (\<lambda>_. Some example_facility), en_event = (\<lambda>_. Some example_event), en_rule = (\<lambda>_. None), en_chicago = (\<lambda>_. 0)\<rparr>"

abbreviation empty_log :: comms_state where
  "empty_log \<equiv> \<lparr>cs_contact = example_db, cs_messages = [], cs_wire = [], cs_tasks = []\<rparr>"

abbreviation all_accepted :: "nat \<Rightarrow> send_result" where
  "all_accepted \<equiv> \<lambda>_. Taken None"

text \<open>A text raised in the quiet hours is stored without its words, because the row is written before
  the text is rendered; and the sweep asks neither for consent nor for the suppression list. So in the morning an empty
  text goes to a number that has texted STOP over night.\<close>

theorem deferred_text_leaks:
  "let env = example_env Transactional True all_accepted;
      st = fold message_step [Do_event env example_event (6 * hour_ms),
        Do_contact (Op_text example_phone ''STOP'' (7 * hour_ms)), Do_sweep env (9 * hour_ms)] empty_log
    in map (\<lambda>w. (wi_to w, wi_text w, wi_at w)) (cs_wire st) = [(example_phone, [], 9 * hour_ms)] \<and>
      suppressionFor example_phone Transactional Sms (cs_contact st) = Some R_stop \<and>
      currentConsent ''t1'' C_account_sms (cs_contact st) = Some C_revoked"
  by code_simp

text \<open>The row of a deferred text keeps the real number, and the sweep sends to the row: outside production
  the redirect to the sandbox is skipped.\<close>

theorem deferred_text_escapes_sandbox:
  "let env = example_env Transactional False all_accepted;
      st = fold message_step [Do_event env example_event (6 * hour_ms), Do_sweep env (9 * hour_ms)] empty_log
    in map wi_to (cs_wire st) = [example_phone] \<and> effectiveSmsRecipient env example_phone = ''+15550000000''"
  by code_simp

text \<open>A marketing text the provider refuses falls back to an email without the link to unsubscribe; the
  refusal before the attempt is checked for the class, the one after it is not. And the consent kept as evidence
  of a marketing text is that of the account lane.\<close>

theorem marketing_text_falls_back:
  "let env = example_env Marketing True (\<lambda>n. if n = 0 then Turned_away False ''down'' else Taken None);
      st = snd (processCommsEvent env example_event (12 * hour_ms) empty_log)
    in map (\<lambda>w. (wi_channel w, wi_class w, wi_accepted w)) (cs_wire st) = [(Sms, Marketing, False), (Email, Marketing, True)] \<and>
      T_unsubscribe ''a@b.c'' ''en'' \<notin> set (wi_text (cs_wire st ! 1))"
  by code_simp

theorem marketing_evidence_is_account_consent:
  "let st = snd (processCommsEvent (example_env Marketing True all_accepted) example_event (12 * hour_ms) empty_log)
    in map (\<lambda>m. (mr_status m, mr_consentId m)) (cs_messages st) = [(M_sent, Some 1)] \<and>
      map co_channel (filter (\<lambda>r. co_id r = 1) (cb_consents example_db)) = [C_account_sms]"
  by code_simp



end
