(* ===== verification/Payments.thy ===== *)
theory Payments
  imports Allocation Ledger Pos
begin

text \<open>
  Money in (\<open>apps/web/lib/billing/allocation.ts\<close> and \<open>credit.ts\<close>) over the tables it is kept in: what a
  payer owes is split into claims, a payment is allocated to them and posted to the ledgers of the
  leases it settled, and what no invoice claimed is credit that pays later invoices. Every operation
  is a function of the books. A payment, an allocation or a ledger entry has the number the database
  gave it; ids made in the order of creation stand for cuids.
\<close>

section \<open>The books\<close>

datatype item_type = Rent_item | Fee_item | Protection_item | Tax_item | Discount_item

datatype invoice_status = I_draft | I_open | I_partially_paid | I_paid | I_void | I_uncollectible

datatype payment_status =
  P_pending | P_processing | P_succeeded | P_failed | P_refunded | P_partially_refunded | P_returned

record book_lease =
  bl_id :: string
  bl_facilityId :: string
  bl_tenantId :: string
  bl_accountId :: "string option"
  bl_startDate :: date
  bl_ended :: bool

record book_account =
  ba_id :: string
  ba_payerTenantId :: string

record book_plan =
  bp_leaseId :: string
  bp_active :: bool
  bp_invoiceIds :: "string list"

record book_invoice =
  bi_id :: string
  bi_facilityId :: string
  bi_leaseId :: string
  bi_fee :: bool
  bi_status :: invoice_status
  bi_periodStart :: date
  bi_dueDate :: date
  bi_totalCents :: cents
  bi_amountPaidCents :: cents
  bi_items :: "(item_type \<times> cents) list"

record book_payment =
  py_id :: nat
  py_facilityId :: string
  py_tenantId :: string
  py_amountCents :: cents
  py_method :: pay_method
  py_status :: payment_status
  py_receivedAt :: date
  py_refundOf :: "nat option"
  py_intentId :: "string option"
  py_stripeRefundId :: "string option"

record book_allocation =
  pa_id :: nat
  pa_paymentId :: nat
  pa_invoiceId :: string
  pa_amountCents :: cents

record book_entry =
  be_id :: nat
  be_leaseId :: string
  be_kind :: ledger_kind
  be_amountCents :: cents
  be_paymentId :: "nat option"
  be_invoiceId :: "string option"
  be_reversalOf :: "nat option"
  be_occurredAt :: date
  be_correction :: bool

record fee_price =
  fp_facilityId :: string
  fp_feeType :: string
  fp_effectiveFrom :: date
  fp_amountCents :: cents

text \<open>\<open>bk_order\<close> is \<open>facility.paymentAllocationOrder\<close>.\<close>

record books =
  bk_leases :: "book_lease list"
  bk_accounts :: "book_account list"
  bk_plans :: "book_plan list"
  bk_prices :: "fee_price list"
  bk_order :: "string \<Rightarrow> string list"
  bk_invoices :: "book_invoice list"
  bk_payments :: "book_payment list"
  bk_allocations :: "book_allocation list"
  bk_entries :: "book_entry list"
  bk_nextId :: nat

definition payment_status_settles :: "payment_status \<Rightarrow> bool" where
  "payment_status_settles s \<longleftrightarrow> s \<in> {P_succeeded, P_partially_refunded, P_refunded}"

definition find_payment :: "nat \<Rightarrow> books \<Rightarrow> book_payment option" where
  "find_payment i b = find (\<lambda>p. py_id p = i) (bk_payments b)"

definition find_invoice :: "string \<Rightarrow> books \<Rightarrow> book_invoice option" where
  "find_invoice i b = find (\<lambda>v. bi_id v = i) (bk_invoices b)"

definition find_allocation :: "nat \<Rightarrow> string \<Rightarrow> books \<Rightarrow> book_allocation option" where
  "find_allocation p i b = find (\<lambda>a. pa_paymentId a = p \<and> pa_invoiceId a = i) (bk_allocations b)"

definition lease_of :: "string \<Rightarrow> books \<Rightarrow> book_lease option" where
  "lease_of i b = find (\<lambda>l. bl_id l = i) (bk_leases b)"

section \<open>What a payer owes\<close>

fun categoryOf :: "item_type \<Rightarrow> allocation_category option" where
  "categoryOf Tax_item = Some Tax"
| "categoryOf Fee_item = Some Fee"
| "categoryOf Protection_item = Some Protection"
| "categoryOf Rent_item = Some Rent"
| "categoryOf Discount_item = None"

definition orderFor :: "string list \<Rightarrow> allocation_category list" where
  "orderFor raw = (let parsed = List.map_filter isAllocationCategory raw
    in if parsed \<noteq> [] then parsed else DEFAULT_ALLOCATION_ORDER)"

definition payableLeaseWhere :: "string \<Rightarrow> books \<Rightarrow> book_lease \<Rightarrow> bool" where
  "payableLeaseWhere tenantId b l \<longleftrightarrow> bl_tenantId l = tenantId \<or>
    list_ex (\<lambda>a. bl_accountId l = Some (ba_id a) \<and> ba_payerTenantId a = tenantId) (bk_accounts b)"

definition payableLeaseFilter :: "string \<Rightarrow> string \<Rightarrow> books \<Rightarrow> book_lease \<Rightarrow> bool" where
  "payableLeaseFilter tenantId facilityId b l \<longleftrightarrow> bl_facilityId l = facilityId \<and> payableLeaseWhere tenantId b l"

definition lease_is :: "(book_lease \<Rightarrow> bool) \<Rightarrow> string \<Rightarrow> books \<Rightarrow> bool" where
  "lease_is P leaseId b = (case lease_of leaseId b of None \<Rightarrow> False | Some l \<Rightarrow> P l)"

definition still_open :: "book_invoice \<Rightarrow> bool" where
  "still_open i \<longleftrightarrow> bi_status i = I_open \<or> bi_status i = I_partially_paid"

definition claim_of :: "book_invoice \<Rightarrow> allocation_category \<Rightarrow> cents \<Rightarrow> allocation_target" where
  "claim_of i category n = \<lparr>at_invoiceId = bi_id i, at_category = category, at_outstandingCents = n,
    at_dueDate = bi_dueDate i\<rparr>"

definition claimable_items :: "book_invoice \<Rightarrow> (allocation_category \<times> cents) list" where
  "claimable_items i = List.map_filter (\<lambda>(t, n). case categoryOf t of
    None \<Rightarrow> None | Some c \<Rightarrow> if 0 < n then Some (c, n) else None) (bi_items i)"

fun share_claims :: "book_invoice \<Rightarrow> cents \<Rightarrow> cents \<Rightarrow> cents \<Rightarrow> (allocation_category \<times> cents) list \<Rightarrow> allocation_target list" where
  "share_claims i outstanding gross assigned [] = []"
| "share_claims i outstanding gross assigned ((category, categoryGross) # entries) = (
    let share = if entries = [] then outstanding - assigned else round_div (outstanding * categoryGross) gross
    in (if 0 < share then [claim_of i category share] else []) @
       share_claims i outstanding gross (assigned + share) entries)"

definition invoice_claims :: "book_invoice \<Rightarrow> allocation_target list" where
  "invoice_claims i = (
    let outstanding = bi_totalCents i - bi_amountPaidCents i; gross = sum_by snd (claimable_items i)
    in if outstanding \<le> 0 then []
       else if gross \<le> 0 then [claim_of i Rent outstanding]
       else share_claims i outstanding gross 0 (tally fst snd (claimable_items i)))"

definition claimsFor :: "string \<Rightarrow> string \<Rightarrow> books \<Rightarrow> allocation_target list" where
  "claimsFor tenantId facilityId b = concat (map invoice_claims (filter (\<lambda>i. bi_facilityId i = facilityId \<and>
    still_open i \<and> lease_is (payableLeaseFilter tenantId facilityId b) (bi_leaseId i) b) (bk_invoices b)))"

text \<open>The map from leases to what their active plans froze, as a list.\<close>

definition coveredByPlan :: "string \<Rightarrow> string \<Rightarrow> books \<Rightarrow> (string \<times> string list) list" where
  "coveredByPlan tenantId facilityId b = map (\<lambda>p. (bp_leaseId p, bp_invoiceIds p))
    (filter (\<lambda>p. bp_active p \<and> lease_is (payableLeaseFilter tenantId facilityId b) (bp_leaseId p) b) (bk_plans b))"

section \<open>Applying a payment\<close>

record paid_in =
  pi_id :: nat
  pi_tenantId :: string
  pi_facilityId :: string
  pi_amountCents :: cents

record apply_options =
  ao_explicitInvoiceId :: "string option"
  ao_restrictToInvoiceIds :: "string list option"
  ao_restrictIsAbsolute :: bool
  ao_accountId :: "string option"

record applied_payment =
  ap_lines :: "allocation_line list"
  ap_unappliedCents :: cents
  ap_summary :: "(string \<times> cents) list"

definition on_account :: "string \<Rightarrow> paid_in \<Rightarrow> books \<Rightarrow> string list" where
  "on_account accountId payment b = map bi_id (filter (\<lambda>i. bi_facilityId i = pi_facilityId payment \<and>
    lease_is (\<lambda>l. bl_accountId l = Some accountId \<and>
      list_ex (\<lambda>a. ba_id a = accountId \<and> ba_payerTenantId a = pi_tenantId payment) (bk_accounts b)) (bi_leaseId i) b)
    (bk_invoices b))"

definition post_plan :: "(string \<times> string list) list \<Rightarrow> paid_in \<Rightarrow> books \<Rightarrow> string list" where
  "post_plan byLease payment b = map bi_id (filter (\<lambda>i. bi_facilityId i = pi_facilityId payment \<and>
    bi_leaseId i \<in> set (map fst byLease) \<and> bi_id i \<notin> set (concat (map snd byLease))) (bk_invoices b))"

definition in_invoices :: "string list \<Rightarrow> allocation_target \<Rightarrow> bool" where
  "in_invoices ids t \<longleftrightarrow> at_invoiceId t \<in> set ids"

text \<open>The claims the money may go to and those it goes to only afterwards.\<close>

definition select_claims :: "paid_in \<Rightarrow> apply_options \<Rightarrow> books \<Rightarrow> allocation_target list \<times> allocation_target list" where
  "select_claims payment options b = (
    let targets = claimsFor (pi_tenantId payment) (pi_facilityId payment) b;
        targets = (if truthy (ao_accountId options)
          then filter (in_invoices (on_account (the (ao_accountId options)) payment b)) targets else targets);
        targets = (case ao_restrictToInvoiceIds options of None \<Rightarrow> targets
          | Some covered \<Rightarrow> let narrowed = filter (in_invoices covered) targets
              in if narrowed \<noteq> [] \<or> ao_restrictIsAbsolute options then narrowed else targets);
        byLease = coveredByPlan (pi_tenantId payment) (pi_facilityId payment) b;
        later = (if \<not> truthy (ao_explicitInvoiceId options) \<and>
            (ao_restrictToInvoiceIds options = None \<or> ao_restrictIsAbsolute options) \<and> byLease \<noteq> []
          then post_plan byLease payment b else []);
        deferred = filter (in_invoices later) targets;
        targets = filter (\<lambda>t. \<not> in_invoices later t) targets;
        targets = (if truthy (ao_explicitInvoiceId options)
          then let named = filter (in_invoices [the (ao_explicitInvoiceId options)]) targets
            in if named \<noteq> [] then named else targets
          else targets)
    in (targets, deferred))"

text \<open>The rows that are still open once their locks are granted.\<close>

definition lock_open :: "books \<Rightarrow> allocation_target list \<Rightarrow> allocation_target list" where
  "lock_open b = filter (in_invoices (map bi_id (filter still_open (bk_invoices b))))"

definition settle_claims :: "cents \<Rightarrow> allocation_category list \<Rightarrow> allocation_target list \<Rightarrow> allocation_target list \<Rightarrow> allocation_result" where
  "settle_claims amount order targets deferred = (
    let first = allocatePayment amount targets order;
        second = (if 0 < ar_unappliedCents first \<and> deferred \<noteq> []
          then allocatePayment (ar_unappliedCents first) deferred order
          else \<lparr>ar_lines = [], ar_unappliedCents = ar_unappliedCents first\<rparr>)
    in \<lparr>ar_lines = ar_lines first @ ar_lines second, ar_unappliedCents = ar_unappliedCents second\<rparr>)"

text \<open>One row per payment and invoice.\<close>

definition set_amount :: "nat \<Rightarrow> string \<Rightarrow> cents \<Rightarrow> book_allocation \<Rightarrow> book_allocation" where
  "set_amount p i n a = (if pa_paymentId a = p \<and> pa_invoiceId a = i then a\<lparr>pa_amountCents := n\<rparr> else a)"

definition put_allocation :: "nat \<Rightarrow> string \<Rightarrow> cents \<Rightarrow> books \<Rightarrow> books" where
  "put_allocation p i n b = (if find_allocation p i b \<noteq> None
    then b\<lparr>bk_allocations := map (set_amount p i n) (bk_allocations b)\<rparr>
    else b\<lparr>bk_allocations := bk_allocations b @ [\<lparr>pa_id = bk_nextId b, pa_paymentId = p, pa_invoiceId = i, pa_amountCents = n\<rparr>],
      bk_nextId := bk_nextId b + 1\<rparr>)"

definition payment_settles :: "books \<Rightarrow> nat \<Rightarrow> bool" where
  "payment_settles b p = (case find_payment p b of None \<Rightarrow> False | Some row \<Rightarrow> payment_status_settles (py_status row))"

definition settled_cents :: "string \<Rightarrow> books \<Rightarrow> cents" where
  "settled_cents i b = sum_by pa_amountCents
    (filter (\<lambda>a. pa_invoiceId a = i \<and> payment_settles b (pa_paymentId a)) (bk_allocations b))"

definition paid_status :: "cents \<Rightarrow> cents \<Rightarrow> invoice_status" where
  "paid_status paid owed = (if owed \<le> paid then I_paid else if 0 < paid then I_partially_paid else I_open)"

definition put_invoice :: "book_invoice \<Rightarrow> books \<Rightarrow> books" where
  "put_invoice v b = b\<lparr>bk_invoices := map (\<lambda>u. if bi_id u = bi_id v then v else u) (bk_invoices b)\<rparr>"

definition refreshed :: "books \<Rightarrow> book_invoice \<Rightarrow> book_invoice" where
  "refreshed b v = v\<lparr>bi_amountPaidCents := settled_cents (bi_id v) b,
    bi_status := paid_status (settled_cents (bi_id v) b) (bi_totalCents v)\<rparr>"

definition recompute_one :: "string \<Rightarrow> books \<Rightarrow> books" where
  "recompute_one i b = (case find_invoice i b of
      None \<Rightarrow> b
    | Some v \<Rightarrow> if bi_status v = I_void then b
        else put_invoice (refreshed b v) b)"

definition recomputeInvoices :: "string list \<Rightarrow> books \<Rightarrow> books" where
  "recomputeInvoices ids b = fold recompute_one (remdups ids) b"

text \<open>The second half of \<open>applyPayment\<close>, from the locks on: the selection was read from other books when
  another transaction committed in between.\<close>

definition apply_locked :: "paid_in \<Rightarrow> allocation_target list \<times> allocation_target list \<Rightarrow> books \<Rightarrow> applied_payment \<times> books" where
  "apply_locked payment selected b = (
    let order = orderFor (bk_order b (pi_facilityId payment));
        result = settle_claims (pi_amountCents payment) order (lock_open b (fst selected)) (lock_open b (snd selected));
        lines = ar_lines result;
        b = fold (\<lambda>(i, n). put_allocation (pi_id payment) i n) (byInvoice lines) b
    in (\<lparr>ap_lines = lines, ap_unappliedCents = ar_unappliedCents result, ap_summary = describeAllocation lines\<rparr>,
        recomputeInvoices (map fst (byInvoice lines)) b))"

definition applyPayment :: "paid_in \<Rightarrow> apply_options \<Rightarrow> books \<Rightarrow> applied_payment \<times> books" where
  "applyPayment payment options b = apply_locked payment (select_claims payment options b) b"

section \<open>The ledger\<close>

definition add_entry :: "string \<Rightarrow> ledger_kind \<Rightarrow> cents \<Rightarrow> nat option \<Rightarrow> string option \<Rightarrow> nat option \<Rightarrow> date \<Rightarrow> books \<Rightarrow> books" where
  "add_entry leaseId kind n payment invoice reversal now b = b\<lparr>bk_entries := bk_entries b @
      [\<lparr>be_id = bk_nextId b, be_leaseId = leaseId, be_kind = kind, be_amountCents = n, be_paymentId = payment,
        be_invoiceId = invoice, be_reversalOf = reversal, be_occurredAt = now, be_correction = False\<rparr>],
    bk_nextId := bk_nextId b + 1\<rparr>"

definition invoice_lease :: "books \<Rightarrow> string \<Rightarrow> string option" where
  "invoice_lease b i = map_option bi_leaseId (find_invoice i b)"

definition credited :: "books \<Rightarrow> allocation_line list \<Rightarrow> (string \<times> cents) list" where
  "credited b lines = tally fst snd (List.map_filter (\<lambda>line.
    if truthy (invoice_lease b (al_invoiceId line))
    then Some (the (invoice_lease b (al_invoiceId line)), al_amountCents line) else None) lines)"

definition postPaymentLedger :: "paid_in \<Rightarrow> applied_payment \<Rightarrow> string option \<Rightarrow> date \<Rightarrow> books \<Rightarrow> books" where
  "postPaymentLedger payment applied anchor now b = (
    if list_ex (\<lambda>e. be_paymentId e = Some (pi_id payment) \<and> be_kind e = Payment) (bk_entries b) then b
    else let byLease = credited b (ap_lines applied);
        remainder = pi_amountCents payment - sum_by snd byLease;
        byLease = (if 0 < remainder \<and> truthy anchor then add_total (the anchor) remainder byLease else byLease)
      in fold (\<lambda>(lease, n). add_entry lease Payment (- n) (Some (pi_id payment)) None None now)
        (filter (\<lambda>(lease, n). n \<noteq> 0) byLease) b)"

definition leasesWithSettlingPayment :: "string \<Rightarrow> books \<Rightarrow> string list" where
  "leasesWithSettlingPayment facilityId b = (
    let settling = map py_tenantId (filter (\<lambda>p. py_facilityId p = facilityId \<and> py_status p = P_processing) (bk_payments b))
    in map bl_id (filter (\<lambda>l. bl_facilityId l = facilityId \<and> bl_tenantId l \<in> set settling) (bk_leases b)))"

section \<open>Credit on account\<close>

definition allocated_cents :: "nat \<Rightarrow> books \<Rightarrow> cents" where
  "allocated_cents p b = sum_by pa_amountCents (filter (\<lambda>a. pa_paymentId a = p) (bk_allocations b))"

definition refunded_cents :: "nat \<Rightarrow> books \<Rightarrow> cents" where
  "refunded_cents p b = sum_by py_amountCents (filter (\<lambda>r. py_refundOf r = Some p \<and> py_status r \<noteq> P_failed) (bk_payments b))"

definition unclaimedCents :: "books \<Rightarrow> book_payment \<Rightarrow> cents" where
  "unclaimedCents b p = max 0 (py_amountCents p - allocated_cents (py_id p) b - refunded_cents (py_id p) b)"

definition in_hand :: "string \<Rightarrow> string \<Rightarrow> book_payment \<Rightarrow> bool" where
  "in_hand tenantId facilityId p \<longleftrightarrow> py_facilityId p = facilityId \<and> py_tenantId p = tenantId \<and>
    payment_status_settles (py_status p) \<and> py_refundOf p = None"

definition creditByTenant :: "string \<Rightarrow> string list \<Rightarrow> books \<Rightarrow> (string \<times> cents) list" where
  "creditByTenant facilityId tenantIds b = tally py_tenantId (unclaimedCents b)
    (filter (\<lambda>p. py_tenantId p \<in> set tenantIds \<and> in_hand (py_tenantId p) facilityId p \<and> 0 < unclaimedCents b p)
      (bk_payments b))"

definition creditCentsFor :: "string \<Rightarrow> string \<Rightarrow> books \<Rightarrow> cents" where
  "creditCentsFor tenantId facilityId b = or_else (map_of (creditByTenant facilityId [tenantId] b) tenantId) 0"

fun credit_takes :: "books \<Rightarrow> cents \<Rightarrow> book_payment list \<Rightarrow> (book_payment \<times> cents) list \<times> cents" where
  "credit_takes b room [] = ([], room)"
| "credit_takes b room (payment # payments) = (
    if room \<le> 0 then ([], room)
    else let spare = unclaimedCents b payment in
      if spare \<le> 0 then credit_takes b room payments
      else let taken = min spare room; (takes, rest) = credit_takes b (room - taken) payments
        in ((payment, taken) # takes, rest))"

definition add_allocation :: "nat \<Rightarrow> string \<Rightarrow> cents \<Rightarrow> books \<Rightarrow> books" where
  "add_allocation p i taken b = put_allocation p i
    ((case find_allocation p i b of None \<Rightarrow> 0 | Some existing \<Rightarrow> pa_amountCents existing) + taken) b"

text \<open>The cents applied and the books. What the loop reads was read before it writes.\<close>

definition applyCreditToInvoice :: "string \<Rightarrow> string \<Rightarrow> string \<Rightarrow> books \<Rightarrow> cents \<times> books" where
  "applyCreditToInvoice tenantId facilityId invoiceId b = (case find_invoice invoiceId b of
      None \<Rightarrow> (0, b)
    | Some invoice \<Rightarrow>
        let room = bi_totalCents invoice - bi_amountPaidCents invoice in
        if room \<le> 0 then (0, b)
        else let takes = fst (credit_takes b room
                (sort_by (by_key py_receivedAt) (filter (in_hand tenantId facilityId) (bk_payments b))));
              applied = sum_by snd takes;
              b = fold (\<lambda>(payment, taken). add_allocation (py_id payment) (bi_id invoice) taken) takes b
          in (applied, if 0 < applied then recomputeInvoices [bi_id invoice] b else b))"

datatype credit_refusal = Credit_not_found | Credit_forbidden | Owes_nothing | No_credit

definition applyCreditByStaff :: "(string \<Rightarrow> bool) \<Rightarrow> string \<Rightarrow> books \<Rightarrow> (credit_refusal + cents) \<times> books" where
  "applyCreditByStaff can_take invoiceId b = (case find_invoice invoiceId b of
      None \<Rightarrow> (Inl Credit_not_found, b)
    | Some invoice \<Rightarrow>
        if \<not> can_take (bi_facilityId invoice) then (Inl Credit_forbidden, b)
        else if bi_totalCents invoice - bi_amountPaidCents invoice \<le> 0 then (Inl Owes_nothing, b)
        else case lease_of (bi_leaseId invoice) b of
          None \<Rightarrow> (Inl Credit_not_found, b)
        | Some lease \<Rightarrow>
            let (applied, b) = applyCreditToInvoice (bl_tenantId lease) (bi_facilityId invoice) (bi_id invoice) b
            in (if 0 < applied then Inr applied else Inl No_credit, b))"

section \<open>Example books\<close>

definition lease_example :: "string \<Rightarrow> book_lease" where
  "lease_example l = \<lparr>bl_id = l, bl_facilityId = ''f1'', bl_tenantId = ''t1'', bl_accountId = None, bl_startDate = 0, bl_ended = False\<rparr>"

definition rent_example :: "string \<Rightarrow> string \<Rightarrow> invoice_status \<Rightarrow> cents \<Rightarrow> date \<Rightarrow> book_invoice" where
  "rent_example i l s n due = \<lparr>bi_id = i, bi_facilityId = ''f1'', bi_leaseId = l, bi_fee = False, bi_status = s, bi_periodStart = due, bi_dueDate = due,
    bi_totalCents = n, bi_amountPaidCents = 0, bi_items = [(Rent_item, n)]\<rparr>"

definition cash_example :: "nat \<Rightarrow> cents \<Rightarrow> book_payment" where
  "cash_example p n = \<lparr>py_id = p, py_facilityId = ''f1'', py_tenantId = ''t1'', py_amountCents = n, py_method = Cash,
    py_status = P_succeeded, py_receivedAt = 1, py_refundOf = None, py_intentId = None, py_stripeRefundId = None\<rparr>"

definition books_example :: "book_invoice list \<Rightarrow> book_payment list \<Rightarrow> books" where
  "books_example invoices payments = \<lparr>bk_leases = [lease_example ''l1'', lease_example ''l2''], bk_accounts = [], bk_plans = [],
    bk_prices = [], bk_order = (\<lambda>_. []), bk_invoices = invoices, bk_payments = payments, bk_allocations = [], bk_entries = [],
    bk_nextId = 10\<rparr>"

definition undirected :: apply_options where
  "undirected = \<lparr>ao_explicitInvoiceId = None, ao_restrictToInvoiceIds = None, ao_restrictIsAbsolute = False, ao_accountId = None\<rparr>"

definition paid_example :: "nat \<Rightarrow> cents \<Rightarrow> paid_in" where
  "paid_example p n = \<lparr>pi_id = p, pi_tenantId = ''t1'', pi_facilityId = ''f1'', pi_amountCents = n\<rparr>"

text \<open>A payment of the counter: the row, the allocation, the ledger.\<close>

definition counter_example :: "nat \<Rightarrow> cents \<Rightarrow> books \<Rightarrow> books" where
  "counter_example p n b = (let (applied, c) = applyPayment (paid_example p n) undirected
      (b\<lparr>bk_payments := bk_payments b @ [cash_example p n]\<rparr>)
    in postPaymentLedger (paid_example p n) applied (Some ''l1'') 1 c)"

definition paid_of :: "string \<Rightarrow> books \<Rightarrow> (cents \<times> invoice_status) option" where
  "paid_of i b = map_option (\<lambda>v. (bi_amountPaidCents v, bi_status v)) (find_invoice i b)"

section \<open>Claims add up\<close>

lemma sum_by_pos: "xs \<noteq> [] \<Longrightarrow> (\<And>x. x \<in> set xs \<Longrightarrow> 0 < f x) \<Longrightarrow> 0 < sum_by f xs"
proof (induction xs)
  case (Cons x xs)
  then show ?case by (cases "xs = []") (force intro: add_pos_pos)+
qed simp

lemma sum_by_butlast: "xs \<noteq> [] \<Longrightarrow> sum_by f xs = sum_by f (butlast xs) + f (last xs)"
  by (induction xs) auto

lemma tally_values: "(k, n) \<in> set (tally key val xs) \<Longrightarrow> (\<And>x. x \<in> set xs \<Longrightarrow> 0 < val x) \<Longrightarrow> 0 < n"
proof -
  assume e: "(k, n) \<in> set (tally key val xs)" and pos: "\<And>x. x \<in> set xs \<Longrightarrow> 0 < val x"
  then have n: "n = sum_by val (filter (\<lambda>x. key x = k) xs)" by (simp add: tally_entry)
  have "k \<in> key ` set xs" using e tally_keys [of key val xs] by force
  then have "filter (\<lambda>x. key x = k) xs \<noteq> []" by (auto simp: filter_empty_conv)
  then show "0 < n" unfolding n by (rule sum_by_pos) (simp add: pos)
qed

lemma share_claims_sum:
  assumes "0 < gross" "0 \<le> outstanding" "\<forall>e \<in> set entries. 0 \<le> snd e" "entries \<noteq> []"
  shows "assigned + sum_by at_outstandingCents (share_claims i outstanding gross assigned entries) =
    max outstanding (assigned + sum_by (\<lambda>e. round_div (outstanding * snd e) gross) (butlast entries))"
  using assms(3,4)
proof (induction entries arbitrary: assigned)
  case (Cons e entries)
  have nn: "0 \<le> round_div (outstanding * snd e) gross" using Cons.prems assms(1,2) by (intro round_div_nonneg) auto
  show ?case
  proof (cases "entries = []")
    case False
    then show ?thesis
      using Cons.IH [of "assigned + round_div (outstanding * snd e) gross"] Cons.prems nn
      by (cases e) (auto simp: Let_def claim_of_def algebra_simps)
  qed (cases e, auto simp: Let_def claim_of_def)
qed simp

lemma rounded_shares:
  assumes "0 < gross"
  shows "2 * gross * sum_by (\<lambda>e. round_div (n * snd e) gross) es \<le> 2 * n * sum_by snd es + int (length es) * gross"
proof (induction es)
  case (Cons e es)
  then show ?case using round_div_bounds(1) [OF assms, of "n * snd e"] by (simp add: algebra_simps)
qed simp

lemma share_claims_mem:
  "t \<in> set (share_claims i outstanding gross assigned entries) \<Longrightarrow>
    0 < at_outstandingCents t \<and> at_invoiceId t = bi_id i \<and> at_dueDate t = bi_dueDate i"
  by (induction i outstanding gross assigned entries rule: share_claims.induct)
    (auto simp: Let_def claim_of_def split: if_splits)

lemma claimable_items_pos: "e \<in> set (claimable_items i) \<Longrightarrow> 0 < snd e"
  by (auto simp: claimable_items_def map_filter_def split: option.splits if_splits)

lemma invoice_claims_mem:
  "t \<in> set (invoice_claims i) \<Longrightarrow> 0 < at_outstandingCents t \<and> at_invoiceId t = bi_id i \<and> at_dueDate t = bi_dueDate i"
  by (auto simp: invoice_claims_def Let_def claim_of_def dest: share_claims_mem split: if_splits)

lemma categories_le_4: "distinct xs \<Longrightarrow> length (xs :: allocation_category list) \<le> 4"
proof -
  have u: "(UNIV :: allocation_category set) = {Tax, Fee, Protection, Rent}"
    using allocation_category.exhaust by auto
  assume "distinct xs"
  then have "length xs = card (set xs)" by (simp add: distinct_card)
  also have "\<dots> \<le> card {Tax, Fee, Protection, Rent}" by (intro card_mono) (simp, metis u subset_UNIV)
  finally show ?thesis by simp
qed

lemma categories_lt_4: "distinct xs \<Longrightarrow> c \<notin> set xs \<Longrightarrow> length (xs :: allocation_category list) \<le> 3"
  using categories_le_4 [of "c # xs"] by simp

text \<open>C6. The claims of an invoice are what it owes, split by category. None is zero or negative, they
  name the invoice and its due date, and they add up to the outstanding amount: exactly when the invoice
  lacks one of the four categories, and else with at most one cent too many, never too few, so every
  invoice can be paid off. A settled invoice makes no claim.\<close>

theorem claims_split:
  "(bi_totalCents i \<le> bi_amountPaidCents i \<longrightarrow> invoice_claims i = []) \<and>
    (bi_amountPaidCents i < bi_totalCents i \<longrightarrow>
      bi_totalCents i - bi_amountPaidCents i \<le> sum_by at_outstandingCents (invoice_claims i) \<and>
      sum_by at_outstandingCents (invoice_claims i) \<le> bi_totalCents i - bi_amountPaidCents i + 1 \<and>
      (c \<notin> fst ` set (claimable_items i) \<longrightarrow>
        sum_by at_outstandingCents (invoice_claims i) = bi_totalCents i - bi_amountPaidCents i)) \<and>
    (t \<in> set (invoice_claims i) \<longrightarrow>
      0 < at_outstandingCents t \<and> at_invoiceId t = bi_id i \<and> at_dueDate t = bi_dueDate i)"
proof (intro conjI impI)
  let ?n = "bi_totalCents i - bi_amountPaidCents i" and ?g = "sum_by snd (claimable_items i)"
  let ?es = "tally fst snd (claimable_items i)"
  let ?R = "sum_by (\<lambda>e. round_div (?n * snd e) ?g) (butlast ?es)"
  let ?S = "sum_by at_outstandingCents (invoice_claims i)"
  assume owed: "bi_amountPaidCents i < bi_totalCents i"
  have split: "?S = max ?n ?R \<and> 2 * ?R < 2 * ?n + int (length ?es) - 1" if g: "0 < ?g"
  proof -
    have "claimable_items i \<noteq> []" using g by auto
    then have ne: "?es \<noteq> []" using tally_keys [of fst snd "claimable_items i"] by (auto simp del: tally_keys)
    have pos: "0 < snd e" if "e \<in> set ?es" for e
      using tally_values [of "fst e" "snd e" fst snd "claimable_items i"] that claimable_items_pos by auto
    have "?S = max ?n ?R"
      using share_claims_sum [of ?g ?n ?es 0 i] g owed ne pos by (force simp: invoice_claims_def Let_def intro: less_imp_le)
    moreover have "sum_by snd ?es = ?g" by simp
    moreover have "sum_by snd ?es = sum_by snd (butlast ?es) + snd (last ?es)"
      using ne by (rule sum_by_butlast)
    moreover have "0 < snd (last ?es)" using pos ne by simp
    ultimately have "sum_by snd (butlast ?es) < ?g" by simp
    then have "2 * ?n * sum_by snd (butlast ?es) < 2 * ?n * ?g" using owed by simp
    with rounded_shares [OF g, of ?n "butlast ?es"]
    have "2 * ?g * ?R < 2 * ?n * ?g + int (length (butlast ?es)) * ?g" by linarith
    then have "?g * (2 * ?R) < ?g * (2 * ?n + int (length (butlast ?es)))" by (simp add: algebra_simps)
    then have "2 * ?R < 2 * ?n + int (length (butlast ?es))" using g by simp
    moreover have "int (length (butlast ?es)) = int (length ?es) - 1" using ne by (cases ?es) simp_all
    ultimately show ?thesis using \<open>?S = max ?n ?R\<close> by simp
  qed
  have whole: "?S = ?n" if "\<not> 0 < ?g" using that owed by (simp add: invoice_claims_def Let_def claim_of_def)
  have d: "distinct (map fst ?es)" by simp
  show "?n \<le> ?S" using split whole by (cases "0 < ?g") auto
  show "?S \<le> ?n + 1"
    using split whole categories_le_4 [OF d] by (cases "0 < ?g") auto
  show "?S = ?n" if "c \<notin> fst ` set (claimable_items i)"
  proof -
    have "c \<notin> set (map fst ?es)" using that by (simp add: tally_keys)
    then have "length ?es \<le> 3" using categories_lt_4 [OF d] by simp
    then show ?thesis using split whole by (cases "0 < ?g") auto
  qed
qed (auto simp: invoice_claims_mem, simp add: invoice_claims_def)

text \<open>Four categories of equal weight and two cents to pay: three cents are claimed, and a payment of
  three cents is taken in full by the invoice.\<close>

definition even_invoice :: book_invoice where
  "even_invoice = \<lparr>bi_id = ''i1'', bi_facilityId = ''f1'', bi_leaseId = ''l1'', bi_fee = False, bi_status = I_partially_paid,
    bi_periodStart = 0, bi_dueDate = 0, bi_totalCents = 40, bi_amountPaidCents = 38,
    bi_items = [(Rent_item, 10), (Protection_item, 10), (Fee_item, 10), (Tax_item, 10)]\<rparr>"

theorem claims_split_witness:
  "3 - 1 \<le> sum_by at_outstandingCents (invoice_claims even_invoice) \<and>
    sum_by at_outstandingCents (invoice_claims (rent_example ''i1'' ''l1'' I_open 100 1)) = 100"
  using claims_split [of even_invoice Tax] claims_split [of "rent_example ''i1'' ''l1'' I_open 100 1" Tax]
  by (auto simp: even_invoice_def rent_example_def claimable_items_def List.map_filter_def)

theorem claims_exceed_outstanding:
  "sum_by at_outstandingCents (invoice_claims even_invoice) = 3 \<and>
    ar_unappliedCents (allocatePayment 3 (invoice_claims even_invoice) DEFAULT_ALLOCATION_ORDER) = 0"
  by code_simp

section \<open>Sums over the books\<close>

definition keys_ok :: "books \<Rightarrow> bool" where
  "keys_ok b \<longleftrightarrow> distinct (map bi_id (bk_invoices b)) \<and> distinct (map py_id (bk_payments b)) \<and>
    distinct (map (\<lambda>a. (pa_paymentId a, pa_invoiceId a)) (bk_allocations b))"

definition held_cents :: "(nat \<Rightarrow> string \<Rightarrow> bool) \<Rightarrow> books \<Rightarrow> cents" where
  "held_cents Q b = sum_by pa_amountCents (filter (\<lambda>a. Q (pa_paymentId a) (pa_invoiceId a)) (bk_allocations b))"

lemma allocated_held: "allocated_cents p b = held_cents (\<lambda>q _. q = p) b"
  and settled_held: "settled_cents i b = held_cents (\<lambda>q j. j = i \<and> payment_settles b q) b"
  by (simp_all add: allocated_cents_def settled_cents_def held_cents_def)

definition allocation_cents :: "nat \<Rightarrow> string \<Rightarrow> books \<Rightarrow> cents" where
  "allocation_cents p i b = (case find_allocation p i b of None \<Rightarrow> 0 | Some a \<Rightarrow> pa_amountCents a)"

lemma sum_update_one:
  assumes "distinct (map key xs)" "x \<in> set xs" "key x = k"
  shows "sum_by f (map (\<lambda>a. if key a = k then g a else a) xs) = sum_by f xs - f x + f (g x)"
  using assms
proof (induction xs)
  case (Cons y xs)
  show ?case
  proof (cases "key y = k")
    case True
    moreover have "key y \<notin> key ` set xs" using Cons.prems(1) by simp
    ultimately have "key a \<noteq> k" if "a \<in> set xs" for a using that by (metis imageI)
    then have "y = x" "map (\<lambda>a. if key a = k then g a else a) xs = xs" using Cons.prems by (auto intro: map_idI)
    then show ?thesis using True by simp
  next
    case False
    then show ?thesis using Cons by auto
  qed
qed simp

lemma set_amount_simps [simp]:
  "pa_paymentId (set_amount p i n a) = pa_paymentId a" "pa_invoiceId (set_amount p i n a) = pa_invoiceId a"
  "pa_id (set_amount p i n a) = pa_id a"
  by (simp_all add: set_amount_def)

lemma find_allocation_Some:
  "find_allocation p i b = Some a \<Longrightarrow> a \<in> set (bk_allocations b) \<and> pa_paymentId a = p \<and> pa_invoiceId a = i"
  by (auto simp: find_allocation_def find_Some_iff)

lemma find_allocation_None:
  "find_allocation p i b = None \<longleftrightarrow> (p, i) \<notin> (\<lambda>a. (pa_paymentId a, pa_invoiceId a)) ` set (bk_allocations b)"
  by (auto simp: find_allocation_def find_None_iff)

lemma put_allocation_frame [simp]:
  "bk_invoices (put_allocation p i n b) = bk_invoices b" "bk_payments (put_allocation p i n b) = bk_payments b"
  "bk_entries (put_allocation p i n b) = bk_entries b" "bk_leases (put_allocation p i n b) = bk_leases b"
  "bk_accounts (put_allocation p i n b) = bk_accounts b" "bk_plans (put_allocation p i n b) = bk_plans b"
  "bk_order (put_allocation p i n b) = bk_order b" "bk_prices (put_allocation p i n b) = bk_prices b"
  by (simp_all add: put_allocation_def)

lemma put_allocation_keys: "keys_ok b \<Longrightarrow> keys_ok (put_allocation p i n b)"
  using find_allocation_None [of p i b] by (auto simp: keys_ok_def put_allocation_def comp_def)

lemma put_allocation_held:
  assumes "keys_ok b"
  shows "held_cents Q (put_allocation p i n b) = held_cents Q b + (if Q p i then n - allocation_cents p i b else 0)"
proof (cases "find_allocation p i b")
  case None
  then show ?thesis by (simp add: held_cents_def put_allocation_def allocation_cents_def)
next
  case (Some a)
  let ?key = "\<lambda>a. (pa_paymentId a, pa_invoiceId a)"
  let ?f = "\<lambda>a. if Q (pa_paymentId a) (pa_invoiceId a) then pa_amountCents a else 0"
  have sum: "sum_by pa_amountCents (filter (\<lambda>a. Q (pa_paymentId a) (pa_invoiceId a)) xs) = sum_by ?f xs" for xs
    by (induction xs) auto
  have "set_amount p i n = (\<lambda>a. if ?key a = (p, i) then a\<lparr>pa_amountCents := n\<rparr> else a)"
    by (intro ext) (simp add: set_amount_def)
  moreover have "sum_by ?f (map (\<lambda>a. if ?key a = (p, i) then a\<lparr>pa_amountCents := n\<rparr> else a) (bk_allocations b)) =
      sum_by ?f (bk_allocations b) - ?f a + ?f (a\<lparr>pa_amountCents := n\<rparr>)"
    using assms find_allocation_Some [OF Some] by (intro sum_update_one) (auto simp: keys_ok_def)
  ultimately show ?thesis
    using Some find_allocation_Some [OF Some] unfolding held_cents_def sum
    by (simp add: put_allocation_def allocation_cents_def)
qed

lemma find_set_amount:
  "(q, j) \<noteq> (p, i) \<Longrightarrow> find (\<lambda>a. pa_paymentId a = q \<and> pa_invoiceId a = j) (map (set_amount p i n) xs) =
    find (\<lambda>a. pa_paymentId a = q \<and> pa_invoiceId a = j) xs"
  by (induction xs) (auto simp: set_amount_def)

lemma find_snoc: "find P (xs @ [x]) = (case find P xs of None \<Rightarrow> if P x then Some x else None | Some y \<Rightarrow> Some y)"
  by (induction xs) auto

lemma put_allocation_other:
  "(q, j) \<noteq> (p, i) \<Longrightarrow> allocation_cents q j (put_allocation p i n b) = allocation_cents q j b"
  using find_set_amount [of q j p i n "bk_allocations b"]
  by (cases "find_allocation p i b")
    (auto simp: allocation_cents_def put_allocation_def find_allocation_def find_snoc split: option.splits)

lemma add_allocation_held:
  "keys_ok b \<Longrightarrow> held_cents Q (add_allocation p i n b) = held_cents Q b + (if Q p i then n else 0)"
  by (simp add: add_allocation_def put_allocation_held) (simp add: allocation_cents_def split: option.split)

lemma settles_cong [simp]: "payment_settles (put_allocation p i n b) = payment_settles b"
  by (intro ext) (simp add: payment_settles_def find_payment_def)

section \<open>Recomputing\<close>

lemma paid_status_not_void [simp]: "paid_status p t \<noteq> I_void"
  by (simp add: paid_status_def)

lemma refreshed_simps [simp]:
  "bi_id (refreshed b v) = bi_id v" "bi_totalCents (refreshed b v) = bi_totalCents v" "bi_leaseId (refreshed b v) = bi_leaseId v"
  "bi_facilityId (refreshed b v) = bi_facilityId v" "bi_amountPaidCents (refreshed b v) = settled_cents (bi_id v) b"
  "bi_status (refreshed b v) = paid_status (settled_cents (bi_id v) b) (bi_totalCents v)"
  "refreshed b (refreshed b v) = refreshed b v"
  by (simp_all add: refreshed_def)

lemma settled_invoices [simp]: "settled_cents i (b\<lparr>bk_invoices := vs\<rparr>) = settled_cents i b"
  "refreshed (b\<lparr>bk_invoices := vs\<rparr>) v = refreshed b v"
  by (simp_all add: settled_cents_def payment_settles_def find_payment_def refreshed_def)

definition refresh_in :: "string set \<Rightarrow> books \<Rightarrow> book_invoice \<Rightarrow> book_invoice" where
  "refresh_in ids b v = (if bi_id v \<in> ids \<and> bi_status v \<noteq> I_void then refreshed b v else v)"

lemma refresh_in_simps [simp]:
  "bi_id (refresh_in ids b v) = bi_id v" "bi_totalCents (refresh_in ids b v) = bi_totalCents v"
  "bi_leaseId (refresh_in ids b v) = bi_leaseId v" "bi_facilityId (refresh_in ids b v) = bi_facilityId v"
  "bi_status (refresh_in ids b v) = I_void \<longleftrightarrow> bi_status v = I_void"
  "refresh_in A (b\<lparr>bk_invoices := vs\<rparr>) = refresh_in A b"
  "refresh_in {} b = id" "refresh_in A b (refresh_in B b v) = refresh_in (A \<union> B) b v"
  by (auto simp: refresh_in_def intro!: ext)

lemma recompute_one_eq:
  assumes "distinct (map bi_id (bk_invoices b))"
  shows "recompute_one i b = b\<lparr>bk_invoices := map (refresh_in {i} b) (bk_invoices b)\<rparr>"
proof (cases "find_invoice i b")
  case None
  then have "map (refresh_in {i} b) (bk_invoices b) = bk_invoices b"
    by (intro map_idI) (auto simp: find_invoice_def find_None_iff refresh_in_def)
  then show ?thesis using None by (simp add: recompute_one_def)
next
  case (Some v)
  then have v: "v \<in> set (bk_invoices b)" "bi_id v = i" by (auto simp: find_invoice_def find_Some_iff)
  then have only: "u = v" if "u \<in> set (bk_invoices b)" "bi_id u = i" for u
    using assms that by (metis distinct_map inj_onD)
  have "map (refresh_in {i} b) (bk_invoices b) =
      map (\<lambda>u. if bi_id u = i then if bi_status v = I_void then v else refreshed b v else u) (bk_invoices b)"
    using only by (intro map_cong) (auto simp: refresh_in_def)
  moreover have "map (\<lambda>u. if bi_id u = i then v else u) (bk_invoices b) = bk_invoices b"
    using only by (intro map_idI) auto
  ultimately show ?thesis using Some v(2)
    by (cases "bi_status v = I_void") (simp_all add: recompute_one_def put_invoice_def Let_def del: map_eq_conv)
qed

lemma recomputeInvoices_eq:
  assumes "distinct (map bi_id (bk_invoices b))"
  shows "recomputeInvoices ids b = b\<lparr>bk_invoices := map (refresh_in (set ids) b) (bk_invoices b)\<rparr>"
proof -
  have "fold recompute_one xs b = b\<lparr>bk_invoices := map (refresh_in (set xs) b) (bk_invoices b)\<rparr>"
    if "distinct (map bi_id (bk_invoices b))" for xs b
    using that
  proof (induction xs arbitrary: b)
    case (Cons x xs)
    let ?b = "recompute_one x b"
    note one = recompute_one_eq [OF Cons.prems, of x]
    have ids: "map bi_id (bk_invoices ?b) = map bi_id (bk_invoices b)" by (simp add: one comp_def)
    show ?case using Cons.IH [of ?b] Cons.prems ids by (simp add: one comp_def)
  qed simp
  from this [of b "remdups ids"] show ?thesis using assms by (simp add: recomputeInvoices_def)
qed

section \<open>Applying a payment\<close>

lemma in_invoices_Nil [simp]: "in_invoices [] t = False"
  by (simp add: in_invoices_def)

lemma select_claims_mem:
  assumes "t \<in> set (fst (select_claims payment options b)) \<union> set (snd (select_claims payment options b))"
  shows "t \<in> set (claimsFor (pi_tenantId payment) (pi_facilityId payment) b)"
    and "truthy (ao_accountId options) \<Longrightarrow> at_invoiceId t \<in> set (on_account (the (ao_accountId options)) payment b)"
    and "ao_restrictToInvoiceIds options = Some covered \<Longrightarrow> ao_restrictIsAbsolute options \<Longrightarrow> at_invoiceId t \<in> set covered"
    and "truthy (ao_explicitInvoiceId options) \<Longrightarrow>
      \<exists>u \<in> set (fst (select_claims payment options b)). at_invoiceId u = the (ao_explicitInvoiceId options) \<Longrightarrow>
      at_invoiceId t = the (ao_explicitInvoiceId options)"
  using assms by (auto simp: select_claims_def Let_def in_invoices_def filter_empty_conv split: if_splits option.splits)

lemma lock_open_mem:
  "t \<in> set (lock_open b ts) \<longleftrightarrow> t \<in> set ts \<and> (\<exists>i \<in> set (bk_invoices b). bi_id i = at_invoiceId t \<and> still_open i)"
  by (force simp: lock_open_def in_invoices_def image_iff)

lemma claimsFor_mem:
  "t \<in> set (claimsFor tenantId facilityId b) \<Longrightarrow> 0 < at_outstandingCents t \<and>
    (\<exists>i \<in> set (bk_invoices b). bi_id i = at_invoiceId t \<and> bi_facilityId i = facilityId \<and> still_open i \<and>
      lease_is (payableLeaseFilter tenantId facilityId b) (bi_leaseId i) b)"
  by (fastforce simp: claimsFor_def dest: invoice_claims_mem)

lemma settle_claims_facts:
  assumes "0 \<le> amount"
  shows "sum_by al_amountCents (ar_lines (settle_claims amount order targets deferred)) +
      ar_unappliedCents (settle_claims amount order targets deferred) = amount"
    and "0 \<le> ar_unappliedCents (settle_claims amount order targets deferred)"
    and "l \<in> set (ar_lines (settle_claims amount order targets deferred)) \<Longrightarrow> 0 < al_amountCents l \<and>
      (\<exists>t \<in> set targets \<union> set deferred. at_invoiceId t = al_invoiceId l \<and> at_category t = al_category l \<and>
        al_amountCents l \<le> at_outstandingCents t)"
    and "(\<And>t. t \<in> set targets \<Longrightarrow> 0 < at_outstandingCents t) \<Longrightarrow>
      ar_lines (settle_claims amount order targets deferred) = ar_lines (allocatePayment amount targets order) \<or>
      sum_by al_amountCents (ar_lines (allocatePayment amount targets order)) = sum_by at_outstandingCents targets"
proof -
  let ?first = "allocatePayment amount targets order"
  note one = allocatePayment_conserves [OF assms, of targets order]
  have rest: "0 \<le> ar_unappliedCents ?first" using one by simp
  note two = allocatePayment_conserves [OF rest, of deferred order]
  show "sum_by al_amountCents (ar_lines (settle_claims amount order targets deferred)) +
      ar_unappliedCents (settle_claims amount order targets deferred) = amount"
    using one two by (auto simp: settle_claims_def Let_def)
  show "0 \<le> ar_unappliedCents (settle_claims amount order targets deferred)"
    using rest two by (auto simp: settle_claims_def Let_def)
  show "l \<in> set (ar_lines (settle_claims amount order targets deferred)) \<Longrightarrow> 0 < al_amountCents l \<and>
      (\<exists>t \<in> set targets \<union> set deferred. at_invoiceId t = al_invoiceId l \<and> at_category t = al_category l \<and>
        al_amountCents l \<le> at_outstandingCents t)"
    using one two by (fastforce simp: settle_claims_def Let_def split: if_splits)
  assume pos: "\<And>t. t \<in> set targets \<Longrightarrow> 0 < at_outstandingCents t"
  have "sum_by (\<lambda>c. max 0 (at_outstandingCents c)) targets = sum_by at_outstandingCents targets"
    using pos by (intro arg_cong [of _ _ sum_list] map_cong) (auto simp: less_imp_le)
  then show "ar_lines (settle_claims amount order targets deferred) = ar_lines ?first \<or>
      sum_by al_amountCents (ar_lines ?first) = sum_by at_outstandingCents targets"
    using one by (auto simp: settle_claims_def Let_def)
qed

lemma byInvoice_facts:
  "distinct (map fst (byInvoice lines))" "sum_by snd (byInvoice lines) = sum_by al_amountCents lines"
  "(i, n) \<in> set (byInvoice lines) \<Longrightarrow> n = sum_by al_amountCents (filter (\<lambda>l. al_invoiceId l = i) lines)"
  "fst ` set (byInvoice lines) = al_invoiceId ` set lines"
  unfolding byInvoice_def by (simp_all add: tally_entry tally_keys)

text \<open>What the writes of an allocation leave in the books.\<close>

lemma write_allocations_all:
  fixes p :: nat
  assumes "keys_ok b" "distinct (map fst rows)"
  defines "b' \<equiv> fold (\<lambda>(i, n). put_allocation p i n) rows b"
  shows "keys_ok b' \<and> bk_invoices b' = bk_invoices b \<and> bk_payments b' = bk_payments b \<and> bk_entries b' = bk_entries b \<and>
    held_cents Q b' = held_cents Q b + sum_by (\<lambda>(i, n). if Q p i then n - allocation_cents p i b else 0) rows"
  using assms(1,2) unfolding b'_def
proof (induction rows arbitrary: b)
  case (Cons r rows)
  obtain i n where r: "r = (i, n)" by fastforce
  have k: "keys_ok (put_allocation p i n b)" using Cons.prems by (intro put_allocation_keys)
  have "allocation_cents p j (put_allocation p i n b) = allocation_cents p j b" if "(j, m) \<in> set rows" for j m
    using Cons.prems r that by (intro put_allocation_other) force
  then have "sum_by (\<lambda>(j, m). if Q p j then m - allocation_cents p j (put_allocation p i n b) else 0) rows =
      sum_by (\<lambda>(j, m). if Q p j then m - allocation_cents p j b else 0) rows"
    by (intro arg_cong [of _ _ sum_list] map_cong) auto
  then show ?case using Cons.IH [OF k] Cons.prems r by (simp add: put_allocation_held)
qed simp

lemmas write_allocations = write_allocations_all [THEN conjunct1]
  write_allocations_all [THEN conjunct2, THEN conjunct1]
  write_allocations_all [THEN conjunct2, THEN conjunct2, THEN conjunct1]
  write_allocations_all [THEN conjunct2, THEN conjunct2, THEN conjunct2, THEN conjunct1]
  write_allocations_all [THEN conjunct2, THEN conjunct2, THEN conjunct2, THEN conjunct2]

lemma apply_locked_lines:
  "ap_lines (fst (apply_locked payment selected b)) = ar_lines (settle_claims (pi_amountCents payment)
    (orderFor (bk_order b (pi_facilityId payment))) (lock_open b (fst selected)) (lock_open b (snd selected)))"
  "ap_unappliedCents (fst (apply_locked payment selected b)) = ar_unappliedCents (settle_claims (pi_amountCents payment)
    (orderFor (bk_order b (pi_facilityId payment))) (lock_open b (fst selected)) (lock_open b (snd selected)))"
  by (simp_all add: apply_locked_def Let_def)

definition written :: "paid_in \<Rightarrow> allocation_line list \<Rightarrow> books \<Rightarrow> books" where
  "written payment lines b = fold (\<lambda>(i, n). put_allocation (pi_id payment) i n) (byInvoice lines) b"

lemma apply_locked_books:
  assumes "keys_ok b" "lines = ap_lines (fst (apply_locked payment selected b))"
  shows "snd (apply_locked payment selected b) = (written payment lines b)\<lparr>bk_invoices :=
    map (refresh_in (al_invoiceId ` set lines) (written payment lines b)) (bk_invoices b)\<rparr>"
proof -
  have "distinct (map bi_id (bk_invoices (written payment lines b)))" "bk_invoices (written payment lines b) = bk_invoices b"
    using write_allocations(1,2) [OF assms(1) byInvoice_facts(1) [of lines], of "pi_id payment"]
    by (simp_all add: written_def keys_ok_def)
  moreover have "snd (apply_locked payment selected b) = recomputeInvoices (map fst (byInvoice lines)) (written payment lines b)"
    by (simp add: assms(2) apply_locked_def written_def Let_def)
  ultimately show ?thesis by (simp add: recomputeInvoices_eq byInvoice_facts(4))
qed

lemma held_invoices [simp]: "held_cents Q (b\<lparr>bk_invoices := vs\<rparr>) = held_cents Q b"
  by (simp add: held_cents_def)

lemma no_allocations:
  assumes "\<forall>a \<in> set (bk_allocations b). pa_paymentId a \<noteq> p"
  shows "allocation_cents p i b = 0" and "allocated_cents p b = 0"
  using assms by (auto simp: allocation_cents_def find_allocation_def allocated_cents_def find_Some_iff filter_empty_conv
      split: option.splits intro!: sum_list_0)

lemma written_held:
  assumes "keys_ok b"
  shows "held_cents Q (written payment lines b) = held_cents Q b +
    sum_by (\<lambda>(i, n). if Q (pi_id payment) i then n - allocation_cents (pi_id payment) i b else 0) (byInvoice lines)"
  unfolding written_def by (rule write_allocations(5) [OF assms byInvoice_facts(1)])

lemma apply_frame:
  assumes "keys_ok b"
  shows "bk_entries (snd (apply_locked payment selected b)) = bk_entries b"
    and "bk_payments (snd (apply_locked payment selected b)) = bk_payments b"
    and "keys_ok (snd (apply_locked payment selected b))"
proof -
  let ?lines = "ap_lines (fst (apply_locked payment selected b))"
  note w = write_allocations [OF assms byInvoice_facts(1) [of ?lines], where p = "pi_id payment", folded written_def]
  note books = apply_locked_books [OF assms refl, of payment selected]
  show "bk_entries (snd (apply_locked payment selected b)) = bk_entries b"
    and "bk_payments (snd (apply_locked payment selected b)) = bk_payments b"
    using w(3,4) by (simp_all add: books)
  show "keys_ok (snd (apply_locked payment selected b))"
    using w(1,2) by (simp add: books keys_ok_def comp_def)
qed

lemma apply_allocates:
  assumes "0 \<le> pi_amountCents payment" "keys_ok b" "\<forall>a \<in> set (bk_allocations b). pa_paymentId a \<noteq> pi_id payment"
  shows "allocated_cents (pi_id payment) (snd (apply_locked payment selected b)) =
    pi_amountCents payment - ap_unappliedCents (fst (apply_locked payment selected b))"
proof -
  let ?lines = "ap_lines (fst (apply_locked payment selected b))"
  have "allocated_cents (pi_id payment) (snd (apply_locked payment selected b)) = allocated_cents (pi_id payment) (written payment ?lines b)"
    by (simp add: apply_locked_books [OF assms(2) refl] allocated_held)
  also have "\<dots> = sum_by al_amountCents ?lines"
    using written_held [OF assms(2), of "\<lambda>q _. q = pi_id payment" payment] no_allocations [OF assms(3)] byInvoice_facts(2) [of ?lines]
    by (simp add: allocated_held split_def)
  finally show ?thesis
    using settle_claims_facts(1) [OF assms(1)] by (simp add: apply_locked_lines algebra_simps)
qed

text \<open>C7. A payment lands where it may. The claims are read in one state of the books and the money is
  written in a later one. What the lines hand out and what stays unapplied is the payment, no cent more
  or less. A line is positive, its invoice is still open when it is locked, so a void or write-off that
  came in between takes no money, and it was a claim on a lease this payer may pay for at this facility;
  a payment to a business account stays on the account, one directed at a unit on its invoices, one for a
  named invoice that can be claimed on that invoice. The allocations written sum to the lines.\<close>

theorem payment_lands:
  assumes "0 \<le> pi_amountCents payment" "keys_ok b"
    and "applied = fst (apply_locked payment (select_claims payment options read) b)"
  shows "sum_by al_amountCents (ap_lines applied) + ap_unappliedCents applied = pi_amountCents payment \<and>
    0 \<le> ap_unappliedCents applied \<and>
    (\<forall>l \<in> set (ap_lines applied). 0 < al_amountCents l \<and>
      (\<exists>i \<in> set (bk_invoices b). bi_id i = al_invoiceId l \<and> still_open i) \<and>
      (\<exists>i \<in> set (bk_invoices read). bi_id i = al_invoiceId l \<and>
        lease_is (payableLeaseFilter (pi_tenantId payment) (pi_facilityId payment) read) (bi_leaseId i) read) \<and>
      (truthy (ao_accountId options) \<longrightarrow> al_invoiceId l \<in> set (on_account (the (ao_accountId options)) payment read)) \<and>
      (\<forall>covered. ao_restrictToInvoiceIds options = Some covered \<and> ao_restrictIsAbsolute options \<longrightarrow> al_invoiceId l \<in> set covered) \<and>
      (truthy (ao_explicitInvoiceId options) \<and>
        (\<exists>t \<in> set (fst (select_claims payment options read)). at_invoiceId t = the (ao_explicitInvoiceId options)) \<longrightarrow>
        al_invoiceId l = the (ao_explicitInvoiceId options))) \<and>
    ((\<forall>a \<in> set (bk_allocations b). pa_paymentId a \<noteq> pi_id payment) \<longrightarrow>
      allocated_cents (pi_id payment) (snd (apply_locked payment (select_claims payment options read) b)) =
        pi_amountCents payment - ap_unappliedCents applied)"
proof (intro conjI ballI impI)
  let ?sel = "select_claims payment options read"
  let ?order = "orderFor (bk_order b (pi_facilityId payment))"
  note facts = settle_claims_facts [OF assms(1), where order = ?order and targets = "lock_open b (fst ?sel)"
    and deferred = "lock_open b (snd ?sel)"]
  have lines: "ap_lines applied = ar_lines (settle_claims (pi_amountCents payment) ?order (lock_open b (fst ?sel)) (lock_open b (snd ?sel)))"
    and rest: "ap_unappliedCents applied = ar_unappliedCents (settle_claims (pi_amountCents payment) ?order (lock_open b (fst ?sel)) (lock_open b (snd ?sel)))"
    by (simp_all add: assms(3) apply_locked_lines)
  show "sum_by al_amountCents (ap_lines applied) + ap_unappliedCents applied = pi_amountCents payment"
    and "0 \<le> ap_unappliedCents applied"
    using facts(1,2) by (simp_all add: lines rest)
  {
    fix l assume l: "l \<in> set (ap_lines applied)"
    then have "0 < al_amountCents l \<and> (\<exists>t \<in> set (lock_open b (fst ?sel)) \<union> set (lock_open b (snd ?sel)). at_invoiceId t = al_invoiceId l)"
      using facts(3) [of l] unfolding lines by blast
    then obtain t where "0 < al_amountCents l" "t \<in> set (lock_open b (fst ?sel)) \<union> set (lock_open b (snd ?sel))"
      "at_invoiceId t = al_invoiceId l" by blast
    then have t: "0 < al_amountCents l" "t \<in> set (fst ?sel) \<union> set (snd ?sel)" "at_invoiceId t = al_invoiceId l"
      "\<exists>i \<in> set (bk_invoices b). bi_id i = at_invoiceId t \<and> still_open i"
      unfolding Un_iff lock_open_mem by blast+
    show "0 < al_amountCents l" by (rule t(1))
    show "\<exists>i \<in> set (bk_invoices b). bi_id i = al_invoiceId l \<and> still_open i" using t by simp
    show "\<exists>i \<in> set (bk_invoices read). bi_id i = al_invoiceId l \<and>
        lease_is (payableLeaseFilter (pi_tenantId payment) (pi_facilityId payment) read) (bi_leaseId i) read"
      using claimsFor_mem [OF select_claims_mem(1) [OF t(2)]] t(3) by auto
    show "al_invoiceId l \<in> set (on_account (the (ao_accountId options)) payment read)" if "truthy (ao_accountId options)"
      using select_claims_mem(2) [OF t(2) that] t(3) by simp
    show "\<forall>covered. ao_restrictToInvoiceIds options = Some covered \<and> ao_restrictIsAbsolute options \<longrightarrow> al_invoiceId l \<in> set covered"
      using select_claims_mem(3) [OF t(2)] t(3) by auto
    show "al_invoiceId l = the (ao_explicitInvoiceId options)"
      if "truthy (ao_explicitInvoiceId options) \<and>
        (\<exists>t \<in> set (fst ?sel). at_invoiceId t = the (ao_explicitInvoiceId options))"
      using select_claims_mem(4) [OF t(2)] that t(3) by auto
  }
  assume "\<forall>a \<in> set (bk_allocations b). pa_paymentId a \<noteq> pi_id payment"
  from apply_allocates [OF assms(1,2) this]
  show "allocated_cents (pi_id payment) (snd (apply_locked payment ?sel b)) = pi_amountCents payment - ap_unappliedCents applied"
    by (simp add: assms(3))
qed

text \<open>Two invoices are read; one of them is void when its lock is granted.\<close>

definition read_example :: books where
  "read_example = books_example [rent_example ''i1'' ''l1'' I_open 100 1, rent_example ''i2'' ''l2'' I_open 30 2] [cash_example 1 120]"

definition locked_example :: books where
  "locked_example = books_example [rent_example ''i1'' ''l1'' I_void 100 1, rent_example ''i2'' ''l2'' I_open 30 2] [cash_example 1 120]"

theorem payment_lands_witness:
  "let (applied, b) = apply_locked (paid_example 1 120) (select_claims (paid_example 1 120) undirected read_example) locked_example
    in sum_by al_amountCents (ap_lines applied) + ap_unappliedCents applied = 120 \<and>
      allocated_cents 1 b = 120 - ap_unappliedCents applied \<and> map al_invoiceId (ap_lines applied) = [''i2'']"
proof -
  have "0 \<le> pi_amountCents (paid_example 1 120)" "keys_ok locked_example"
    "\<forall>a \<in> set (bk_allocations locked_example). pa_paymentId a \<noteq> pi_id (paid_example 1 120)"
    by (simp_all add: paid_example_def keys_ok_def locked_example_def books_example_def rent_example_def cash_example_def)
  moreover have "map al_invoiceId (ap_lines (fst (apply_locked (paid_example 1 120)
      (select_claims (paid_example 1 120) undirected read_example) locked_example))) = [''i2'']"
    by code_simp
  ultimately show ?thesis
    using payment_lands [OF _ _ refl, of "paid_example 1 120" locked_example undirected read_example]
    by (simp add: split_def Let_def) (simp add: paid_example_def)
qed

text \<open>C8. A payment plan comes first. When nothing narrows a payment, money reaches an invoice raised after
  a plan was agreed on its lease only when every other claim on the payer, the arrears the plan covers
  among them, is paid in full.\<close>

theorem plan_before_rent:
  assumes "0 \<le> pi_amountCents payment"
    and "later = post_plan (coveredByPlan (pi_tenantId payment) (pi_facilityId payment) b) payment b"
    and "claims = claimsFor (pi_tenantId payment) (pi_facilityId payment) b"
    and "lines = ap_lines (fst (applyPayment payment
      \<lparr>ao_explicitInvoiceId = None, ao_restrictToInvoiceIds = None, ao_restrictIsAbsolute = False, ao_accountId = None\<rparr> b))"
    and "l \<in> set lines" "al_invoiceId l \<in> set later"
  shows "sum_by al_amountCents (filter (\<lambda>k. al_invoiceId k \<notin> set later) lines) =
    sum_by at_outstandingCents (filter (\<lambda>t. at_invoiceId t \<notin> set later) claims)"
proof -
  let ?order = "orderFor (bk_order b (pi_facilityId payment))"
  let ?first = "filter (\<lambda>t. \<not> in_invoices later t) claims" and ?second = "filter (in_invoices later) claims"
  let ?run = "allocatePayment (pi_amountCents payment) ?first ?order"
  have "later = [] \<or> coveredByPlan (pi_tenantId payment) (pi_facilityId payment) b \<noteq> []"
    by (auto simp: assms(2) post_plan_def)
  then have "select_claims payment
      \<lparr>ao_explicitInvoiceId = None, ao_restrictToInvoiceIds = None, ao_restrictIsAbsolute = False, ao_accountId = None\<rparr> b = (?first, ?second)"
    by (auto simp: select_claims_def truthy_def Let_def assms(2,3))
  moreover have "lock_open b (filter P claims) = filter P claims" for P
    unfolding lock_open_def
    by (rule filter_True) (use claimsFor_mem [where b = b] in \<open>force simp: in_invoices_def assms(3) image_iff\<close>)
  ultimately have lines: "lines = ar_lines (settle_claims (pi_amountCents payment) ?order ?first ?second)"
    by (simp add: assms(4) applyPayment_def apply_locked_lines)
  have pos: "0 < at_outstandingCents t" if "t \<in> set ?first" for t using that claimsFor_mem [of t] by (auto simp: assms(3))
  have first: "al_invoiceId k \<notin> set later" if "k \<in> set (ar_lines ?run)" for k
    using allocatePayment_conserves [OF assms(1), of ?first ?order] that by (fastforce simp: in_invoices_def)
  then have "ar_lines ?run \<noteq> lines" using assms(5,6) by auto
  then have "sum_by al_amountCents (ar_lines ?run) = sum_by at_outstandingCents ?first"
    using settle_claims_facts(4) [OF assms(1), where order = ?order and targets = ?first and deferred = ?second] pos
    by (auto simp: lines)
  moreover have "filter (\<lambda>k. al_invoiceId k \<notin> set later) lines = ar_lines ?run"
  proof -
    have rest: "0 \<le> ar_unappliedCents ?run" using allocatePayment_conserves [OF assms(1), of ?first ?order] by simp
    have "al_invoiceId k \<in> set later" if "k \<in> set (ar_lines (allocatePayment (ar_unappliedCents ?run) ?second ?order))" for k
      using allocatePayment_conserves [OF rest, of ?second ?order] that by (fastforce simp: in_invoices_def)
    then have "filter (\<lambda>k. al_invoiceId k \<notin> set later) (ar_lines (allocatePayment (ar_unappliedCents ?run) ?second ?order)) = []"
      by (simp add: filter_empty_conv)
    moreover have "filter (\<lambda>k. al_invoiceId k \<notin> set later) (ar_lines ?run) = ar_lines ?run"
      using first by (intro filter_True) blast
    ultimately show ?thesis unfolding lines settle_claims_def Let_def by simp
  qed
  ultimately show ?thesis by (simp add: in_invoices_def)
qed

definition plan_books :: books where
  "plan_books = (books_example [rent_example ''i1'' ''l1'' I_open 50 1, rent_example ''i2'' ''l1'' I_open 30 2] [cash_example 1 70])
    \<lparr>bk_plans := [\<lparr>bp_leaseId = ''l1'', bp_active = True, bp_invoiceIds = [''i1'']\<rparr>]\<rparr>"

theorem plan_before_rent_witness:
  "let applied = fst (applyPayment (paid_example 1 70) undirected plan_books)
    in map (\<lambda>k. (al_invoiceId k, al_amountCents k)) (ap_lines applied) = [(''i1'', 50), (''i2'', 20)] \<and>
      sum_by al_amountCents (filter (\<lambda>k. al_invoiceId k \<notin> {''i2''}) (ap_lines applied)) =
        sum_by at_outstandingCents (filter (\<lambda>t. at_invoiceId t \<notin> {''i2''}) (claimsFor ''t1'' ''f1'' plan_books))"
proof -
  let ?lines = "ap_lines (fst (applyPayment (paid_example 1 70) undirected plan_books))"
  have later: "[''i2''] = post_plan (coveredByPlan (pi_tenantId (paid_example 1 70)) (pi_facilityId (paid_example 1 70)) plan_books)
      (paid_example 1 70) plan_books"
    and amount: "0 \<le> pi_amountCents (paid_example 1 70)"
    by code_simp+
  have lines: "map (\<lambda>k. (al_invoiceId k, al_amountCents k)) ?lines = [(''i1'', 50), (''i2'', 20)]" by code_simp
  have "?lines ! 1 \<in> set ?lines" "al_invoiceId (?lines ! 1) \<in> set [''i2'']" by code_simp+
  from plan_before_rent [OF amount later refl refl this [unfolded undirected_def]] lines
  show ?thesis by (simp add: undirected_def Let_def) (simp add: paid_example_def)
qed

section \<open>Posting to the ledgers\<close>

definition ledger_balance :: "string \<Rightarrow> books \<Rightarrow> cents" where
  "ledger_balance lease b = sum_by be_amountCents (filter (\<lambda>e. be_leaseId e = lease) (bk_entries b))"

definition posted_cents :: "nat \<Rightarrow> books \<Rightarrow> cents" where
  "posted_cents p b = sum_by be_amountCents (filter (\<lambda>e. be_paymentId e = Some p \<and> be_kind e = Payment) (bk_entries b))"

lemma posted_rows:
  fixes rows :: "(string \<times> cents) list" and k :: cents
  assumes "\<And>e. be_kind e = kind \<Longrightarrow> be_paymentId e = p \<Longrightarrow> P e \<longleftrightarrow> R (be_leaseId e)"
  shows "sum_by be_amountCents (filter P (bk_entries (fold (\<lambda>(lease, n). add_entry lease kind (k * n) p iv rv now) rows b))) =
    sum_by be_amountCents (filter P (bk_entries b)) + k * sum_by (\<lambda>(lease, n). if R lease then n else 0) rows"
proof (induction rows arbitrary: b)
  case (Cons r rows)
  obtain lease n where r: "r = (lease, n)" by fastforce
  show ?case using Cons.IH [of "add_entry lease kind (k * n) p iv rv now b"] assms
    by (simp add: r add_entry_def distrib_left)
qed simp

lemma sum_at_key: "distinct (map fst ps) \<Longrightarrow> sum_by (\<lambda>(k, n). if k = x then n else 0) ps = or_else (map_of ps x) 0"
proof (induction ps)
  case (Cons a ps)
  obtain k n where a: "a = (k, n)" by fastforce
  have "map_of ps x = None" if "k = x" using Cons.prems that by (simp add: a map_of_eq_None_iff)
  then show ?case using Cons by (auto simp: a)
qed simp

definition credited_of :: "books \<Rightarrow> string \<Rightarrow> allocation_line list \<Rightarrow> cents" where
  "credited_of b lease lines = sum_by al_amountCents (filter (\<lambda>l. invoice_lease b (al_invoiceId l) = Some lease) lines)"

lemma credited_facts:
  "distinct (map fst (credited b lines))"
  "lease \<noteq> [] \<Longrightarrow> or_else (map_of (credited b lines) lease) 0 = credited_of b lease lines"
  "sum_by snd (credited b lines) = sum_by al_amountCents (filter (\<lambda>l. truthy (invoice_lease b (al_invoiceId l))) lines)"
proof -
  let ?rows = "List.map_filter (\<lambda>line. if truthy (invoice_lease b (al_invoiceId line))
    then Some (the (invoice_lease b (al_invoiceId line)), al_amountCents line) else None) lines"
  show "distinct (map fst (credited b lines))" by (simp add: credited_def)
  have "sum_by snd (filter (\<lambda>x. fst x = lease) ?rows) = credited_of b lease lines" if "lease \<noteq> []"
    using that by (induction lines) (auto simp: credited_of_def truthy_def)
  then show "lease \<noteq> [] \<Longrightarrow> or_else (map_of (credited b lines) lease) 0 = credited_of b lease lines"
    unfolding credited_def tally_get by simp
  have "sum_by snd ?rows = sum_by al_amountCents (filter (\<lambda>l. truthy (invoice_lease b (al_invoiceId l))) lines)"
    by (induction lines) auto
  then show "sum_by snd (credited b lines) = sum_by al_amountCents (filter (\<lambda>l. truthy (invoice_lease b (al_invoiceId l))) lines)"
    by (simp add: credited_def)
qed

lemma sum_nonzero: "sum_by (\<lambda>(k, n). if R k then n else 0) (filter (\<lambda>(k, n). n \<noteq> 0) ps) = sum_by (\<lambda>(k, n). if R k then (n :: int) else 0) ps"
  by (induction ps) auto

lemma posting_keeps:
  "\<exists>e \<in> set (bk_entries b). P e \<Longrightarrow> \<exists>e \<in> set (bk_entries (fold (\<lambda>(lease, n). add_entry lease kind (- n) p iv rv now) rows b)). P e"
proof (induction rows arbitrary: b)
  case (Cons r rows)
  obtain lease n where r: "r = (lease, n)" by fastforce
  have "\<exists>e \<in> set (bk_entries (add_entry lease kind (- n) p iv rv now b)). P e" using Cons.prems by (auto simp: add_entry_def)
  then show ?case using Cons.IH by (simp add: r)
qed simp

text \<open>C9. The ledgers follow the allocation. A payment that is not posted yet is credited to each lease with
  exactly what it settled of that lease's invoices, and what no invoice claimed to the lease the payer
  named; with such a lease the entries sum to the payment. Once anything is posted, posting the payment
  again, whatever is handed in then, changes nothing.\<close>

theorem ledger_follows_allocation:
  assumes "\<forall>e \<in> set (bk_entries b). be_paymentId e \<noteq> Some (pi_id payment)"
    and "sum_by al_amountCents (ap_lines applied) \<le> pi_amountCents payment"
    and "\<forall>l \<in> set (ap_lines applied). truthy (invoice_lease b (al_invoiceId l))"
    and "b' = postPaymentLedger payment applied anchor now b"
  shows "(lease \<noteq> [] \<longrightarrow> ledger_balance lease b' = ledger_balance lease b - credited_of b lease (ap_lines applied) -
      (if anchor = Some lease then pi_amountCents payment - sum_by al_amountCents (ap_lines applied) else 0)) \<and>
    (truthy anchor \<longrightarrow> posted_cents (pi_id payment) b' = - pi_amountCents payment) \<and>
    (bk_entries b' \<noteq> bk_entries b \<longrightarrow> postPaymentLedger payment applied2 anchor2 now2 b' = b')"
proof -
  let ?lines = "ap_lines applied"
  let ?rest = "pi_amountCents payment - sum_by al_amountCents ?lines"
  let ?c = "credited b ?lines"
  let ?rows = "if 0 < ?rest \<and> truthy anchor then add_total (the anchor) ?rest ?c else ?c"
  have fresh: "\<not> list_ex (\<lambda>e. be_paymentId e = Some (pi_id payment) \<and> be_kind e = Payment) (bk_entries b)"
    using assms(1) by (auto simp: list_ex_iff)
  have all: "sum_by snd ?c = sum_by al_amountCents ?lines"
    using assms(3) credited_facts(3) [of b ?lines] by (metis (mono_tags, lifting) filter_True)
  have b': "b' = fold (\<lambda>(lease, n). add_entry lease Payment (- n) (Some (pi_id payment)) None None now)
      (filter (\<lambda>(lease, n). n \<noteq> 0) ?rows) b"
    using fresh all by (simp add: assms(4) postPaymentLedger_def Let_def)
  have d: "distinct (map fst ?rows)" using credited_facts(1) by (simp add: add_total_def distinct_update)
  have rows: "sum_by be_amountCents (filter P (bk_entries b')) =
      sum_by be_amountCents (filter P (bk_entries b)) - sum_by (\<lambda>(lease, n). if R lease then n else 0) ?rows"
    if "\<And>e. be_kind e = Payment \<Longrightarrow> be_paymentId e = Some (pi_id payment) \<Longrightarrow> P e \<longleftrightarrow> R (be_leaseId e)" for P R
    using posted_rows [where k = "-1" and P = P and R = R and kind = Payment and p = "Some (pi_id payment)"
        and rows = "filter (\<lambda>(lease, n). n \<noteq> 0) ?rows", OF that] unfolding b' by (simp only: sum_nonzero) simp
  show ?thesis
  proof (intro conjI impI)
    assume l: "lease \<noteq> []"
    have "sum_by (\<lambda>(k, n). if k = lease then n else 0) ?rows =
        credited_of b lease ?lines + (if anchor = Some lease then ?rest else 0)"
      unfolding sum_at_key [OF d] using credited_facts(2) [OF l, of b ?lines] assms(2) l
      by (cases anchor) (auto simp: add_total_def update_conv truthy_def)
    then show "ledger_balance lease b' = ledger_balance lease b - credited_of b lease ?lines - (if anchor = Some lease then ?rest else 0)"
      unfolding ledger_balance_def using rows [of "\<lambda>e. be_leaseId e = lease" "\<lambda>l. l = lease"] by simp
  next
    assume "truthy anchor"
    then have "sum_by snd ?rows = pi_amountCents payment"
      using assms(2) all sum_by_snd_update [OF credited_facts(1)] by (auto simp: add_total_def)
    moreover have "filter (\<lambda>e. be_paymentId e = Some (pi_id payment) \<and> be_kind e = Payment) (bk_entries b) = []"
      using assms(1) by (auto simp: filter_empty_conv)
    ultimately show "posted_cents (pi_id payment) b' = - pi_amountCents payment"
      unfolding posted_cents_def
      using rows [of "\<lambda>e. be_paymentId e = Some (pi_id payment) \<and> be_kind e = Payment" "\<lambda>_. True"] by (simp add: split_def)
  next
    assume ne: "bk_entries b' \<noteq> bk_entries b"
    obtain r rs where r: "filter (\<lambda>(lease, n). n \<noteq> 0) ?rows = r # rs"
      using ne b' by (cases "filter (\<lambda>(lease, n). n \<noteq> 0) ?rows") auto
    have "\<exists>e \<in> set (bk_entries b'). be_paymentId e = Some (pi_id payment) \<and> be_kind e = Payment"
      unfolding b' r by (cases r) (simp, intro posting_keeps, simp add: add_entry_def)
    then show "postPaymentLedger payment applied2 anchor2 now2 b' = b'" by (simp add: postPaymentLedger_def list_ex_iff)
  qed
qed

text \<open>Of 120 cents 100 pay an invoice of one lease; the rest is credit on the lease the payer named.\<close>

definition applied_example :: "applied_payment \<times> books" where
  "applied_example = applyPayment (paid_example 1 120) undirected
    (books_example [rent_example ''i1'' ''l1'' I_open 100 1] [cash_example 1 120])"

theorem ledger_follows_allocation_witness:
  "let b = postPaymentLedger (paid_example 1 120) (fst applied_example) (Some ''l2'') 1 (snd applied_example)
    in ledger_balance ''l1'' b = - 100 \<and> ledger_balance ''l2'' b = - 20 \<and> posted_cents 1 b = - 120 \<and>
      postPaymentLedger (paid_example 1 120) (fst applied_example) None 2 b = b"
proof -
  let ?b = "postPaymentLedger (paid_example 1 120) (fst applied_example) (Some ''l2'') 1 (snd applied_example)"
  have none: "\<forall>e \<in> set (bk_entries (snd applied_example)). be_paymentId e \<noteq> Some (pi_id (paid_example 1 120))"
    and some: "sum_by al_amountCents (ap_lines (fst applied_example)) \<le> pi_amountCents (paid_example 1 120)"
    and lease: "\<forall>l \<in> set (ap_lines (fst applied_example)). truthy (invoice_lease (snd applied_example) (al_invoiceId l))"
    and new: "map be_amountCents (bk_entries ?b) \<noteq> map be_amountCents (bk_entries (snd applied_example))"
    and "ledger_balance ''l1'' ?b = - 100" "ledger_balance ''l2'' ?b = - 20" "truthy (Some ''l2'')"
    by code_simp+
  from new have "bk_entries ?b \<noteq> bk_entries (snd applied_example)" by (rule contrapos_nn) simp
  then show ?thesis
    using ledger_follows_allocation [OF none some lease refl, where anchor = "Some ''l2''" and now = 1 and
        ?anchor2.0 = None and ?now2.0 = 2 and ?applied2.0 = "fst applied_example"]
      \<open>ledger_balance ''l1'' ?b = - 100\<close> \<open>ledger_balance ''l2'' ?b = - 20\<close> \<open>truthy (Some ''l2'')\<close>
    by (simp add: Let_def) (simp add: paid_example_def)
qed

section \<open>Credit on account\<close>

interpretation credit: greedy "unclaimedCents b" snd "credit_takes b" Pair for b
  by unfold_locales (auto simp: Let_def min.commute)

lemma find_unique: "distinct (map key xs) \<Longrightarrow> x \<in> set xs \<Longrightarrow> find (\<lambda>y. key y = key x) xs = Some x"
  by (induction xs) auto

lemma keys_payment: "keys_ok b \<Longrightarrow> p \<in> set (bk_payments b) \<Longrightarrow> find_payment (py_id p) b = Some p"
  by (simp add: find_payment_def keys_ok_def find_unique)

definition taken :: "nat \<Rightarrow> (book_payment \<times> cents) list \<Rightarrow> cents" where
  "taken p takes = sum_by snd (filter (\<lambda>x. py_id (fst x) = p) takes)"

lemma taken_bounds:
  assumes "distinct (map py_id ps)"
  shows "0 \<le> taken p (fst (credit_takes b room ps)) \<and>
    (p \<notin> py_id ` set ps \<longrightarrow> taken p (fst (credit_takes b room ps)) = 0) \<and>
    (\<forall>q \<in> set ps. taken (py_id q) (fst (credit_takes b room ps)) \<le> unclaimedCents b q) \<and>
    sum_by (\<lambda>q. taken (py_id q) (fst (credit_takes b room ps))) ps = sum_by snd (fst (credit_takes b room ps))"
  using assms
proof (induction ps arbitrary: room p)
  case (Cons a ps)
  have nn: "0 \<le> unclaimedCents b a" by (simp add: unclaimedCents_def)
  have zero: "taken q [] = 0" for q by (simp add: taken_def)
  have d: "distinct (map py_id ps)" using Cons.prems by simp
  show ?case
  proof (rule credit.run_cases [of room b a ps])
    assume "room \<le> 0" "credit_takes b room (a # ps) = ([], room)"
    then show ?thesis using nn by (simp add: zero unclaimedCents_def)
  next
    assume "0 < room" "unclaimedCents b a \<le> 0" and e: "credit_takes b room (a # ps) = credit_takes b room ps"
    then show ?thesis using Cons.IH [OF d, of p room] Cons.IH [OF d, of "py_id a" room] Cons.prems nn unfolding e by auto
  next
    let ?n = "min room (unclaimedCents b a)"
    let ?t = "fst (credit_takes b (room - ?n) ps)"
    assume r: "0 < room" "0 < unclaimedCents b a" and e: "credit_takes b room (a # ps) =
      ((a, ?n) # ?t, snd (credit_takes b (room - ?n) ps))"
    have t: "taken q ((a, ?n) # ?t) = (if py_id a = q then ?n else 0) + taken q ?t" for q by (simp add: taken_def)
    have a: "taken (py_id a) ?t = 0" using Cons.IH [OF d, of "py_id a" "room - ?n"] Cons.prems by simp
    have other: "taken (py_id q) ((a, ?n) # ?t) = taken (py_id q) ?t" if "q \<in> set ps" for q
      using that Cons.prems by (force simp: t)
    then have "sum_by (\<lambda>q. taken (py_id q) ((a, ?n) # ?t)) ps = sum_by (\<lambda>q. taken (py_id q) ?t) ps"
      by (intro arg_cong [of _ _ sum_list] map_cong) auto
    then show ?thesis using Cons.IH [OF d, of p "room - ?n"] r a other unfolding e by (auto simp: t)
  qed
qed (simp add: taken_def)

definition spent :: "string \<Rightarrow> (book_payment \<times> cents) list \<Rightarrow> books \<Rightarrow> books" where
  "spent i takes b = fold (\<lambda>(payment, n). add_allocation (py_id payment) i n) takes b"

lemma spent_facts:
  assumes "keys_ok b"
  shows "keys_ok (spent i takes b) \<and> bk_invoices (spent i takes b) = bk_invoices b \<and> bk_payments (spent i takes b) = bk_payments b \<and>
    held_cents Q (spent i takes b) = held_cents Q b + sum_by snd (filter (\<lambda>x. Q (py_id (fst x)) i) takes)"
  using assms
proof (induction takes arbitrary: b)
  case (Cons x takes)
  obtain p n where x: "x = (p, n)" by fastforce
  have k: "keys_ok (add_allocation (py_id p) i n b)" using Cons.prems by (simp add: add_allocation_def put_allocation_keys)
  have "spent i (x # takes) b = spent i takes (add_allocation (py_id p) i n b)" by (simp add: spent_def x)
  moreover have "bk_invoices (add_allocation (py_id p) i n b) = bk_invoices b"
    "bk_payments (add_allocation (py_id p) i n b) = bk_payments b" by (simp_all add: add_allocation_def)
  ultimately show ?case
    using Cons.IH [OF k] add_allocation_held [OF Cons.prems, of Q "py_id p" i n] by (simp add: x)
qed (simp add: spent_def)

lemma unclaimed_frame [simp]: "unclaimedCents (b\<lparr>bk_invoices := vs\<rparr>) p = unclaimedCents b p"
  by (simp add: unclaimedCents_def allocated_cents_def refunded_cents_def)

lemma unclaimed_taken:
  assumes "bk_payments b' = bk_payments b" "allocated_cents (py_id p) b' = allocated_cents (py_id p) b + n"
    "0 \<le> n" "n \<le> unclaimedCents b p"
  shows "unclaimedCents b' p = unclaimedCents b p - n"
    and "allocated_cents (py_id p) b' + refunded_cents (py_id p) b' \<le>
      max (py_amountCents p) (allocated_cents (py_id p) b + refunded_cents (py_id p) b)"
  using assms by (auto simp: unclaimedCents_def refunded_cents_def)

lemma creditCentsFor_eq:
  "creditCentsFor tenantId facilityId b = sum_by (unclaimedCents b) (filter (in_hand tenantId facilityId) (bk_payments b))"
proof -
  have pos: "0 \<le> unclaimedCents b p" for p by (simp add: unclaimedCents_def)
  have "sum_by (unclaimedCents b) (filter (\<lambda>p. py_tenantId p = tenantId) (filter (\<lambda>p. py_tenantId p \<in> set [tenantId] \<and>
      in_hand (py_tenantId p) facilityId p \<and> 0 < unclaimedCents b p) ps)) =
    sum_by (unclaimedCents b) (filter (in_hand tenantId facilityId) ps)" for ps
    unfolding filter_filter sum_list_map_filter'
    by (intro arg_cong [of _ _ sum_list] map_cong refl) (use pos in \<open>auto simp: in_hand_def not_less antisym\<close>)
  then show ?thesis unfolding creditCentsFor_def creditByTenant_def tally_get by simp
qed

lemma keys_invoice: "keys_ok b \<Longrightarrow> find_invoice i b = Some v \<Longrightarrow> v \<in> set (bk_invoices b) \<and> bi_id v = i \<and>
    (\<forall>u \<in> set (bk_invoices b). bi_id u = i \<longrightarrow> u = v)"
  by (auto simp: keys_ok_def find_invoice_def find_Some_iff distinct_conv_nth in_set_conv_nth) (metis nth_map length_map)

lemma find_map_same: "(\<And>v. bi_id (g v) = bi_id v) \<Longrightarrow> find (\<lambda>v. bi_id v = i) (map g vs) = map_option g (find (\<lambda>v. bi_id v = i) vs)"
  by (induction vs) auto

lemma distinct_map_sort_by: "distinct (map f (sort_by cmp xs)) \<longleftrightarrow> distinct (map f xs)"
  by (rule mset_eq_imp_distinct_iff) simp

text \<open>What is taken from the payments in hand, for an invoice with room for it.\<close>

lemma spending:
  assumes "keys_ok b" "0 < room"
    and "ps = sort_by (by_key py_receivedAt) (filter (in_hand tenantId facilityId) (bk_payments b))"
    and "takes = fst (credit_takes b room ps)"
  shows "sum_by snd takes = min room (creditCentsFor tenantId facilityId b)"
    and "p \<in> set (bk_payments b) \<Longrightarrow> 0 \<le> taken (py_id p) takes \<and> taken (py_id p) takes \<le> unclaimedCents b p"
    and "sum_by (\<lambda>p. taken (py_id p) takes) (filter (in_hand tenantId facilityId) (bk_payments b)) = sum_by snd takes"
    and "filter (\<lambda>x. payment_settles b (py_id (fst x))) takes = takes"
proof -
  let ?hand = "filter (in_hand tenantId facilityId) (bk_payments b)"
  have hand: "distinct (map py_id ps)"
    using assms(1) by (simp add: assms(3) distinct_map_sort_by keys_ok_def distinct_map_filter)
  have mem: "p \<in> set (bk_payments b) \<and> in_hand tenantId facilityId p" if "(p, n) \<in> set takes" for p n
    using credit.run_amounts [of "(p, n)" b room ps] that unfolding assms(3,4) set_sort_by set_filter by blast
  have nn: "0 \<le> creditCentsFor tenantId facilityId b"
    by (simp add: creditCentsFor_eq sum_by_nonneg unclaimedCents_def)
  have "sum_by snd takes = room - max 0 (room - sum_by (\<lambda>c. max 0 (unclaimedCents b c)) ps)"
    using credit.run_conserves [of b room ps] credit.run_rest_eq [of room b ps] assms(2) unfolding assms(4) by linarith
  also have "(\<lambda>c. max 0 (unclaimedCents b c)) = unclaimedCents b" by (intro ext) (simp add: unclaimedCents_def)
  also have "sum_by (unclaimedCents b) ps = creditCentsFor tenantId facilityId b" by (simp add: creditCentsFor_eq assms(3))
  finally show "sum_by snd takes = min room (creditCentsFor tenantId facilityId b)"
    using nn by (simp add: min_def max_def)
  note bounds = taken_bounds [OF hand, where b = b and room = room]
  show "0 \<le> taken (py_id p) takes \<and> taken (py_id p) takes \<le> unclaimedCents b p" if "p \<in> set (bk_payments b)"
  proof (cases "in_hand tenantId facilityId p")
    case True
    then show ?thesis using bounds [of "py_id p"] that by (auto simp: assms(3,4))
  next
    case False
    then have "py_id p \<notin> py_id ` set ps" using that assms(1) by (auto simp: keys_ok_def distinct_map inj_on_def assms(3))
    then show ?thesis using bounds [of "py_id p"] by (simp add: unclaimedCents_def assms(4))
  qed
  show "sum_by (\<lambda>p. taken (py_id p) takes) ?hand = sum_by snd takes" using bounds by (simp add: assms(3,4))
  have "payment_settles b (py_id p)" if "(p, n) \<in> set takes" for p n
    using mem [OF that] keys_payment [OF assms(1)] by (auto simp: payment_settles_def in_hand_def)
  then show "filter (\<lambda>x. payment_settles b (py_id (fst x))) takes = takes" by (intro filter_True) auto
qed


definition credit_books :: books where
  "credit_books = books_example [rent_example ''i1'' ''l1'' I_open 100 1] [cash_example 1 70, cash_example 2 70]"


end
