(* ===== verification/Refunds.thy ===== *)
theory Refunds
  imports Payments
begin

text \<open>
  Money out and back (\<open>apps/web/lib/billing/refunds.ts\<close>, \<open>reversals.ts\<close>, \<open>fee-invoice.ts\<close> and the payment
  events of \<open>payments/reconcile.ts\<close>) on the books of \<open>Payments\<close>: a refund trims the allocations newest
  invoice first and debits the leases they were taken from, a payment the bank took back is reversed
  lease by lease and may be reinstated, and a provider's event settles a pending payment. Staff authority
  and the provider are parameters; tasks, audit rows and events to other parts are left out.
\<close>

section \<open>Fees\<close>

definition scheduledFeeCents :: "string \<Rightarrow> string \<Rightarrow> date \<Rightarrow> books \<Rightarrow> cents option" where
  "scheduledFeeCents facilityId feeType asOf b = (
    case sort_by (\<lambda>x y. by_key fp_effectiveFrom y x) (filter (\<lambda>f. fp_facilityId f = facilityId \<and> fp_feeType f = feeType \<and>
      fp_effectiveFrom f \<le> asOf) (bk_prices b)) of
      [] \<Rightarrow> None
    | schedule # _ \<Rightarrow> if fp_amountCents schedule \<le> 0 then None else Some (fp_amountCents schedule))"

text \<open>The id of the new invoice is the database's.\<close>

definition raiseFeeInvoice :: "string \<Rightarrow> string \<Rightarrow> string \<Rightarrow> date \<Rightarrow> cents list \<Rightarrow> books \<Rightarrow> books" where
  "raiseFeeInvoice newId facilityId leaseId on_day amounts b = (
    let owed = sum_list amounts;
        invoice = \<lparr>bi_id = newId, bi_facilityId = facilityId, bi_leaseId = leaseId, bi_fee = True, bi_status = I_open,
          bi_periodStart = on_day, bi_dueDate = on_day, bi_totalCents = owed, bi_amountPaidCents = 0, bi_items = map (Pair Fee_item) amounts\<rparr>
    in add_entry leaseId Charge owed None (Some newId) None on_day (b\<lparr>bk_invoices := bk_invoices b @ [invoice]\<rparr>))"

section \<open>Refunds\<close>

datatype refund_method = By_card | By_cash | By_check

datatype refund_problem =
  Missing_refund_reason | Refund_over_original | Payment_not_found | Not_refundable | Refund_forbidden
| Refund_over_limit cents | Card_unavailable | Provider_error string

datatype refund_authority = Authority_given | Authority_forbidden | Authority_over_limit cents

record refund_input =
  rf_amountCents :: cents
  rf_reasonCode :: "string option"
  rf_asMethod :: "refund_method option"
  rf_creditOfLeaseId :: "string option"

record refund_write =
  rw_paymentId :: nat
  rw_amountCents :: cents
  rw_method :: refund_method
  rw_providerRefundId :: "string option"
  rw_creditOfLeaseId :: "string option"

fun refund_row_method :: "refund_method \<Rightarrow> pay_method" where
  "refund_row_method By_card = Card"
| "refund_row_method By_check = Check"
| "refund_row_method By_cash = Cash"

definition due_of :: "books \<Rightarrow> book_allocation \<Rightarrow> date" where
  "due_of b a = (case find_invoice (pa_invoiceId a) b of None \<Rightarrow> 0 | Some v \<Rightarrow> bi_dueDate v)"

definition unwind_order :: "books \<Rightarrow> book_allocation \<Rightarrow> book_allocation \<Rightarrow> int" where
  "unwind_order b = then_by (by_key (\<lambda>a. - due_of b a)) (by_key (\<lambda>a. - int (pa_id a)))"

fun unwind :: "cents \<Rightarrow> book_allocation list \<Rightarrow> (book_allocation \<times> cents) list \<times> cents" where
  "unwind toUnwind [] = ([], toUnwind)"
| "unwind toUnwind (allocation # allocations) = (
    if toUnwind \<le> 0 then ([], toUnwind)
    else let reduction = min toUnwind (pa_amountCents allocation); (cuts, rest) = unwind (toUnwind - reduction) allocations
      in ((allocation, reduction) # cuts, rest))"

definition cut_allocation :: "book_allocation \<times> cents \<Rightarrow> books \<Rightarrow> books" where
  "cut_allocation piece b = (let (a, reduction) = piece; remaining = pa_amountCents a - reduction
    in if 0 < remaining then put_allocation (pa_paymentId a) (pa_invoiceId a) remaining b
       else b\<lparr>bk_allocations := filter (\<lambda>x. \<not> (pa_paymentId x = pa_paymentId a \<and> pa_invoiceId x = pa_invoiceId a)) (bk_allocations b)\<rparr>)"

text \<open>The entries of a payment and of its refunds.\<close>

definition entry_of_payment :: "nat \<Rightarrow> books \<Rightarrow> book_entry \<Rightarrow> bool" where
  "entry_of_payment p b e \<longleftrightarrow> be_paymentId e = Some p \<or>
    list_ex (\<lambda>r. be_paymentId e = Some (py_id r) \<and> py_refundOf r = Some p) (bk_payments b)"

definition held_rows :: "nat \<Rightarrow> books \<Rightarrow> (string \<times> cents) list" where
  "held_rows p b = map (\<lambda>(lease, n). (lease, - n))
    (tally be_leaseId be_amountCents (filter (entry_of_payment p b) (bk_entries b)))"

fun room_takes :: "cents \<Rightarrow> (string \<times> cents) list \<Rightarrow> (string \<times> cents) list \<times> cents" where
  "room_takes toUnwind [] = ([], toUnwind)"
| "room_takes toUnwind ((lease, cents) # rooms) = (let taking = min toUnwind cents in
    if taking \<le> 0 then room_takes toUnwind rooms
    else let (posts, rest) = room_takes (toUnwind - taking) rooms in ((lease, taking) # posts, rest))"

definition lease_key :: "books \<Rightarrow> book_allocation \<Rightarrow> string" where
  "lease_key b a = or_else (invoice_lease b (pa_invoiceId a)) []"

text \<open>What each lease owes again. \<open>b\<close> are the books the loop over the allocations has left.\<close>

definition refund_debits :: "refund_write \<Rightarrow> (book_allocation \<times> cents) list \<Rightarrow> cents \<Rightarrow> books \<Rightarrow> (string \<times> cents) list" where
  "refund_debits w cuts toUnwind b = (
    let byLease = (case rw_creditOfLeaseId w of
          Some lease \<Rightarrow> if lease \<noteq> [] then [(lease, rw_amountCents w)] else tally (\<lambda>c. lease_key b (fst c)) snd cuts
        | None \<Rightarrow> tally (\<lambda>c. lease_key b (fst c)) snd cuts)
    in if toUnwind \<le> 0 then byLease
       else let room = sort_by (then_by (by_key (\<lambda>r. - snd r)) (\<lambda>r s. localeCompare (fst r) (fst s)))
              (map (\<lambda>(lease, n). (lease, n - or_else (map_of byLease lease) 0)) (held_rows (rw_paymentId w) b));
            (posts, rest) = room_takes toUnwind room;
            byLease = foldl (\<lambda>totals (lease, n). add_total lease n totals) byLease posts;
            fallback = (case room of r # _ \<Rightarrow> Some (fst r) | [] \<Rightarrow> (case byLease of r # _ \<Rightarrow> Some (fst r) | [] \<Rightarrow> None))
          in if 0 < rest \<and> truthy fallback then add_total (the fallback) rest byLease else byLease)"

definition set_status :: "nat \<Rightarrow> payment_status \<Rightarrow> books \<Rightarrow> books" where
  "set_status p s b = b\<lparr>bk_payments := map (\<lambda>x. if py_id x = p then x\<lparr>py_status := s\<rparr> else x) (bk_payments b)\<rparr>"

definition add_refund :: "book_payment \<Rightarrow> refund_write \<Rightarrow> date \<Rightarrow> books \<Rightarrow> books" where
  "add_refund payment w now b = b\<lparr>bk_payments := bk_payments b @
      [\<lparr>py_id = bk_nextId b, py_facilityId = py_facilityId payment, py_tenantId = py_tenantId payment,
        py_amountCents = rw_amountCents w, py_method = refund_row_method (rw_method w),
        py_status = (if rw_method w = By_card then P_succeeded else P_pending), py_receivedAt = now,
        py_refundOf = Some (py_id payment), py_intentId = None, py_stripeRefundId = rw_providerRefundId w\<rparr>],
    bk_nextId := bk_nextId b + 1\<rparr>"

text \<open>The id of the refund and the books; a payment that is not there is thrown on.\<close>

definition writeRefund :: "refund_write \<Rightarrow> date \<Rightarrow> books \<Rightarrow> (nat \<times> books) option" where
  "writeRefund w now b = (case find_payment (rw_paymentId w) b of
      None \<Rightarrow> None
    | Some payment \<Rightarrow>
        let alreadyRefunded = refunded_cents (rw_paymentId w) b;
            refundId = bk_nextId b;
            allocations = (if truthy (rw_creditOfLeaseId w) then []
              else sort_by (unwind_order b) (filter (\<lambda>a. pa_paymentId a = rw_paymentId w) (bk_allocations b)));
            (cuts, toUnwind) = (if truthy (rw_creditOfLeaseId w) then ([], 0) else unwind (rw_amountCents w) allocations);
            b = recomputeInvoices (map pa_invoiceId allocations) (fold cut_allocation cuts (add_refund payment w now b));
            b = fold (\<lambda>(lease, n). add_entry lease Refund n (Some refundId) None None now) (refund_debits w cuts toUnwind b) b
        in Some (refundId, set_status (rw_paymentId w)
          (if py_amountCents payment \<le> alreadyRefunded + rw_amountCents w then P_refunded else P_partially_refunded) b))"

text \<open>What \<open>refundPayment\<close> decides on what it read, before the transaction of \<open>writeRefund\<close>. \<open>provider\<close> is the
  card processor, if one is configured: it answers the same request, under the same idempotency key, with the
  same refund.\<close>

definition refund_decide :: "(cents \<Rightarrow> string \<Rightarrow> refund_authority) \<Rightarrow> (string \<Rightarrow> cents \<Rightarrow> cents \<times> cents \<Rightarrow> string + string) option \<Rightarrow>
    nat \<Rightarrow> refund_input \<Rightarrow> books \<Rightarrow> refund_problem + refund_write" where
  "refund_decide authority provider paymentId input b = (
    if blank (rf_reasonCode input) then Inl Missing_refund_reason
    else if rf_amountCents input \<le> 0 then Inl Refund_over_original
    else case find_payment paymentId b of
      None \<Rightarrow> Inl Payment_not_found
    | Some payment \<Rightarrow>
        if py_status payment \<noteq> P_succeeded \<and> py_status payment \<noteq> P_partially_refunded then Inl Not_refundable
        else if rf_amountCents input > py_amountCents payment - refunded_cents paymentId b then Inl Refund_over_original
        else case authority (rf_amountCents input) (py_facilityId payment) of
          Authority_forbidden \<Rightarrow> Inl Refund_forbidden
        | Authority_over_limit limit \<Rightarrow> Inl (Refund_over_limit limit)
        | Authority_given \<Rightarrow>
            let method = or_else (rf_asMethod input)
                  (if py_method payment = Card then By_card else if py_method payment = Check then By_check else By_cash);
                w = \<lparr>rw_paymentId = paymentId, rw_amountCents = rf_amountCents input, rw_method = method,
                  rw_providerRefundId = None, rw_creditOfLeaseId = rf_creditOfLeaseId input\<rparr>
            in if method \<noteq> By_card then Inr w
               else if provider = None \<or> \<not> truthy (py_intentId payment) then Inl Card_unavailable
               else case the provider (the (py_intentId payment)) (rf_amountCents input) (refunded_cents paymentId b, rf_amountCents input) of
                 Inl message \<Rightarrow> Inl (Provider_error message)
               | Inr refund \<Rightarrow> Inr (w\<lparr>rw_providerRefundId := Some refund\<rparr>))"

text \<open>A refund of the provider that is in the books already is answered with the row it has; the unique
  index on it refuses a second one.\<close>

definition refund_commit :: "refund_write \<Rightarrow> date \<Rightarrow> books \<Rightarrow> (nat \<times> books) option" where
  "refund_commit w now b = (case find (\<lambda>p. rw_providerRefundId w \<noteq> None \<and> py_stripeRefundId p = rw_providerRefundId w) (bk_payments b) of
      Some existing \<Rightarrow> Some (py_id existing, b)
    | None \<Rightarrow> writeRefund w now b)"

definition refundPayment :: "(cents \<Rightarrow> string \<Rightarrow> refund_authority) \<Rightarrow> (string \<Rightarrow> cents \<Rightarrow> cents \<times> cents \<Rightarrow> string + string) option \<Rightarrow>
    nat \<Rightarrow> refund_input \<Rightarrow> date \<Rightarrow> books \<Rightarrow> (refund_problem + nat) \<times> books" where
  "refundPayment authority provider paymentId input now b = (case refund_decide authority provider paymentId input b of
      Inl problem \<Rightarrow> (Inl problem, b)
    | Inr w \<Rightarrow> (case refund_commit w now b of
        None \<Rightarrow> (Inl Payment_not_found, b)
      | Some (refundId, b) \<Rightarrow> (Inr refundId, b)))"

text \<open>Where the credit of a lease goes back to: card payments, newest first.\<close>

fun plan_parts :: "(book_payment \<Rightarrow> cents) \<Rightarrow> cents \<Rightarrow> book_payment list \<Rightarrow> (nat \<times> cents) list \<times> cents" where
  "plan_parts capacity left [] = ([], left)"
| "plan_parts capacity left (payment # payments) = (
    if left \<le> 0 then ([], left)
    else let amount = min left (capacity payment) in
      if amount \<le> 0 then plan_parts capacity left payments
      else let (parts, rest) = plan_parts capacity (left - amount) payments in ((py_id payment, amount) # parts, rest))"

record refund_plan =
  rp_card :: "(nat \<times> cents) list"
  rp_cardCents :: cents
  rp_chequeCents :: cents

definition held_on :: "string \<Rightarrow> nat \<Rightarrow> books \<Rightarrow> cents" where
  "held_on lease p b = - sum_by be_amountCents (filter (\<lambda>e. be_leaseId e = lease \<and> entry_of_payment p b e) (bk_entries b))"

definition planMoveOutRefund :: "bool \<Rightarrow> string \<Rightarrow> cents \<Rightarrow> books \<Rightarrow> refund_plan" where
  "planMoveOutRefund has_card leaseId creditCents b = (
    let left = max 0 creditCents;
        payments = (if 0 < left \<and> has_card
          then sort_by (then_by (by_key (\<lambda>p. - py_receivedAt p)) (by_key (\<lambda>p. - int (py_id p))))
            (filter (\<lambda>p. py_method p = Card \<and> py_status p \<in> {P_succeeded, P_partially_refunded} \<and> py_refundOf p = None \<and>
              py_intentId p \<noteq> None \<and> list_ex (\<lambda>e. be_leaseId e = leaseId \<and> be_paymentId e = Some (py_id p)) (bk_entries b))
              (bk_payments b))
          else []);
        (parts, rest) = plan_parts (\<lambda>p. min (held_on leaseId (py_id p) b) (py_amountCents p - refunded_cents (py_id p) b)) left payments
    in \<lparr>rp_card = parts, rp_cardCents = max 0 creditCents - rest, rp_chequeCents = rest\<rparr>)"

section \<open>Payments that come back\<close>

text \<open>\<open>may\<close> is the permission \<open>refunds:approve\<close> of the actor at a facility; the system has it everywhere.\<close>

datatype return_problem = Return_forbidden |
  Missing_return_reason | Return_not_found | Not_settled | Already_returned | Nothing_posted | Amount_mismatch cents

fun reverse_rows :: "(string \<times> cents) list \<Rightarrow> book_entry list \<Rightarrow> (book_entry \<times> cents) list" where
  "reverse_rows held [] = []"
| "reverse_rows held (entry # entries) = (
    let cents = min (- be_amountCents entry) (or_else (map_of held (be_leaseId entry)) 0)
    in if cents \<le> 0 then reverse_rows held entries
       else (entry, cents) # reverse_rows (add_total (be_leaseId entry) (- cents) held) entries)"

text \<open>\<open>feeInvoice\<close> is the id the database gives the fee's invoice.\<close>

definition assessNsfFee :: "book_payment \<Rightarrow> string \<Rightarrow> date \<Rightarrow> books \<Rightarrow> cents \<times> books" where
  "assessNsfFee payment feeInvoice now b = (
    case filter (\<lambda>e. be_paymentId e = Some (py_id payment) \<and> be_kind e = Payment) (bk_entries b) of
      [] \<Rightarrow> (0, b)
    | first # _ \<Rightarrow> (case scheduledFeeCents (py_facilityId payment) ''nsf'' now b of
        None \<Rightarrow> (0, b)
      | Some amount \<Rightarrow> (amount, raiseFeeInvoice feeInvoice (py_facilityId payment) (be_leaseId first) now [amount] b)))"

record return_result =
  rr_reversed :: "(string \<times> cents) list"
  rr_feeCents :: cents
  rr_reopenedInvoiceIds :: "string list"

definition returnPayment :: "(string \<Rightarrow> bool) \<Rightarrow> nat \<Rightarrow> string option \<Rightarrow> bool \<Rightarrow> cents option \<Rightarrow> string \<Rightarrow> date \<Rightarrow> books \<Rightarrow>
    (return_problem + return_result) \<times> books" where
  "returnPayment may paymentId reason waiveFee amount feeInvoice now b = (
    if blank reason then (Inl Missing_return_reason, b)
    else case find_payment paymentId b of
      None \<Rightarrow> (Inl Return_not_found, b)
    | Some payment \<Rightarrow>
        if \<not> may (py_facilityId payment) then (Inl Return_forbidden, b)
        else if py_status payment = P_returned then (Inl Already_returned, b)
        else if py_status payment \<noteq> P_succeeded \<and> py_status payment \<noteq> P_partially_refunded then (Inl Not_settled, b)
        else let posted = filter (\<lambda>e. be_paymentId e = Some paymentId \<and> be_kind e = Payment) (bk_entries b) in
          if posted = [] then (Inl Nothing_posted, b)
          else if list_ex (\<lambda>e. be_reversalOf e \<in> set (map (Some \<circ> be_id) posted)) (bk_entries b) then (Inl Already_returned, b)
          else let rows = reverse_rows (held_rows paymentId b) posted; heldCents = sum_by snd rows in
            if heldCents = 0 then (Inl Nothing_posted, b)
            else if (case amount of Some n \<Rightarrow> n < heldCents | None \<Rightarrow> False) then (Inl (Amount_mismatch heldCents), b)
            else let invoiceIds = map pa_invoiceId (filter (\<lambda>a. pa_paymentId a = paymentId) (bk_allocations b));
                b = fold (\<lambda>(e, n). add_entry (be_leaseId e) Adjustment n (Some paymentId) None (Some (be_id e)) now) rows b;
                b = b\<lparr>bk_allocations := filter (\<lambda>a. pa_paymentId a \<noteq> paymentId) (bk_allocations b)\<rparr>;
                b = set_status paymentId P_returned (recomputeInvoices invoiceIds b);
                (fee, b) = (if waiveFee then (0, b) else assessNsfFee payment feeInvoice now b)
              in (Inr \<lparr>rr_reversed = map (\<lambda>(e, n). (be_leaseId e, n)) rows, rr_feeCents = fee,
                rr_reopenedInvoiceIds = invoiceIds\<rparr>, b))"

datatype reinstate_problem = Reinstate_forbidden | Reinstate_not_found | Not_returned | Nothing_reversed

definition reinstatePayment :: "(string \<Rightarrow> bool) \<Rightarrow> nat \<Rightarrow> date \<Rightarrow> books \<Rightarrow> (reinstate_problem + applied_payment) \<times> books" where
  "reinstatePayment may paymentId now b = (case find_payment paymentId b of
      None \<Rightarrow> (Inl Reinstate_not_found, b)
    | Some payment \<Rightarrow>
        if \<not> may (py_facilityId payment) then (Inl Reinstate_forbidden, b)
        else if py_status payment \<noteq> P_returned then (Inl Not_returned, b)
        else let posted = map be_id (filter (\<lambda>e. be_paymentId e = Some paymentId \<and> be_kind e = Payment) (bk_entries b));
            reversals = filter (\<lambda>e. be_reversalOf e \<in> set (map Some posted)) (bk_entries b) in
          if reversals = [] then (Inl Nothing_reversed, b)
          else let refunded = list_ex (\<lambda>r. py_refundOf r = Some paymentId \<and> py_status r \<noteq> P_failed) (bk_payments b);
              b = fold (\<lambda>e. add_entry (be_leaseId e) Adjustment (- be_amountCents e) (Some paymentId) None (Some (be_id e)) now) reversals b;
              b = set_status paymentId (if refunded then P_partially_refunded else P_succeeded) b;
              (applied, b) = applyPayment \<lparr>pi_id = paymentId, pi_tenantId = py_tenantId payment, pi_facilityId = py_facilityId payment,
                  pi_amountCents = sum_by be_amountCents reversals\<rparr>
                \<lparr>ao_explicitInvoiceId = None, ao_restrictToInvoiceIds = None, ao_restrictIsAbsolute = False, ao_accountId = None\<rparr> b
            in (Inr applied, b))"

section \<open>Events of the provider\<close>

text \<open>What the creator of a charge put into its metadata; a checkout is settled elsewhere.\<close>

record charge_intent =
  ci_intentId :: string
  ci_tenantId :: "string option"
  ci_facilityId :: "string option"
  ci_amount :: cents
  ci_method :: pay_method
  ci_checkout :: bool
  ci_leaseId :: "string option"
  ci_invoiceId :: "string option"
  ci_accountId :: "string option"
  ci_planInvoiceIds :: "(string \<times> string list) option"
  ci_created :: date

definition find_intent :: "string \<Rightarrow> books \<Rightarrow> book_payment option" where
  "find_intent intentId b = find (\<lambda>p. py_intentId p = Some intentId) (bk_payments b)"

text \<open>\<open>createChargeIntent\<close>: the pending row and, for a named invoice, its allocation, before the provider is
  asked. \<open>answer\<close> is the id of the provider's intent, or nothing when the call failed; a repeated call is
  answered with the intent of the first, whose row is already there.\<close>

datatype charge_refusal = Not_positive | Provider_failed

definition drop_payment :: "nat \<Rightarrow> books \<Rightarrow> books" where
  "drop_payment p b = b\<lparr>bk_payments := filter (\<lambda>x. py_id x \<noteq> p) (bk_payments b),
    bk_allocations := filter (\<lambda>a. pa_paymentId a \<noteq> p) (bk_allocations b)\<rparr>"

definition set_intent :: "nat \<Rightarrow> string \<Rightarrow> books \<Rightarrow> books" where
  "set_intent p intentId b = b\<lparr>bk_payments := map (\<lambda>x. if py_id x = p then x\<lparr>py_intentId := Some intentId\<rparr> else x) (bk_payments b)\<rparr>"

definition createCharge :: "string \<Rightarrow> string \<Rightarrow> string option \<Rightarrow> cents \<Rightarrow> string option \<Rightarrow> date \<Rightarrow> books \<Rightarrow>
    (charge_refusal + nat \<times> bool) \<times> books" where
  "createCharge facilityId tenantId invoiceId amount answer now b = (
    if amount \<le> 0 then (Inl Not_positive, b)
    else let p = bk_nextId b;
        row = \<lparr>py_id = p, py_facilityId = facilityId, py_tenantId = tenantId, py_amountCents = amount, py_method = Card,
          py_status = P_pending, py_receivedAt = now, py_refundOf = None, py_intentId = None, py_stripeRefundId = None\<rparr>;
        b = b\<lparr>bk_payments := bk_payments b @ [row], bk_nextId := p + 1\<rparr>;
        b = (if truthy invoiceId then put_allocation p (the invoiceId) amount b else b)
      in case answer of
        None \<Rightarrow> (Inl Provider_failed, set_status p P_failed b)
      | Some intentId \<Rightarrow> (case find_intent intentId b of
          Some recorded \<Rightarrow> if py_id recorded \<noteq> p then (Inr (py_id recorded, True), drop_payment p b)
            else (Inr (p, False), set_intent p intentId b)
        | None \<Rightarrow> (Inr (p, False), set_intent p intentId b)))"

text \<open>The row of an intent. A charge whose answer was lost left a failed row without the intent's id: the newest
  that matches is adopted.\<close>

definition orphan_of :: "charge_intent \<Rightarrow> books \<Rightarrow> book_payment \<Rightarrow> bool" where
  "orphan_of intent b p \<longleftrightarrow> Some (py_tenantId p) = ci_tenantId intent \<and> Some (py_facilityId p) = ci_facilityId intent \<and>
    py_amountCents p = ci_amount intent \<and> py_status p = P_failed \<and> py_intentId p = None \<and>
    (truthy (ci_invoiceId intent) \<longrightarrow> find_allocation (py_id p) (the (ci_invoiceId intent)) b \<noteq> None)"

definition adopt :: "nat \<Rightarrow> charge_intent \<Rightarrow> books \<Rightarrow> books" where
  "adopt p intent b = b\<lparr>bk_payments := map (\<lambda>x. if py_id x = p
    then x\<lparr>py_intentId := Some (ci_intentId intent), py_status := P_pending\<rparr> else x) (bk_payments b)\<rparr>"

definition paymentFor :: "charge_intent \<Rightarrow> books \<Rightarrow> (book_payment \<times> books) option" where
  "paymentFor intent b = (case find_intent (ci_intentId intent) b of
      Some payment \<Rightarrow> Some (payment, b)
    | None \<Rightarrow> if \<not> truthy (ci_tenantId intent) \<or> \<not> truthy (ci_facilityId intent) then None
        else (case sort_by (by_key (\<lambda>p. - int (py_id p))) (filter (orphan_of intent b) (bk_payments b)) of
          [] \<Rightarrow> None
        | orphan # _ \<Rightarrow> Some (orphan\<lparr>py_intentId := Some (ci_intentId intent), py_status := P_pending\<rparr>,
            adopt (py_id orphan) intent b)))"

definition anchorLeaseFor :: "book_payment \<Rightarrow> string option \<Rightarrow> books \<Rightarrow> string option" where
  "anchorLeaseFor payment explicit b = (
    if truthy explicit
    then map_option bl_id (find (\<lambda>l. bl_id l = the explicit \<and> payableLeaseFilter (py_tenantId payment) (py_facilityId payment) b l) (bk_leases b))
    else (case sort_by (by_key (\<lambda>l. - bl_startDate l)) (filter (\<lambda>l. bl_tenantId l = py_tenantId payment \<and>
        bl_facilityId l = py_facilityId payment \<and> \<not> bl_ended l) (bk_leases b)) of
      [] \<Rightarrow> None | l # _ \<Rightarrow> Some (bl_id l)))"

definition settlePayment :: "book_payment \<Rightarrow> charge_intent \<Rightarrow> books \<Rightarrow> applied_payment \<times> books" where
  "settlePayment payment intent b = (
    let own = (\<lambda>l. bl_tenantId l = py_tenantId payment);
        named = (if truthy (ci_invoiceId intent)
          then map_option bi_id (find (\<lambda>i. bi_id i = the (ci_invoiceId intent) \<and> bi_facilityId i = py_facilityId payment \<and>
            lease_is own (bi_leaseId i) b) (bk_invoices b))
          else None);
        plan = (case ci_planInvoiceIds intent of None \<Rightarrow> None
          | Some (lease, ids) \<Rightarrow> if lease_is (\<lambda>l. own l \<and> bl_facilityId l = py_facilityId payment) lease b then Some ids else None)
    in applyPayment \<lparr>pi_id = py_id payment, pi_tenantId = py_tenantId payment, pi_facilityId = py_facilityId payment,
        pi_amountCents = py_amountCents payment\<rparr>
      \<lparr>ao_explicitInvoiceId = named, ao_restrictToInvoiceIds = plan, ao_restrictIsAbsolute = False, ao_accountId = ci_accountId intent\<rparr> b)"

definition set_received :: "nat \<Rightarrow> date \<Rightarrow> books \<Rightarrow> books" where
  "set_received p received b = b\<lparr>bk_payments := map (\<lambda>x. if py_id x = p then x\<lparr>py_receivedAt := received\<rparr> else x) (bk_payments b)\<rparr>"

definition set_method :: "nat \<Rightarrow> pay_method \<Rightarrow> books \<Rightarrow> books" where
  "set_method p m b = b\<lparr>bk_payments := map (\<lambda>x. if py_id x = p then x\<lparr>py_method := m\<rparr> else x) (bk_payments b)\<rparr>"

definition paymentSucceeded :: "charge_intent \<Rightarrow> date \<Rightarrow> books \<Rightarrow> books" where
  "paymentSucceeded intent now b = (case paymentFor intent b of
      None \<Rightarrow> b
    | Some (payment, b) \<Rightarrow>
        if py_status payment \<in> {P_succeeded, P_refunded, P_partially_refunded, P_returned} then b
        else let b = set_received (py_id payment) (ci_created intent) (set_status (py_id payment) P_succeeded b) in
          if ci_checkout intent then b
          else let (applied, b) = settlePayment payment intent b
            in postPaymentLedger \<lparr>pi_id = py_id payment, pi_tenantId = py_tenantId payment, pi_facilityId = py_facilityId payment,
              pi_amountCents = py_amountCents payment\<rparr> applied (anchorLeaseFor payment (ci_leaseId intent) b) now b)"

definition paymentProcessing :: "charge_intent \<Rightarrow> books \<Rightarrow> books" where
  "paymentProcessing intent b = (case paymentFor intent b of
      None \<Rightarrow> b
    | Some (payment, b) \<Rightarrow> if py_status payment \<noteq> P_pending then b
        else set_method (py_id payment) (ci_method intent) (set_status (py_id payment) P_processing b))"

definition paymentFailed :: "charge_intent \<Rightarrow> books \<Rightarrow> books" where
  "paymentFailed intent b = (case find_intent (ci_intentId intent) b of
      None \<Rightarrow> b
    | Some payment \<Rightarrow> if py_status payment = P_succeeded then b else set_status (py_id payment) P_failed b)"

section \<open>Examples\<close>

text \<open>Two cash refunds of one payment, decided before either is written, both go through: twice the
  payment goes out. The transaction that writes them does not look again.\<close>

definition full_refund :: refund_input where
  "full_refund = \<lparr>rf_amountCents = 100, rf_reasonCode = Some ''goodwill'', rf_asMethod = None, rf_creditOfLeaseId = None\<rparr>"

theorem refunds_raced:
  "let b = counter_example 1 100 (books_example [rent_example ''i1'' ''l1'' I_open 100 1] []) in
    (case refund_decide (\<lambda>_ _. Authority_given) None 1 full_refund b of
      Inr w \<Rightarrow> map_option (\<lambda>(_, c). map_option (\<lambda>(_, d). (refunded_cents 1 d, ledger_balance ''l1'' d)) (refund_commit w 2 c))
        (refund_commit w 2 b) = Some (Some (200, 100))
    | Inl _ \<Rightarrow> False) \<and> ledger_balance ''l1'' b = - 100"
  by code_simp

text \<open>Applying a payment a second time is not a no-op: what the first time left open is all the second
  time sees, and the row is overwritten with that.\<close>

theorem apply_twice_differs:
  "let b = books_example [rent_example ''i1'' ''l1'' I_open 150 1] [cash_example 1 100];
      c = snd (applyPayment (paid_example 1 100) undirected b)
    in paid_of ''i1'' c = Some (100, I_partially_paid) \<and>
      paid_of ''i1'' (snd (applyPayment (paid_example 1 100) undirected c)) = Some (50, I_partially_paid)"
  by code_simp

text \<open>Autopay charges for the first invoice; before the charge settles the tenant pays that invoice in
  cash and another one is raised. The charge then pays the other invoice, and its reservation of the
  first stays: 200 of its 100 are allocated. When the cash turns out to be false the first invoice
  stays paid.\<close>

definition autopay_intent :: charge_intent where
  "autopay_intent = \<lparr>ci_intentId = ''x'', ci_tenantId = Some ''t1'', ci_facilityId = Some ''f1'', ci_amount = 100, ci_method = Card,
    ci_checkout = False, ci_leaseId = Some ''l1'', ci_invoiceId = Some ''i1'', ci_accountId = None, ci_planInvoiceIds = None, ci_created = 3\<rparr>"

theorem reservation_left_behind:
  "let b = snd (createCharge ''f1'' ''t1'' (Some ''i1'') 100 (Some ''x'') 1 (books_example [rent_example ''i1'' ''l1'' I_open 100 1] []));
      c = counter_example 5 100 b;
      d = c\<lparr>bk_invoices := bk_invoices c @ [rent_example ''i2'' ''l1'' I_open 100 2]\<rparr>;
      e = paymentSucceeded autopay_intent 3 d;
      f = snd (returnPayment (\<lambda>_. True) 5 (Some ''counterfeit'') True None [] 4 e)
    in paid_of ''i1'' c = Some (100, I_paid) \<and> allocated_cents 10 e = 200 \<and> paid_of ''i2'' e = Some (100, I_paid) \<and>
      paid_of ''i1'' f = Some (100, I_paid)"
  by code_simp

text \<open>A part payment of an invoice whose rest was written off comes back: the invoice is open again for all
  of it, the part that was forgiven included. Of the forgiven states only a void is kept.\<close>

theorem written_off_reopened:
  "let b = counter_example 1 40 (books_example [rent_example ''i1'' ''l1'' I_open 100 1] []);
      c = b\<lparr>bk_invoices := map (\<lambda>v. v\<lparr>bi_status := I_uncollectible\<rparr>) (bk_invoices b)\<rparr>
    in paid_of ''i1'' b = Some (40, I_partially_paid) \<and>
      paid_of ''i1'' (snd (returnPayment (\<lambda>_. True) 1 (Some ''nsf'') True None [] 2 c)) = Some (0, I_open)"
  by code_simp

text \<open>Credit applied to an invoice that was voided in the meantime is gone, and the invoice stays void.\<close>

theorem credit_lost_on_void:
  "let b = books_example [rent_example ''i1'' ''l1'' I_void 100 1] [cash_example 1 100];
      (answer, c) = applyCreditByStaff (\<lambda>_. True) ''i1'' b
    in answer = Inr 100 \<and> creditCentsFor ''t1'' ''f1'' b = 100 \<and> creditCentsFor ''t1'' ''f1'' c = 0 \<and> paid_of ''i1'' c = Some (0, I_void)"
  by code_simp

text \<open>A decline that is delivered late, after the charge succeeded on a second try and part of it was refunded,
  marks the payment failed: the money that was kept no longer settles anything.\<close>

theorem late_decline_unsettles:
  "let b = snd (createCharge ''f1'' ''t1'' None 100 (Some ''x'') 1 (books_example [rent_example ''i1'' ''l1'' I_open 100 1] []));
      c = paymentSucceeded (autopay_intent\<lparr>ci_invoiceId := None\<rparr>) 2 b;
      (answer, d) = refundPayment (\<lambda>_ _. Authority_given) None 10 (full_refund\<lparr>rf_amountCents := 30, rf_asMethod := Some By_cash\<rparr>) 3 c;
      e = paymentFailed autopay_intent d
    in paid_of ''i1'' d = Some (70, I_partially_paid) \<and> map_option py_status (find_payment 10 e) = Some P_failed \<and>
      paid_of ''i1'' (recomputeInvoices [''i1''] e) = Some (0, I_open)"
  by code_simp

section \<open>Refunds add up\<close>

interpretation unwinding: greedy pa_amountCents snd
    "\<lambda>r cs. unwind r (filter (\<lambda>a. 0 < pa_amountCents a) cs)" Pair
proof unfold_locales
  fix r c cs
  show "r \<le> 0 \<Longrightarrow> unwind r (filter (\<lambda>a. 0 < pa_amountCents a) (c # cs)) = ([], r)"
    by (cases "filter (\<lambda>a. 0 < pa_amountCents a) (c # cs)") auto
qed (auto simp: Let_def)

lemma room_takes_done: "toUnwind \<le> 0 \<Longrightarrow> room_takes toUnwind rooms = ([], toUnwind)"
  by (induction toUnwind rooms rule: room_takes.induct) (auto simp: Let_def)

interpretation debits: greedy snd snd room_takes "\<lambda>r n. (fst r, n)"
  by unfold_locales (auto simp: Let_def room_takes_done split: prod.splits)

lemma sum_remove_one:
  assumes "distinct (map key xs)" "x \<in> set xs" "key x = k"
  shows "sum_by f (filter (\<lambda>a. key a \<noteq> k) xs) = sum_by f xs - (f x :: int)"
  using assms
proof (induction xs)
  case (Cons y xs)
  show ?case
  proof (cases "key y = k")
    case True
    moreover have "key y \<notin> key ` set xs" using Cons.prems(1) by simp
    ultimately have "key a \<noteq> k" if "a \<in> set xs" for a using that by (metis imageI)
    then have "y = x" "filter (\<lambda>a. key a \<noteq> k) xs = xs" using Cons.prems by (auto intro: filter_True)
    then show ?thesis using True by simp
  next
    case False
    then show ?thesis using Cons by auto
  qed
qed simp

lemma cut_frame [simp]:
  "bk_invoices (cut_allocation x b) = bk_invoices b" "bk_payments (cut_allocation x b) = bk_payments b"
  "bk_entries (cut_allocation x b) = bk_entries b"
  by (simp_all add: cut_allocation_def Let_def split: prod.split)

lemma find_filter_other:
  "(\<And>x. P x \<Longrightarrow> Q x) \<Longrightarrow> find P (filter Q xs) = find P xs"
  by (induction xs) auto

lemma cut_held:
  assumes "keys_ok b" "find_allocation p i b = Some a" "n \<le> pa_amountCents a"
  shows "keys_ok (cut_allocation (a, n) b)" and "held_cents Q (cut_allocation (a, n) b) = held_cents Q b - (if Q p i then n else 0)"
    and "(q, j) \<noteq> (p, i) \<Longrightarrow> find_allocation q j (cut_allocation (a, n) b) = find_allocation q j b"
proof -
  have a: "a \<in> set (bk_allocations b)" "pa_paymentId a = p" "pa_invoiceId a = i" using find_allocation_Some [OF assms(2)] by auto
  have "held_cents Q (cut_allocation (a, n) b) = held_cents Q b - (if Q p i then n else 0)" if "\<not> 0 < pa_amountCents a - n"
  proof -
    let ?f = "\<lambda>a. if Q (pa_paymentId a) (pa_invoiceId a) then pa_amountCents a else 0"
    have sum: "sum_by pa_amountCents (filter (\<lambda>a. Q (pa_paymentId a) (pa_invoiceId a)) xs) = sum_by ?f xs" for xs
      by (induction xs) auto
    have "sum_by ?f (filter (\<lambda>x. (pa_paymentId x, pa_invoiceId x) \<noteq> (p, i)) (bk_allocations b)) = sum_by ?f (bk_allocations b) - ?f a"
      using assms(1) a by (intro sum_remove_one) (simp_all add: keys_ok_def)
    then show ?thesis using that assms(3) a unfolding held_cents_def sum by (simp add: cut_allocation_def sum)
  qed
  moreover have "held_cents Q (cut_allocation (a, n) b) = held_cents Q b - (if Q p i then n else 0)" if "0 < pa_amountCents a - n"
    using that assms(2) a put_allocation_held [OF assms(1), of Q p i "pa_amountCents a - n"]
    by (simp add: cut_allocation_def allocation_cents_def)
  ultimately show "held_cents Q (cut_allocation (a, n) b) = held_cents Q b - (if Q p i then n else 0)" by blast
  show "keys_ok (cut_allocation (a, n) b)"
    using assms(1) put_allocation_keys [OF assms(1)] by (simp add: cut_allocation_def keys_ok_def distinct_map_filter)
  show "find_allocation q j (cut_allocation (a, n) b) = find_allocation q j b" if ne: "(q, j) \<noteq> (p, i)"
  proof (cases "0 < pa_amountCents a - n")
    case True
    then show ?thesis using ne a assms(2) find_set_amount [OF ne, of "pa_amountCents a - n"]
      by (simp add: cut_allocation_def put_allocation_def find_allocation_def)
  next
    case False
    have "find (\<lambda>x. pa_paymentId x = q \<and> pa_invoiceId x = j) (filter (\<lambda>x. \<not> (pa_paymentId x = p \<and> pa_invoiceId x = i)) (bk_allocations b)) =
        find (\<lambda>x. pa_paymentId x = q \<and> pa_invoiceId x = j) (bk_allocations b)"
      using ne by (intro find_filter_other) auto
    then show ?thesis using False a by (simp add: cut_allocation_def find_allocation_def)
  qed
qed

lemma cuts_held:
  assumes "keys_ok b" "distinct (map (\<lambda>c. (pa_paymentId (fst c), pa_invoiceId (fst c))) cuts)"
    and "\<forall>(a, n) \<in> set cuts. find_allocation (pa_paymentId a) (pa_invoiceId a) b = Some a \<and> n \<le> pa_amountCents a"
  shows "keys_ok (fold cut_allocation cuts b) \<and> bk_payments (fold cut_allocation cuts b) = bk_payments b \<and>
    bk_invoices (fold cut_allocation cuts b) = bk_invoices b \<and> bk_entries (fold cut_allocation cuts b) = bk_entries b \<and>
    held_cents Q (fold cut_allocation cuts b) =
      held_cents Q b - sum_by (\<lambda>(a, n). if Q (pa_paymentId a) (pa_invoiceId a) then n else 0) cuts"
  using assms
proof (induction cuts arbitrary: b)
  case (Cons c cuts)
  obtain a n where c: "c = (a, n)" by fastforce
  let ?p = "pa_paymentId a" and ?i = "pa_invoiceId a"
  have a: "find_allocation ?p ?i b = Some a" "n \<le> pa_amountCents a" using Cons.prems(3) by (auto simp: c)
  note cut = cut_held [OF Cons.prems(1) a]
  have "find_allocation (pa_paymentId x) (pa_invoiceId x) (cut_allocation c b) = Some x \<and> m \<le> pa_amountCents x"
    if mem: "(x, m) \<in> set cuts" for x m
  proof -
    have "(?p, ?i) \<notin> (\<lambda>c. (pa_paymentId (fst c), pa_invoiceId (fst c))) ` set cuts" using Cons.prems(2) by (simp add: c)
    moreover have "(pa_paymentId x, pa_invoiceId x) \<in> (\<lambda>c. (pa_paymentId (fst c), pa_invoiceId (fst c))) ` set cuts"
      using mem by (rule rev_image_eqI) simp
    ultimately have "(pa_paymentId x, pa_invoiceId x) \<noteq> (?p, ?i)" by metis
    moreover have "find_allocation (pa_paymentId x) (pa_invoiceId x) b = Some x \<and> m \<le> pa_amountCents x"
      using Cons.prems(3) mem by auto
    ultimately show ?thesis using cut(3) by (simp add: c)
  qed
  then have kept: "\<forall>(x, m) \<in> set cuts. find_allocation (pa_paymentId x) (pa_invoiceId x) (cut_allocation c b) = Some x \<and> m \<le> pa_amountCents x"
    by blast
  have "distinct (map (\<lambda>c. (pa_paymentId (fst c), pa_invoiceId (fst c))) cuts)" using Cons.prems(2) by simp
  note rest = Cons.IH [OF cut(1) [folded c] this kept]
  show ?case using rest cut(2) [of Q] by (simp add: c)
qed simp

definition books_sound :: "books \<Rightarrow> bool" where
  "books_sound b \<longleftrightarrow> keys_ok b \<and> (\<forall>p \<in> set (bk_payments b). py_id p < bk_nextId b) \<and>
    (\<forall>a \<in> set (bk_allocations b). 0 < pa_amountCents a) \<and>
    (\<forall>e \<in> set (bk_entries b). be_leaseId e \<noteq> [] \<and> (\<forall>p. be_paymentId e = Some p \<longrightarrow> p < bk_nextId b))"

lemma unwind_prefix: "map fst (fst (unwind r cs)) = take (length (fst (unwind r cs))) cs"
  by (induction r cs rule: unwind.induct) (auto simp: Let_def split: prod.splits)

text \<open>What the loop over the allocations of a payment takes off them.\<close>

lemma unwound:
  assumes "books_sound b" "0 < n"
    and "unwind n (sort_by (unwind_order b) (filter (\<lambda>a. pa_paymentId a = p) (bk_allocations b))) = (cuts, rest)"
  shows "sum_by snd cuts = min n (allocated_cents p b)" and "rest = n - sum_by snd cuts"
    and "distinct (map (\<lambda>c. (pa_paymentId (fst c), pa_invoiceId (fst c))) cuts)"
    and "\<forall>(a, m) \<in> set cuts. find_allocation (pa_paymentId a) (pa_invoiceId a) b = Some a \<and> m \<le> pa_amountCents a \<and> pa_paymentId a = p"
proof -
  let ?own = "filter (\<lambda>a. pa_paymentId a = p) (bk_allocations b)"
  let ?as = "sort_by (unwind_order b) ?own"
  have pos: "filter (\<lambda>a. 0 < pa_amountCents a) ?as = ?as" using assms(1) by (intro filter_True) (auto simp: books_sound_def)
  have cuts: "cuts = fst (unwind n ?as)" "rest = snd (unwind n ?as)" by (simp_all add: assms(3))
  have "sum_by (\<lambda>a. max 0 (pa_amountCents a)) ?as = sum_by pa_amountCents ?own"
    using assms(1) unfolding sum_by_sort_by by (intro arg_cong [of _ _ sum_list] map_cong) (auto simp: books_sound_def max_def)
  then have "sum_by (\<lambda>a. max 0 (pa_amountCents a)) ?as = allocated_cents p b" by (simp add: allocated_cents_def)
  then have "rest = max 0 (n - allocated_cents p b)"
    using unwinding.run_rest_eq [of n ?as] assms(2) by (simp add: pos cuts)
  moreover show "rest = n - sum_by snd cuts" using unwinding.run_conserves [of n ?as] by (simp add: pos cuts)
  ultimately show "sum_by snd cuts = min n (allocated_cents p b)" by linarith
  have keys: "distinct (map (\<lambda>a. (pa_paymentId a, pa_invoiceId a)) ?as)"
    using assms(1) by (simp add: distinct_map_sort_by books_sound_def keys_ok_def distinct_map_filter)
  have "map (\<lambda>c. (pa_paymentId (fst c), pa_invoiceId (fst c))) cuts = map (\<lambda>a. (pa_paymentId a, pa_invoiceId a)) (map fst cuts)" by simp
  then show "distinct (map (\<lambda>c. (pa_paymentId (fst c), pa_invoiceId (fst c))) cuts)"
    unfolding cuts unwind_prefix using distinct_take [OF keys] by (simp add: take_map)
  show "\<forall>(a, m) \<in> set cuts. find_allocation (pa_paymentId a) (pa_invoiceId a) b = Some a \<and> m \<le> pa_amountCents a \<and> pa_paymentId a = p"
  proof (intro ballI, clarify, intro conjI)
    fix a m assume "(a, m) \<in> set cuts"
    then have "a \<in> set ?own \<and> m \<le> pa_amountCents a" using unwinding.run_amounts [of "(a, m)" n ?as] by (auto simp: pos cuts)
    then show "m \<le> pa_amountCents a" "pa_paymentId a = p" and "find_allocation (pa_paymentId a) (pa_invoiceId a) b = Some a"
      using assms(1) find_unique [of "\<lambda>a. (pa_paymentId a, pa_invoiceId a)" "bk_allocations b" a]
      by (simp_all add: find_allocation_def books_sound_def keys_ok_def)
  qed
qed

lemma held_rows_nonempty: "held_rows p b = [] \<longleftrightarrow> (\<forall>e \<in> set (bk_entries b). \<not> entry_of_payment p b e)"
proof -
  have "held_rows p b = [] \<longleftrightarrow> fst ` set (tally be_leaseId be_amountCents (filter (entry_of_payment p b) (bk_entries b))) = {}"
    by (simp add: held_rows_def)
  then show ?thesis unfolding tally_keys by (simp add: filter_empty_conv Ball_def)
qed

lemma refund_debits_sum:
  assumes "\<not> truthy (rw_creditOfLeaseId w)" "0 \<le> toUnwind"
    and "\<exists>e \<in> set (bk_entries b). entry_of_payment (rw_paymentId w) b e" "\<forall>e \<in> set (bk_entries b). be_leaseId e \<noteq> []"
  shows "sum_by snd (refund_debits w cuts toUnwind b) = sum_by snd cuts + toUnwind"
proof (cases "toUnwind = 0")
  case False
  let ?byLease = "tally (\<lambda>c. lease_key b (fst c)) snd cuts"
  let ?held = "map (\<lambda>(lease, n). (lease, n - or_else (map_of ?byLease lease) 0)) (held_rows (rw_paymentId w) b)"
  let ?room = "sort_by (then_by (by_key (\<lambda>r. - snd r)) (\<lambda>r s. localeCompare (fst r) (fst s))) ?held"
  let ?posts = "fst (room_takes toUnwind ?room)" and ?rest = "snd (room_takes toUnwind ?room)"
  let ?all = "foldl (\<lambda>totals x. add_total (fst x) (snd x) totals) ?byLease ?posts"
  have fold: "distinct (map fst ?all) \<and> sum_by snd ?all = sum_by snd cuts + sum_by snd ?posts"
    using tally_fold [where ps = ?byLease and key = fst and val = snd and xs = ?posts, OF tally_distinct refl] by simp
  have "held_rows (rw_paymentId w) b \<noteq> []" using assms(3) held_rows_nonempty by blast
  then obtain r rs where r: "?room = r # rs" by (cases ?room) auto
  have "set (r # rs) = set ?held" unfolding r [symmetric] by (rule set_sort_by)
  from this list.set_intros(1) have "r \<in> set ?held" by (rule subst)
  then obtain m where "(fst r, m) \<in> set (held_rows (rw_paymentId w) b)" by auto
  then have "fst r \<in> fst ` set (tally be_leaseId be_amountCents (filter (entry_of_payment (rw_paymentId w) b) (bk_entries b)))"
    by (auto simp: held_rows_def intro: rev_image_eqI)
  then have "fst r \<in> be_leaseId ` set (bk_entries b)" unfolding tally_keys by auto
  then have "truthy (Some (fst r))" using assms(4) by (auto simp: truthy_def)
  moreover have "0 \<le> ?rest" using debits.run_rest_nonneg [of toUnwind ?room] assms(2) by simp
  moreover have "sum_by snd ?posts + ?rest = toUnwind" using debits.run_conserves [of toUnwind ?room] by simp
  moreover have d: "refund_debits w cuts toUnwind b = (if 0 < ?rest \<and> truthy (Some (fst r)) then add_total (fst r) ?rest ?all else ?all)"
    using assms(1,2) False r
    by (auto simp: refund_debits_def truthy_def Let_def split_def split: option.splits list.splits)
  ultimately show ?thesis using fold sum_by_snd_update [of ?all "fst r"] by (auto simp: add_total_def)
qed (use assms(1) in \<open>auto simp: refund_debits_def truthy_def Let_def split: option.splits\<close>)

lemma set_status_frame [simp]:
  "bk_allocations (set_status p s b) = bk_allocations b" "bk_entries (set_status p s b) = bk_entries b"
  "bk_invoices (set_status p s b) = bk_invoices b" "held_cents Q (set_status p s b) = held_cents Q b"
  by (simp_all add: set_status_def held_cents_def)

lemma add_refund_frame [simp]:
  "bk_allocations (add_refund payment w now b) = bk_allocations b" "bk_entries (add_refund payment w now b) = bk_entries b"
  "bk_invoices (add_refund payment w now b) = bk_invoices b" "held_cents Q (add_refund payment w now b) = held_cents Q b"
  by (simp_all add: add_refund_def held_cents_def)

lemma posted_frame [simp]:
  "bk_payments (fold (\<lambda>(lease, n). add_entry lease kind (f n) p iv rv now) rows b) = bk_payments b"
  "bk_allocations (fold (\<lambda>(lease, n). add_entry lease kind (f n) p iv rv now) rows b) = bk_allocations b"
  "bk_invoices (fold (\<lambda>(lease, n). add_entry lease kind (f n) p iv rv now) rows b) = bk_invoices b"
  by (induction rows arbitrary: b) (auto simp: add_entry_def)

text \<open>The books while a refund is written, from the rows of the loop to the ledger.\<close>

lemma writing_refund:
  assumes "books_sound b" "find_payment (rw_paymentId w) b = Some payment" "0 < rw_amountCents w"
    and "writeRefund w now b = Some (r, b')"
  obtains cuts rest c where
    "r = bk_nextId b"
    "truthy (rw_creditOfLeaseId w) \<Longrightarrow> cuts = [] \<and> rest = 0"
    "\<not> truthy (rw_creditOfLeaseId w) \<Longrightarrow> sum_by snd cuts = min (rw_amountCents w) (allocated_cents (rw_paymentId w) b) \<and>
      rest = rw_amountCents w - sum_by snd cuts"
    "\<And>q. allocated_cents q c = allocated_cents q b - (if q = rw_paymentId w then sum_by snd cuts else 0)"
    "bk_payments c = bk_payments (add_refund payment w now b)" "bk_entries c = bk_entries b"
    "b' = set_status (rw_paymentId w) (if py_amountCents payment \<le> refunded_cents (rw_paymentId w) b + rw_amountCents w
        then P_refunded else P_partially_refunded)
      (fold (\<lambda>(lease, n). add_entry lease Refund n (Some r) None None now) (refund_debits w cuts rest c) c)"
proof -
  let ?p = "rw_paymentId w"
  let ?as = "if truthy (rw_creditOfLeaseId w) then []
    else sort_by (unwind_order b) (filter (\<lambda>a. pa_paymentId a = ?p) (bk_allocations b))"
  obtain cuts rest where u: "(if truthy (rw_creditOfLeaseId w) then ([], 0) else unwind (rw_amountCents w) ?as) = (cuts, rest)"
    by fastforce
  let ?b1 = "add_refund payment w now b"
  let ?b2 = "fold cut_allocation cuts ?b1"
  let ?c = "recomputeInvoices (map pa_invoiceId ?as) ?b2"
  have unwound: "sum_by snd cuts = min (rw_amountCents w) (allocated_cents ?p b)" "rest = rw_amountCents w - sum_by snd cuts"
    "distinct (map (\<lambda>c. (pa_paymentId (fst c), pa_invoiceId (fst c))) cuts)"
    "\<forall>(a, m) \<in> set cuts. find_allocation (pa_paymentId a) (pa_invoiceId a) b = Some a \<and> m \<le> pa_amountCents a \<and> pa_paymentId a = ?p"
    if "\<not> truthy (rw_creditOfLeaseId w)"
    using unwound [OF assms(1,3), of ?p cuts rest] u that by simp_all
  have none: "cuts = [] \<and> rest = 0" if "truthy (rw_creditOfLeaseId w)" using u that by simp
  have k1: "keys_ok ?b1" using assms(1) by (auto simp: books_sound_def keys_ok_def add_refund_def)
  have cut: "keys_ok ?b2 \<and> bk_payments ?b2 = bk_payments ?b1 \<and> bk_invoices ?b2 = bk_invoices ?b1 \<and> bk_entries ?b2 = bk_entries ?b1 \<and>
      held_cents Q ?b2 = held_cents Q ?b1 - sum_by (\<lambda>(a, n). if Q (pa_paymentId a) (pa_invoiceId a) then n else 0) cuts" for Q
  proof (cases "truthy (rw_creditOfLeaseId w)")
    case True
    then show ?thesis using none k1 by simp
  next
    case False
    then show ?thesis using unwound(3,4) by (intro cuts_held [OF k1]) (auto simp: find_allocation_def)
  qed
  have own: "sum_by (\<lambda>(a, n). if pa_paymentId a = q then n else 0) cuts = (if q = ?p then sum_by snd cuts else 0)" for q
  proof -
    have "\<forall>x \<in> set cuts. pa_paymentId (fst x) = ?p" using unwound(4) none by (cases "truthy (rw_creditOfLeaseId w)") auto
    then show ?thesis by (induction cuts) (auto simp: split_def)
  qed
  have c: "?c = ?b2\<lparr>bk_invoices := map (refresh_in (set (map pa_invoiceId ?as)) ?b2) (bk_invoices ?b2)\<rparr>"
  proof (rule recomputeInvoices_eq)
    have "keys_ok ?b2" using cut by blast
    then show "distinct (map bi_id (bk_invoices ?b2))" unfolding keys_ok_def by (rule conjunct1)
  qed
  have "allocated_cents q ?c = allocated_cents q b - (if q = ?p then sum_by snd cuts else 0)" for q
    using cut [of "\<lambda>x _. x = q"] own [of q] unfolding c allocated_held by simp
  moreover have "bk_payments ?c = bk_payments ?b1" "bk_entries ?c = bk_entries b"
    using cut [of "\<lambda>_ _. True"] unfolding c by simp_all
  moreover have "writeRefund w now b = Some (bk_nextId b, set_status ?p
      (if py_amountCents payment \<le> refunded_cents ?p b + rw_amountCents w then P_refunded else P_partially_refunded)
      (fold (\<lambda>(lease, n). add_entry lease Refund n (Some (bk_nextId b)) None None now) (refund_debits w cuts rest ?c) ?c))"
    by (cases "truthy (rw_creditOfLeaseId w)") (use u in \<open>simp_all add: writeRefund_def assms(2) Let_def\<close>)
  ultimately show thesis using that [of cuts rest ?c] none unwound assms(4) by simp
qed

lemma refunded_written:
  assumes "books_sound b" "find_payment p b = Some payment" "py_refundOf payment = None" "rw_paymentId w = p"
    and "bk_payments b' = bk_payments (set_status p s (add_refund payment w now b))"
  shows "refunded_cents p b' = refunded_cents p b + rw_amountCents w"
proof -
  have p: "payment \<in> set (bk_payments b)" "py_id payment = p" using assms(2) by (auto simp: find_payment_def find_Some_iff)
  have "py_refundOf x = None" if "x \<in> set (bk_payments b)" "py_id x = p" for x
    using that p assms(1,3) unfolding books_sound_def keys_ok_def distinct_map inj_on_def by metis
  then have old: "sum_by py_amountCents (filter (\<lambda>x. py_refundOf x = Some p \<and> py_status x \<noteq> P_failed)
      (map (\<lambda>x. if py_id x = p then x\<lparr>py_status := s\<rparr> else x) xs)) =
    sum_by py_amountCents (filter (\<lambda>x. py_refundOf x = Some p \<and> py_status x \<noteq> P_failed) xs)"
    if "set xs \<subseteq> set (bk_payments b)" for xs
    using that by (induction xs) auto
  have "p < bk_nextId b" using p assms(1) by (auto simp: books_sound_def)
  then show ?thesis using old [OF subset_refl] p
    by (simp add: refunded_cents_def assms(4,5) set_status_def add_refund_def)
qed

lemma refund_decideD:
  assumes "refund_decide authority provider p input b = Inr w"
  obtains payment where "find_payment p b = Some payment" "0 < rf_amountCents input"
    "refunded_cents p b + rf_amountCents input \<le> py_amountCents payment" "\<not> blank (rf_reasonCode input)"
    "py_status payment \<in> {P_succeeded, P_partially_refunded}"
    "authority (rf_amountCents input) (py_facilityId payment) = Authority_given"
    "rw_paymentId w = p" "rw_amountCents w = rf_amountCents input" "rw_creditOfLeaseId w = rf_creditOfLeaseId input"
    "rw_method w = By_card \<longleftrightarrow> rw_providerRefundId w \<noteq> None"
  using assms unfolding refund_decide_def Let_def
  by (auto split: if_splits option.splits refund_authority.splits sum.splits)


text \<open>A payment of 100 at the counter, applied and posted.\<close>

definition paid_books :: books where
  "paid_books = counter_example 1 100 (books_example [rent_example ''i1'' ''l1'' I_open 100 1] [])"

lemma paid_books_rows:
  "bk_invoices paid_books = [(rent_example ''i1'' ''l1'' I_open 100 1)\<lparr>bi_status := I_paid, bi_amountPaidCents := 100\<rparr>]"
  "bk_payments paid_books = [cash_example 1 100]"
  "bk_allocations paid_books = [\<lparr>pa_id = 10, pa_paymentId = 1, pa_invoiceId = ''i1'', pa_amountCents = 100\<rparr>]"
  "bk_entries paid_books = [\<lparr>be_id = 11, be_leaseId = ''l1'', be_kind = Payment, be_amountCents = - 100, be_paymentId = Some 1,
    be_invoiceId = None, be_reversalOf = None, be_occurredAt = 1, be_correction = False\<rparr>]"
  "bk_nextId paid_books = 12"
  by code_simp+

lemma paid_books_sound: "books_sound paid_books"
  by (simp add: books_sound_def keys_ok_def paid_books_rows cash_example_def)


section \<open>Returns and reinstatements\<close>

definition reversed_on :: "string \<Rightarrow> (book_entry \<times> cents) list \<Rightarrow> cents" where
  "reversed_on lease rows = sum_by snd (filter (\<lambda>x. be_leaseId (fst x) = lease) rows)"

lemma reverse_rows_sum:
  assumes "\<forall>e \<in> set es. be_amountCents e \<le> 0" "distinct (map fst held)"
  shows "reversed_on lease (reverse_rows held es) = max 0 (min (or_else (map_of held lease) 0)
    (- sum_by be_amountCents (filter (\<lambda>e. be_leaseId e = lease) es)))"
  using assms
proof (induction es arbitrary: held)
  case (Cons e es)
  let ?h = "or_else (map_of held (be_leaseId e)) 0"
  let ?n = "min (- be_amountCents e) ?h"
  have neg: "0 \<le> - sum_by be_amountCents (filter (\<lambda>e. be_leaseId e = l) es)" for l
    using Cons.prems(1) by (induction es) auto
  show ?case
  proof (cases "?n \<le> 0")
    case True
    then show ?thesis using Cons.IH [OF _ Cons.prems(2)] Cons.prems(1) neg [of lease] by (auto simp: Let_def)
  next
    case False
    have d: "distinct (map fst (add_total (be_leaseId e) (- ?n) held))" using Cons.prems(2) by (simp add: add_total_def distinct_update)
    have m: "or_else (map_of (add_total (be_leaseId e) (- ?n) held) lease) 0 =
        or_else (map_of held lease) 0 - (if be_leaseId e = lease then ?n else 0)"
      by (auto simp: add_total_def update_conv)
    have "reversed_on lease (reverse_rows held (e # es)) = (if be_leaseId e = lease then ?n else 0) +
        reversed_on lease (reverse_rows (add_total (be_leaseId e) (- ?n) held) es)"
      using False by (simp add: Let_def reversed_on_def)
    then show ?thesis using Cons.IH [OF _ d] Cons.prems(1) neg [of lease] m False by (auto simp: min_def max_def)
  qed
qed (simp add: reversed_on_def)

lemma reverse_rows_mem: "(e, n) \<in> set (reverse_rows held es) \<Longrightarrow> e \<in> set es \<and> 0 < n"
  by (induction held es rule: reverse_rows.induct) (auto simp: Let_def split: if_splits)

lemma held_rows_get: "or_else (map_of (held_rows p b) lease) 0 = held_on lease p b"
  and held_rows_distinct: "distinct (map fst (held_rows p b))"
proof -
  let ?t = "tally be_leaseId be_amountCents (filter (entry_of_payment p b) (bk_entries b))"
  have m: "map_of (map (\<lambda>(lease, n). (lease, - n)) xs) l = map_option uminus (map_of xs l)" for xs :: "(string \<times> cents) list" and l
    by (induction xs) auto
  have "or_else (map_of (held_rows p b) lease) 0 = - or_else (map_of ?t lease) 0"
    by (cases "map_of ?t lease") (simp_all add: held_rows_def m)
  then show "or_else (map_of (held_rows p b) lease) 0 = held_on lease p b"
    unfolding tally_get by (simp add: held_on_def conj_commute)
  have "map fst (held_rows p b) = map fst ?t" by (simp add: held_rows_def split_def)
  then show "distinct (map fst (held_rows p b))" by simp
qed

text \<open>The entries a list of corrections writes.\<close>

lemma corrections:
  "\<exists>es. bk_entries (fold (\<lambda>x. add_entry (lease x) Adjustment (n x) (Some p) None (Some (of_entry x)) now) rows b) = bk_entries b @ es \<and>
    map (\<lambda>e. (be_leaseId e, be_kind e, be_amountCents e, be_paymentId e, be_reversalOf e)) es =
      map (\<lambda>x. (lease x, Adjustment, n x, Some p, Some (of_entry x))) rows"
proof (induction rows arbitrary: b)
  case (Cons x rows)
  let ?b = "add_entry (lease x) Adjustment (n x) (Some p) None (Some (of_entry x)) now b"
  let ?e = "\<lparr>be_id = bk_nextId b, be_leaseId = lease x, be_kind = Adjustment, be_amountCents = n x,
        be_paymentId = Some p, be_invoiceId = None, be_reversalOf = Some (of_entry x), be_occurredAt = now, be_correction = False\<rparr>"
  obtain es where es: "bk_entries (fold (\<lambda>x. add_entry (lease x) Adjustment (n x) (Some p) None (Some (of_entry x)) now) rows ?b) =
      bk_entries ?b @ es"
    "map (\<lambda>e. (be_leaseId e, be_kind e, be_amountCents e, be_paymentId e, be_reversalOf e)) es =
      map (\<lambda>x. (lease x, Adjustment, n x, Some p, Some (of_entry x))) rows"
    using Cons.IH by blast
  have "bk_entries ?b = bk_entries b @ [?e]" by (simp add: add_entry_def)
  then have "bk_entries (fold (\<lambda>x. add_entry (lease x) Adjustment (n x) (Some p) None (Some (of_entry x)) now) (x # rows) b) =
      bk_entries b @ ?e # es" using es(1) by simp
  moreover have "map (\<lambda>e. (be_leaseId e, be_kind e, be_amountCents e, be_paymentId e, be_reversalOf e)) (?e # es) =
      map (\<lambda>x. (lease x, Adjustment, n x, Some p, Some (of_entry x))) (x # rows)" using es(2) by simp
  ultimately show ?case by blast
qed simp

lemma corrections_frame [simp]:
  "bk_payments (fold (\<lambda>x. add_entry (lease x) Adjustment (n x) p iv (rv x) now) rows b) = bk_payments b"
  "bk_allocations (fold (\<lambda>x. add_entry (lease x) Adjustment (n x) p iv (rv x) now) rows b) = bk_allocations b"
  "bk_invoices (fold (\<lambda>x. add_entry (lease x) Adjustment (n x) p iv (rv x) now) rows b) = bk_invoices b"
  by (induction rows arbitrary: b) (auto simp: add_entry_def)

text \<open>A return that goes through, in the books it leaves.\<close>

lemma returned:
  assumes "keys_ok b" "returnPayment may p reason True amount inv_id now b = (Inr result, b')"
  obtains es payment rows posted where
    "find_payment p b = Some payment" "py_status payment \<in> {P_succeeded, P_partially_refunded}"
    "posted = filter (\<lambda>e. be_paymentId e = Some p \<and> be_kind e = Payment) (bk_entries b)"
    "rows = reverse_rows (held_rows p b) posted" "sum_by snd rows \<noteq> 0"
    "\<forall>e \<in> set (bk_entries b). be_reversalOf e \<notin> set (map (Some \<circ> be_id) posted)"
    "bk_entries b' = bk_entries b @ es"
    "map (\<lambda>e. (be_leaseId e, be_kind e, be_amountCents e, be_paymentId e, be_reversalOf e)) es =
      map (\<lambda>x. (be_leaseId (fst x), Adjustment, snd x, Some p, Some (be_id (fst x)))) rows"
    "bk_payments b' = bk_payments (set_status p P_returned b)"
    "bk_allocations b' = filter (\<lambda>a. pa_paymentId a \<noteq> p) (bk_allocations b)"
    "keys_ok b'"
proof -
  let ?posted = "filter (\<lambda>e. be_paymentId e = Some p \<and> be_kind e = Payment) (bk_entries b)"
  let ?rows = "reverse_rows (held_rows p b) ?posted"
  obtain payment where pay: "find_payment p b = Some payment" "py_status payment \<in> {P_succeeded, P_partially_refunded}"
    "\<not> list_ex (\<lambda>e. be_reversalOf e \<in> set (map (Some \<circ> be_id) ?posted)) (bk_entries b)" "sum_by snd ?rows \<noteq> 0"
    using assms(2) unfolding returnPayment_def Let_def by (auto split: if_splits option.splits)
  let ?c = "fold (\<lambda>x. add_entry (be_leaseId (fst x)) Adjustment (snd x) (Some p) None (Some (be_id (fst x))) now) ?rows b"
  let ?d = "?c\<lparr>bk_allocations := filter (\<lambda>a. pa_paymentId a \<noteq> p) (bk_allocations ?c)\<rparr>"
  let ?ids = "map pa_invoiceId (filter (\<lambda>a. pa_paymentId a = p) (bk_allocations b))"
  have b': "b' = set_status p P_returned (recomputeInvoices ?ids ?d)"
    using assms(2) unfolding returnPayment_def Let_def split_def by (auto split: if_splits option.splits)
  obtain es where es: "bk_entries ?c = bk_entries b @ es"
    "map (\<lambda>e. (be_leaseId e, be_kind e, be_amountCents e, be_paymentId e, be_reversalOf e)) es =
      map (\<lambda>x. (be_leaseId (fst x), Adjustment, snd x, Some p, Some (be_id (fst x)))) ?rows"
    using corrections [of "\<lambda>x. be_leaseId (fst x)" snd p "\<lambda>x. be_id (fst x)" now ?rows b] by blast
  have k: "keys_ok ?d" using assms(1) by (simp add: keys_ok_def distinct_map_filter)
  then have "recomputeInvoices ?ids ?d = ?d\<lparr>bk_invoices := map (refresh_in (set ?ids) ?d) (bk_invoices ?d)\<rparr>"
    by (intro recomputeInvoices_eq) (simp add: keys_ok_def)
  then show thesis using that [OF pay(1,2) refl refl pay(4) _ _ es(2)] pay(3) es(1) k
    by (auto simp: b' list_ex_iff keys_ok_def set_status_def comp_def if_distrib cong: if_cong)
qed

lemma find_set_status: "find_payment p (set_status p s b) = map_option (\<lambda>x. x\<lparr>py_status := s\<rparr>) (find_payment p b)"
proof -
  have "find (\<lambda>x. py_id x = p) (map (\<lambda>x. if py_id x = p then x\<lparr>py_status := s\<rparr> else x) xs) =
      map_option (\<lambda>x. x\<lparr>py_status := s\<rparr>) (find (\<lambda>x. py_id x = p) xs)" for xs
    by (induction xs) auto
  then show ?thesis by (simp add: find_payment_def set_status_def)
qed

lemma find_payment_cong: "bk_payments b' = bk_payments b \<Longrightarrow> find_payment p b' = find_payment p b"
  by (simp add: find_payment_def)

lemma matching_sum:
  "map (\<lambda>e. (L e, K e, A e, P e, R e)) es = map (\<lambda>x. (l x, k x, n x, q x, r x)) rows \<Longrightarrow>
    sum_by A (filter (\<lambda>e. L e = lease) es) = sum_by n (filter (\<lambda>x. l x = lease) rows) \<and> sum_by A es = sum_by n rows"
proof (induction es arbitrary: rows)
  case (Cons e es)
  then show ?case by (cases rows) auto
qed simp

lemma entries_balance: "bk_entries b' = bk_entries b @ es \<Longrightarrow>
    ledger_balance lease b' = ledger_balance lease b + sum_by be_amountCents (filter (\<lambda>e. be_leaseId e = lease) es)"
  by (simp add: ledger_balance_def)

definition posted_on :: "string \<Rightarrow> nat \<Rightarrow> books \<Rightarrow> cents" where
  "posted_on lease p b = - sum_by be_amountCents
    (filter (\<lambda>e. be_leaseId e = lease) (filter (\<lambda>e. be_paymentId e = Some p \<and> be_kind e = Payment) (bk_entries b)))"

text \<open>Reinstating what a return has reversed.\<close>

lemma reinstated:
  assumes "keys_ok b" "find_payment p b = Some payment" "py_status payment = P_returned"
    and "\<forall>a \<in> set (bk_allocations b). pa_paymentId a \<noteq> p"
    and "es = filter (\<lambda>e. be_reversalOf e \<in> set (map Some (map be_id
      (filter (\<lambda>e. be_paymentId e = Some p \<and> be_kind e = Payment) (bk_entries b))))) (bk_entries b)"
    and "es \<noteq> []" "0 \<le> sum_by be_amountCents es" "may (py_facilityId payment)"
  obtains applied c where "reinstatePayment may p now b = (Inr applied, c)"
    "ledger_balance lease c = ledger_balance lease b - sum_by be_amountCents (filter (\<lambda>e. be_leaseId e = lease) es)"
    "allocated_cents p c + ap_unappliedCents applied = sum_by be_amountCents es" "0 \<le> ap_unappliedCents applied"
    "map_option py_status (find_payment p c) =
      Some (if list_ex (\<lambda>r. py_refundOf r = Some p \<and> py_status r \<noteq> P_failed) (bk_payments b) then P_partially_refunded else P_succeeded)"
proof -
  let ?s = "if list_ex (\<lambda>r. py_refundOf r = Some p \<and> py_status r \<noteq> P_failed) (bk_payments b) then P_partially_refunded else P_succeeded"
  let ?b1 = "fold (\<lambda>e. add_entry (be_leaseId e) Adjustment (- be_amountCents e) (Some p) None (Some (be_id e)) now) es b"
  let ?b2 = "set_status p ?s ?b1"
  let ?pay = "\<lparr>pi_id = p, pi_tenantId = py_tenantId payment, pi_facilityId = py_facilityId payment, pi_amountCents = sum_by be_amountCents es\<rparr>"
  let ?run = "apply_locked ?pay (select_claims ?pay undirected ?b2) ?b2"
  obtain fs where fs: "bk_entries ?b1 = bk_entries b @ fs"
    "map (\<lambda>e. (be_leaseId e, be_kind e, be_amountCents e, be_paymentId e, be_reversalOf e)) fs =
      map (\<lambda>x. (be_leaseId x, Adjustment, - be_amountCents x, Some p, Some (be_id x))) es"
    using corrections [of be_leaseId "\<lambda>e. - be_amountCents e" p be_id now es b] by blast
  have k: "keys_ok ?b2" using assms(1) by (simp add: keys_ok_def set_status_def comp_def if_distrib cong: if_cong)
  have none: "\<forall>a \<in> set (bk_allocations ?b2). pa_paymentId a \<noteq> pi_id ?pay" using assms(4) by simp
  have amount: "0 \<le> pi_amountCents ?pay" using assms(7) by simp
  have run: "reinstatePayment may p now b = (Inr (fst ?run), snd ?run)"
    using assms(2,3,6,8) unfolding reinstatePayment_def Let_def assms(5) [symmetric]
    by (simp add: applyPayment_def undirected_def split_def)
  have "ledger_balance lease (snd ?run) = ledger_balance lease b + sum_by be_amountCents (filter (\<lambda>e. be_leaseId e = lease) fs)"
    using apply_frame(1) [OF k] fs(1) by (intro entries_balance) simp
  also have "sum_by be_amountCents (filter (\<lambda>e. be_leaseId e = lease) fs) = sum_by (\<lambda>e. - be_amountCents e) (filter (\<lambda>e. be_leaseId e = lease) es)"
    using matching_sum [OF fs(2)] by blast
  also have "\<dots> = - sum_by be_amountCents (filter (\<lambda>e. be_leaseId e = lease) es)" by (simp add: uminus_sum_list_map comp_def)
  finally have "ledger_balance lease (snd ?run) = ledger_balance lease b - sum_by be_amountCents (filter (\<lambda>e. be_leaseId e = lease) es)" by simp
  moreover have "allocated_cents p (snd ?run) + ap_unappliedCents (fst ?run) = sum_by be_amountCents es"
    using apply_allocates [OF amount k none] by simp
  moreover have "0 \<le> ap_unappliedCents (fst ?run)" using settle_claims_facts(2) [OF amount] by (simp add: apply_locked_lines)
  moreover have "map_option py_status (find_payment p (snd ?run)) = Some ?s"
    using find_payment_cong [OF apply_frame(2) [OF k]] find_payment_cong [of ?b1 b p] assms(2) by (simp add: find_set_status)
  ultimately show thesis using that [OF run] by blast
qed


text \<open>Thirty of the hundred were refunded; the bank takes the payment back and brings it in again.\<close>

definition part_refunded :: books where
  "part_refunded = snd (refundPayment (\<lambda>_ _. Authority_given) None 1 (full_refund\<lparr>rf_amountCents := 30\<rparr>) 2 paid_books)"



section \<open>Events that come again\<close>

lemma find_intent_cong: "bk_payments b' = bk_payments b \<Longrightarrow> find_intent x b' = find_intent x b"
  by (simp add: find_intent_def)

lemma find_intent_map:
  assumes "\<And>q. py_intentId (g q) = py_intentId q" "bk_payments b' = map g (bk_payments b)"
  shows "find_intent x b' = map_option g (find_intent x b)"
proof -
  have "find (\<lambda>p. py_intentId p = y) (map g qs) = map_option g (find (\<lambda>p. py_intentId p = y) qs)" for qs y
    by (induction qs) (auto simp: assms(1))
  then show ?thesis by (simp add: find_intent_def assms(2))
qed

lemma find_intent_adopt:
  assumes "find_intent (ci_intentId intent) b = None" "find_intent (ci_intentId intent) (adopt p intent b) = Some w"
  shows "py_id w = p"
  using assms unfolding find_intent_def adopt_def
  by (auto simp: find_None_iff find_Some_iff split: if_splits)

lemma adopt_found:
  assumes "q \<in> set (bk_payments b)" "py_id q = p"
  shows "find_intent (ci_intentId intent) (adopt p intent b) \<noteq> None"
  using assms by (auto simp: find_intent_def adopt_def find_None_iff)

text \<open>A row that is returned for an intent is found under its id afterwards.\<close>

lemma paymentFor_found:
  assumes "paymentFor intent b = Some (payment, c)"
  obtains w where "find_intent (ci_intentId intent) c = Some w" "py_id w = py_id payment"
    "py_status payment \<noteq> P_pending \<Longrightarrow> w = payment \<and> c = b"
proof (cases "find_intent (ci_intentId intent) b")
  case (Some w)
  then show ?thesis using assms that by (simp add: paymentFor_def)
next
  case None
  let ?rows = "sort_by (by_key (\<lambda>p. - int (py_id p))) (filter (orphan_of intent b) (bk_payments b))"
  obtain orphan rest where o: "?rows = orphan # rest" "py_id payment = py_id orphan" "c = adopt (py_id orphan) intent b"
    "py_status payment = P_pending"
    using assms None by (auto simp: paymentFor_def split: if_splits list.splits)
  have "orphan \<in> set ?rows" by (simp add: o(1))
  then have "orphan \<in> set (bk_payments b)" by simp
  then obtain w where "find_intent (ci_intentId intent) c = Some w"
    using adopt_found [of orphan b "py_id orphan" intent] o(3) by auto
  then show ?thesis using that find_intent_adopt [OF None] o by auto
qed

lemma adopt_keys: "keys_ok b \<Longrightarrow> keys_ok (adopt p intent b)"
  by (simp add: keys_ok_def adopt_def comp_def if_distrib cong: if_cong)

lemma paymentFor_keys: "keys_ok b \<Longrightarrow> paymentFor intent b = Some (payment, c) \<Longrightarrow> keys_ok c"
  by (auto simp: paymentFor_def adopt_keys split: option.splits if_splits list.splits)

lemma postPaymentLedger_payments: "bk_payments (postPaymentLedger payment applied anchor now b) = bk_payments b"
  by (simp add: postPaymentLedger_def Let_def)

lemma settlePayment_payments:
  assumes "keys_ok b"
  shows "bk_payments (snd (settlePayment payment intent b)) = bk_payments b"
  by (simp add: settlePayment_def Let_def applyPayment_def apply_frame(2) [OF assms])

lemma paid_payments:
  assumes "paymentFor intent b = Some (payment, c)" "keys_ok c"
    and "py_status payment \<notin> {P_succeeded, P_refunded, P_partially_refunded, P_returned}"
  shows "bk_payments (paymentSucceeded intent now b) =
    bk_payments (set_received (py_id payment) (ci_created intent) (set_status (py_id payment) P_succeeded c))"
proof -
  let ?c = "set_received (py_id payment) (ci_created intent) (set_status (py_id payment) P_succeeded c)"
  have "keys_ok ?c" using assms(2) by (simp add: keys_ok_def set_received_def set_status_def comp_def if_distrib cong: if_cong)
  then show ?thesis
    using assms(1,3) settlePayment_payments [of ?c payment intent]
    by (simp add: paymentSucceeded_def split_def postPaymentLedger_payments Let_def)
qed


text \<open>The charge of autopay and the invoice it named; the events that follow the first.\<close>

definition charged_books :: books where
  "charged_books = snd (createCharge ''f1'' ''t1'' (Some ''i1'') 100 (Some ''x'') 1 (books_example [rent_example ''i1'' ''l1'' I_open 100 1] []))"


end
