(* ===== verification/Corrections.thy ===== *)
theory Corrections
  imports Refunds
begin

text \<open>Corrections by staff (\<open>apps/web/lib/billing/corrections.ts\<close>) on the books of Payments: the adjustment
  of a ledger, the write-off of a balance, the voiding of a rent invoice; the terms a ledger is reconciled
  from (\<open>reconciliationInputs\<close> of \<open>apps/web/lib/admin/ledger.ts\<close>); and the refund of a lease's credit at
  move-out (\<open>autoRefundMoveOutCredit\<close> of \<open>apps/web/lib/billing/refunds.ts\<close>). What is decided on one
  read of the books and written in a later transaction is two definitions, each with the books it sees.
  The audit trail, the tasks and the release of a promotion's month by a void are left out.\<close>

section \<open>What a ledger is reconciled from\<close>

definition outstanding_on :: "string \<Rightarrow> books \<Rightarrow> cents" where
  "outstanding_on lease b = sum_by (\<lambda>i. max 0 (bi_totalCents i - bi_amountPaidCents i))
    (filter (\<lambda>i. bi_leaseId i = lease \<and> still_open i) (bk_invoices b))"

definition posted_pair :: "string \<Rightarrow> nat \<Rightarrow> books \<Rightarrow> bool" where
  "posted_pair lease p b \<longleftrightarrow> list_ex (\<lambda>e. be_leaseId e = lease \<and> be_kind e = Payment \<and> be_invoiceId e = None \<and>
    be_paymentId e = Some p) (bk_entries b)"

definition settled_on :: "string \<Rightarrow> books \<Rightarrow> cents" where
  "settled_on lease b = sum_by pa_amountCents (filter (\<lambda>a. invoice_lease b (pa_invoiceId a) = Some lease \<and>
    payment_settles b (pa_paymentId a) \<and> posted_pair lease (pa_paymentId a) b) (bk_allocations b))"

definition uninvoiced_on :: "string \<Rightarrow> books \<Rightarrow> cents" where
  "uninvoiced_on lease b =
    sum_by be_amountCents (filter (\<lambda>e. be_leaseId e = lease \<and> be_invoiceId e = None \<and> \<not> be_correction e) (bk_entries b)) +
    settled_on lease b"

text \<open>The balance, what the open invoices ask for and what no invoice asks for.\<close>

definition reconciliationInputs :: "string \<Rightarrow> books \<Rightarrow> cents \<times> cents \<times> cents" where
  "reconciliationInputs lease b = (ledger_balance lease b, outstanding_on lease b, uninvoiced_on lease b)"

definition difference_on :: "string \<Rightarrow> books \<Rightarrow> cents" where
  "difference_on lease b = (case reconciliationInputs lease b of (balance, outstanding, uninvoiced) \<Rightarrow>
    rc_differenceCents (reconcile balance outstanding uninvoiced))"

section \<open>corrections.ts\<close>

datatype correction_refusal = Correction_not_found | Correction_out_of_reach | Correction_without_reason
| Nothing_to_correct | Correction_forbidden | Correction_over_limit cents

text \<open>\<open>authority\<close> is \<open>checkMonetaryAuthority\<close> for a credit; \<open>access\<close> is the actor's access to a facility.\<close>

definition authorize :: "(cents \<Rightarrow> string \<Rightarrow> refund_authority) \<Rightarrow> string \<Rightarrow> cents \<Rightarrow> correction_refusal option" where
  "authorize authority facilityId amount = (case authority \<bar>amount\<bar> facilityId of
      Authority_given \<Rightarrow> None
    | Authority_forbidden \<Rightarrow> Some Correction_forbidden
    | Authority_over_limit limit \<Rightarrow> Some (Correction_over_limit limit))"

definition correctableLease :: "(string \<Rightarrow> bool) \<Rightarrow> string \<Rightarrow> books \<Rightarrow> correction_refusal + book_lease" where
  "correctableLease access leaseId b = (case lease_of leaseId b of
      None \<Rightarrow> Inl Correction_not_found
    | Some lease \<Rightarrow> if access (bl_facilityId lease) then Inr lease else Inl Correction_out_of_reach)"

definition post_correction :: "string \<Rightarrow> date \<Rightarrow> cents \<times> bool \<Rightarrow> books \<Rightarrow> books" where
  "post_correction lease now entry b = b\<lparr>bk_entries := bk_entries b @
      [\<lparr>be_id = bk_nextId b, be_leaseId = lease, be_kind = Adjustment, be_amountCents = fst entry, be_paymentId = None,
        be_invoiceId = None, be_reversalOf = None, be_occurredAt = now, be_correction = snd entry\<rparr>],
    bk_nextId := bk_nextId b + 1\<rparr>"

definition adjust_decide :: "(string \<Rightarrow> bool) \<Rightarrow> (cents \<Rightarrow> string \<Rightarrow> refund_authority) \<Rightarrow> string \<Rightarrow> cents \<Rightarrow> string option \<Rightarrow>
    books \<Rightarrow> correction_refusal + (cents \<times> bool) list" where
  "adjust_decide access authority leaseId balanceChange reason b = (
    if blank reason then Inl Correction_without_reason
    else case correctableLease access leaseId b of
      Inl refusal \<Rightarrow> Inl refusal
    | Inr lease \<Rightarrow>
        let uninvoicedChange = difference_on leaseId b + balanceChange in
        if balanceChange = 0 \<and> uninvoicedChange = 0 then Inl Nothing_to_correct
        else case authorize authority (bl_facilityId lease) (max \<bar>balanceChange\<bar> \<bar>uninvoicedChange\<bar>) of
          Some refusal \<Rightarrow> Inl refusal
        | None \<Rightarrow> Inr (filter (\<lambda>entry. fst entry \<noteq> 0) [(uninvoicedChange, False), (balanceChange - uninvoicedChange, True)]))"

definition postLedgerAdjustment :: "(string \<Rightarrow> bool) \<Rightarrow> (cents \<Rightarrow> string \<Rightarrow> refund_authority) \<Rightarrow> string \<Rightarrow> cents \<Rightarrow> string option \<Rightarrow>
    bool \<Rightarrow> date \<Rightarrow> books \<Rightarrow> (correction_refusal + cents \<times> nat) \<times> books" where
  "postLedgerAdjustment access authority leaseId balanceChange reason preview now b = (
    case adjust_decide access authority leaseId balanceChange reason b of
      Inl refusal \<Rightarrow> (Inl refusal, b)
    | Inr entries \<Rightarrow> if preview then (Inr (balanceChange, 0), b)
        else (Inr (balanceChange, length entries), fold (post_correction leaseId now) entries b))"

text \<open>The open invoices a write-off covers, the oldest period first, and what is left of the balance.\<close>

fun cover_invoices :: "cents \<Rightarrow> book_invoice list \<Rightarrow> (book_invoice \<times> cents) list \<times> cents" where
  "cover_invoices remaining [] = ([], remaining)"
| "cover_invoices remaining (invoice # invoices) = (
    let outstanding = bi_totalCents invoice - bi_amountPaidCents invoice in
    if outstanding \<le> 0 \<or> outstanding > remaining then cover_invoices remaining invoices
    else let (covered, rest) = cover_invoices (remaining - outstanding) invoices in ((invoice, outstanding) # covered, rest))"

record write_off =
  wo_owed :: cents
  wo_covered :: "(book_invoice \<times> cents) list"
  wo_remaining :: cents

definition write_off_decide :: "(string \<Rightarrow> bool) \<Rightarrow> (cents \<Rightarrow> string \<Rightarrow> refund_authority) \<Rightarrow> string \<Rightarrow> string option \<Rightarrow>
    books \<Rightarrow> correction_refusal + write_off" where
  "write_off_decide access authority leaseId reason b = (
    if blank reason then Inl Correction_without_reason
    else case correctableLease access leaseId b of
      Inl refusal \<Rightarrow> Inl refusal
    | Inr lease \<Rightarrow>
        let owed = ledger_balance leaseId b in
        if owed \<le> 0 then Inl Nothing_to_correct
        else case authorize authority (bl_facilityId lease) owed of
          Some refusal \<Rightarrow> Inl refusal
        | None \<Rightarrow>
            let (covered, remaining) = cover_invoices owed (sort_by (by_key bi_periodStart)
              (filter (\<lambda>i. bi_leaseId i = leaseId \<and> still_open i) (bk_invoices b)))
            in Inr \<lparr>wo_owed = owed, wo_covered = covered, wo_remaining = remaining\<rparr>)"

definition set_invoice_status :: "string \<Rightarrow> invoice_status \<Rightarrow> books \<Rightarrow> books" where
  "set_invoice_status i s b = b\<lparr>bk_invoices := map (\<lambda>v. if bi_id v = i then v\<lparr>bi_status := s\<rparr> else v) (bk_invoices b)\<rparr>"

definition write_off_commit :: "string \<Rightarrow> write_off \<Rightarrow> date \<Rightarrow> books \<Rightarrow> books" where
  "write_off_commit leaseId w now b = (
    let b = fold (\<lambda>(invoice, n) b. set_invoice_status (bi_id invoice) I_uncollectible
      (add_entry leaseId Write_off (- n) None (Some (bi_id invoice)) None now b)) (wo_covered w) b
    in if 0 < wo_remaining w then add_entry leaseId Write_off (- wo_remaining w) None None None now b else b)"

definition writeOffOpenLeaseBalance :: "(string \<Rightarrow> bool) \<Rightarrow> (cents \<Rightarrow> string \<Rightarrow> refund_authority) \<Rightarrow> string \<Rightarrow> string option \<Rightarrow>
    bool \<Rightarrow> date \<Rightarrow> books \<Rightarrow> (correction_refusal + cents \<times> nat) \<times> books" where
  "writeOffOpenLeaseBalance access authority leaseId reason preview now b = (
    case write_off_decide access authority leaseId reason b of
      Inl refusal \<Rightarrow> (Inl refusal, b)
    | Inr w \<Rightarrow> (Inr (wo_owed w, length (wo_covered w)), if preview then b else write_off_commit leaseId w now b))"

datatype void_problem = Void_refused correction_refusal | Partly_paid cents | Payment_in_flight cents

definition inFlightCents :: "string \<Rightarrow> books \<Rightarrow> cents" where
  "inFlightCents i b = sum_by pa_amountCents (filter (\<lambda>a. pa_invoiceId a = i \<and>
    (case find_payment (pa_paymentId a) b of None \<Rightarrow> False | Some p \<Rightarrow> py_status p = P_pending \<or> py_status p = P_processing))
    (bk_allocations b))"

definition void_decide :: "(string \<Rightarrow> bool) \<Rightarrow> (cents \<Rightarrow> string \<Rightarrow> refund_authority) \<Rightarrow> string \<Rightarrow> string option \<Rightarrow>
    books \<Rightarrow> void_problem + book_invoice \<times> cents" where
  "void_decide access authority invoiceId reason b = (
    if blank reason then Inl (Void_refused Correction_without_reason)
    else case find_invoice invoiceId b of
      None \<Rightarrow> Inl (Void_refused Correction_not_found)
    | Some invoice \<Rightarrow>
        let outstanding = bi_totalCents invoice - bi_amountPaidCents invoice in
        if bi_fee invoice then Inl (Void_refused Correction_not_found)
        else if \<not> access (bi_facilityId invoice) then Inl (Void_refused Correction_out_of_reach)
        else if outstanding \<le> 0 \<or> bi_status invoice = I_void \<or> bi_status invoice = I_uncollectible
          then Inl (Void_refused Nothing_to_correct)
        else if 0 < bi_amountPaidCents invoice then Inl (Partly_paid (bi_amountPaidCents invoice))
        else if 0 < inFlightCents invoiceId b then Inl (Payment_in_flight (inFlightCents invoiceId b))
        else case authorize authority (bi_facilityId invoice) outstanding of
          Some refusal \<Rightarrow> Inl (Void_refused refusal)
        | None \<Rightarrow> Inr (invoice, outstanding))"

text \<open>The transaction, with the row of the invoice locked.\<close>

definition void_commit :: "book_invoice \<times> cents \<Rightarrow> date \<Rightarrow> books \<Rightarrow> (void_problem + cents) \<times> books" where
  "void_commit decided now b = (let (invoice, outstanding) = decided in
    case find_invoice (bi_id invoice) b of
      None \<Rightarrow> (Inl (Void_refused Nothing_to_correct), b)
    | Some locked \<Rightarrow>
        if bi_status locked = I_void \<or> bi_status locked = I_uncollectible then (Inl (Void_refused Nothing_to_correct), b)
        else if 0 < bi_amountPaidCents locked then (Inl (Partly_paid (bi_amountPaidCents locked)), b)
        else if 0 < inFlightCents (bi_id invoice) b then (Inl (Payment_in_flight (inFlightCents (bi_id invoice) b)), b)
        else (Inr outstanding, set_invoice_status (bi_id invoice) I_void
          (add_entry (bi_leaseId invoice) Adjustment (- outstanding) None (Some (bi_id invoice)) None now b)))"

definition voidRentInvoice :: "(string \<Rightarrow> bool) \<Rightarrow> (cents \<Rightarrow> string \<Rightarrow> refund_authority) \<Rightarrow> string \<Rightarrow> string option \<Rightarrow>
    bool \<Rightarrow> date \<Rightarrow> books \<Rightarrow> (void_problem + cents) \<times> books" where
  "voidRentInvoice access authority invoiceId reason preview now b = (
    case void_decide access authority invoiceId reason b of
      Inl problem \<Rightarrow> (Inl problem, b)
    | Inr decided \<Rightarrow> if preview then (Inr (snd decided), b) else void_commit decided now b)"

section \<open>The refund of a credit at move-out\<close>

fun refund_parts :: "bool \<Rightarrow> (string \<Rightarrow> cents \<Rightarrow> cents \<times> cents \<Rightarrow> string + string) option \<Rightarrow> string \<Rightarrow> date \<Rightarrow>
    (nat \<times> cents) list \<Rightarrow> books \<Rightarrow> cents \<times> books" where
  "refund_parts may provider leaseId now [] b = (0, b)"
| "refund_parts may provider leaseId now ((p, amount) # parts) b = (
    let (answer, b) = refundPayment (\<lambda>_ _. if may then Authority_given else Authority_forbidden) provider p
          \<lparr>rf_amountCents = amount, rf_reasonCode = Some ''move_out_credit'', rf_asMethod = None, rf_creditOfLeaseId = Some leaseId\<rparr> now b;
        (refundedCents, b) = refund_parts may provider leaseId now parts b
    in (case answer of Inl _ \<Rightarrow> refundedCents | Inr _ \<Rightarrow> amount + refundedCents, b))"

text \<open>What went back to cards and what is left for a cheque; \<open>may\<close> is the system's permission.\<close>

definition autoRefundMoveOutCredit :: "bool \<Rightarrow> (string \<Rightarrow> cents \<Rightarrow> cents \<times> cents \<Rightarrow> string + string) option \<Rightarrow> string \<Rightarrow> date \<Rightarrow>
    books \<Rightarrow> (cents \<times> cents) \<times> books" where
  "autoRefundMoveOutCredit may provider leaseId now b = (
    let creditCents = - ledger_balance leaseId b in
    if creditCents \<le> 0 then ((0, 0), b)
    else let plan = planMoveOutRefund (provider \<noteq> None) leaseId creditCents b;
        (refundedCents, b) = refund_parts may provider leaseId now (rp_card plan) b
      in ((refundedCents, creditCents - refundedCents), b))"

section \<open>What a correction leaves alone\<close>

definition invoiced_on :: "string \<Rightarrow> books \<Rightarrow> cents" where
  "invoiced_on lease b = sum_by be_amountCents
    (filter (\<lambda>e. be_leaseId e = lease \<and> (be_invoiceId e = None \<longrightarrow> be_correction e)) (bk_entries b))"

lemma difference_eq: "difference_on lease b = invoiced_on lease b - outstanding_on lease b - settled_on lease b"
proof -
  have "sum_by be_amountCents (filter (\<lambda>e. be_leaseId e = lease) es) =
      sum_by be_amountCents (filter (\<lambda>e. be_leaseId e = lease \<and> be_invoiceId e = None \<and> \<not> be_correction e) es) +
      sum_by be_amountCents (filter (\<lambda>e. be_leaseId e = lease \<and> (be_invoiceId e = None \<longrightarrow> be_correction e)) es)" for es
    by (induction es) auto
  from this [of "bk_entries b"] show ?thesis
    by (simp add: difference_on_def reconciliationInputs_def reconcile_def Let_def uninvoiced_on_def ledger_balance_def invoiced_on_def)
qed

text \<open>Entries that are not payments and statuses of invoices do not touch what payments have settled.\<close>

lemma settled_on_cong:
  assumes "bk_allocations b' = bk_allocations b" "bk_payments b' = bk_payments b" "invoice_lease b' = invoice_lease b"
    and "\<And>p. posted_pair lease p b' \<longleftrightarrow> posted_pair lease p b"
  shows "settled_on lease b' = settled_on lease b"
  using assms by (simp add: settled_on_def payment_settles_def find_payment_def)

lemma posted_pair_add [simp]:
  "kind \<noteq> Payment \<Longrightarrow> posted_pair lease p (add_entry l kind n q i rv now b) \<longleftrightarrow> posted_pair lease p b"
  "posted_pair lease p (post_correction l now x b) \<longleftrightarrow> posted_pair lease p b"
  "posted_pair lease p (set_invoice_status v s b) \<longleftrightarrow> posted_pair lease p b"
  by (auto simp: posted_pair_def add_entry_def post_correction_def set_invoice_status_def)

lemma invoice_lease_frame [simp]:
  "invoice_lease (add_entry l kind n q i rv now b) = invoice_lease b"
  "invoice_lease (post_correction l now x b) = invoice_lease b"
  "invoice_lease (set_invoice_status j s b) = invoice_lease b"
proof -
  show "invoice_lease (set_invoice_status j s b) = invoice_lease b"
    by (intro ext) (simp add: invoice_lease_def find_invoice_def set_invoice_status_def find_map_same option.map_comp comp_def
      if_distrib cong: if_cong)
qed (intro ext, simp add: invoice_lease_def find_invoice_def add_entry_def post_correction_def)+

lemma correction_frame [simp]:
  "bk_allocations (add_entry l kind n q i rv now b) = bk_allocations b" "bk_payments (add_entry l kind n q i rv now b) = bk_payments b"
  "bk_invoices (add_entry l kind n q i rv now b) = bk_invoices b"
  "bk_allocations (post_correction l now x b) = bk_allocations b" "bk_payments (post_correction l now x b) = bk_payments b"
  "bk_invoices (post_correction l now x b) = bk_invoices b"
  "bk_allocations (set_invoice_status j s b) = bk_allocations b" "bk_payments (set_invoice_status j s b) = bk_payments b"
  "bk_entries (set_invoice_status j s b) = bk_entries b"
  by (simp_all add: add_entry_def post_correction_def set_invoice_status_def)

lemma settled_on_frame [simp]:
  "kind \<noteq> Payment \<Longrightarrow> settled_on lease (add_entry l kind n q i rv now b) = settled_on lease b"
  "settled_on lease (post_correction l now x b) = settled_on lease b"
  "settled_on lease (set_invoice_status j s b) = settled_on lease b"
  by (rule settled_on_cong; simp)+

lemma outstanding_on_frame [simp]:
  "outstanding_on lease (add_entry l kind n q i rv now b) = outstanding_on lease b"
  "outstanding_on lease (post_correction l now x b) = outstanding_on lease b"
  by (simp_all add: outstanding_on_def)

lemma balance_add [simp]:
  "ledger_balance lease (add_entry l kind n q i rv now b) = ledger_balance lease b + (if l = lease then n else 0)"
  "ledger_balance lease (post_correction l now x b) = ledger_balance lease b + (if l = lease then fst x else 0)"
  "ledger_balance lease (set_invoice_status j s b) = ledger_balance lease b"
  by (simp_all add: ledger_balance_def add_entry_def post_correction_def)

lemma invoiced_add [simp]:
  "invoiced_on lease (add_entry l kind n q i rv now b) = invoiced_on lease b + (if l = lease \<and> i \<noteq> None then n else 0)"
  "invoiced_on lease (post_correction l now x b) = invoiced_on lease b + (if l = lease \<and> snd x then fst x else 0)"
  "invoiced_on lease (set_invoice_status j s b) = invoiced_on lease b"
  by (auto simp: invoiced_on_def add_entry_def post_correction_def)

text \<open>An open invoice that is closed is no longer asked for.\<close>

lemma closing_invoice:
  assumes "distinct (map bi_id (bk_invoices b))" "v \<in> set (bk_invoices b)" "still_open v" "s \<noteq> I_open" "s \<noteq> I_partially_paid"
  shows "outstanding_on lease (set_invoice_status (bi_id v) s b) =
    outstanding_on lease b - (if bi_leaseId v = lease then max 0 (bi_totalCents v - bi_amountPaidCents v) else 0)"
proof -
  let ?f = "\<lambda>i. if bi_leaseId i = lease \<and> still_open i then max 0 (bi_totalCents i - bi_amountPaidCents i) else 0"
  have out: "outstanding_on lease c = sum_by ?f (bk_invoices c)" for c
    by (simp add: outstanding_on_def sum_list_map_filter')
  show ?thesis
    using sum_update_one [OF assms(1,2) refl, of ?f "\<lambda>i. i\<lparr>bi_status := s\<rparr>"] assms(3,4,5)
    unfolding out by (simp add: set_invoice_status_def still_open_def)
qed

section \<open>Adjustments\<close>

lemma adjust_decideD:
  assumes "adjust_decide access authority leaseId change reason b = Inr entries"
  obtains lease where "lease_of leaseId b = Some lease" "access (bl_facilityId lease)" "\<not> blank reason"
    "authority (max \<bar>change\<bar> \<bar>difference_on leaseId b + change\<bar>) (bl_facilityId lease) = Authority_given"
    "entries = filter (\<lambda>entry. fst entry \<noteq> 0) [(difference_on leaseId b + change, False), (- difference_on leaseId b, True)]"
  using assms
  by (auto simp: adjust_decide_def correctableLease_def authorize_def Let_def
      split: if_splits option.splits sum.splits refund_authority.splits)

text \<open>C14. An adjustment makes a ledger reconcile. One that is refused, or only previewed, changes nothing. One that
  goes through was given a reason, is within reach of the actor and within the authority for the larger of
  the two moves it makes; the balance of the lease moves by exactly what was asked, its difference to
  the invoices is gone afterwards, whatever it was before, and no other lease, invoice, payment or
  allocation is touched.\<close>

theorem adjustment_reconciles:
  assumes "postLedgerAdjustment access authority leaseId change reason preview now b = (answer, b')"
  shows "(answer = Inl refusal \<or> preview \<longrightarrow> b' = b) \<and>
    (answer = Inr r \<and> \<not> preview \<longrightarrow>
      \<not> blank reason \<and> (\<exists>l. lease_of leaseId b = Some l \<and> access (bl_facilityId l) \<and>
        authority (max \<bar>change\<bar> \<bar>difference_on leaseId b + change\<bar>) (bl_facilityId l) = Authority_given) \<and>
      ledger_balance lease b' = ledger_balance lease b + (if lease = leaseId then change else 0) \<and>
      difference_on lease b' = (if lease = leaseId then 0 else difference_on lease b) \<and>
      bk_invoices b' = bk_invoices b \<and> bk_payments b' = bk_payments b \<and> bk_allocations b' = bk_allocations b)"
proof (cases "adjust_decide access authority leaseId change reason b")
  case (Inl x)
  then show ?thesis using assms by (auto simp: postLedgerAdjustment_def)
next
  case (Inr entries)
  then obtain l where l: "lease_of leaseId b = Some l" "access (bl_facilityId l)" "\<not> blank reason"
    "authority (max \<bar>change\<bar> \<bar>difference_on leaseId b + change\<bar>) (bl_facilityId l) = Authority_given"
    "entries = filter (\<lambda>entry. fst entry \<noteq> 0) [(difference_on leaseId b + change, False), (- difference_on leaseId b, True)]"
    by (rule adjust_decideD)
  show ?thesis
  proof (cases preview)
    case True
    then show ?thesis using assms Inr by (auto simp: postLedgerAdjustment_def)
  next
    case False
    then have b': "b' = fold (post_correction leaseId now) entries b" "answer = Inr (change, length entries)"
      using assms Inr by (auto simp: postLedgerAdjustment_def)
    have frame: "bk_invoices b' = bk_invoices b \<and> bk_payments b' = bk_payments b \<and> bk_allocations b' = bk_allocations b"
      and balance: "ledger_balance lease b' = ledger_balance lease b + (if lease = leaseId then change else 0)"
      and invoiced: "invoiced_on lease b' = invoiced_on lease b - (if lease = leaseId then difference_on leaseId b else 0)"
      and rest: "outstanding_on lease b' = outstanding_on lease b" "settled_on lease b' = settled_on lease b"
      unfolding b' l(5) by simp_all
    show ?thesis using l b'(2) False frame balance invoiced rest by (auto simp: difference_eq)
  qed
qed

definition adjusted_books :: books where
  "adjusted_books = add_entry ''l1'' Charge 40 None (Some ''gone'') None 1 (books_example [rent_example ''i1'' ''l1'' I_open 100 1] [])"

theorem adjustment_reconciles_witness:
  "let (answer, b) = postLedgerAdjustment (\<lambda>_. True) (\<lambda>_ _. Authority_given) ''l1'' 60 (Some ''missing charge'') False 2 adjusted_books
    in ledger_balance ''l1'' adjusted_books = 40 \<and> difference_on ''l1'' adjusted_books = - 60 \<and>
      ledger_balance ''l1'' b = 100 \<and> difference_on ''l1'' b = 0"
proof -
  let ?run = "postLedgerAdjustment (\<lambda>_. True) (\<lambda>_ _. Authority_given) ''l1'' 60 (Some ''missing charge'') False 2 adjusted_books"
  have before: "ledger_balance ''l1'' adjusted_books = 40" "difference_on ''l1'' adjusted_books = - 60"
    and answer: "fst ?run = Inr (60, 1)" by code_simp+
  show ?thesis
    using adjustment_reconciles [OF surjective_pairing, where r = "(60, 1)" and lease = "''l1''" and preview = False and
        access = "\<lambda>_. True" and authority = "\<lambda>_ _. Authority_given" and leaseId = "''l1''" and change = 60 and
        reason = "Some ''missing charge''" and now = 2 and b = adjusted_books] before answer
    by (simp add: split_def Let_def)
qed


section \<open>Write-offs\<close>

lemma cover_invoices_facts:
  assumes "0 \<le> remaining"
  shows "sum_by snd (fst (cover_invoices remaining vs)) + snd (cover_invoices remaining vs) = remaining"
    and "0 \<le> snd (cover_invoices remaining vs)"
    and "(v, n) \<in> set (fst (cover_invoices remaining vs)) \<Longrightarrow> v \<in> set vs \<and> n = bi_totalCents v - bi_amountPaidCents v \<and> 0 < n"
    and "distinct (map bi_id vs) \<Longrightarrow> distinct (map (\<lambda>x. bi_id (fst x)) (fst (cover_invoices remaining vs)))"
proof -
  have "sum_by snd (fst (cover_invoices remaining vs)) + snd (cover_invoices remaining vs) = remaining \<and>
    0 \<le> snd (cover_invoices remaining vs) \<and>
    (\<forall>x \<in> set (fst (cover_invoices remaining vs)). fst x \<in> set vs \<and>
      snd x = bi_totalCents (fst x) - bi_amountPaidCents (fst x) \<and> 0 < snd x) \<and>
    (distinct (map bi_id vs) \<longrightarrow> distinct (map (\<lambda>x. bi_id (fst x)) (fst (cover_invoices remaining vs))))"
    using assms
  proof (induction remaining vs rule: cover_invoices.induct)
    case (2 remaining v vs)
    let ?n = "bi_totalCents v - bi_amountPaidCents v"
    show ?case
    proof (cases "?n \<le> 0 \<or> ?n > remaining")
      case True
      then show ?thesis using 2 by auto
    next
      case False
      obtain cs r where c: "cover_invoices (remaining - ?n) vs = (cs, r)" by fastforce
      have "bi_id v \<notin> (\<lambda>x. bi_id (fst x)) ` set cs" if "bi_id v \<notin> bi_id ` set vs"
        using 2(2) [OF refl False] False c that by fastforce
      then show ?thesis using 2(2) [OF refl False] False c by (auto simp: Let_def)
    qed
  qed simp
  then show "sum_by snd (fst (cover_invoices remaining vs)) + snd (cover_invoices remaining vs) = remaining"
    and "0 \<le> snd (cover_invoices remaining vs)"
    and "(v, n) \<in> set (fst (cover_invoices remaining vs)) \<Longrightarrow> v \<in> set vs \<and> n = bi_totalCents v - bi_amountPaidCents v \<and> 0 < n"
    and "distinct (map bi_id vs) \<Longrightarrow> distinct (map (\<lambda>x. bi_id (fst x)) (fst (cover_invoices remaining vs)))"
    by force+
qed

text \<open>The loop that marks the invoices.\<close>

lemma covering:
  assumes "distinct (map bi_id (bk_invoices b))" "distinct (map (\<lambda>x. bi_id (fst x)) covered)"
    and "\<And>v n. (v, n) \<in> set covered \<Longrightarrow> v \<in> set (bk_invoices b) \<and> still_open v \<and> bi_leaseId v = leaseId \<and>
      n = bi_totalCents v - bi_amountPaidCents v \<and> 0 < n"
    and "b' = fold (\<lambda>(invoice, n) b. set_invoice_status (bi_id invoice) I_uncollectible
      (add_entry leaseId Write_off (- n) None (Some (bi_id invoice)) None now b)) covered b"
  shows "ledger_balance lease b' = ledger_balance lease b - (if lease = leaseId then sum_by snd covered else 0) \<and>
    invoiced_on lease b' = invoiced_on lease b - (if lease = leaseId then sum_by snd covered else 0) \<and>
    outstanding_on lease b' = outstanding_on lease b - (if lease = leaseId then sum_by snd covered else 0) \<and>
    settled_on lease b' = settled_on lease b \<and> bk_payments b' = bk_payments b \<and> bk_allocations b' = bk_allocations b"
  using assms
proof (induction covered arbitrary: b)
  case (Cons c covered)
  obtain v n where c: "c = (v, n)" by fastforce
  let ?a = "add_entry leaseId Write_off (- n) None (Some (bi_id v)) None now b"
  let ?c = "set_invoice_status (bi_id v) I_uncollectible ?a"
  have v: "v \<in> set (bk_invoices b)" "still_open v" "bi_leaseId v = leaseId" "n = bi_totalCents v - bi_amountPaidCents v" "0 < n"
    using Cons.prems(3) [of v n] by (simp_all add: c)
  have out: "outstanding_on lease ?c = outstanding_on lease b - (if lease = leaseId then n else 0)"
    using closing_invoice [of ?a v I_uncollectible lease] Cons.prems(1) v by auto
  have d: "distinct (map bi_id (bk_invoices ?c))"
    using Cons.prems(1) by (simp add: set_invoice_status_def comp_def if_distrib cong: if_cong)
  have kept: "u \<in> set (bk_invoices ?c) \<and> still_open u \<and> bi_leaseId u = leaseId \<and> m = bi_totalCents u - bi_amountPaidCents u \<and> 0 < m"
    if "(u, m) \<in> set covered" for u m
  proof -
    have "bi_id u \<noteq> bi_id v" using Cons.prems(2) that by (force simp: c)
    then show ?thesis using Cons.prems(3) [of u m] that by (auto simp: set_invoice_status_def image_iff)
  qed
  have d2: "distinct (map (\<lambda>x. bi_id (fst x)) covered)" using Cons.prems(2) by simp
  have b': "b' = fold (\<lambda>(invoice, n) b. set_invoice_status (bi_id invoice) I_uncollectible
      (add_entry leaseId Write_off (- n) None (Some (bi_id invoice)) None now b)) covered ?c"
    using Cons.prems(4) by (simp add: c)
  show ?case using Cons.IH [OF d d2 kept b'] out by (simp add: c)
qed simp

lemma write_off_decideD:
  assumes "write_off_decide access authority leaseId reason b = Inr w"
  obtains lease where "lease_of leaseId b = Some lease" "access (bl_facilityId lease)" "\<not> blank reason"
    "wo_owed w = ledger_balance leaseId b" "0 < wo_owed w" "authority (wo_owed w) (bl_facilityId lease) = Authority_given"
    "(wo_covered w, wo_remaining w) = cover_invoices (wo_owed w) (sort_by (by_key bi_periodStart)
      (filter (\<lambda>i. bi_leaseId i = leaseId \<and> still_open i) (bk_invoices b)))"
  using assms
  by (auto simp: write_off_decide_def correctableLease_def authorize_def Let_def
      split: if_splits option.splits sum.splits refund_authority.splits prod.splits)

text \<open>C15. A write-off clears a balance and leaves the books as reconciled as they were. One that is refused or
  previewed changes nothing. One that goes through was given a reason, within reach and within the authority
  for all of it; afterwards the lease owes nothing, the difference between its ledger and its
  invoices is what it was, and so are the balance and the difference of every other lease; no
  payment and no allocation is touched.\<close>

theorem write_off_clears:
  assumes "keys_ok b" "writeOffOpenLeaseBalance access authority leaseId reason preview now b = (answer, b')"
  shows "(answer = Inl refusal \<or> preview \<longrightarrow> b' = b) \<and>
    (answer = Inr (owed, k) \<and> \<not> preview \<longrightarrow>
      \<not> blank reason \<and> (\<exists>l. lease_of leaseId b = Some l \<and> access (bl_facilityId l) \<and>
        authority owed (bl_facilityId l) = Authority_given) \<and>
      0 < owed \<and> owed = ledger_balance leaseId b \<and>
      ledger_balance lease b' = (if lease = leaseId then 0 else ledger_balance lease b) \<and>
      difference_on lease b' = difference_on lease b \<and>
      bk_payments b' = bk_payments b \<and> bk_allocations b' = bk_allocations b)"
proof (cases "write_off_decide access authority leaseId reason b")
  case (Inl x)
  then show ?thesis using assms by (auto simp: writeOffOpenLeaseBalance_def)
next
  case (Inr w)
  then obtain l where l: "lease_of leaseId b = Some l" "access (bl_facilityId l)" "\<not> blank reason"
    "wo_owed w = ledger_balance leaseId b" "0 < wo_owed w" "authority (wo_owed w) (bl_facilityId l) = Authority_given"
    "(wo_covered w, wo_remaining w) = cover_invoices (wo_owed w) (sort_by (by_key bi_periodStart)
      (filter (\<lambda>i. bi_leaseId i = leaseId \<and> still_open i) (bk_invoices b)))"
    by (rule write_off_decideD)
  let ?vs = "sort_by (by_key bi_periodStart) (filter (\<lambda>i. bi_leaseId i = leaseId \<and> still_open i) (bk_invoices b))"
  have w: "wo_covered w = fst (cover_invoices (wo_owed w) ?vs)" "wo_remaining w = snd (cover_invoices (wo_owed w) ?vs)"
    by (simp_all flip: l(7))
  note facts = cover_invoices_facts [OF less_imp_le [OF l(5)], where vs = ?vs, folded w]
  let ?b = "fold (\<lambda>(invoice, n) b. set_invoice_status (bi_id invoice) I_uncollectible
      (add_entry leaseId Write_off (- n) None (Some (bi_id invoice)) None now b)) (wo_covered w) b"
  have keys: "distinct (map bi_id (bk_invoices b))" using assms(1) by (simp add: keys_ok_def)
  have ids: "distinct (map (\<lambda>x. bi_id (fst x)) (wo_covered w))"
    by (rule facts(4)) (simp add: distinct_map_sort_by distinct_map_filter keys)
  have mem: "v \<in> set (bk_invoices b) \<and> still_open v \<and> bi_leaseId v = leaseId \<and>
      n = bi_totalCents v - bi_amountPaidCents v \<and> 0 < n" if "(v, n) \<in> set (wo_covered w)" for v n
    using facts(3) [OF that] by auto
  note covered = covering [OF keys ids mem refl, where lease = lease and now = now]
  show ?thesis
  proof (cases preview)
    case True
    then show ?thesis using assms(2) Inr by (auto simp: writeOffOpenLeaseBalance_def)
  next
    case False
    then have b': "b' = (if 0 < wo_remaining w then add_entry leaseId Write_off (- wo_remaining w) None None None now ?b else ?b)"
      "answer = Inr (wo_owed w, length (wo_covered w))"
      using assms(2) Inr by (auto simp: writeOffOpenLeaseBalance_def write_off_commit_def Let_def)
    have "ledger_balance lease b' = (if lease = leaseId then 0 else ledger_balance lease b) \<and>
      difference_on lease b' = difference_on lease b \<and> bk_payments b' = bk_payments b \<and> bk_allocations b' = bk_allocations b"
      using covered facts(1,2) l(4) by (auto simp: b' difference_eq)
    then show ?thesis using l b'(2) False by auto
  qed
qed

definition owing_books :: books where
  "owing_books = add_entry ''l1'' Charge 30 None None None 1 (add_entry ''l1'' Charge 100 None (Some ''i1'') None 1
    (books_example [rent_example ''i1'' ''l1'' I_open 100 1] []))"

theorem write_off_clears_witness:
  "let (answer, b) = writeOffOpenLeaseBalance (\<lambda>_. True) (\<lambda>_ _. Authority_given) ''l1'' (Some ''bad debt'') False 2 owing_books
    in answer = Inr (130, 1) \<and> ledger_balance ''l1'' b = 0 \<and> difference_on ''l1'' b = 0"
proof -
  let ?run = "writeOffOpenLeaseBalance (\<lambda>_. True) (\<lambda>_ _. Authority_given) ''l1'' (Some ''bad debt'') False 2 owing_books"
  have keys: "keys_ok owing_books" and before: "difference_on ''l1'' owing_books = 0" and answer: "fst ?run = Inr (130, 1)"
    by code_simp+
  show ?thesis
    using write_off_clears [OF keys surjective_pairing, where owed = 130 and k = 1 and lease = "''l1''" and preview = False and
        access = "\<lambda>_. True" and authority = "\<lambda>_ _. Authority_given" and leaseId = "''l1''" and
        reason = "Some ''bad debt''" and now = 2] before answer
    by (simp add: split_def Let_def)
qed

text \<open>A payment that comes in between what a write-off reads and what it writes: the invoice is paid and then
  uncollectible, and the lease is left with a credit of what was written off.\<close>

theorem written_off_while_paid:
  "case write_off_decide (\<lambda>_. True) (\<lambda>_ _. Authority_given) ''l1'' (Some ''bad debt'') owing_books of
      Inr w \<Rightarrow> let b = write_off_commit ''l1'' w 3 (counter_example 5 130 owing_books)
        in ledger_balance ''l1'' b = - 130 \<and> paid_of ''i1'' b = Some (100, I_uncollectible)
    | Inl _ \<Rightarrow> False"
  by code_simp


section \<open>Voids\<close>

lemma void_decideD:
  assumes "void_decide access authority i reason b = Inr (v, n)"
  shows "find_invoice i b = Some v" "n = bi_totalCents v - bi_amountPaidCents v" "0 < n" "\<not> 0 < bi_amountPaidCents v"
    "\<not> bi_fee v" "access (bi_facilityId v)" "authority n (bi_facilityId v) = Authority_given" "\<not> blank reason"
  using assms
  by (auto simp: void_decide_def authorize_def Let_def split: if_splits option.splits refund_authority.splits)

lemma keys_invoices_distinct: "keys_ok b \<Longrightarrow> distinct (map bi_id (bk_invoices b))" by (simp add: keys_ok_def)

text \<open>Money that has settled nothing and is not on its way was declined or came back.\<close>

lemma only_dead_money:
  assumes "\<forall>a \<in> set (bk_allocations b). 0 < pa_amountCents a \<and> find_payment (pa_paymentId a) b \<noteq> None"
    and "settled_cents i b \<le> 0" "inFlightCents i b \<le> 0" "a \<in> set (bk_allocations b)" "pa_invoiceId a = i"
  shows "\<exists>p. find_payment (pa_paymentId a) b = Some p \<and> py_status p \<in> {P_failed, P_returned}"
proof -
  have none: "\<not> P a" if "sum_by pa_amountCents (filter P (bk_allocations b)) \<le> 0" for P
  proof
    assume "P a"
    then have "pa_amountCents a \<le> sum_by pa_amountCents (filter P (bk_allocations b))"
      using assms(1,4) by (intro member_le_sum_list) (auto simp: less_imp_le)
    then show False using assms(1,4) that by force
  qed
  obtain p where p: "find_payment (pa_paymentId a) b = Some p" using assms(1,4) by blast
  have "\<not> (pa_invoiceId a = i \<and> payment_settles b (pa_paymentId a))"
    using none [of "\<lambda>a. pa_invoiceId a = i \<and> payment_settles b (pa_paymentId a)"] assms(2) by (simp add: settled_cents_def)
  moreover have "\<not> (pa_invoiceId a = i \<and> (py_status p = P_pending \<or> py_status p = P_processing))"
    using none [of "\<lambda>a. pa_invoiceId a = i \<and> (case find_payment (pa_paymentId a) b of None \<Rightarrow> False
      | Some p \<Rightarrow> py_status p = P_pending \<or> py_status p = P_processing)"] assms(3) p
    by (simp add: inFlightCents_def)
  ultimately show ?thesis
    using p assms(5) by (cases "py_status p") (auto simp: payment_settles_def payment_status_settles_def)
qed

lemma pays_open_invoices:
  assumes "0 \<le> pi_amountCents payment" "l \<in> set (ap_lines (fst (apply_locked payment selected b)))"
  shows "\<exists>v \<in> set (bk_invoices b). bi_id v = al_invoiceId l \<and> still_open v"
proof -
  have "\<exists>t \<in> set (lock_open b (fst selected)) \<union> set (lock_open b (snd selected)). at_invoiceId t = al_invoiceId l"
    using assms(2) settle_claims_facts(3) [OF assms(1)] by (simp add: apply_locked_lines) blast
  then show ?thesis using lock_open_mem by (metis Un_iff)
qed


definition void_books :: books where
  "void_books = add_entry ''l1'' Charge 100 None (Some ''i1'') None 1
    (books_example [rent_example ''i1'' ''l1'' I_open 100 1, rent_example ''i2'' ''l2'' I_open 30 1] [])"



section \<open>The credit of a lease goes back\<close>

definition credit_refund :: "string \<Rightarrow> cents \<Rightarrow> refund_input" where
  "credit_refund leaseId amount = \<lparr>rf_amountCents = amount, rf_reasonCode = Some ''move_out_credit'', rf_asMethod = None,
    rf_creditOfLeaseId = Some leaseId\<rparr>"

definition intent_of :: "nat \<Rightarrow> books \<Rightarrow> string option" where
  "intent_of p b = Option.bind (find_payment p b) py_intentId"

text \<open>The plan is a greedy distribution of the credit over the payments.\<close>

interpretation planned: greedy capacity snd "plan_parts capacity" "\<lambda>p n. (py_id p, n)" for capacity
  by unfold_locales (auto simp: Let_def split: prod.split)

lemma plan_parts_facts:
  assumes "0 \<le> left"
  shows "sum_by snd (fst (plan_parts capacity left ps)) \<le> left"
    and "x \<in> set (fst (plan_parts capacity left ps)) \<Longrightarrow> 0 < snd x \<and> fst x \<in> py_id ` set ps"
    and "distinct (map py_id ps) \<Longrightarrow> distinct (map fst (fst (plan_parts capacity left ps)))"
proof -
  show "sum_by snd (fst (plan_parts capacity left ps)) \<le> left"
    using planned.run_conserves [of capacity left ps] planned.run_rest_nonneg [OF assms, of capacity ps] by simp
  show amounts: "0 < snd x \<and> fst x \<in> py_id ` set ps" if "x \<in> set (fst (plan_parts capacity left ps))" for x left ps
    using planned.run_amounts [OF that] by force
  show "distinct (map fst (fst (plan_parts capacity left ps)))" if "distinct (map py_id ps)"
    using that
  proof (induction ps arbitrary: left)
    case (Cons p ps)
    let ?rest = "fst (plan_parts capacity (left - min left (capacity p)) ps)"
    have "py_id p \<notin> fst ` set ?rest" using amounts Cons.prems by fastforce
    then show ?case using Cons.IH Cons.prems
      by (auto simp: Let_def split_def)
  qed simp
qed

text \<open>One refund of a lease's credit: nothing is unwound, the lease is debited.\<close>

lemma writing_credit:
  assumes "find_payment (rw_paymentId w) b = Some payment" "rw_creditOfLeaseId w = Some leaseId" "leaseId \<noteq> []"
  shows "writeRefund w now b = Some (bk_nextId b, set_status (rw_paymentId w)
      (if py_amountCents payment \<le> refunded_cents (rw_paymentId w) b + rw_amountCents w then P_refunded else P_partially_refunded)
      (add_entry leaseId Refund (rw_amountCents w) (Some (bk_nextId b)) None None now (add_refund payment w now b)))"
  using assms by (simp add: writeRefund_def Let_def truthy_def refund_debits_def add_total_def recomputeInvoices_def)

lemma find_payment_status:
  "find_payment q (set_status p s b) = map_option (\<lambda>x. if py_id x = p then x\<lparr>py_status := s\<rparr> else x) (find_payment q b)"
proof -
  have "find (\<lambda>x. py_id x = q) (map (\<lambda>x. if py_id x = p then x\<lparr>py_status := s\<rparr> else x) xs) =
      map_option (\<lambda>x. if py_id x = p then x\<lparr>py_status := s\<rparr> else x) (find (\<lambda>x. py_id x = q) xs)" for xs
    by (induction xs) auto
  then show ?thesis by (simp add: find_payment_def set_status_def)
qed

lemma intent_kept:
  assumes "find_payment q b \<noteq> None"
  shows "find_payment q (set_status p s (add_entry l k n iv rv cr now (add_refund payment w now2 b))) \<noteq> None"
    and "intent_of q (set_status p s (add_entry l k n iv rv cr now (add_refund payment w now2 b))) = intent_of q b"
proof -
  obtain x where x: "find_payment q b = Some x" using assms by auto
  have "find (\<lambda>p. py_id p = q) (xs @ ys) = Some x" if "find (\<lambda>p. py_id p = q) xs = Some x" for xs ys
    using that by (induction xs) auto
  then have "find_payment q (add_entry l k n iv rv cr now (add_refund payment w now2 b)) = Some x"
    using x by (simp add: find_payment_def add_refund_def)
  then show "find_payment q (set_status p s (add_entry l k n iv rv cr now (add_refund payment w now2 b))) \<noteq> None"
    and "intent_of q (set_status p s (add_entry l k n iv rv cr now (add_refund payment w now2 b))) = intent_of q b"
    using x by (simp_all add: intent_of_def find_payment_status)
qed

lemma refunding_credit:
  assumes "refundPayment authority (Some f) p (credit_refund leaseId amount) now b = (answer, b')" "leaseId \<noteq> []"
    and "\<And>x n k r y. intent_of p b = Some x \<Longrightarrow> f x n k = Inr r \<Longrightarrow> y \<in> set (bk_payments b) \<Longrightarrow> py_stripeRefundId y \<noteq> Some r"
  obtains problem where "answer = Inl problem" "b' = b"
  | r w payment s where "answer = Inr r"
    "b' = set_status p s (add_entry leaseId Refund amount (Some r) None None now (add_refund payment w now b))"
    "\<And>g. rw_providerRefundId w = Some g \<Longrightarrow> \<exists>x n k. intent_of p b = Some x \<and> f x n k = Inr g"
proof (cases "refund_decide authority (Some f) p (credit_refund leaseId amount) b")
  case (Inl x)
  then show thesis using assms(1) that(1) by (auto simp: refundPayment_def)
next
  case (Inr w)
  then obtain payment where p: "find_payment p b = Some payment" "rw_paymentId w = p" "rw_amountCents w = amount"
    "rw_creditOfLeaseId w = Some leaseId"
    "rw_providerRefundId w = None \<or> (\<exists>x g. py_intentId payment = Some x \<and> rw_providerRefundId w = Some g \<and>
      f x amount (refunded_cents p b, amount) = Inr g)"
    by (auto simp: refund_decide_def credit_refund_def Let_def truthy_def
        split: if_splits option.splits refund_authority.splits sum.splits)
  have given: "\<exists>x n k. intent_of p b = Some x \<and> f x n k = Inr g" if "rw_providerRefundId w = Some g" for g
    using p(1,5) that by (auto simp: intent_of_def)
  have "py_stripeRefundId y \<noteq> rw_providerRefundId w" if "y \<in> set (bk_payments b)" "rw_providerRefundId w \<noteq> None" for y
    using given assms(3) that by fastforce
  then have "find (\<lambda>q. rw_providerRefundId w \<noteq> None \<and> py_stripeRefundId q = rw_providerRefundId w) (bk_payments b) = None"
    by (auto simp: find_None_iff)
  then have "refund_commit w now b = writeRefund w now b" by (simp add: refund_commit_def)
  then show thesis
    using writing_credit [OF _ p(4) assms(2), of b payment now] assms(1) Inr p(1-3) that(2) [OF _ _ given]
    by (auto simp: refundPayment_def)
qed

text \<open>The loop: every part that goes through is on the ledger of the lease once.\<close>

lemma refunding_parts:
  assumes "leaseId \<noteq> []" "distinct (map (\<lambda>x. intent_of (fst x) b) parts)" "\<And>x. x \<in> set parts \<Longrightarrow> 0 < snd x \<and> find_payment (fst x) b \<noteq> None"
    and "\<And>p x n k r y. p \<in> set parts \<Longrightarrow> intent_of (fst p) b = Some x \<Longrightarrow> f x n k = Inr r \<Longrightarrow> y \<in> set (bk_payments b) \<Longrightarrow>
      py_stripeRefundId y \<noteq> Some r"
    and "\<And>x y n k m j r. f x n k = Inr r \<Longrightarrow> f y m j = Inr r \<Longrightarrow> x = y"
    and "refund_parts may (Some f) leaseId now parts b = (s, b')"
  shows "0 \<le> s \<and> s \<le> sum_by snd parts \<and> ledger_balance lease b' = ledger_balance lease b + (if lease = leaseId then s else 0)"
  using assms(2-4,6)
proof (induction parts arbitrary: b s b')
  case (Cons part parts)
  obtain p amount where part: "part = (p, amount)" by fastforce
  obtain answer c where c: "refundPayment (\<lambda>_ _. if may then Authority_given else Authority_forbidden) (Some f) p
      (credit_refund leaseId amount) now b = (answer, c)" by fastforce
  obtain t d where t: "refund_parts may (Some f) leaseId now parts c = (t, d)" by fastforce
  have s: "s = (case answer of Inl _ \<Rightarrow> t | Inr _ \<Rightarrow> amount + t)" "b' = d"
    using Cons.prems(4) c t by (auto simp: part credit_refund_def)
  have amount: "0 < amount" using Cons.prems(2) [of part] by (simp add: part)
  have mine: "py_stripeRefundId y \<noteq> Some r" if "intent_of p b = Some x" "f x n k = Inr r" "y \<in> set (bk_payments b)" for x n k r y
    using Cons.prems(3) [of part x n k r y] that by (simp add: part)
  from c assms(1) mine show ?case
  proof (rule refunding_credit)
    fix problem assume p: "answer = Inl problem" "c = b"
    have d: "distinct (map (\<lambda>x. intent_of (fst x) b) parts)" using Cons.prems(1) by simp
    have m: "0 < snd x \<and> find_payment (fst x) b \<noteq> None" if "x \<in> set parts" for x using Cons.prems(2) [of x] that by simp
    have n: "py_stripeRefundId y \<noteq> Some r"
      if "q \<in> set parts" "intent_of (fst q) b = Some x" "f x n k = Inr r" "y \<in> set (bk_payments b)" for q x n k r y
      using Cons.prems(3) [of q x n k r y] that by simp
    have "0 \<le> t \<and> t \<le> sum_by snd parts \<and> ledger_balance lease d = ledger_balance lease b + (if lease = leaseId then t else 0)"
      using Cons.IH [OF d m n t [unfolded p(2)]] by simp
    then show ?thesis using s p amount by (simp add: part)
  next
    fix r w payment st
    assume c': "answer = Inr r" "c = set_status p st (add_entry leaseId Refund amount (Some r) None None now (add_refund payment w now b))"
      and given: "\<And>g. rw_providerRefundId w = Some g \<Longrightarrow> \<exists>x n k. intent_of p b = Some x \<and> f x n k = Inr g"
    have kept: "intent_of (fst x) c = intent_of (fst x) b" "find_payment (fst x) c \<noteq> None" if "x \<in> set parts" for x
      using intent_kept [of "fst x" b] Cons.prems(2) [of x] that unfolding c'(2) by auto
    have ids: "map (\<lambda>x. intent_of (fst x) c) parts = map (\<lambda>x. intent_of (fst x) b) parts" using kept by simp
    have d: "distinct (map (\<lambda>x. intent_of (fst x) c) parts)" unfolding ids using Cons.prems(1) by simp
    have m: "0 < snd x \<and> find_payment (fst x) c \<noteq> None" if "x \<in> set parts" for x using Cons.prems(2) [of x] kept(2) that by simp
    have other: "intent_of (fst q) b \<noteq> intent_of p b" if "q \<in> set parts" for q
      using Cons.prems(1) that by (force simp: part)
    have fresh: "py_stripeRefundId y \<noteq> Some g"
      if q: "q \<in> set parts" "intent_of (fst q) c = Some x" "f x n k = Inr g" "y \<in> set (bk_payments c)" for q x n k g y
    proof -
      have x: "intent_of (fst q) b = Some x" using kept q by simp
      have "y \<in> set (bk_payments (set_status p st (add_refund payment w now b)))"
        using q(4) by (simp add: c'(2) set_status_def)
      then consider z where "z \<in> set (bk_payments b)" "py_stripeRefundId y = py_stripeRefundId z" | "py_stripeRefundId y = rw_providerRefundId w"
        by (auto simp: set_status_def add_refund_def split: if_splits)
      then show ?thesis
      proof cases
        case 1
        then show ?thesis using Cons.prems(3) [of q x n k g z] q(1,3) x by simp
      next
        case 2
        then show ?thesis using given [of g] assms(5) [of x n k g] other [OF q(1)] x q(3) by fastforce
      qed
    qed
    have "0 \<le> t \<and> t \<le> sum_by snd parts \<and> ledger_balance lease d = ledger_balance lease c + (if lease = leaseId then t else 0)"
      by (rule Cons.IH [OF d m fresh t])
    moreover have "ledger_balance lease c = ledger_balance lease b + (if lease = leaseId then amount else 0)"
      by (simp add: c'(2) ledger_balance_def set_status_def add_entry_def add_refund_def)
    ultimately show ?thesis using s c'(1) amount by (simp add: part)
  qed
qed simp


definition card_books :: books where
  "card_books = (let b = books_example [] [(cash_example 1 70)\<lparr>py_method := Card, py_intentId := Some ''x''\<rparr>]
    in add_entry ''l1'' Payment (- 70) (Some 1) None None 1 (add_entry ''l1'' Credit (- 30) None None None 1 b))"

definition obliging :: "string \<Rightarrow> cents \<Rightarrow> cents \<times> cents \<Rightarrow> string + string" where
  "obliging intent amount key = Inr (''re_'' @ intent)"


end
