(* ===== verification/Spec2Isabelle.thy ===== *)
theory Spec2Isabelle
  imports Invoice Schedule Collections Allocation Ledger PaymentPlans Pos MoveOut Auctions Promotions
    Outbox JobRuns Delinquency GateHours Access Holds GateQueue GatePass Rates RateRuns Accounting
    Totp Comms Consent Messaging Payments Refunds Corrections
begin

text \<open>
  A verification development for a self-storage management system: an application in TypeScript that
  rents units, bills the tenants, takes their payments, controls the gate and, in the end, sells the
  goods of a tenant who does not pay. The rules of the business are pure functions under
  \<open>packages/core\<close>; services under \<open>apps/web/lib\<close> run them in transactions against the tables of
  \<open>packages/db/prisma/schema.prisma\<close>, in nightly jobs, from a transactional outbox of events and from
  a queue of commands to the gate controllers.

  \<^bold>\<open>Theories, bottom up.\<close>

  \<^item> \<open>Prelude\<close>: rounding (\<open>roundHalfUp\<close>, \<open>Math.round\<close>), sorting with a key as \<open>Array.sort\<close> does it,
    string comparison, truthiness, sums; the simp sets the other theories use.
  \<^item> \<open>Calendar\<close>: \<open>Date.UTC\<close> and the UTC accessors over milliseconds, and their round trips.
  \<^item> \<open>Periods\<close>, \<open>Proration\<close>, \<open>Invoice\<close>: \<open>billing/periods.ts\<close>, \<open>proration.ts\<close>, \<open>invoice-lines.ts\<close>,
    \<open>pricing/move-in-cost.ts\<close>, \<open>pricing/recurring.ts\<close>. The periods of a lease tile the time, the
    enumeration of the periods to bill is complete, an invoice adds up and taxes the discounted base,
    the estimate a visitor is shown is the invoice of the move-in.
  \<^item> \<open>Schedule\<close>, \<open>Collections\<close>, \<open>PaymentPlans\<close>, \<open>MoveOut\<close>: \<open>jobs/schedule.ts\<close>, \<open>billing/late-fees.ts\<close>,
    \<open>dunning.ts\<close>, \<open>retry.ts\<close>, \<open>payment-plans/schedule.ts\<close>, \<open>move-out/settlement.ts\<close>.
  \<^item> \<open>Allocation\<close>, \<open>Ledger\<close>, \<open>Pos\<close>: \<open>billing/allocation.ts\<close>, \<open>ledger.ts\<close>, \<open>statements.ts\<close>,
    \<open>notices/claim.ts\<close>, the point of sale. No cent of a payment is lost or spent twice; running
    balances, open items, statements, drawers and deposit slips add up.
  \<^item> \<open>Accounting\<close>: \<open>accounting/close.ts\<close>, \<open>journal.ts\<close>. A journal balances and moves each account by
    the figures of the filed month.
  \<^item> \<open>Promotions\<close>, \<open>Auctions\<close>: eligibility, schedules and recapture of promotions, referral rewards;
    readiness for a sale, the waterfall of its proceeds, the duty to hand over a surplus.
  \<^item> \<open>Transitions\<close>: a locale of step relations that keep a property, one of runs that only append, and
    their lemmas over reachable states. \<open>Outbox\<close>, \<open>JobRuns\<close>, \<open>GateQueue\<close> and \<open>RateRuns\<close> interpret
    them on their own step relations.
  \<^item> \<open>Outbox\<close>: \<open>events/catalog.ts\<close>, \<open>outbox.ts\<close>, \<open>dispatch.ts\<close>. Several dispatchers take the steps of
    the claim protocol in any order: reading the row, the guarded write, the handler, the settling
    write. No event is handled by two of them at once; a run of drains without crashes settles every
    event; what is lost when a dispatcher dies is stated as a theorem.
  \<^item> \<open>JobRuns\<close>: \<open>jobs/runner.ts\<close> in the same style: one unforced start per job, facility and date.
  \<^item> \<open>Delinquency\<close>, \<open>Holds\<close>: the lien timeline and the nightly decision of one lease, overlocks; days
    past due, aging buckets, holds and the days they stop the clock.
  \<^item> \<open>GateHours\<close>, \<open>Access\<close>: weekly schedules and the gate's hours, shared access, business minutes; the
    state machine of a grant, the decision to suspend, anomaly flags, controller reconciliation.
  \<^item> \<open>GateQueue\<close>: \<open>apps/web/lib/access/service.ts\<close>. Grants, credentials and the queue of commands as one
    database state, every operation a function of it, the drain a loop over the due commands with the
    controller as a parameter. The orders in the queue always add up to the state of every grant; the
    drain refines obeying them when nothing fails; bounded attempts; a lost command sent out of order.
  \<^item> \<open>GatePass\<close>: \<open>apps/web/lib/access/delinquency-gate.ts\<close> on top of \<open>Holds\<close> and \<open>GateQueue\<close>.
  \<^item> \<open>Rates\<close>, \<open>RateRuns\<close>: the rules of a rate change and \<open>apps/web/lib/pricing/tenant-rate-increases.ts\<close>,
    every operation a function of the tables, all of them interleaved as a step relation. Rent is
    raised only by an approved and noticed change, one live change per lease.
  \<^item> \<open>Totp\<close>: \<open>auth/totp.ts\<close> on 32 bit words. A secret survives base32, a code is good once.
  \<^item> \<open>Comms\<close>, \<open>Consent\<close>, \<open>Messaging\<close>: the rules under \<open>packages/core/comms\<close>; the suppression list, consent
    and the keywords of a text; the sending of messages (\<open>apps/web/lib/comms/service.ts\<close>) over a log with
    one row per idempotency key. Consent by text follows an automaton, a STOP lasts, a message is
    accepted once, and only what the rules permit is sent; what escapes them is stated as theorems.
  \<^item> \<open>Payments\<close>, \<open>Refunds\<close>, \<open>Corrections\<close>: the transactions on money under \<open>apps/web/lib/billing\<close> and
    \<open>apps/web/lib/payments\<close>, on one record of leases, plans, invoices, payments, allocations and ledger
    entries, \<open>books\<close>. \<open>Payments\<close>: the claims on a payer, the application of a payment, in the half that
    reads and the half that holds the locks, the postings, credit on account. \<open>Refunds\<close>: charges and
    the provider's events about them, refunds, returned and reinstated payments. \<open>Corrections\<close>:
    adjustments, write-offs, voids, the refund of a credit at move-out. Allocations and ledgers
    account for every cent; what two transactions do to each other when neither looks again is stated
    as theorems on concrete books. Ids of new rows are a counter, so their order is that of creation.

  \<^bold>\<open>Conventions.\<close> Record fields, datatype constructors and functions carry the names of the source with
  a prefix per record. Money is \<open>int\<close> cents, dates are \<open>int\<close> milliseconds since 1970; amounts that may be
  fractional are \<open>rat\<close>. A thrown error or a returned refusal is a constructor, a nullable value an
  option; sentences for people are constructors that carry the values the sentence interpolates.
  \<open>Map\<close>s whose order does not matter are maps, the others association lists in insertion order. Table
  rows are records with the columns that are read or written by the operations that are modelled.

  \<^bold>\<open>What is assumed.\<close> JavaScript numbers are the mathematical integers they represent, so every amount is
  taken to be below \<open>2 ^ 53\<close>; where the code divides doubles and rounds, \<open>Prelude\<close> shows that for such
  amounts the rounding of the exact quotient is meant. \<open>Date.UTC\<close> reads the years 0 to 99 as 1900 to
  1999; \<open>Calendar\<close> keeps that. \<open>localeCompare\<close> is used on identifiers of lower-case letters and digits,
  where it is the order of the characters; case conversion is on ASCII. \<open>Intl.DateTimeFormat\<close> is the
  parameter \<open>zone\<close>, the offset of an instant, with its documented properties as hypotheses of the
  theorems that need them. Hashes, generators, controllers, handlers and what a query reads of tables
  outside the model are arguments of the definitions that use them. A unique index makes the second
  insert fail and \<open>updateMany\<close> tests and writes in one step; transactions are atomic. Permissions
  are parameters of refunds, returns and corrections and left out of the other services, as are audit
  entries, tasks for staff and log lines of all of them.

  \<^bold>\<open>Termination.\<close> No definition uses fuel. Loops over dates end because a measure in milliseconds or
  months falls (\<open>Periods\<close>, \<open>Schedule\<close>, \<open>Holds\<close>, \<open>Ledger\<close>); the walk over business minutes has the
  code's own bound on its steps, and the theorem about it says when that bound is not reached.

  \<^bold>\<open>Not modelled.\<close> Pages, components and texts for people; the management pack, ROI, occupancy and revenue
  reports; templates and their merge fields. Of the services under \<open>apps/web/lib\<close>, those not named
  above: checkout and provisioning, reservations, leads and waitlists, transfers, the nightly billing,
  autopay and late-fee jobs and the screens of staff, whose arithmetic is modelled (\<open>Invoice\<close>,
  \<open>Collections\<close>, \<open>Delinquency\<close>) but whose transactions are not; disputes and set-up intents of the
  card processor; sessions, sign-in and encryption. They are left out for their size, not for a
  difficulty of principle.
\<close>

end
